(* ===== verification/Prelude.thy ===== *)
theory Prelude
  imports Main "HOL-Library.Word" "HOL-Library.Char_ord" "HOL-Library.List_Lexorder"
begin

text \<open>
  The vocabulary the component theories share: machine integers, the ways a C++ call can
  fail, the pieces of \<open>std::string\<close>, \<open>std::vector\<close> and \<open>std::map\<close> that the sources use,
  and the generic lemmas about them.

  Everything of the language's own library that appears here is modelled by what the
  standard says it does: \<open>substr\<close>, \<open>find_first_not_of\<close>, \<open>isalpha\<close> and \<open>tolower\<close> of the C
  locale, and the printing of an unsigned integer on a stream.
\<close>

section \<open>Machine integers and failures\<close>

type_synonym u8 = "8 word"
type_synonym u32 = "32 word"
type_synonym u64 = "64 word"
type_synonym i32 = "32 word"

text \<open>
  An exception is either derived from \<open>std::exception\<close>, and then carries the text of
  \<open>what()\<close>, or something else, which only \<open>catch(...)\<close> sees.
\<close>

datatype cpp_exn = Logic_error string | Invalid_argument string | Std_exception string | Foreign_exn

text \<open>
  A call that does not return normally throws, runs into a failed assertion (the process is
  aborted), dereferences a null pointer or frees memory twice, which is undefined behaviour, or
  never returns.
\<close>

datatype failure = Throw cpp_exn | Assert_failed string | Null_deref string | Double_free string | No_return

type_synonym 'a outcome = "failure + 'a"

fun is_std_exn :: "cpp_exn \<Rightarrow> bool" where
  "is_std_exn Foreign_exn = False"
| "is_std_exn _ = True"

fun exn_what :: "cpp_exn \<Rightarrow> string" where
  "exn_what (Logic_error s) = s"
| "exn_what (Invalid_argument s) = s"
| "exn_what (Std_exception s) = s"
| "exn_what Foreign_exn = []"

text \<open>Sequencing of two calls: the second runs when the first has returned.\<close>

definition bind_out :: "'a outcome \<Rightarrow> ('a \<Rightarrow> 'b outcome) \<Rightarrow> 'b outcome" where
  "bind_out r f = (case r of Inl e \<Rightarrow> Inl e | Inr x \<Rightarrow> f x)"

lemma bind_out_simps [simp]:
  "bind_out (Inl e) f = Inl e"
  "bind_out (Inr x) f = f x"
  by (simp_all add: bind_out_def)

lemma bind_out_eq_Inr: "bind_out r f = Inr y \<longleftrightarrow> (\<exists>x. r = Inr x \<and> f x = Inr y)"
  by (cases r) simp_all

lemma bind_out_assoc: "bind_out (bind_out r f) g = bind_out r (\<lambda>x. bind_out (f x) g)"
  by (cases r) simp_all

text \<open>
  A loop over a list whose body may fail: it stops at the first failure.
\<close>

fun foldM :: "('a \<Rightarrow> 's \<Rightarrow> 's outcome) \<Rightarrow> 'a list \<Rightarrow> 's \<Rightarrow> 's outcome" where
  "foldM f [] s = Inr s"
| "foldM f (x # xs) s = bind_out (f x s) (foldM f xs)"

lemma foldM_append: "foldM f (xs @ ys) s = bind_out (foldM f xs s) (foldM f ys)"
  by (induction xs arbitrary: s) (simp_all add: bind_out_def split: sum.split)

lemma foldM_invariant:
  assumes "\<And>x s s'. x \<in> set xs \<Longrightarrow> P s \<Longrightarrow> f x s = Inr s' \<Longrightarrow> P s'"
    and "P s" and "foldM f xs s = Inr s'"
  shows "P s'"
  using assms
proof (induction xs arbitrary: s)
  case Nil
  then show ?case by simp
next
  case (Cons x xs)
  from Cons.prems(3) obtain s1 where s1: "f x s = Inr s1" "foldM f xs s1 = Inr s'"
    by (auto simp: bind_out_eq_Inr)
  from Cons.prems(1,2) s1(1) have "P s1" by (meson list.set_intros(1))
  from Cons.IH [OF _ this s1(2)] Cons.prems(1) show ?case by (meson list.set_intros(2))
qed

lemma foldM_returns:
  assumes "\<And>x s. x \<in> set xs \<Longrightarrow> P s \<Longrightarrow> \<exists>s'. f x s = Inr s' \<and> P s'" and "P s"
  shows "\<exists>s'. foldM f xs s = Inr s' \<and> P s'"
  using assms
proof (induction xs arbitrary: s)
  case Nil
  then show ?case by simp
next
  case (Cons x xs)
  from Cons.prems obtain s1 where s1: "f x s = Inr s1" "P s1" by fastforce
  have "\<exists>s'. foldM f xs s1 = Inr s' \<and> P s'"
    using Cons.prems(1) s1(2) by (intro Cons.IH) auto
  with s1(1) show ?case by simp
qed

text \<open>
  Calls that change a state and may fail, where the changes made before the failure stay: \<open>bindA\<close>
  sequences two of them, \<open>forA\<close> is a loop over a list, \<open>catch_std\<close> a
  \<open>catch (std::exception&)\<close>.
\<close>

type_synonym ('s, 'a) act = "'s \<Rightarrow> 'a outcome \<times> 's"

definition returnA :: "'a \<Rightarrow> ('s, 'a) act" where
  "returnA x s = (Inr x, s)"

definition bindA :: "('s, 'a) act \<Rightarrow> ('a \<Rightarrow> ('s, 'b) act) \<Rightarrow> ('s, 'b) act" where
  "bindA m f s = (case m s of (Inl e, s') \<Rightarrow> (Inl e, s') | (Inr x, s') \<Rightarrow> f x s')"

fun forA :: "('x \<Rightarrow> ('s, unit) act) \<Rightarrow> 'x list \<Rightarrow> ('s, unit) act" where
  "forA f [] s = (Inr (), s)"
| "forA f (x # xs) s = bindA (f x) (\<lambda>_. forA f xs) s"

definition catch_std :: "('s, 'a) act \<Rightarrow> (cpp_exn \<Rightarrow> ('s, 'a) act) \<Rightarrow> ('s, 'a) act" where
  "catch_std m h s =
     (case m s of
        (Inl (Throw e), s') \<Rightarrow> (if is_std_exn e then h e s' else (Inl (Throw e), s'))
      | r \<Rightarrow> r)"

lemma bindA_simps [simp]:
  "m s = (Inl e, s') \<Longrightarrow> bindA m f s = (Inl e, s')"
  "m s = (Inr x, s') \<Longrightarrow> bindA m f s = f x s'"
  by (simp_all add: bindA_def)

lemma returnA_bind [simp]: "bindA (returnA x) f = f x"
  by (simp add: fun_eq_iff bindA_def returnA_def)

lemma bindA_eq_Inr: "bindA m f s = (Inr y, s') \<longleftrightarrow> (\<exists>x t. m s = (Inr x, t) \<and> f x t = (Inr y, s'))"
  by (auto simp: bindA_def split: prod.splits sum.splits)

lemma bindA_assoc: "bindA (bindA m f) g = bindA m (\<lambda>x. bindA (f x) g)"
  by (auto simp: fun_eq_iff bindA_def split: prod.splits sum.splits)

lemma bindA_cong: "m s = m' s \<Longrightarrow> (\<And>x t. m s = (Inr x, t) \<Longrightarrow> f x t = f' x t) \<Longrightarrow> bindA m f s = bindA m' f' s"
  by (auto simp: bindA_def split: prod.splits sum.splits)

lemma catch_std_simps [simp]:
  "m s = (Inr x, s') \<Longrightarrow> catch_std m h s = (Inr x, s')"
  "m s = (Inl (Throw e), s') \<Longrightarrow> is_std_exn e \<Longrightarrow> catch_std m h s = h e s'"
  "m s = (Inl (Throw e), s') \<Longrightarrow> \<not> is_std_exn e \<Longrightarrow> catch_std m h s = (Inl (Throw e), s')"
  by (simp_all add: catch_std_def)

lemma forA_append: "forA f (xs @ ys) s = bindA (forA f xs) (\<lambda>_. forA f ys) s"
  by (induction xs arbitrary: s) (auto simp: bindA_def split: prod.splits sum.splits)

text \<open>A property of the value that a call returns, if it returns.\<close>

definition yields :: "('s, 'a) act \<Rightarrow> ('a \<Rightarrow> bool) \<Rightarrow> bool" where
  "yields m P \<longleftrightarrow> (\<forall>s x s'. m s = (Inr x, s') \<longrightarrow> P x)"

lemma yields_return: "P x \<Longrightarrow> yields (returnA x) P"
  by (simp add: yields_def returnA_def)

lemma yields_any: "yields m (\<lambda>x. True)"
  by (simp add: yields_def)

lemma yields_bind: "yields m Q \<Longrightarrow> (\<And>x. Q x \<Longrightarrow> yields (f x) P) \<Longrightarrow> yields (bindA m f) P"
  unfolding yields_def by (metis bindA_eq_Inr)

lemma yields_if: "(b \<Longrightarrow> yields m P) \<Longrightarrow> (\<not> b \<Longrightarrow> yields m' P) \<Longrightarrow> yields (if b then m else m') P"
  by simp

lemma yieldsD: "yields m P \<Longrightarrow> m s = (Inr x, s') \<Longrightarrow> P x"
  unfolding yields_def by blast

text \<open>A property of the state that every step keeps, whether it returns or fails.\<close>

lemma bindA_keeps:
  assumes "\<And>s. P s \<Longrightarrow> P (snd (m s))" and "\<And>x s. P s \<Longrightarrow> P (snd (f x s))"
  shows "P s \<Longrightarrow> P (snd (bindA m f s))"
  using assms(1) [of s] assms(2) by (auto simp: bindA_def split: prod.splits sum.splits)

lemma forA_keeps:
  assumes "\<And>x s. x \<in> set xs \<Longrightarrow> P s \<Longrightarrow> P (snd (f x s))"
  shows "P s \<Longrightarrow> P (snd (forA f xs s))"
  using assms
proof (induction xs arbitrary: s)
  case (Cons x xs)
  have first: "P (snd (f x s))" using Cons.prems by simp
  have rest: "P t \<Longrightarrow> P (snd (forA f xs t))" for t using Cons.prems by (intro Cons.IH) auto
  from first show ?case using rest by (auto simp: bindA_def split: prod.splits sum.splits)
qed simp

lemma forA_returns:
  assumes "\<And>x s. x \<in> set xs \<Longrightarrow> P s \<Longrightarrow> \<exists>s'. f x s = (Inr (), s') \<and> P s'" and "P s"
  shows "\<exists>s'. forA f xs s = (Inr (), s') \<and> P s'"
  using assms
proof (induction xs arbitrary: s)
  case (Cons x xs)
  from Cons.prems obtain s1 where s1: "f x s = (Inr (), s1)" "P s1" by (meson list.set_intros(1))
  have "\<exists>s'. forA f xs s1 = (Inr (), s') \<and> P s'"
    using Cons.prems(1) s1(2) by (intro Cons.IH) auto
  with s1(1) show ?case by simp
qed simp

section \<open>Strings\<close>

text \<open>\<open>isalpha\<close> and \<open>tolower\<close> of the C locale; characters are bytes.\<close>

definition is_upper :: "char \<Rightarrow> bool" where
  "is_upper c \<longleftrightarrow> 65 \<le> (of_char c :: nat) \<and> (of_char c :: nat) \<le> 90"

definition is_lower :: "char \<Rightarrow> bool" where
  "is_lower c \<longleftrightarrow> 97 \<le> (of_char c :: nat) \<and> (of_char c :: nat) \<le> 122"

definition is_alpha :: "char \<Rightarrow> bool" where
  "is_alpha c \<longleftrightarrow> is_upper c \<or> is_lower c"

definition to_lower :: "char \<Rightarrow> char" where
  "to_lower c = (if is_upper c then char_of ((of_char c :: nat) + 32) else c)"

text \<open>
  \<open>s.substr(pos, n)\<close>: at most \<open>n\<close> characters from \<open>pos\<close> on (every call in the sources has
  \<open>pos \<le> s.size()\<close>, so the \<open>std::out_of_range\<close> of a larger \<open>pos\<close> does not arise).
\<close>

definition substr :: "string \<Rightarrow> nat \<Rightarrow> nat \<Rightarrow> string" where
  "substr s pos n = take n (drop pos s)"

text \<open>\<open>s.find_first_not_of(cs)\<close>: None is \<open>npos\<close>.\<close>

fun find_first_not_of :: "string \<Rightarrow> string \<Rightarrow> nat option" where
  "find_first_not_of [] cs = None"
| "find_first_not_of (c # s) cs =
     (if c \<in> set cs then map_option Suc (find_first_not_of s cs) else Some 0)"

lemma find_first_not_of_None [simp]:
  "find_first_not_of s cs = None \<longleftrightarrow> set s \<subseteq> set cs"
  by (induction s) auto

text \<open>Printing an unsigned and a signed integer on a stream (base ten).\<close>

fun nat_str :: "nat \<Rightarrow> string" where
  "nat_str n = (if n < 10 then [char_of (48 + n)] else nat_str (n div 10) @ [char_of (48 + n mod 10)])"

declare nat_str.simps [simp del]

definition int_str :: "int \<Rightarrow> string" where
  "int_str z = (if z < 0 then CHR ''-'' # nat_str (nat (- z)) else nat_str (nat z))"

lemma nat_str_nonempty [simp]: "nat_str n \<noteq> []"
  by (subst nat_str.simps) simp

text \<open>The character 10, which \<open>std::endl\<close> writes, and the tabulator, character 9.\<close>

abbreviation newline :: string where "newline \<equiv> [CHR 0x0A]"
abbreviation tabulator :: string where "tabulator \<equiv> [CHR 0x09]"

lemma substr_append: "substr (xs @ ys @ zs) (length xs) (length ys) = ys"
  by (simp add: substr_def)

lemma nth_append_hd: "(xs @ y # ys) ! length xs = y"
  by simp

lemma last_nth: "Suc n = length xs \<Longrightarrow> last xs = xs ! n"
  by (cases xs rule: rev_cases) auto

lemma less_inc_word: "(w :: u64) \<noteq> - 1 \<Longrightarrow> w < w + 1"
proof -
  assume "w \<noteq> - 1"
  then have "1 + w \<noteq> 0" using max_word_wrap [of w] by (auto simp: add.commute)
  then show ?thesis using unatSuc [of w] by (simp add: word_less_nat_alt add.commute)
qed

section \<open>Maps and stores\<close>

text \<open>
  Objects that the sources share through \<open>std::shared_ptr\<close> live in a store: a map from
  addresses to objects, with the next free address.
\<close>

type_synonym addr = nat

text \<open>A thread, as the operating system numbers it.\<close>

type_synonym thread_id = int

definition fresh_in :: "(addr \<Rightarrow> 'a option) \<Rightarrow> addr \<Rightarrow> bool" where
  "fresh_in h n \<longleftrightarrow> (\<forall>a. h a \<noteq> None \<longrightarrow> a < n)"

lemma fresh_in_None: "fresh_in h n \<Longrightarrow> h n = None"
  by (auto simp: fresh_in_def)

lemma fresh_in_alloc [intro]: "fresh_in h n \<Longrightarrow> fresh_in (h(n \<mapsto> x)) (Suc n)"
  by (auto simp: fresh_in_def less_Suc_eq)

lemma fresh_in_update [intro]: "fresh_in h n \<Longrightarrow> h a \<noteq> None \<Longrightarrow> fresh_in (h(a \<mapsto> x)) n"
  by (auto simp: fresh_in_def)

end
