(* ===== verification/LogLevel.thy ===== *)
theory LogLevel
  imports Prelude
begin

text \<open>
  The log levels of \<open>src/_log/LogLevel.h\<close>: the enumeration with its underlying
  \<open>uint8_t\<close> values, and the two conversions of \<open>LogLevelHelper\<close>. Every comparison of
  levels in the sources compares the underlying values, so the type is made an instance of
  the library's linear orders through them.
\<close>

datatype LogLevel = UNKNOW | DEBUG | INFO | WARN | ERROR | FATAL

fun level_value :: "LogLevel \<Rightarrow> u8" where
  "level_value UNKNOW = 0"
| "level_value DEBUG = 1"
| "level_value INFO = 2"
| "level_value WARN = 3"
| "level_value ERROR = 4"
| "level_value FATAL = 5"

lemma level_value_inject: "level_value a = level_value b \<Longrightarrow> a = b"
  by (cases a; cases b) simp_all

instantiation LogLevel :: linorder
begin

definition less_eq_LogLevel :: "LogLevel \<Rightarrow> LogLevel \<Rightarrow> bool" where
  "less_eq_LogLevel a b \<longleftrightarrow> level_value a \<le> level_value b"

definition less_LogLevel :: "LogLevel \<Rightarrow> LogLevel \<Rightarrow> bool" where
  "less_LogLevel a b \<longleftrightarrow> level_value a < level_value b"

instance
  by standard (auto simp: less_eq_LogLevel_def less_LogLevel_def intro: level_value_inject)

end

lemma UNKNOW_least [simp]: "UNKNOW \<le> l"
  by (cases l) (simp_all add: less_eq_LogLevel_def)

text \<open>
  \<open>LogLevelHelper::to_string\<close>; the \<open>default\<close> branch of its \<open>switch\<close> is for values outside
  the enumeration, which the type does not have.
\<close>

fun level_to_string :: "LogLevel \<Rightarrow> string" where
  "level_to_string UNKNOW = ''UNKNOW''"
| "level_to_string DEBUG = ''DEBUG''"
| "level_to_string INFO = ''INFO''"
| "level_to_string WARN = ''WARN''"
| "level_to_string ERROR = ''ERROR''"
| "level_to_string FATAL = ''FATAL''"

definition level_from_string :: "string \<Rightarrow> LogLevel" where
  "level_from_string str =
     (if str = ''UNKNOW'' then UNKNOW
      else if str = ''unknow'' then UNKNOW
      else if str = ''DEBUG'' then DEBUG
      else if str = ''debug'' then DEBUG
      else if str = ''INFO'' then INFO
      else if str = ''info'' then INFO
      else if str = ''WARN'' then WARN
      else if str = ''warn'' then WARN
      else if str = ''ERROR'' then ERROR
      else if str = ''error'' then ERROR
      else if str = ''FATAL'' then FATAL
      else if str = ''fatal'' then FATAL
      else UNKNOW)"

lemma level_from_to_string [simp]: "level_from_string (level_to_string l) = l"
  by (cases l) (simp_all add: level_from_string_def)

lemma level_to_string_inject [simp]: "level_to_string a = level_to_string b \<longleftrightarrow> a = b"
  by (metis level_from_to_string)

text \<open>The texts that denote a level: its name, or its name in lower case.\<close>

definition denotes_level :: "string \<Rightarrow> LogLevel \<Rightarrow> bool" where
  "denotes_level s l \<longleftrightarrow> s = level_to_string l \<or> s = map to_lower (level_to_string l)"

lemma level_lower_case:
  "map to_lower ''UNKNOW'' = ''unknow''" "map to_lower ''DEBUG'' = ''debug''"
  "map to_lower ''INFO'' = ''info''" "map to_lower ''WARN'' = ''warn''"
  "map to_lower ''ERROR'' = ''error''" "map to_lower ''FATAL'' = ''fatal''"
  by code_simp+

lemma level_from_string_denotes:
  "l \<noteq> UNKNOW \<Longrightarrow> level_from_string s = l \<longleftrightarrow> denotes_level s l"
  by (cases l)
    (auto simp del: list.map simp: level_from_string_def denotes_level_def level_lower_case)

text \<open>
  The textual form of a level determines it, and reading is exact: for every level but
  UNKNOW, \<open>from_string\<close> returns it for its name in upper case and its name in lower case
  and for no other text; every other text is UNKNOW, the level below all others.
\<close>

theorem level_string_roundtrip:
  "level_from_string (level_to_string l) = l \<and>
   (if l = UNKNOW
    then level_from_string s = l \<longleftrightarrow> (\<nexists>k. k \<noteq> UNKNOW \<and> denotes_level s k)
    else level_from_string s = l \<longleftrightarrow> denotes_level s l)"
  by (metis level_from_string_denotes level_from_to_string)

end
