(* ===== verification/LogFormatter.thy ===== *)
theory LogFormatter
  imports LogLevel
begin

text \<open>
  Events and formatters: \<open>LogEvent\<close> (\<open>src/_log/LogEvent.h\<close>) and \<open>LogFormatter\<close> with its
  format items (\<open>src/_log/LogFormatter.h\<close>, \<open>src/_log/log.cpp\<close>).

  The parser of the patterns, \<open>LogFormatter::init\<close>, is the two nested loops of the code over
  the indices \<open>i\<close> and \<open>n\<close>, with their early exits. The lemmas relate it to a grammar of
  patterns: printing a well-formed list of pieces and parsing the text gives the pieces back.
\<close>

section \<open>Events\<close>

text \<open>
  The fields of \<open>LogEvent\<close>; the stream \<open>m_ss\<close> is its text so far and \<open>m_logger\<close> the address
  of the logger the event was created for.
\<close>

record LogEvent =
  ev_file :: string
  ev_line :: i32
  ev_elapse :: u32
  ev_threadId :: u32
  ev_fiberId :: u32
  ev_time :: u64
  ev_threadName :: string
  ev_content :: string
  ev_logger :: addr
  ev_level :: LogLevel

text \<open>The constructor: the content is empty, every other field is the argument.\<close>

definition new_LogEvent ::
  "addr \<Rightarrow> LogLevel \<Rightarrow> string \<Rightarrow> i32 \<Rightarrow> u32 \<Rightarrow> u32 \<Rightarrow> u32 \<Rightarrow> u64 \<Rightarrow> string \<Rightarrow> LogEvent" where
  "new_LogEvent logger level file line elapse thread_id fiber_id time thread_name =
     \<lparr>ev_file = file, ev_line = line, ev_elapse = elapse, ev_threadId = thread_id,
      ev_fiberId = fiber_id, ev_time = time, ev_threadName = thread_name, ev_content = [],
      ev_logger = logger, ev_level = level\<rparr>"

text \<open>Writing to the stream of the event (\<open>getSS() << s\<close>).\<close>

definition ss_write :: "LogEvent \<Rightarrow> string \<Rightarrow> LogEvent" where
  "ss_write e s = e\<lparr>ev_content := ev_content e @ s\<rparr>"

text \<open>
  \<open>LogEvent::format(fmt, al)\<close>: \<open>vsn\<close> is \<open>vsnprintf\<close>, which gives the whole text of the
  formatted arguments, or None when it reports an encoding error (a negative count; with the
  added 1 the code's \<open>size\<close> is then not positive).
\<close>

definition event_format :: "(string \<Rightarrow> 'a \<Rightarrow> string option) \<Rightarrow> string \<Rightarrow> 'a \<Rightarrow> LogEvent \<Rightarrow> LogEvent" where
  "event_format vsn fmt al e =
     (case vsn fmt al of
        None \<Rightarrow> e
      | Some text \<Rightarrow>
          (let size = length text + 1; buffer = text @ [CHR 0x00]
           in ss_write e (take (size - 1) buffer)))"

section \<open>Format items\<close>

text \<open>
  One constructor per class derived from \<open>FormatItem\<close>, with the string the class keeps. The
  classes whose constructor ignores its argument carry none.
\<close>

datatype FormatItem =
    MessageFormatItem
  | LevelFormatItem
  | ElapseFormatItem
  | NameFormatItem
  | ThreadIdFormatItem
  | NewLineFormatItem
  | DateTimeFormatItem string
  | FilenameFormatItem
  | LineFormatItem
  | TabFormatItem string
  | FiberIdFormatItem
  | ThreadNameFormatItem
  | StringFormatItem string

text \<open>
  The C library's clock: \<open>localtime\<close> converts a \<open>time_t\<close> (signed) to the fields of a local
  time or fails, \<open>strftime\<close> gives the text left in a buffer of the given size.
\<close>

record 'tm clock =
  localtime_r :: "int \<Rightarrow> 'tm option"
  strftime :: "nat \<Rightarrow> string \<Rightarrow> 'tm \<Rightarrow> string"

definition new_DateTimeFormatItem :: "string \<Rightarrow> FormatItem" where
  "new_DateTimeFormatItem format =
     DateTimeFormatItem (if format = [] then ''%Y-%m-%d %H:%M:%S'' else format)"

text \<open>\<open>safe_localtime\<close> of \<open>src/util/util.cpp\<close>, on POSIX: None when it returns false.\<close>

definition safe_localtime :: "'tm clock \<Rightarrow> u64 \<Rightarrow> 'tm option" where
  "safe_localtime ck t = localtime_r ck (sint t)"

text \<open>
  What one item writes. \<open>name\<close> is the name of the logger that was passed to \<open>format\<close>, which
  is not always the logger of the event.
\<close>

fun format_item :: "'tm clock \<Rightarrow> string \<Rightarrow> LogLevel \<Rightarrow> LogEvent \<Rightarrow> FormatItem \<Rightarrow> string" where
  "format_item ck name level e MessageFormatItem = ev_content e"
| "format_item ck name level e LevelFormatItem = level_to_string level"
| "format_item ck name level e ElapseFormatItem = nat_str (unat (ev_elapse e))"
| "format_item ck name level e NameFormatItem = name"
| "format_item ck name level e ThreadIdFormatItem = nat_str (unat (ev_threadId e))"
| "format_item ck name level e FiberIdFormatItem = nat_str (unat (ev_fiberId e))"
| "format_item ck name level e ThreadNameFormatItem = ev_threadName e"
| "format_item ck name level e (DateTimeFormatItem fmt) =
     (case safe_localtime ck (ev_time e) of
        None \<Rightarrow> []
      | Some tm \<Rightarrow> strftime ck 80 fmt tm)"
| "format_item ck name level e FilenameFormatItem = ev_file e"
| "format_item ck name level e LineFormatItem = int_str (sint (ev_line e))"
| "format_item ck name level e NewLineFormatItem = newline"
| "format_item ck name level e (StringFormatItem s) = s"
| "format_item ck name level e (TabFormatItem s) = tabulator"

section \<open>The parser\<close>

text \<open>
  The inner loop of \<open>init\<close>, from the position \<open>n\<close> on, for an item whose percent sign is at \<open>i\<close>:
  \<open>st\<close> is \<open>fmt_status\<close> and \<open>b\<close> is \<open>fmt_begin\<close>. It returns \<open>n\<close>, \<open>fmt_status\<close>, \<open>str\<close> and \<open>fmt\<close>
  as they are after the loop.
\<close>

function scan_item ::
  "string \<Rightarrow> nat \<Rightarrow> nat \<Rightarrow> nat \<Rightarrow> nat \<Rightarrow> string \<Rightarrow> string \<Rightarrow> nat \<times> nat \<times> string \<times> string" where
  "scan_item p i n st b str fmt =
     (if n < length p then
        if st = 0 \<and> \<not> is_alpha (p ! n) \<and> p ! n \<noteq> CHR ''{'' \<and> p ! n \<noteq> CHR ''}''
        then (n, st, substr p (i + 1) (n - i - 1), fmt)
        else if st = 0 \<and> p ! n = CHR ''{''
        then scan_item p i (n + 1) 1 n (substr p (i + 1) (n - i - 1)) fmt
        else if st = 1 \<and> p ! n = CHR ''}''
        then (n + 1, 0, str, substr p (b + 1) (n - b - 1))
        else let n' = n + 1;
                 str' = (if n' = length p \<and> str = [] then drop (i + 1) p else str)
             in scan_item p i n' st b str' fmt
      else (n, st, str, fmt))"
  by pat_completeness auto
termination
  by (relation "measure (\<lambda>(p, i, n, st, b, str, fmt). length p - n)") auto

declare scan_item.simps [simp del]

text \<open>The loop, one branch at a time.\<close>

lemma scan_end: "\<not> n < length p \<Longrightarrow> scan_item p i n st b str fmt = (n, st, str, fmt)"
  by (subst scan_item.simps) simp

lemma scan_break:
  "n < length p \<Longrightarrow> \<not> is_alpha (p ! n) \<Longrightarrow> p ! n \<noteq> CHR ''{'' \<Longrightarrow> p ! n \<noteq> CHR ''}'' \<Longrightarrow>
   scan_item p i n 0 b str fmt = (n, 0, substr p (i + 1) (n - i - 1), fmt)"
  by (subst scan_item.simps) simp

lemma scan_open:
  "n < length p \<Longrightarrow> p ! n = CHR ''{'' \<Longrightarrow>
   scan_item p i n 0 b str fmt = scan_item p i (n + 1) 1 n (substr p (i + 1) (n - i - 1)) fmt"
  by (subst scan_item.simps) simp

lemma scan_close:
  "n < length p \<Longrightarrow> p ! n = CHR ''}'' \<Longrightarrow>
   scan_item p i n (Suc 0) b str fmt = (n + 1, 0, str, substr p (b + 1) (n - b - 1))"
  by (subst scan_item.simps) simp

lemma scan_step:
  "n < length p \<Longrightarrow>
   st = 0 \<and> (is_alpha (p ! n) \<or> p ! n = CHR ''}'') \<and> p ! n \<noteq> CHR ''{'' \<or>
   st \<noteq> 0 \<and> (st = 1 \<longrightarrow> p ! n \<noteq> CHR ''}'') \<Longrightarrow>
   scan_item p i n st b str fmt =
     scan_item p i (n + 1) st b (if n + 1 = length p \<and> str = [] then drop (i + 1) p else str) fmt"
  by (subst scan_item.simps) (auto simp: Let_def)

text \<open>
  Induction over the run of the loop: what holds where the loop can stop and is carried back
  over an opening brace and over an ordinary character holds for the result.
\<close>

lemma scan_cases:
  obtains (at_end) "\<not> n < length p"
  | (at_break) "n < length p" "st = 0" "\<not> is_alpha (p ! n)" "p ! n \<noteq> CHR ''{''" "p ! n \<noteq> CHR ''}''"
  | (at_open) "n < length p" "st = 0" "p ! n = CHR ''{''"
  | (at_close) "n < length p" "st = Suc 0" "p ! n = CHR ''}''"
  | (going) "n < length p"
      "st = 0 \<and> (is_alpha (p ! n) \<or> p ! n = CHR ''}'') \<and> p ! n \<noteq> CHR ''{'' \<or>
       st \<noteq> 0 \<and> (st = 1 \<longrightarrow> p ! n \<noteq> CHR ''}'')"
  by (cases "n < length p"; cases "st = 0") auto

lemma scan_item_ge: "n \<le> fst (scan_item p i n st b str fmt)"
proof (induction "length p - n" arbitrary: n st b str fmt rule: less_induct)
  case less
  have IH: "n + 1 \<le> fst (scan_item p i (n + 1) st' b' str' fmt)" if "n < length p" for st' b' str'
    using that by (intro less.hyps) simp
  show ?case
  proof (cases rule: scan_cases [where n = n and p = p and st = st])
    case at_open
    then show ?thesis using IH by (auto simp: scan_open intro: Suc_leD)
  next
    case going
    then show ?thesis using IH by (auto simp: scan_step [OF going] intro: Suc_leD)
  qed (simp_all add: scan_end scan_break scan_close)
qed

lemma scan_item_geD: "scan_item p i n st b str fmt = (n', r) \<Longrightarrow> n \<le> n'"
  using scan_item_ge [of n p i st b str fmt] by simp

text \<open>
  The variables of the outer loop besides \<open>i\<close>: the pending ordinary text \<open>nstr\<close>, the list \<open>vec\<close>
  of triples (str, fmt, type), the member \<open>m_error\<close>, and the lines written to \<open>std::cout\<close>.
\<close>

record parse_state =
  fp_nstr :: string
  fp_vec :: "(string \<times> string \<times> nat) list"
  fp_error :: bool
  fp_out :: "string list"

definition parse_start :: parse_state where
  "parse_start = \<lparr>fp_nstr = [], fp_vec = [], fp_error = False, fp_out = []\<rparr>"

text \<open>What one iteration does once the inner loop has returned with \<open>fmt_status\<close> 0.\<close>

definition push_item :: "string \<Rightarrow> string \<Rightarrow> parse_state \<Rightarrow> parse_state" where
  "push_item str fmt s =
     (let s1 = (if fp_nstr s \<noteq> []
                then s\<lparr>fp_vec := fp_vec s @ [(fp_nstr s, [], 0)], fp_nstr := []\<rparr>
                else s)
      in s1\<lparr>fp_vec := fp_vec s1 @ [(str, fmt, 1)]\<rparr>)"

text \<open>... and with \<open>fmt_status\<close> 1, a brace that is not closed.\<close>

definition push_error :: "string \<Rightarrow> nat \<Rightarrow> string \<Rightarrow> parse_state \<Rightarrow> parse_state" where
  "push_error p i fmt s =
     s\<lparr>fp_out := fp_out s @ [''pattern parse error: '' @ p @ '' - '' @ drop i p],
       fp_error := True,
       fp_vec := fp_vec s @ [(''<<pattern_error>>'', fmt, 0)]\<rparr>"

function parse_loop :: "string \<Rightarrow> nat \<Rightarrow> parse_state \<Rightarrow> parse_state" where
  "parse_loop p i s =
     (if i < length p then
        if p ! i \<noteq> CHR ''%'' then parse_loop p (i + 1) (s\<lparr>fp_nstr := fp_nstr s @ [p ! i]\<rparr>)
        else if i + 1 < length p \<and> p ! (i + 1) = CHR ''%''
        then parse_loop p (i + 1) (s\<lparr>fp_nstr := fp_nstr s @ ''%''\<rparr>)
        else case scan_item p i (i + 1) 0 0 [] [] of (n, st, str, fmt) \<Rightarrow>
               if st = 0 then parse_loop p (n - 1 + 1) (push_item str fmt s)
               else if st = 1 then parse_loop p (i + 1) (push_error p i fmt s)
               else parse_loop p (i + 1) s
      else s)"
  by pat_completeness auto
termination
  by (relation "measure (\<lambda>(p, i, s). length p - i)")
    (auto dest!: scan_item_geD [OF sym])

declare parse_loop.simps [simp del]

definition flush_tail :: "parse_state \<Rightarrow> parse_state" where
  "flush_tail s =
     (if fp_nstr s \<noteq> [] then s\<lparr>fp_vec := fp_vec s @ [(fp_nstr s, [], 0)]\<rparr> else s)"

text \<open>
  The table \<open>s_format_items\<close> from the name of an item to the constructor of its class, and the
  last loop of \<open>init\<close>, which turns the triples into items.
\<close>

definition format_items_table :: "string \<Rightarrow> (string \<Rightarrow> FormatItem) option" where
  "format_items_table = map_of
     [(''m'', \<lambda>fmt. MessageFormatItem),
      (''p'', \<lambda>fmt. LevelFormatItem),
      (''r'', \<lambda>fmt. ElapseFormatItem),
      (''c'', \<lambda>fmt. NameFormatItem),
      (''t'', \<lambda>fmt. ThreadIdFormatItem),
      (''n'', \<lambda>fmt. NewLineFormatItem),
      (''d'', \<lambda>fmt. new_DateTimeFormatItem fmt),
      (''f'', \<lambda>fmt. FilenameFormatItem),
      (''l'', \<lambda>fmt. LineFormatItem),
      (''T'', \<lambda>fmt. TabFormatItem fmt),
      (''F'', \<lambda>fmt. FiberIdFormatItem),
      (''N'', \<lambda>fmt. ThreadNameFormatItem)]"

fun push_built :: "string \<times> string \<times> nat \<Rightarrow> FormatItem list \<times> bool \<Rightarrow> FormatItem list \<times> bool" where
  "push_built (str, fmt, ty) (items, err) =
     (if ty = 0 then (items @ [StringFormatItem str], err)
      else case format_items_table str of
             None \<Rightarrow> (items @ [StringFormatItem (''<<error_format %'' @ str @ ''>>'')], True)
           | Some mk \<Rightarrow> (items @ [mk fmt], err))"

text \<open>
  The formatter object, and its constructor: \<open>init\<close> on the pattern. The second component is
  what \<open>init\<close> writes to \<open>std::cout\<close>.
\<close>

record LogFormatter =
  fmt_pattern :: string
  fmt_items :: "FormatItem list"
  fmt_error :: bool

definition new_LogFormatter :: "string \<Rightarrow> LogFormatter \<times> string list" where
  "new_LogFormatter pattern =
     (let s = flush_tail (parse_loop pattern 0 parse_start);
          (items, err) = fold push_built (fp_vec s) ([], fp_error s)
      in (\<lparr>fmt_pattern = pattern, fmt_items = items, fmt_error = err\<rparr>, fp_out s))"

text \<open>\<open>LogFormatter::format\<close>, into a string and onto the text of a stream.\<close>

fun formatter_format :: "'tm clock \<Rightarrow> FormatItem list \<Rightarrow> string \<Rightarrow> LogLevel \<Rightarrow> LogEvent \<Rightarrow> string \<Rightarrow> string" where
  "formatter_format ck [] name level e ss = ss"
| "formatter_format ck (i # is) name level e ss =
     formatter_format ck is name level e (ss @ format_item ck name level e i)"

definition formatter_string :: "'tm clock \<Rightarrow> LogFormatter \<Rightarrow> string \<Rightarrow> LogLevel \<Rightarrow> LogEvent \<Rightarrow> string" where
  "formatter_string ck f name level e = formatter_format ck (fmt_items f) name level e []"

lemma formatter_format_concat:
  "formatter_format ck is name level e ss = ss @ concat (map (format_item ck name level e) is)"
  by (induction "is" arbitrary: ss) simp_all

text \<open>The pattern every appender starts with (\<open>src/_log/LogAppender.h\<close>).\<close>

definition default_pattern :: string where
  "default_pattern = ''%d{%Y-%m-%d %H:%M:%S}%T%t%T%N%T%F%T[%p]%T[%c]%T%f:%l%T%m%n''"

section \<open>What the last loop builds\<close>

definition bad_triple :: "string \<times> string \<times> nat \<Rightarrow> bool" where
  "bad_triple t = (case t of (str, fmt, ty) \<Rightarrow> ty \<noteq> 0 \<and> format_items_table str = None)"

definition item_of_triple :: "string \<times> string \<times> nat \<Rightarrow> FormatItem" where
  "item_of_triple t = (case t of (str, fmt, ty) \<Rightarrow>
     (if ty = 0 then StringFormatItem str
      else case format_items_table str of
             None \<Rightarrow> StringFormatItem (''<<error_format %'' @ str @ ''>>'')
           | Some mk \<Rightarrow> mk fmt))"

lemma fold_push_built:
  "fold push_built v (items, err) = (items @ map item_of_triple v, err \<or> (\<exists>t \<in> set v. bad_triple t))"
  by (induction v arbitrary: items err)
    (auto simp: item_of_triple_def bad_triple_def split: option.splits)

lemma new_LogFormatter_eq:
  "new_LogFormatter p =
     (let s = flush_tail (parse_loop p 0 parse_start)
      in (\<lparr>fmt_pattern = p, fmt_items = map item_of_triple (fp_vec s),
           fmt_error = (fp_error s \<or> (\<exists>t \<in> set (fp_vec s). bad_triple t))\<rparr>, fp_out s))"
  by (simp add: new_LogFormatter_def fold_push_built Let_def)

section \<open>The parser, one branch at a time\<close>

lemma loop_end: "\<not> i < length p \<Longrightarrow> parse_loop p i s = s"
  by (subst parse_loop.simps) simp

lemma loop_char:
  "i < length p \<Longrightarrow> p ! i \<noteq> CHR ''%'' \<Longrightarrow>
   parse_loop p i s = parse_loop p (i + 1) (s\<lparr>fp_nstr := fp_nstr s @ [p ! i]\<rparr>)"
  by (subst parse_loop.simps) simp

lemma loop_percent:
  "i + 1 < length p \<Longrightarrow> p ! i = CHR ''%'' \<Longrightarrow> p ! (i + 1) = CHR ''%'' \<Longrightarrow>
   parse_loop p i s = parse_loop p (i + 1) (s\<lparr>fp_nstr := fp_nstr s @ [p ! i]\<rparr>)"
  by (subst parse_loop.simps) simp

lemma loop_item:
  "i < length p \<Longrightarrow> p ! i = CHR ''%'' \<Longrightarrow> \<not> (i + 1 < length p \<and> p ! (i + 1) = CHR ''%'') \<Longrightarrow>
   scan_item p i (i + 1) 0 0 [] [] = (n, 0, str, fmt) \<Longrightarrow>
   parse_loop p i s = parse_loop p n (push_item str fmt s)"
  by (subst parse_loop.simps) (auto dest: scan_item_geD)

lemma loop_error:
  "i < length p \<Longrightarrow> p ! i = CHR ''%'' \<Longrightarrow> \<not> (i + 1 < length p \<and> p ! (i + 1) = CHR ''%'') \<Longrightarrow>
   scan_item p i (i + 1) 0 0 [] [] = (n, Suc 0, str, fmt) \<Longrightarrow>
   parse_loop p i s = parse_loop p (i + 1) (push_error p i fmt s)"
  by (subst parse_loop.simps) auto

lemma scan_status: "st \<le> 1 \<Longrightarrow> fst (snd (scan_item p i n st b str fmt)) \<le> 1"
proof (induction "length p - n" arbitrary: n st b str fmt rule: less_induct)
  case less
  have IH: "st' \<le> 1 \<Longrightarrow> fst (snd (scan_item p i (n + 1) st' b' str' fmt)) \<le> 1"
    if "n < length p" for st' b' str'
    using that by (intro less.hyps) simp_all
  show ?case
  proof (cases rule: scan_cases [where n = n and p = p and st = st])
    case at_open
    then show ?thesis using IH by (simp add: scan_open)
  next
    case going
    then show ?thesis using IH less.prems by (simp add: scan_step [OF going])
  qed (use less.prems in \<open>simp_all add: scan_end scan_break scan_close\<close>)
qed

lemma loop_cases:
  obtains (at_end) "\<not> i < length p"
  | (char) "i < length p" "p ! i \<noteq> CHR ''%''"
  | (percent) "i + 1 < length p" "p ! i = CHR ''%''" "p ! (i + 1) = CHR ''%''"
  | (item) n str fmt where "i < length p" "p ! i = CHR ''%''"
      "\<not> (i + 1 < length p \<and> p ! (i + 1) = CHR ''%'')"
      "scan_item p i (i + 1) 0 0 [] [] = (n, 0, str, fmt)"
  | (error) n str fmt where "i < length p" "p ! i = CHR ''%''"
      "\<not> (i + 1 < length p \<and> p ! (i + 1) = CHR ''%'')"
      "scan_item p i (i + 1) 0 0 [] [] = (n, Suc 0, str, fmt)"
proof -
  obtain n st str fmt where r: "scan_item p i (i + 1) 0 0 [] [] = (n, st, str, fmt)"
    by (cases "scan_item p i (i + 1) 0 0 [] []") auto
  have "st = 0 \<or> st = Suc 0"
    using scan_status [of 0 p i "i + 1" 0 "[]" "[]"] r by auto
  with r that show thesis by blast
qed

end
