(* ===== verification/StdMap.thy ===== *)
theory StdMap
  imports Prelude
begin

text \<open>
  The ordered containers of the standard library that the sources keep their state in:
  \<open>std::map\<close> as its sequence of pairs in key order, which is also the order of iteration, and
  \<open>std::set\<close> with an ordering given by a key, as its sequence of elements.
\<close>

section \<open>std::map\<close>

text \<open>\<open>m[k] = v\<close>: assigns to the entry of \<open>k\<close>, or inserts it at its place.\<close>

fun map_put :: "'k::linorder \<Rightarrow> 'v \<Rightarrow> ('k \<times> 'v) list \<Rightarrow> ('k \<times> 'v) list" where
  "map_put k v [] = [(k, v)]"
| "map_put k v ((k', v') # m) =
     (if k = k' then (k, v) # m
      else if k < k' then (k, v) # (k', v') # m
      else (k', v') # map_put k v m)"

text \<open>\<open>m.insert({k, v})\<close>: inserts only where \<open>k\<close> has no entry; the flag tells whether it did.\<close>

definition map_insert :: "'k::linorder \<Rightarrow> 'v \<Rightarrow> ('k \<times> 'v) list \<Rightarrow> ('k \<times> 'v) list \<times> bool" where
  "map_insert k v m = (case map_of m k of None \<Rightarrow> (map_put k v m, True) | Some _ \<Rightarrow> (m, False))"

text \<open>\<open>m.erase(k)\<close>.\<close>

definition map_erase :: "'k \<Rightarrow> ('k \<times> 'v) list \<Rightarrow> ('k \<times> 'v) list" where
  "map_erase k m = filter (\<lambda>(k', v). k' \<noteq> k) m"

definition map_ok :: "('k::linorder \<times> 'v) list \<Rightarrow> bool" where
  "map_ok m \<longleftrightarrow> sorted_wrt (<) (map fst m)"

lemma map_ok_Nil [simp]: "map_ok []"
  by (simp add: map_ok_def)

lemma map_of_put [simp]: "map_of (map_put k v m) = (map_of m)(k \<mapsto> v)"
  by (induction k v m rule: map_put.induct) auto

lemma keys_put [simp]: "fst ` set (map_put k v m) = insert k (fst ` set m)"
  by (induction k v m rule: map_put.induct) auto

lemma map_ok_put [intro]: "map_ok m \<Longrightarrow> map_ok (map_put k v m)"
proof (induction k v m rule: map_put.induct)
  case (2 k v k' v' m)
  have "\<forall>x \<in> set (map fst (map_put k v m)). k' < x" if "k' < k"
    using 2 that by (simp only: set_map keys_put) (auto simp: map_ok_def)
  with 2 show ?case by (auto simp: map_ok_def not_less le_less)
qed (simp add: map_ok_def)

lemma map_ok_distinct: "map_ok m \<Longrightarrow> distinct (map fst m)"
  by (simp add: map_ok_def strict_sorted_iff)

lemma map_ok_entry: "map_ok m \<Longrightarrow> (k, v) \<in> set m \<longleftrightarrow> map_of m k = Some v"
  by (simp add: map_ok_distinct)

lemma map_of_erase [simp]: "map_of (map_erase k m) = (map_of m)(k := None)"
  by (induction m) (auto simp: map_erase_def fun_eq_iff)

lemma map_ok_erase [intro]: "map_ok m \<Longrightarrow> map_ok (map_erase k m)"
  unfolding map_ok_def map_erase_def
  by (induction m) (auto split: prod.splits)

lemma set_map_put: "set (map_put k v m) \<subseteq> insert (k, v) (set m)"
  by (induction k v m rule: map_put.induct) auto

section \<open>std::set ordered by a key\<close>

text \<open>
  \<open>s.insert(x)\<close>: an element with an equivalent key stays as it is, and \<open>x\<close> is dropped.
\<close>

fun set_insert :: "('a \<Rightarrow> 'k::linorder) \<Rightarrow> 'a \<Rightarrow> 'a list \<Rightarrow> 'a list" where
  "set_insert key x [] = [x]"
| "set_insert key x (y # s) =
     (if key x = key y then y # s
      else if key x < key y then x # y # s
      else y # set_insert key x s)"

text \<open>\<open>s.find(x)\<close>.\<close>

definition set_find :: "('a \<Rightarrow> 'k::linorder) \<Rightarrow> 'a \<Rightarrow> 'a list \<Rightarrow> 'a option" where
  "set_find key x s = find (\<lambda>y. key y = key x) s"

definition set_ok :: "('a \<Rightarrow> 'k::linorder) \<Rightarrow> 'a list \<Rightarrow> bool" where
  "set_ok key s \<longleftrightarrow> sorted_wrt (<) (map key s)"

lemma set_ok_Nil [simp]: "set_ok key []"
  by (simp add: set_ok_def)

lemma keys_set_insert [simp]: "key ` set (set_insert key x s) = insert (key x) (key ` set s)"
  by (induction key x s rule: set_insert.induct) auto

lemma set_ok_insert [intro]: "set_ok key s \<Longrightarrow> set_ok key (set_insert key x s)"
proof (induction key x s rule: set_insert.induct)
  case (2 key x y s)
  have "\<forall>k \<in> set (map key (set_insert key x s)). key y < k" if "key y < key x"
    using 2 that by (simp only: set_map keys_set_insert) (auto simp: set_ok_def)
  with 2 show ?case by (auto simp: set_ok_def not_less le_less)
qed (simp add: set_ok_def)

lemma set_set_insert: "set (set_insert key x s) \<subseteq> insert x (set s)"
  by (induction key x s rule: set_insert.induct) auto

lemma set_insert_last: "\<forall>y \<in> set s. key y < key x \<Longrightarrow> set_insert key x s = s @ [x]"
  by (induction key x s rule: set_insert.induct) auto

lemma set_find_Some: "set_find key x s = Some y \<Longrightarrow> y \<in> set s \<and> key y = key x"
  by (auto simp: set_find_def find_Some_iff)

lemma set_find_None: "set_find key x s = None \<longleftrightarrow> key x \<notin> key ` set s"
  by (auto simp: set_find_def find_None_iff image_iff)

lemma set_find_member: "set_ok key s \<Longrightarrow> x \<in> set s \<Longrightarrow> set_find key x s = Some x"
  unfolding set_find_def set_ok_def by (induction s) (auto dest: bspec)

end
