(* ===== verification/LogSystem.thy ===== *)
theory LogSystem
  imports LogFormatter StdMap
begin

text \<open>
  Loggers, appenders and the logger manager (\<open>src/_log/Logger.h\<close>, \<open>LogAppender.h\<close>,
  \<open>LoggerManager.h\<close>, \<open>macro.h\<close> and their definitions in \<open>log.cpp\<close>).

  Loggers and appenders are shared through \<open>std::shared_ptr\<close>, so they live in stores indexed by
  addresses; formatters are never changed after construction, so they are values. The console
  and the files are part of the state. Whether a file can be opened or written to at the moment
  of a call is a parameter of the call. Every operation runs under the object's own lock in the
  sources; the model is of the sequential behaviour, one call after the other.
\<close>

section \<open>Output files\<close>

text \<open>
  \<open>std::ofstream\<close>: the file its buffer has open, and whether \<open>failbit\<close> or \<open>badbit\<close> is set.
  \<open>close\<close> fails on a buffer that is not open, \<open>open\<close> fails on a buffer that is, and clears the
  state when it succeeds; output on a stream in a failed state does nothing.
\<close>

record ofstream =
  os_file :: "string option"
  os_fail :: bool

record os_env =
  can_open :: "string \<Rightarrow> bool"
  can_write :: "string \<Rightarrow> bool"

type_synonym files = "string \<Rightarrow> string"

definition new_ofstream :: ofstream where
  "new_ofstream = \<lparr>os_file = None, os_fail = False\<rparr>"

definition ofstream_close :: "ofstream \<Rightarrow> ofstream" where
  "ofstream_close os =
     (if os_file os = None then os\<lparr>os_fail := True\<rparr> else os\<lparr>os_file := None\<rparr>)"

definition ofstream_open :: "os_env \<Rightarrow> string \<Rightarrow> ofstream \<Rightarrow> ofstream" where
  "ofstream_open env name os =
     (if os_file os = None \<and> can_open env name
      then os\<lparr>os_file := Some name, os_fail := False\<rparr>
      else os\<lparr>os_fail := True\<rparr>)"

definition ofstream_write :: "os_env \<Rightarrow> string \<Rightarrow> ofstream \<times> files \<Rightarrow> ofstream \<times> files" where
  "ofstream_write env txt st = (case st of (os, fs) \<Rightarrow>
     if os_fail os \<or> txt = [] then (os, fs)
     else (case os_file os of
             None \<Rightarrow> (os\<lparr>os_fail := True\<rparr>, fs)
           | Some f \<Rightarrow>
               (if can_write env f then (os, fs(f := fs f @ txt))
                else (os\<lparr>os_fail := True\<rparr>, fs))))"

text \<open>\<open>LogFormatter::format\<close> onto a file stream.\<close>

fun formatter_stream ::
  "'tm clock \<Rightarrow> os_env \<Rightarrow> FormatItem list \<Rightarrow> string \<Rightarrow> LogLevel \<Rightarrow> LogEvent \<Rightarrow> ofstream \<times> files \<Rightarrow> ofstream \<times> files" where
  "formatter_stream ck env [] name level e st = st"
| "formatter_stream ck env (i # is) name level e st =
     formatter_stream ck env is name level e (ofstream_write env (format_item ck name level e i) st)"

section \<open>Appenders and loggers\<close>

text \<open>
  \<open>LogAppender\<close> with its two subclasses: the sink of a \<open>FileLogAppender\<close> is \<open>m_filename\<close>,
  \<open>m_filestream\<close> and \<open>m_lastTime\<close>.
\<close>

datatype sink = Stdout_sink | File_sink string ofstream u64

record LogAppender =
  ap_level :: LogLevel
  ap_formatter :: "LogFormatter option"
  ap_sink :: sink

record Logger =
  lg_name :: string
  lg_level :: LogLevel
  lg_appenders :: "addr list"
  lg_root :: "addr option"

text \<open>The state of the logging system, with the members of the one \<open>LoggerManager\<close>.\<close>

record logsys =
  ls_loggers :: "addr \<Rightarrow> Logger option"
  ls_next_logger :: addr
  ls_appenders :: "addr \<Rightarrow> LogAppender option"
  ls_next_appender :: addr
  ls_stdout :: string
  ls_files :: files
  mgr_loggers :: "(string \<times> addr) list"
  mgr_root :: addr

text \<open>A line on the console (\<open>std::cout << s << std::endl\<close>).\<close>

definition cout_line :: "string \<Rightarrow> logsys \<Rightarrow> logsys" where
  "cout_line txt s = s\<lparr>ls_stdout := ls_stdout s @ txt @ newline\<rparr>"

text \<open>\<open>new Logger(name)\<close>: the level is DEBUG, there are no appenders and no root.\<close>

definition new_Logger :: "string \<Rightarrow> logsys \<Rightarrow> addr \<times> logsys" where
  "new_Logger name s =
     (let a = ls_next_logger s;
          lg = \<lparr>lg_name = name, lg_level = DEBUG, lg_appenders = [], lg_root = None\<rparr>
      in (a, s\<lparr>ls_loggers := (ls_loggers s)(a \<mapsto> lg), ls_next_logger := Suc a\<rparr>))"

text \<open>
  The constructors of \<open>LogAppender\<close>; without arguments the members are the level DEBUG, and a formatter for the
  default pattern, whose construction writes nothing to the console.
\<close>

definition new_LogAppender :: "LogLevel \<Rightarrow> LogFormatter option \<Rightarrow> sink \<Rightarrow> LogAppender" where
  "new_LogAppender level formatter derived = \<lparr>ap_level = level, ap_formatter = formatter, ap_sink = derived\<rparr>"

lemma new_LogAppender_simps [simp]:
  "new_LogAppender level formatter derived = \<lparr>ap_level = level, ap_formatter = formatter, ap_sink = derived\<rparr>"
  by (simp add: new_LogAppender_def)

definition alloc_appender :: "LogAppender \<Rightarrow> logsys \<Rightarrow> addr \<times> logsys" where
  "alloc_appender x s =
     (let a = ls_next_appender s
      in (a, s\<lparr>ls_appenders := (ls_appenders s)(a \<mapsto> x), ls_next_appender := Suc a\<rparr>))"

definition new_StdoutLogAppender :: "logsys \<Rightarrow> addr \<times> logsys" where
  "new_StdoutLogAppender s =
     alloc_appender (new_LogAppender DEBUG (Some (fst (new_LogFormatter default_pattern))) Stdout_sink) s"

text \<open>\<open>FileLogAppender::reopen\<close>: closes a stream that is not in a failed state, then opens the file.\<close>

definition reopen :: "os_env \<Rightarrow> string \<Rightarrow> ofstream \<Rightarrow> ofstream \<times> bool" where
  "reopen env filename os =
     (let os1 = (if \<not> os_fail os then ofstream_close os else os);
          os2 = ofstream_open env filename os1
      in (os2, \<not> os_fail os2))"

definition new_FileLogAppender :: "os_env \<Rightarrow> string \<Rightarrow> logsys \<Rightarrow> addr \<times> logsys" where
  "new_FileLogAppender env filename s =
     alloc_appender (new_LogAppender DEBUG (Some (fst (new_LogFormatter default_pattern)))
       (File_sink filename (fst (reopen env filename new_ofstream)) 0)) s"

text \<open>Setters and getters through a pointer; an address without an object is a null pointer.\<close>

definition with_logger :: "addr \<Rightarrow> (Logger \<Rightarrow> Logger) \<Rightarrow> logsys \<Rightarrow> logsys outcome" where
  "with_logger a f s =
     (case ls_loggers s a of
        None \<Rightarrow> Inl (Null_deref ''Logger'')
      | Some lg \<Rightarrow> Inr (s\<lparr>ls_loggers := (ls_loggers s)(a \<mapsto> f lg)\<rparr>))"

definition with_appender :: "addr \<Rightarrow> (LogAppender \<Rightarrow> LogAppender) \<Rightarrow> logsys \<Rightarrow> logsys outcome" where
  "with_appender a f s =
     (case ls_appenders s a of
        None \<Rightarrow> Inl (Null_deref ''LogAppender'')
      | Some x \<Rightarrow> Inr (s\<lparr>ls_appenders := (ls_appenders s)(a \<mapsto> f x)\<rparr>))"

definition Logger_setLevel :: "addr \<Rightarrow> LogLevel \<Rightarrow> logsys \<Rightarrow> logsys outcome" where
  "Logger_setLevel a level = with_logger a (\<lambda>lg. lg\<lparr>lg_level := level\<rparr>)"

definition Logger_setRoot :: "addr \<Rightarrow> addr option \<Rightarrow> logsys \<Rightarrow> logsys outcome" where
  "Logger_setRoot a root = with_logger a (\<lambda>lg. lg\<lparr>lg_root := root\<rparr>)"

definition Logger_addAppender :: "addr \<Rightarrow> addr \<Rightarrow> logsys \<Rightarrow> logsys outcome" where
  "Logger_addAppender a ap = with_logger a (\<lambda>lg. lg\<lparr>lg_appenders := lg_appenders lg @ [ap]\<rparr>)"

text \<open>The loop of \<open>delAppender\<close>: erases the first pointer that is equal and stops.\<close>

fun erase_first :: "addr \<Rightarrow> addr list \<Rightarrow> addr list" where
  "erase_first ap [] = []"
| "erase_first ap (x # xs) = (if x = ap then xs else x # erase_first ap xs)"

definition Logger_delAppender :: "addr \<Rightarrow> addr \<Rightarrow> logsys \<Rightarrow> logsys outcome" where
  "Logger_delAppender a ap = with_logger a (\<lambda>lg. lg\<lparr>lg_appenders := erase_first ap (lg_appenders lg)\<rparr>)"

definition Logger_clearAppenders :: "addr \<Rightarrow> logsys \<Rightarrow> logsys outcome" where
  "Logger_clearAppenders a = with_logger a (\<lambda>lg. lg\<lparr>lg_appenders := []\<rparr>)"

definition LogAppender_setLevel :: "addr \<Rightarrow> LogLevel \<Rightarrow> logsys \<Rightarrow> logsys outcome" where
  "LogAppender_setLevel a level = with_appender a (\<lambda>x. x\<lparr>ap_level := level\<rparr>)"

definition LogAppender_setFormatter :: "addr \<Rightarrow> LogFormatter option \<Rightarrow> logsys \<Rightarrow> logsys outcome" where
  "LogAppender_setFormatter a fmt = with_appender a (\<lambda>x. x\<lparr>ap_formatter := fmt\<rparr>)"

section \<open>Logging\<close>

text \<open>
  \<open>StdoutLogAppender::log\<close> and \<open>FileLogAppender::log\<close>; \<open>name\<close> is the name of the logger that
  calls the appender.
\<close>

definition stdout_log ::
  "'tm clock \<Rightarrow> string \<Rightarrow> LogLevel \<Rightarrow> LogEvent \<Rightarrow> LogAppender \<Rightarrow> logsys \<Rightarrow> logsys outcome" where
  "stdout_log ck name level e x s =
     (if ap_level x \<le> level
      then (case ap_formatter x of
              None \<Rightarrow> Inl (Null_deref ''m_formatter'')
            | Some f \<Rightarrow> Inr (cout_line (formatter_string ck f name level e) s))
      else Inr s)"

definition file_log ::
  "'tm clock \<Rightarrow> os_env \<Rightarrow> string \<Rightarrow> LogLevel \<Rightarrow> LogEvent \<Rightarrow> addr \<Rightarrow> LogAppender \<Rightarrow>
   string \<Rightarrow> ofstream \<Rightarrow> u64 \<Rightarrow> logsys \<Rightarrow> logsys outcome" where
  "file_log ck env name level e a x filename os lastTime s =
     (if ap_level x \<le> level
      then let now = ev_time e;
               (os1, last1) =
                 (if lastTime + 3 \<le> now then (fst (reopen env filename os), now) else (os, lastTime))
           in (case ap_formatter x of
                 None \<Rightarrow> Inl (Null_deref ''m_formatter'')
               | Some f \<Rightarrow>
                   (let (os2, fs) = formatter_stream ck env (fmt_items f) name level e (os1, ls_files s);
                        s1 = s\<lparr>ls_files := fs,
                               ls_appenders := (ls_appenders s)
                                 (a \<mapsto> x\<lparr>ap_sink := File_sink filename os2 last1\<rparr>)\<rparr>
                    in Inr (if os_fail os2 then cout_line ''error'' s1 else s1)))
      else Inr s)"

definition appender_log ::
  "'tm clock \<Rightarrow> os_env \<Rightarrow> string \<Rightarrow> LogLevel \<Rightarrow> LogEvent \<Rightarrow> addr \<Rightarrow> logsys \<Rightarrow> logsys outcome" where
  "appender_log ck env name level e a s =
     (case ls_appenders s a of
        None \<Rightarrow> Inl (Null_deref ''LogAppender'')
      | Some x \<Rightarrow>
          (case ap_sink x of
             Stdout_sink \<Rightarrow> stdout_log ck name level e x s
           | File_sink filename os lastTime \<Rightarrow>
               file_log ck env name level e a x filename os lastTime s))"

text \<open>
  \<open>Logger::log\<close>. A logger without appenders hands the event to its root, which calls its own
  appenders under its own name; None is a call that does not return, which only a cycle of roots
  could cause.
\<close>

partial_function (option) Logger_log ::
  "'tm clock \<Rightarrow> os_env \<Rightarrow> addr \<Rightarrow> LogLevel \<Rightarrow> LogEvent \<Rightarrow> logsys \<Rightarrow> logsys outcome option" where
  "Logger_log ck env a level e s =
     (case ls_loggers s a of
        None \<Rightarrow> Some (Inl (Null_deref ''Logger''))
      | Some lg \<Rightarrow>
          (if lg_level lg \<le> level
           then if lg_appenders lg \<noteq> []
                then Some (foldM (appender_log ck env (lg_name lg) level e) (lg_appenders lg) s)
                else (case lg_root lg of
                        None \<Rightarrow> Some (Inr s)
                      | Some r \<Rightarrow> Logger_log ck env r level e s)
           else Some (Inr s)))"

text \<open>\<open>Logger::debug\<close> to \<open>Logger::fatal\<close>.\<close>

definition Logger_debug :: "'tm clock \<Rightarrow> os_env \<Rightarrow> addr \<Rightarrow> LogEvent \<Rightarrow> logsys \<Rightarrow> logsys outcome option" where
  "Logger_debug ck env a e = Logger_log ck env a DEBUG e"

definition Logger_info :: "'tm clock \<Rightarrow> os_env \<Rightarrow> addr \<Rightarrow> LogEvent \<Rightarrow> logsys \<Rightarrow> logsys outcome option" where
  "Logger_info ck env a e = Logger_log ck env a INFO e"

definition Logger_warn :: "'tm clock \<Rightarrow> os_env \<Rightarrow> addr \<Rightarrow> LogEvent \<Rightarrow> logsys \<Rightarrow> logsys outcome option" where
  "Logger_warn ck env a e = Logger_log ck env a WARN e"

definition Logger_error :: "'tm clock \<Rightarrow> os_env \<Rightarrow> addr \<Rightarrow> LogEvent \<Rightarrow> logsys \<Rightarrow> logsys outcome option" where
  "Logger_error ck env a e = Logger_log ck env a ERROR e"

definition Logger_fatal :: "'tm clock \<Rightarrow> os_env \<Rightarrow> addr \<Rightarrow> LogEvent \<Rightarrow> logsys \<Rightarrow> logsys outcome option" where
  "Logger_fatal ck env a e = Logger_log ck env a FATAL e"

text \<open>
  Where a logging statement stands: file and line, thread, fiber, time and thread name.
\<close>

record log_site =
  site_file :: string
  site_line :: i32
  site_thread :: u32
  site_fiber :: u32
  site_time :: u64
  site_thread_name :: string

text \<open>
  \<open>LogEventWrap\<close>: \<open>getSS\<close> is used to write to the stream of the event, and the destructor hands the
  event to its logger at its level.
\<close>

record LogEventWrap =
  ew_event :: LogEvent

definition new_LogEventWrap :: "LogEvent \<Rightarrow> LogEventWrap" where
  "new_LogEventWrap e = \<lparr>ew_event = e\<rparr>"

definition LogEventWrap_getEvent :: "LogEventWrap \<Rightarrow> LogEvent" where
  "LogEventWrap_getEvent w = ew_event w"

definition LogEventWrap_getSS_write :: "LogEventWrap \<Rightarrow> string \<Rightarrow> LogEventWrap" where
  "LogEventWrap_getSS_write w txt = w\<lparr>ew_event := ss_write (ew_event w) txt\<rparr>"

definition LogEventWrap_delete ::
  "'tm clock \<Rightarrow> os_env \<Rightarrow> LogEventWrap \<Rightarrow> logsys \<Rightarrow> logsys outcome option" where
  "LogEventWrap_delete ck env w s = (let e = ew_event w in Logger_log ck env (ev_logger e) (ev_level e) e s)"

lemma LogEventWrap_simps [simp]:
  "LogEventWrap_getSS_write (new_LogEventWrap e) txt = new_LogEventWrap (ss_write e txt)"
  "LogEventWrap_getEvent (new_LogEventWrap e) = e"
  "LogEventWrap_delete ck env (new_LogEventWrap e) s = Logger_log ck env (ev_logger e) (ev_level e) e s"
  "(new_LogEventWrap e)\<lparr>ew_event := e'\<rparr> = new_LogEventWrap e'"
  by (simp_all add: LogEventWrap_getSS_write_def new_LogEventWrap_def LogEventWrap_getEvent_def LogEventWrap_delete_def)

text \<open>\<open>SHS_LOG_LEVEL(logger, level) << txt\<close>: the event exists only when the level passes.\<close>

definition shs_log ::
  "'tm clock \<Rightarrow> os_env \<Rightarrow> log_site \<Rightarrow> addr \<Rightarrow> LogLevel \<Rightarrow> string \<Rightarrow> logsys \<Rightarrow> logsys outcome option" where
  "shs_log ck env st a level txt s =
     (case ls_loggers s a of
        None \<Rightarrow> Some (Inl (Null_deref ''Logger''))
      | Some lg \<Rightarrow>
          (if lg_level lg \<le> level
           then LogEventWrap_delete ck env
                  (LogEventWrap_getSS_write
                     (new_LogEventWrap
                        (new_LogEvent a level (site_file st) (site_line st) 0 (site_thread st)
                           (site_fiber st) (site_time st) (site_thread_name st))) txt) s
           else Some (Inr s)))"

text \<open>
  \<open>SHS_LOG_FMT_LEVEL(logger, level, fmt, args)\<close>: the event gets the formatted text, and the fixed
  string below in the place of the thread's name. \<open>vsn\<close> is \<open>vasprintf\<close>.
\<close>

definition shs_log_fmt ::
  "(string \<Rightarrow> 'a \<Rightarrow> string option) \<Rightarrow> 'tm clock \<Rightarrow> os_env \<Rightarrow> log_site \<Rightarrow> addr \<Rightarrow> LogLevel \<Rightarrow>
   string \<Rightarrow> 'a \<Rightarrow> logsys \<Rightarrow> logsys outcome option" where
  "shs_log_fmt vsn ck env st a level fmt al s =
     (case ls_loggers s a of
        None \<Rightarrow> Some (Inl (Null_deref ''Logger''))
      | Some lg \<Rightarrow>
          (if lg_level lg \<le> level
           then (let w = new_LogEventWrap
                           (new_LogEvent a level (site_file st) (site_line st) 0 (site_thread st)
                              (site_fiber st) (site_time st) ''shs::Thread::GetName'')
                 in LogEventWrap_delete ck env (w\<lparr>ew_event := event_format vsn fmt al (LogEventWrap_getEvent w)\<rparr>) s)
           else Some (Inr s)))"

section \<open>The manager\<close>

definition logsys_empty :: "files \<Rightarrow> logsys" where
  "logsys_empty fs =
     \<lparr>ls_loggers = Map.empty, ls_next_logger = 0, ls_appenders = Map.empty, ls_next_appender = 0,
      ls_stdout = [], ls_files = fs, mgr_loggers = [], mgr_root = 0\<rparr>"

text \<open>The constructor: a root logger named \<open>root\<close> that writes to the console.\<close>

definition new_LoggerManager :: "logsys \<Rightarrow> logsys outcome" where
  "new_LoggerManager s =
     (let (r, s1) = new_Logger ''root'' s;
          (ap, s2) = new_StdoutLogAppender (s1\<lparr>mgr_root := r\<rparr>)
      in bind_out (Logger_addAppender r ap s2) (\<lambda>s3.
           case ls_loggers s3 r of
             None \<Rightarrow> Inl (Null_deref ''m_root'')
           | Some lg \<Rightarrow> Inr (s3\<lparr>mgr_loggers := map_put (lg_name lg) r (mgr_loggers s3)\<rparr>)))"

text \<open>\<open>getLogger\<close> (\<open>SHS_LOG_NAME\<close>) and \<open>getRoot\<close> (\<open>SHS_LOG_ROOT\<close>).\<close>

definition getLogger :: "string \<Rightarrow> logsys \<Rightarrow> (addr \<times> logsys) outcome" where
  "getLogger name s =
     (case map_of (mgr_loggers s) name of
        Some a \<Rightarrow> Inr (a, s)
      | None \<Rightarrow>
          (let (a, s1) = new_Logger name s
           in bind_out (Logger_setRoot a (Some (mgr_root s1)) s1) (\<lambda>s2.
                Inr (a, s2\<lparr>mgr_loggers := map_put name a (mgr_loggers s2)\<rparr>))))"

definition getRoot :: "logsys \<Rightarrow> addr" where
  "getRoot s = mgr_root s"

end
