(* ===== verification/LogBehaviour.thy ===== *)
theory LogBehaviour
  imports LogInvariants "HOL-Library.Sublist"
begin

text \<open>
  What logging does. The frame of a logging call, its totality, the refinement of \<open>Logger::log\<close>
  to a plain list of receiving appenders, the text each receiver gets, and the reachable states
  of the logging system as a step relation over the calls of its interface.
\<close>

section \<open>What logging leaves alone\<close>

text \<open>
  A logging call changes the console, the files, and of the appenders only the stream and the
  time of file appenders.
\<close>

fun same_target :: "sink \<Rightarrow> sink \<Rightarrow> bool" where
  "same_target Stdout_sink Stdout_sink = True"
| "same_target (File_sink f os t) (File_sink g os' t') = (f = g)"
| "same_target _ _ = False"

lemma same_target_refl [simp]: "same_target k k"
  by (cases k) simp_all

lemma same_target_trans: "same_target a b \<Longrightarrow> same_target b c \<Longrightarrow> same_target a c"
  by (cases a; cases b; cases c) simp_all

definition same_appender :: "LogAppender option \<Rightarrow> LogAppender option \<Rightarrow> bool" where
  "same_appender x y = (case (x, y) of
      (None, None) \<Rightarrow> True
    | (Some a, Some b) \<Rightarrow> ap_level a = ap_level b \<and> ap_formatter a = ap_formatter b \<and>
        same_target (ap_sink a) (ap_sink b)
    | _ \<Rightarrow> False)"

definition log_frame :: "logsys \<Rightarrow> logsys \<Rightarrow> bool" where
  "log_frame s s' \<longleftrightarrow>
     ls_loggers s' = ls_loggers s \<and> ls_next_logger s' = ls_next_logger s \<and>
     ls_next_appender s' = ls_next_appender s \<and>
     mgr_loggers s' = mgr_loggers s \<and> mgr_root s' = mgr_root s \<and>
     (\<forall>a. same_appender (ls_appenders s a) (ls_appenders s' a)) \<and>
     prefix (ls_stdout s) (ls_stdout s') \<and> (\<forall>f. prefix (ls_files s f) (ls_files s' f))"

lemma same_appender_refl [simp]: "same_appender x x"
  by (simp add: same_appender_def split: option.splits)

lemma same_appender_trans: "same_appender x y \<Longrightarrow> same_appender y z \<Longrightarrow> same_appender x z"
  by (auto simp: same_appender_def split: option.splits elim: same_target_trans)

lemma log_frame_refl [simp]: "log_frame s s"
  by (simp add: log_frame_def)

lemma log_frame_trans: "log_frame s t \<Longrightarrow> log_frame t u \<Longrightarrow> log_frame s u"
  unfolding log_frame_def by (metis prefix_order.trans same_appender_trans)

lemma log_frame_live: "log_frame s t \<Longrightarrow> ls_appenders t a = None \<longleftrightarrow> ls_appenders s a = None"
  unfolding log_frame_def same_appender_def by (metis (no_types, lifting) case_prod_conv option.exhaust option.simps(4,5))

lemma log_frame_ok:
  assumes "logsys_ok s" and "log_frame s s'"
  shows "logsys_ok s'"
proof -
  have same: "same_appender (ls_appenders s a) (ls_appenders s' a)" for a
    using assms(2) by (simp add: log_frame_def)
  note live = log_frame_live [OF assms(2)]
  have eqs: "ls_loggers s' = ls_loggers s" "ls_next_logger s' = ls_next_logger s"
    "ls_next_appender s' = ls_next_appender s" "mgr_loggers s' = mgr_loggers s" "mgr_root s' = mgr_root s"
    using assms(2) by (simp_all add: log_frame_def)
  have "ap_formatter y \<noteq> None" if "ls_appenders s' a = Some y" for a y
    using logsys_okD(8) [OF assms(1), of a] same [of a] that
    by (auto simp: same_appender_def split: option.splits)
  then show ?thesis
    using assms(1) by (simp add: logsys_ok_def logger_ok_def fresh_in_def eqs live)
qed

lemma cout_line_frame: "log_frame s (cout_line txt s)"
  by (simp add: log_frame_def cout_line_def)

lemma ofstream_write_prefix: "prefix (snd st f) (snd (ofstream_write env txt st) f)"
  by (auto simp: ofstream_write_def split: prod.splits option.splits)

lemma formatter_stream_prefix:
  "prefix (snd st f) (snd (formatter_stream ck env is name level e st) f)"
proof (induction "is" arbitrary: st)
  case (Cons i "is")
  have "prefix (snd st f) (snd (ofstream_write env (format_item ck name level e i) st) f)"
    by (rule ofstream_write_prefix)
  also have "prefix \<dots> (snd (formatter_stream ck env (i # is) name level e st) f)"
    using Cons.IH by simp
  finally show ?case .
qed simp

text \<open>An appender that exists and has a formatter returns, and keeps to the frame.\<close>

lemma appender_log_returns:
  assumes "ls_appenders s a = Some x" and "ap_formatter x = Some f"
  shows "\<exists>s'. appender_log ck env name level e a s = Inr s' \<and> log_frame s s'"
proof (cases "ap_sink x")
  case Stdout_sink
  then show ?thesis
    using assms by (simp add: appender_log_def stdout_log_def cout_line_frame)
next
  case (File_sink fn os t)
  let ?r = "if t + 3 \<le> ev_time e then (fst (reopen env fn os), ev_time e) else (os, t)"
  obtain os2 fs where fs: "formatter_stream ck env (fmt_items f) name level e (fst ?r, ls_files s) = (os2, fs)"
    by (cases "formatter_stream ck env (fmt_items f) name level e (fst ?r, ls_files s)")
  let ?s1 = "s\<lparr>ls_files := fs, ls_appenders := (ls_appenders s)(a \<mapsto> x\<lparr>ap_sink := File_sink fn os2 (snd ?r)\<rparr>)\<rparr>"
  have "prefix (ls_files s g) (fs g)" for g
    using formatter_stream_prefix [of "(fst ?r, ls_files s)" g ck env "fmt_items f" name level e] fs by simp
  then have frame: "log_frame s ?s1"
    using assms(1) File_sink by (simp add: log_frame_def same_appender_def split: option.splits)
  have "appender_log ck env name level e a s =
      Inr (if ap_level x \<le> level then (if os_fail os2 then cout_line ''error'' ?s1 else ?s1) else s)"
    using assms File_sink fs by (cases "t + 3 \<le> ev_time e") (simp_all add: appender_log_def file_log_def Let_def)
  then show ?thesis using frame log_frame_trans [OF frame cout_line_frame] by auto
qed

lemma appenders_log_return:
  assumes "logsys_ok s" and "\<forall>a \<in> set as. ls_appenders s a \<noteq> None"
  shows "\<exists>s'. foldM (appender_log ck env name level e) as s = Inr s' \<and> log_frame s s'"
proof (rule foldM_returns [where P = "log_frame s"])
  fix a t
  assume a: "a \<in> set as" and t: "log_frame s t"
  obtain x where x: "ls_appenders t a = Some x"
    using assms(2) a log_frame_live [OF t, of a] by fastforce
  then obtain f where "ap_formatter x = Some f"
    using logsys_okD(8) [OF log_frame_ok [OF assms(1) t]] by blast
  then show "\<exists>t'. appender_log ck env name level e a t = Inr t' \<and> log_frame s t'"
    using appender_log_returns [OF x] t log_frame_trans by metis
qed simp

section \<open>The receivers of an event\<close>

text \<open>
  The abstract specification of \<open>Logger::log\<close>: the appenders that get the event, each with the
  name it is logged under.
\<close>

definition own_receivers :: "Logger \<Rightarrow> (string \<times> addr) list" where
  "own_receivers lg = map (Pair (lg_name lg)) (lg_appenders lg)"

definition receivers :: "logsys \<Rightarrow> addr \<Rightarrow> LogLevel \<Rightarrow> (string \<times> addr) list" where
  "receivers s a level =
     (case ls_loggers s a of
        None \<Rightarrow> []
      | Some lg \<Rightarrow>
          if \<not> lg_level lg \<le> level then []
          else if lg_appenders lg \<noteq> [] then own_receivers lg
          else if lg_root lg = None then []
          else (case ls_loggers s (mgr_root s) of
                  None \<Rightarrow> []
                | Some rt \<Rightarrow> if lg_level rt \<le> level then own_receivers rt else []))"

definition deliver ::
  "'tm clock \<Rightarrow> os_env \<Rightarrow> LogLevel \<Rightarrow> LogEvent \<Rightarrow> (string \<times> addr) list \<Rightarrow> logsys \<Rightarrow> logsys outcome" where
  "deliver ck env level e = foldM (\<lambda>(name, ap). appender_log ck env name level e ap)"

lemma foldM_map: "foldM f (map g xs) s = foldM (f \<circ> g) xs s"
proof (induction xs arbitrary: s)
  case (Cons x xs)
  then show ?case by (cases "f (g x) s") simp_all
qed simp

lemma deliver_own: "deliver ck env level e (own_receivers lg) s =
    foldM (appender_log ck env (lg_name lg) level e) (lg_appenders lg) s"
  by (simp add: deliver_def own_receivers_def foldM_map comp_def)

lemma Logger_log_deliver:
  assumes "logsys_ok s" and "ls_loggers s a \<noteq> None"
  shows "Logger_log ck env a level e s = Some (deliver ck env level e (receivers s a level) s)"
proof -
  obtain lg where lg: "ls_loggers s a = Some lg" using assms(2) by blast
  obtain rt where rt: "ls_loggers s (mgr_root s) = Some rt" "lg_root rt = None"
    using root_exists [OF assms(1)] logsys_okD(6) [OF assms(1)] by blast
  have nil: "deliver ck env level e [] s = Inr s" by (simp add: deliver_def)
  have root: "Logger_log ck env (mgr_root s) level e s =
      Some (deliver ck env level e (if lg_level rt \<le> level then own_receivers rt else []) s)"
    using rt by (subst Logger_log.simps) (simp add: deliver_own nil)
  have "lg_root lg = None \<or> lg_root lg = Some (mgr_root s)"
    using logsys_okD(7) [OF assms(1) lg] by (simp add: logger_ok_def)
  then show ?thesis
    using lg rt root
    by (subst Logger_log.simps) (auto simp: receivers_def deliver_own nil split: option.splits)
qed

lemma own_receivers_live:
  "logsys_ok s \<Longrightarrow> ls_loggers s b = Some lg \<Longrightarrow> (n, ap) \<in> set (own_receivers lg) \<Longrightarrow> ls_appenders s ap \<noteq> None"
  using logsys_okD(7) [of s b lg] by (auto simp: own_receivers_def logger_ok_def)

lemma receivers_live:
  assumes "logsys_ok s" and "(n, ap) \<in> set (receivers s a level)"
  shows "ls_appenders s ap \<noteq> None"
  using assms(2) own_receivers_live [OF assms(1)]
  by (cases "ls_loggers s a"; cases "ls_loggers s (mgr_root s)")
    (simp_all add: receivers_def split: if_splits, blast+)

lemma deliver_returns:
  assumes "logsys_ok s" and "\<And>n ap. (n, ap) \<in> set rs \<Longrightarrow> ls_appenders s ap \<noteq> None"
  shows "\<exists>s'. deliver ck env level e rs s = Inr s' \<and> log_frame s s'"
  unfolding deliver_def
proof (rule foldM_returns [where P = "log_frame s"])
  fix r t
  assume r: "r \<in> set rs" and t: "log_frame s t"
  obtain n ap where r': "r = (n, ap)" by (cases r)
  then have "ls_appenders t ap \<noteq> None" using assms(2) r log_frame_live [OF t] by blast
  then obtain t' where "foldM (appender_log ck env n level e) [ap] t = Inr t'" "log_frame t t'"
    using appenders_log_return [OF log_frame_ok [OF assms(1) t], of "[ap]" ck env n level e]
    by (auto simp del: foldM.simps)
  then show "\<exists>t'. (case r of (name, ap) \<Rightarrow> appender_log ck env name level e ap) t = Inr t' \<and> log_frame s t'"
    using log_frame_trans [OF t] r' by (auto simp: bind_out_eq_Inr)
qed simp

lemma Logger_log_returns:
  assumes "logsys_ok s" and "ls_loggers s a \<noteq> None"
  shows "\<exists>s'. Logger_log ck env a level e s = Some (Inr s') \<and> log_frame s s'"
proof -
  obtain s' where "deliver ck env level e (receivers s a level) s = Inr s'" "log_frame s s'"
    using deliver_returns [OF assms(1), of "receivers s a level"] receivers_live [OF assms(1)] by blast
  then show ?thesis using Logger_log_deliver [OF assms, of ck env level e] by auto
qed

section \<open>The text each receiver gets\<close>

definition console_text ::
  "'tm clock \<Rightarrow> LogLevel \<Rightarrow> LogEvent \<Rightarrow> logsys \<Rightarrow> string \<times> addr \<Rightarrow> string" where
  "console_text ck level e s r = (case r of (name, a) \<Rightarrow>
     (case ls_appenders s a of
        None \<Rightarrow> []
      | Some x \<Rightarrow>
          (case (ap_sink x, ap_formatter x) of
             (Stdout_sink, Some f) \<Rightarrow>
               (if ap_level x \<le> level then formatter_string ck f name level e @ newline else [])
           | _ \<Rightarrow> [])))"

definition file_text ::
  "'tm clock \<Rightarrow> LogLevel \<Rightarrow> LogEvent \<Rightarrow> string \<Rightarrow> logsys \<Rightarrow> string \<times> addr \<Rightarrow> string" where
  "file_text ck level e g s r = (case r of (name, a) \<Rightarrow>
     (case ls_appenders s a of
        None \<Rightarrow> []
      | Some x \<Rightarrow>
          (case (ap_sink x, ap_formatter x) of
             (File_sink fn os t, Some f) \<Rightarrow>
               (if ap_level x \<le> level \<and> fn = g then formatter_string ck f name level e else [])
           | _ \<Rightarrow> [])))"

text \<open>A stream that has its file open and no failure bit.\<close>

definition stream_ready :: "string \<Rightarrow> ofstream \<Rightarrow> bool" where
  "stream_ready fn os \<longleftrightarrow> os_file os = Some fn \<and> \<not> os_fail os"

fun sink_ready :: "sink \<Rightarrow> bool" where
  "sink_ready Stdout_sink = True"
| "sink_ready (File_sink fn os t) = stream_ready fn os"

definition appender_ready :: "logsys \<Rightarrow> addr \<Rightarrow> bool" where
  "appender_ready s a = (case ls_appenders s a of None \<Rightarrow> False | Some x \<Rightarrow> sink_ready (ap_sink x))"

definition disk_ok :: "os_env \<Rightarrow> bool" where
  "disk_ok env \<longleftrightarrow> (\<forall>f. can_open env f \<and> can_write env f)"

text \<open>
  \<open>reopen\<close> succeeds on a stream that works and on one that has no file open, whatever its state
  bits, as soon as the file can be opened.
\<close>

lemma reopen_ready:
  assumes "can_open env fn" and "stream_ready fn os \<or> os_file os = None"
  shows "stream_ready fn (fst (reopen env fn os)) \<and> snd (reopen env fn os)"
  using assms by (auto simp: reopen_def stream_ready_def ofstream_close_def ofstream_open_def Let_def)

text \<open>
  It cannot succeed on a failed stream that still has a file open: the file is not closed, so
  opening it again fails.
\<close>

lemma reopen_stuck:
  assumes "os_file os = Some f" and "os_fail os"
  shows "fst (reopen env fn os) = os \<and> \<not> snd (reopen env fn os)"
  using assms by (auto simp: reopen_def ofstream_open_def Let_def)

lemma formatter_stream_ready:
  assumes "can_write env fn" and "stream_ready fn os"
  shows "formatter_stream ck env is name level e (os, fs) =
    (os, fs(fn := fs fn @ formatter_format ck is name level e []))"
proof (induction "is" arbitrary: fs)
  case (Cons i "is")
  then show ?case
    using assms by (auto simp: ofstream_write_def stream_ready_def formatter_format_concat fun_upd_idem)
qed simp

lemma formatter_stream_stuck:
  "os_fail os \<Longrightarrow> formatter_stream ck env is name level e (os, fs) = (os, fs)"
  by (induction "is") (simp_all add: ofstream_write_def)

lemma appender_log_text:
  assumes "ls_appenders s a = Some x" and "ap_formatter x = Some f" and "sink_ready (ap_sink x)" and "disk_ok env"
  shows "\<exists>s'. appender_log ck env name level e a s = Inr s' \<and>
    ls_stdout s' = ls_stdout s @ console_text ck level e s (name, a) \<and>
    (\<forall>g. ls_files s' g = ls_files s g @ file_text ck level e g s (name, a)) \<and>
    (\<forall>b. appender_ready s b \<longrightarrow> appender_ready s' b)"
proof (cases "ap_sink x")
  case Stdout_sink
  then show ?thesis
    using assms
    by (auto simp: appender_log_def stdout_log_def cout_line_def console_text_def file_text_def appender_ready_def)
next
  case (File_sink fn os t)
  let ?r = "if t + 3 \<le> ev_time e then (fst (reopen env fn os), ev_time e) else (os, t)"
  have ready: "stream_ready fn (fst ?r)"
    using assms(3,4) File_sink reopen_ready [of env fn os] by (auto simp: disk_ok_def)
  let ?fs = "(ls_files s)(fn := ls_files s fn @ formatter_string ck f name level e)"
  have fs: "formatter_stream ck env (fmt_items f) name level e (fst ?r, ls_files s) = (fst ?r, ?fs)"
    unfolding formatter_string_def
    by (rule formatter_stream_ready [OF _ ready]) (use assms(4) in \<open>simp add: disk_ok_def\<close>)
  let ?s1 = "s\<lparr>ls_files := ?fs, ls_appenders := (ls_appenders s)(a \<mapsto> x\<lparr>ap_sink := File_sink fn (fst ?r) (snd ?r)\<rparr>)\<rparr>"
  have "appender_log ck env name level e a s = Inr (if ap_level x \<le> level then ?s1 else s)"
    using assms File_sink fs ready
    by (cases "t + 3 \<le> ev_time e") (simp_all add: appender_log_def file_log_def Let_def stream_ready_def)
  moreover have "appender_ready s b \<longrightarrow> appender_ready ?s1 b" for b
    using ready by (simp add: appender_ready_def)
  ultimately show ?thesis
    using assms File_sink by (auto simp: console_text_def file_text_def)
qed

lemma text_frame:
  assumes "log_frame s t"
  shows "console_text ck level e t = console_text ck level e s"
    and "file_text ck level e g t = file_text ck level e g s"
proof -
  have same: "same_appender (ls_appenders s a) (ls_appenders t a)" for a
    using assms by (simp add: log_frame_def)
  have "console_text ck level e t (n, a) = console_text ck level e s (n, a)" for n a
    using same [of a]
    by (auto simp: console_text_def same_appender_def split: option.splits elim!: same_target.elims(2))
  then show "console_text ck level e t = console_text ck level e s" by auto
  have "file_text ck level e g t (n, a) = file_text ck level e g s (n, a)" for n a
    using same [of a]
    by (auto simp: file_text_def same_appender_def split: option.splits elim!: same_target.elims(2))
  then show "file_text ck level e g t = file_text ck level e g s" by auto
qed

lemma deliver_text:
  assumes "logsys_ok s" and "disk_ok env" and "\<And>n a. (n, a) \<in> set rs \<Longrightarrow> appender_ready s a"
    and "deliver ck env level e rs s = Inr s'"
  shows "ls_stdout s' = ls_stdout s @ concat (map (console_text ck level e s) rs) \<and>
    ls_files s' g = ls_files s g @ concat (map (file_text ck level e g s) rs)"
  using assms
proof (induction rs arbitrary: s)
  case Nil
  then show ?case by (simp add: deliver_def)
next
  case (Cons r rs)
  obtain n a where r: "r = (n, a)" by (cases r)
  obtain x where x: "ls_appenders s a = Some x" "sink_ready (ap_sink x)"
    using Cons.prems(3) [of n a] r by (auto simp: appender_ready_def split: option.splits)
  obtain f where f: "ap_formatter x = Some f" using logsys_okD(8) [OF Cons.prems(1) x(1)] by blast
  obtain s1 where s1: "appender_log ck env n level e a s = Inr s1" "log_frame s s1"
    using appender_log_returns [OF x(1) f] by blast
  then have tx: "ls_stdout s1 = ls_stdout s @ console_text ck level e s r"
      "ls_files s1 g = ls_files s g @ file_text ck level e g s r"
      "\<And>b. appender_ready s b \<Longrightarrow> appender_ready s1 b"
    using appender_log_text [OF x(1) f x(2) Cons.prems(2), of ck n level e] r by auto
  have "ls_stdout s' = ls_stdout s1 @ concat (map (console_text ck level e s1) rs) \<and>
      ls_files s' g = ls_files s1 g @ concat (map (file_text ck level e g s1) rs)"
    using Cons.prems s1 r tx(3)
    by (intro Cons.IH log_frame_ok [OF Cons.prems(1)]) (auto simp: deliver_def)
  then show ?case using tx by (simp add: text_frame [OF s1(2)])
qed

section \<open>Reachable states\<close>

text \<open>
  The calls on the logging interface that the program makes, on pointers that are not null. The
  only pointers \<open>Logger::setRoot\<close> is called with are those of the manager, in \<open>getLogger\<close>.
\<close>

inductive log_step :: "'tm clock \<Rightarrow> logsys \<Rightarrow> logsys \<Rightarrow> bool" for ck :: "'tm clock" where
  step_get: "getLogger name s = Inr (a, s') \<Longrightarrow> log_step ck s s'"
| step_new_stdout: "new_StdoutLogAppender s = (a, s') \<Longrightarrow> log_step ck s s'"
| step_new_file: "new_FileLogAppender env fn s = (a, s') \<Longrightarrow> log_step ck s s'"
| step_set_level: "Logger_setLevel a level s = Inr s' \<Longrightarrow> log_step ck s s'"
| step_add: "ls_appenders s ap \<noteq> None \<Longrightarrow> Logger_addAppender a ap s = Inr s' \<Longrightarrow> log_step ck s s'"
| step_del: "Logger_delAppender a ap s = Inr s' \<Longrightarrow> log_step ck s s'"
| step_clear: "Logger_clearAppenders a s = Inr s' \<Longrightarrow> log_step ck s s'"
| step_ap_level: "LogAppender_setLevel ap level s = Inr s' \<Longrightarrow> log_step ck s s'"
| step_ap_formatter: "LogAppender_setFormatter ap (Some f) s = Inr s' \<Longrightarrow> log_step ck s s'"
| step_log: "Logger_log ck env a level e s = Some (Inr s') \<Longrightarrow> log_step ck s s'"
| step_print: "log_step ck s (cout_line txt s)"

definition logsys_start :: "files \<Rightarrow> logsys outcome" where
  "logsys_start fs = new_LoggerManager (logsys_empty fs)"

inductive log_reachable :: "'tm clock \<Rightarrow> files \<Rightarrow> logsys \<Rightarrow> bool" for ck :: "'tm clock" and fs :: files where
  reach_start: "logsys_start fs = Inr s \<Longrightarrow> log_reachable ck fs s"
| reach_step: "log_reachable ck fs s \<Longrightarrow> log_step ck s s' \<Longrightarrow> log_reachable ck fs s'"

lemma logsys_start_eq:
  "logsys_start fs = Inr
     \<lparr>ls_loggers = [0 \<mapsto> \<lparr>lg_name = ''root'', lg_level = DEBUG, lg_appenders = [0], lg_root = None\<rparr>],
      ls_next_logger = 1,
      ls_appenders = [0 \<mapsto> \<lparr>ap_level = DEBUG, ap_formatter = Some (fst (new_LogFormatter default_pattern)),
        ap_sink = Stdout_sink\<rparr>],
      ls_next_appender = 1, ls_stdout = [], ls_files = fs, mgr_loggers = [(''root'', 0)], mgr_root = 0\<rparr>"
  by (simp add: logsys_start_def new_LoggerManager_def logsys_empty_def new_Logger_def
      new_StdoutLogAppender_def alloc_appender_def log_defs Let_def)

lemma logsys_start_ok: "logsys_start fs = Inr s \<Longrightarrow> logsys_ok s"
  by (auto simp: logsys_start_eq logsys_ok_def logger_ok_def fresh_in_def map_ok_def split: if_splits)

lemma Logger_log_frame:
  assumes "logsys_ok s" and "Logger_log ck env a level e s = Some (Inr s')"
  shows "log_frame s s'"
proof -
  have "ls_loggers s a \<noteq> None"
    using assms(2) by (subst (asm) Logger_log.simps) (auto split: option.splits)
  then show ?thesis using Logger_log_returns [OF assms(1), of a ck env level e] assms(2) by auto
qed

lemma alloc_ok:
  "logsys_ok s \<Longrightarrow> alloc_appender x s = (a, s') \<Longrightarrow> ap_formatter x \<noteq> None \<Longrightarrow> logsys_ok s'"
  using alloc_appender_ok [of s x] by simp

lemma log_step_ok: "log_step ck s s' \<Longrightarrow> logsys_ok s \<Longrightarrow> logsys_ok s'"
proof (induction rule: log_step.induct)
  case (step_new_stdout s a s')
  then show ?case
    by (auto simp: new_StdoutLogAppender_def intro: alloc_ok)
next
  case (step_new_file env fn s a s')
  then show ?case
    by (auto simp: new_FileLogAppender_def intro: alloc_ok)
next
  case (step_log env a level e s s')
  then show ?case by (blast intro: log_frame_ok Logger_log_frame)
next
  case (step_print s msg)
  then show ?case by (blast intro: log_frame_ok cout_line_frame)
qed (auto dest: getLogger_ok logger_setters_ok appender_setters_ok)

lemma log_reachable_ok: "log_reachable ck fs s \<Longrightarrow> logsys_ok s"
  by (induction rule: log_reachable.induct) (auto intro: logsys_start_ok log_step_ok)

text \<open>What no step undoes: the registration of a logger and the text already written.\<close>

definition log_grows :: "logsys \<Rightarrow> logsys \<Rightarrow> bool" where
  "log_grows s s' \<longleftrightarrow>
     (\<forall>n a. map_of (mgr_loggers s) n = Some a \<longrightarrow> map_of (mgr_loggers s') n = Some a) \<and>
     (\<forall>a lg. ls_loggers s a = Some lg \<longrightarrow> (\<exists>lg'. ls_loggers s' a = Some lg' \<and> lg_name lg' = lg_name lg)) \<and>
     mgr_root s' = mgr_root s \<and>
     prefix (ls_stdout s) (ls_stdout s') \<and> (\<forall>f. prefix (ls_files s f) (ls_files s' f))"

lemma log_grows_refl [simp]: "log_grows s s"
  by (simp add: log_grows_def)

lemma log_grows_trans: "log_grows s t \<Longrightarrow> log_grows t u \<Longrightarrow> log_grows s u"
  unfolding log_grows_def
  by (intro conjI allI impI) (blast, metis, simp, metis prefix_order.trans, metis prefix_order.trans)

lemma log_frame_grows: "log_frame s s' \<Longrightarrow> log_grows s s'"
  by (simp add: log_frame_def log_grows_def)

lemma with_logger_grows:
  "with_logger a f s = Inr s' \<Longrightarrow> (\<And>lg. lg_name (f lg) = lg_name lg) \<Longrightarrow> log_grows s s'"
  by (auto simp: with_logger_def log_grows_def split: option.splits)

lemma with_appender_grows: "with_appender a f s = Inr s' \<Longrightarrow> log_grows s s'"
  by (auto simp: with_appender_def log_grows_def split: option.splits)

lemma getLogger_grows:
  assumes "logsys_ok s" and "getLogger name s = Inr (a, s')"
  shows "log_grows s s'"
  using assms(1)
proof (cases rule: getLogger_cases [where name = name])
  case (found b lg)
  then show ?thesis using assms(2) by simp
next
  case (created b t)
  then have "s' = t" using assms(2) by simp
  then show ?thesis using created(1,4) by (auto simp: created(5) log_grows_def)
qed

lemma log_step_grows: "log_step ck s s' \<Longrightarrow> logsys_ok s \<Longrightarrow> log_grows s s'"
proof (induction rule: log_step.induct)
  case (step_log env a level e s s')
  then show ?case by (blast intro: log_frame_grows Logger_log_frame)
next
  case (step_print s msg)
  then show ?case by (blast intro: log_frame_grows cout_line_frame)
next
  case (step_get name s a s')
  then show ?case by (blast intro: getLogger_grows)
qed (auto simp: Logger_setLevel_def Logger_addAppender_def Logger_delAppender_def
    Logger_clearAppenders_def LogAppender_setLevel_def LogAppender_setFormatter_def
    new_StdoutLogAppender_def new_FileLogAppender_def alloc_appender_def Let_def log_grows_def
    elim!: with_logger_grows with_appender_grows dest: with_logger_grows with_appender_grows)

lemma log_steps_grow: "(log_step ck)\<^sup>*\<^sup>* s s' \<Longrightarrow> logsys_ok s \<Longrightarrow> log_grows s s' \<and> logsys_ok s'"
  by (induction rule: rtranclp_induct) (auto intro: log_step_ok log_step_grows log_grows_trans)

end
