(* ===== verification/Yaml.thy ===== *)
theory Yaml
  imports StdMap
begin

text \<open>
  The conversions between configuration values and text (\<open>Lexical_cast\<close> in
  \<open>src/config/config.h\<close>). YAML itself is a library: a document is a value of a type \<open>'n\<close> with
  the operations of yaml-cpp that the sources call, gathered in a record that every definition
  takes as its argument. The element conversion of a container is an argument too, as in the
  templates.
\<close>

text \<open>
  \<open>y_load\<close> is \<open>YAML::Load\<close>, \<open>y_emit\<close> is \<open><<\<close> on a stream and \<open>y_diag\<close> the same for a node that was
  indexed before (indexing may convert a node in place); \<open>y_null\<close> is a default node,
  \<open>y_undefined\<close> what indexing with an unknown key gives, \<open>y_str\<close> a node made from a string, \<open>y_push\<close> is \<open>push_back\<close>, \<open>y_set\<close> is \<open>node[key] = value\<close>, \<open>y_get\<close> is
  \<open>node[key]\<close> with None for a result that is not \<open>IsDefined\<close>, \<open>y_at\<close> is \<open>node[i]\<close>, \<open>y_entries\<close> the
  pairs that an iterator gives, \<open>y_scalar\<close> is \<open>Scalar()\<close> and \<open>y_as_string\<close> is \<open>as<std::string>()\<close>.
\<close>

record 'n yaml =
  y_load :: "string \<Rightarrow> 'n outcome"
  y_emit :: "'n \<Rightarrow> string"
  y_diag :: "'n \<Rightarrow> string"
  y_null :: 'n
  y_undefined :: 'n
  y_str :: "string \<Rightarrow> 'n"
  y_push :: "'n \<Rightarrow> 'n \<Rightarrow> 'n"
  y_set :: "string \<Rightarrow> 'n \<Rightarrow> 'n \<Rightarrow> 'n"
  y_get :: "string \<Rightarrow> 'n \<Rightarrow> 'n option outcome"
  y_size :: "'n \<Rightarrow> nat"
  y_at :: "nat \<Rightarrow> 'n \<Rightarrow> 'n"
  y_entries :: "'n \<Rightarrow> ('n \<times> 'n) list"
  y_is_map :: "'n \<Rightarrow> bool"
  y_is_scalar :: "'n \<Rightarrow> bool"
  y_scalar :: "'n \<Rightarrow> string outcome"
  y_as_string :: "'n \<Rightarrow> string outcome"

section \<open>Sequences\<close>

text \<open>
  The loop that all conversions from a sequence share: convert the text of every element and
  insert the result.
\<close>

definition seq_from :: "'n yaml \<Rightarrow> (string \<Rightarrow> 'a outcome) \<Rightarrow> ('a \<Rightarrow> 'c \<Rightarrow> 'c) \<Rightarrow> 'c \<Rightarrow> string \<Rightarrow> 'c outcome" where
  "seq_from y from ins init f =
     bind_out (y_load y f) (\<lambda>node.
       foldM (\<lambda>i res. bind_out (from (y_emit y (y_at y i node))) (\<lambda>v. Inr (ins v res)))
         [0..<y_size y node] init)"

definition push_all :: "'n yaml \<Rightarrow> ('a \<Rightarrow> string outcome) \<Rightarrow> 'a list \<Rightarrow> 'n \<Rightarrow> 'n outcome" where
  "push_all y to =
     foldM (\<lambda>i node. bind_out (to i) (\<lambda>s. bind_out (y_load y s) (\<lambda>n. Inr (y_push y node n))))"

definition seq_to :: "'n yaml \<Rightarrow> ('a \<Rightarrow> string outcome) \<Rightarrow> 'a list \<Rightarrow> string outcome" where
  "seq_to y to xs = bind_out (push_all y to xs (y_null y)) (\<lambda>node. Inr (y_emit y node))"

definition string_to_vector :: "'n yaml \<Rightarrow> (string \<Rightarrow> 'a outcome) \<Rightarrow> string \<Rightarrow> 'a list outcome" where
  "string_to_vector y from = seq_from y from (\<lambda>v res. res @ [v]) []"

definition vector_to_string :: "'n yaml \<Rightarrow> ('a \<Rightarrow> string outcome) \<Rightarrow> 'a list \<Rightarrow> string outcome" where
  "vector_to_string y to = seq_to y to"

definition string_to_list :: "'n yaml \<Rightarrow> (string \<Rightarrow> 'a outcome) \<Rightarrow> string \<Rightarrow> 'a list outcome" where
  "string_to_list y from = seq_from y from (\<lambda>v res. res @ [v]) []"

definition list_to_string :: "'n yaml \<Rightarrow> ('a \<Rightarrow> string outcome) \<Rightarrow> 'a list \<Rightarrow> string outcome" where
  "list_to_string y to = seq_to y to"

text \<open>\<open>std::set\<close>, ordered by \<open>key\<close> (for most types the value itself).\<close>

definition string_to_set ::
  "'n yaml \<Rightarrow> (string \<Rightarrow> 'a outcome) \<Rightarrow> ('a \<Rightarrow> 'k::linorder) \<Rightarrow> string \<Rightarrow> 'a list outcome" where
  "string_to_set y from key = seq_from y from (set_insert key) []"

definition set_to_string :: "'n yaml \<Rightarrow> ('a \<Rightarrow> string outcome) \<Rightarrow> 'a list \<Rightarrow> string outcome" where
  "set_to_string y to = seq_to y to"

text \<open>
  \<open>std::unordered_set\<close> and \<open>std::unordered_map\<close> are their contents; the order of iteration is
  that of the library, an argument.
\<close>

definition string_to_unordered_set :: "'n yaml \<Rightarrow> (string \<Rightarrow> 'a outcome) \<Rightarrow> string \<Rightarrow> 'a set outcome" where
  "string_to_unordered_set y from = seq_from y from insert {}"

definition unordered_set_to_string ::
  "'n yaml \<Rightarrow> ('a \<Rightarrow> string outcome) \<Rightarrow> ('a set \<Rightarrow> 'a list) \<Rightarrow> 'a set \<Rightarrow> string outcome" where
  "unordered_set_to_string y to iter s = seq_to y to (iter s)"

section \<open>Maps\<close>

definition map_from ::
  "'n yaml \<Rightarrow> (string \<Rightarrow> 'a outcome) \<Rightarrow> (string \<Rightarrow> 'a \<Rightarrow> 'c \<Rightarrow> 'c) \<Rightarrow> 'c \<Rightarrow> string \<Rightarrow> 'c outcome" where
  "map_from y from ins init f =
     bind_out (y_load y f) (\<lambda>node.
       foldM (\<lambda>(first, second) res.
           bind_out (y_scalar y first) (\<lambda>k.
             bind_out (from (y_emit y second)) (\<lambda>v. Inr (ins k v res))))
         (y_entries y node) init)"

definition set_all :: "'n yaml \<Rightarrow> ('a \<Rightarrow> string outcome) \<Rightarrow> (string \<times> 'a) list \<Rightarrow> 'n \<Rightarrow> 'n outcome" where
  "set_all y to =
     foldM (\<lambda>(k, v) node. bind_out (to v) (\<lambda>s. bind_out (y_load y s) (\<lambda>n. Inr (y_set y k n node))))"

definition map_to :: "'n yaml \<Rightarrow> ('a \<Rightarrow> string outcome) \<Rightarrow> (string \<times> 'a) list \<Rightarrow> string outcome" where
  "map_to y to m = bind_out (set_all y to m (y_null y)) (\<lambda>node. Inr (y_emit y node))"

text \<open>\<open>insert\<close> keeps an entry that is already there, so the first of two equal keys counts.\<close>

definition string_to_map :: "'n yaml \<Rightarrow> (string \<Rightarrow> 'a outcome) \<Rightarrow> string \<Rightarrow> (string \<times> 'a) list outcome" where
  "string_to_map y from = map_from y from (\<lambda>k v m. fst (map_insert k v m)) []"

definition map_to_string :: "'n yaml \<Rightarrow> ('a \<Rightarrow> string outcome) \<Rightarrow> (string \<times> 'a) list \<Rightarrow> string outcome" where
  "map_to_string y to = map_to y to"

definition string_to_unordered_map ::
  "'n yaml \<Rightarrow> (string \<Rightarrow> 'a outcome) \<Rightarrow> string \<Rightarrow> (string \<Rightarrow> 'a option) outcome" where
  "string_to_unordered_map y from =
     map_from y from (\<lambda>k v m. if m k = None then m(k \<mapsto> v) else m) Map.empty"

definition unordered_map_to_string ::
  "'n yaml \<Rightarrow> ('a \<Rightarrow> string outcome) \<Rightarrow> ((string \<Rightarrow> 'a option) \<Rightarrow> (string \<times> 'a) list) \<Rightarrow>
   (string \<Rightarrow> 'a option) \<Rightarrow> string outcome" where
  "unordered_map_to_string y to iter m = map_to y to (iter m)"

section \<open>What the conversions rely on\<close>

text \<open>
  The documented behaviour of the library on the nodes that the conversions build: the elements
  of a sequence are those pushed, in order; the entries of a map are those set under different
  keys, in order.
\<close>

definition seq_of :: "'n yaml \<Rightarrow> 'n list \<Rightarrow> 'n" where
  "seq_of y ns = foldl (y_push y) (y_null y) ns"

definition map_node :: "'n yaml \<Rightarrow> (string \<times> 'n) list \<Rightarrow> 'n" where
  "map_node y m = foldl (\<lambda>node (k, n). y_set y k n node) (y_null y) m"

definition yaml_seqs :: "'n yaml \<Rightarrow> bool" where
  "yaml_seqs y \<longleftrightarrow> (\<forall>ns. y_size y (seq_of y ns) = length ns \<and>
     (\<forall>i < length ns. y_at y i (seq_of y ns) = ns ! i))"

definition yaml_maps :: "'n yaml \<Rightarrow> bool" where
  "yaml_maps y \<longleftrightarrow> (\<forall>m. distinct (map fst m) \<longrightarrow>
     map (\<lambda>(k, n). (y_scalar y k, n)) (y_entries y (map_node y m)) = map (\<lambda>(k, n). (Inr k, n)) m)"

text \<open>
  The node that the text of an element loads to, and an element that the text of this node converts
  back to.
\<close>

definition loads_as :: "'n yaml \<Rightarrow> ('a \<Rightarrow> string outcome) \<Rightarrow> 'a \<Rightarrow> 'n \<Rightarrow> bool" where
  "loads_as y to x n \<longleftrightarrow> bind_out (to x) (y_load y) = Inr n"

definition writes :: "'n yaml \<Rightarrow> (string \<Rightarrow> 'a outcome) \<Rightarrow> ('a \<Rightarrow> string outcome) \<Rightarrow> 'a \<Rightarrow> 'n \<Rightarrow> bool" where
  "writes y from to x n \<longleftrightarrow> loads_as y to x n \<and> from (y_emit y n) = Inr x"

definition entry_writes ::
  "'n yaml \<Rightarrow> (string \<Rightarrow> 'a outcome) \<Rightarrow> ('a \<Rightarrow> string outcome) \<Rightarrow> string \<times> 'a \<Rightarrow> string \<times> 'n \<Rightarrow> bool" where
  "entry_writes y from to p q \<longleftrightarrow> fst q = fst p \<and> writes y from to (snd p) (snd q)"

lemma writesE:
  assumes "writes y from to x n"
  obtains s where "to x = Inr s" and "y_load y s = Inr n" and "from (y_emit y n) = Inr x"
  using assms by (auto simp: writes_def loads_as_def bind_out_eq_Inr)

text \<open>A document survives being printed and loaded.\<close>

definition reloads :: "'n yaml \<Rightarrow> 'n \<Rightarrow> bool" where
  "reloads y n \<longleftrightarrow> y_load y (y_emit y n) = Inr n"

lemma push_all_loads:
  assumes "list_all2 (loads_as y to) xs ns"
  shows "push_all y to xs node = Inr (foldl (y_push y) node ns)"
  using assms
proof (induction arbitrary: node rule: list_all2_induct)
  case (Cons x xs n ns)
  then show ?case by (auto simp: push_all_def loads_as_def bind_out_eq_Inr)
qed (simp add: push_all_def)

text \<open>The conversion of each element in turn, up to the first that fails.\<close>

fun convert_all :: "('n \<Rightarrow> 'a outcome) \<Rightarrow> 'n list \<Rightarrow> 'a list outcome" where
  "convert_all f [] = Inr []"
| "convert_all f (n # ns) = bind_out (f n) (\<lambda>v. bind_out (convert_all f ns) (\<lambda>vs. Inr (v # vs)))"

lemma convert_all_eq: "convert_all f ns = Inr vs \<longleftrightarrow> list_all2 (\<lambda>n v. f n = Inr v) ns vs"
  by (induction ns arbitrary: vs) (auto simp: bind_out_eq_Inr list_all2_Cons1)

lemma foldM_convert:
  "foldM (\<lambda>n res. bind_out (f n) (\<lambda>v. Inr (ins v res))) ns c = bind_out (convert_all f ns) (\<lambda>vs. Inr (fold ins vs c))"
  by (induction ns arbitrary: c) (auto simp: bind_out_def split: sum.split)

lemma seq_from_loop:
  assumes "\<forall>i < length ns. y_at y (k + i) node = ns ! i"
  shows "foldM (\<lambda>i res. bind_out (from (y_emit y (y_at y i node))) (\<lambda>v. Inr (ins v res))) [k..<k + length ns] c =
    foldM (\<lambda>n res. bind_out (from (y_emit y n)) (\<lambda>v. Inr (ins v res))) ns c"
  using assms
proof (induction ns arbitrary: k c)
  case (Cons n ns)
  have "y_at y k node = n" using Cons.prems by (metis add.right_neutral length_greater_0_conv list.distinct(1) nth_Cons_0)
  moreover have "\<forall>i < length ns. y_at y (Suc k + i) node = ns ! i"
    using Cons.prems by (metis Suc_less_eq add_Suc add_Suc_right length_Cons nth_Cons_Suc)
  moreover have "[k..<k + length (n # ns)] = k # [Suc k..<Suc k + length ns]"
    by (simp add: upt_conv_Cons del: upt_Suc)
  ultimately show ?case
    using Cons.IH [of "Suc k"] by (cases "from (y_emit y n)") (simp_all del: upt_Suc)
qed simp

text \<open>What comes back of a sequence: the elements that the texts of the nodes convert to.\<close>

definition come_back :: "'n yaml \<Rightarrow> (string \<Rightarrow> 'a outcome) \<Rightarrow> 'n list \<Rightarrow> 'a list outcome" where
  "come_back y from ns = convert_all (\<lambda>n. from (y_emit y n)) ns"

lemma seq_roundtrip:
  assumes "yaml_seqs y" and "list_all2 (loads_as y to) xs ns" and "reloads y (seq_of y ns)"
  shows "bind_out (seq_to y to xs) (seq_from y from ins c) =
    bind_out (come_back y from ns) (\<lambda>vs. Inr (fold ins vs c))"
proof -
  have "seq_to y to xs = Inr (y_emit y (seq_of y ns))"
    using push_all_loads [OF assms(2)] by (simp add: seq_to_def seq_of_def)
  then show ?thesis
    using assms(1,3) seq_from_loop [of ns y 0 "seq_of y ns" "from" ins c]
    by (simp add: seq_from_def reloads_def yaml_seqs_def foldM_convert come_back_def)
qed

lemma fold_snoc: "fold (\<lambda>v res. res @ [v]) xs ys = ys @ xs"
  by (induction xs arbitrary: ys) simp_all

lemma fold_set_insert:
  assumes "sorted_wrt (<) (map key (ys @ xs))"
  shows "fold (set_insert key) xs ys = ys @ xs"
  using assms
proof (induction xs arbitrary: ys)
  case (Cons x xs)
  have "set_insert key x ys = ys @ [x]"
    using Cons.prems by (intro set_insert_last) (auto simp: sorted_wrt_append)
  then show ?case using Cons.IH [of "ys @ [x]"] Cons.prems by simp
qed simp

lemma fold_insert: "fold insert xs A = set xs \<union> A"
  by (induction xs arbitrary: A) auto


lemma set_all_writes:
  assumes "list_all2 (entry_writes y from to) m ns"
  shows "set_all y to m node = Inr (foldl (\<lambda>node (k, n). y_set y k n node) node ns)"
  using assms
proof (induction arbitrary: node rule: list_all2_induct)
  case (Cons p m q ns)
  obtain k v n where pq: "p = (k, v)" "q = (k, n)" "writes y from to v n"
    using Cons.hyps(1) by (cases p; cases q) (auto simp: entry_writes_def)
  obtain s where "to v = Inr s" "y_load y s = Inr n" using pq(3) by (rule writesE)
  then show ?case using Cons.IH pq(1,2) by (simp add: set_all_def)
qed (simp add: set_all_def)

lemma map_from_loop:
  assumes "list_all2 (entry_writes y from to) m ns"
    and "map (\<lambda>(k, n). (y_scalar y k, n)) es = map (\<lambda>(k, n). (Inr k, n)) ns"
  shows "foldM (\<lambda>(first, second) res.
      bind_out (y_scalar y first) (\<lambda>k.
        bind_out (from (y_emit y second)) (\<lambda>v. Inr (ins k v res)))) es c =
    Inr (fold (\<lambda>(k, v). ins k v) m c)"
  using assms
proof (induction arbitrary: c es rule: list_all2_induct)
  case (Cons p m q ns)
  obtain k v n where pq: "p = (k, v)" "q = (k, n)" "writes y from to v n"
    using Cons.hyps(1) by (cases p; cases q) (auto simp: entry_writes_def)
  obtain e1 e2 es' where es: "es = (e1, e2) # es'" "y_scalar y e1 = Inr k" "e2 = n"
      "map (\<lambda>(k, n). (y_scalar y k, n)) es' = map (\<lambda>(k, n). (Inr k, n)) ns"
    using Cons.prems pq(2) by (cases es) auto
  have "from (y_emit y n) = Inr v" using pq(3) by (rule writesE)
  then show ?case using Cons.IH [OF es(4), of "ins k v c"] pq(1) es by simp
qed simp

lemma map_roundtrip:
  assumes "yaml_maps y" and "distinct (map fst m)"
    and "list_all2 (entry_writes y from to) m ns"
    and "reloads y (map_node y ns)"
  shows "bind_out (map_to y to m) (map_from y from ins c) = Inr (fold (\<lambda>(k, v). ins k v) m c)"
proof -
  have "map fst ns = map fst m"
    using assms(3) by (induction rule: list_all2_induct) (auto simp: entry_writes_def)
  then have es: "map (\<lambda>(k, n). (y_scalar y k, n)) (y_entries y (map_node y ns)) = map (\<lambda>(k, n). (Inr k, n)) ns"
    using assms(1,2) by (simp add: yaml_maps_def)
  have "map_to y to m = Inr (y_emit y (map_node y ns))"
    using set_all_writes [OF assms(3)] by (simp add: map_to_def map_node_def)
  then show ?thesis
    using assms(4) map_from_loop [OF assms(3) es, of ins c] by (simp add: map_from_def reloads_def)
qed

lemma map_put_last: "\<forall>k' \<in> fst ` set m. k' < k \<Longrightarrow> map_put k v m = m @ [(k, v)]"
  by (induction k v m rule: map_put.induct) auto

lemma fold_map_insert:
  assumes "map_ok (ys @ m)"
  shows "fold (\<lambda>(k, v) res. fst (map_insert k v res)) m ys = ys @ m"
  using assms
proof (induction m arbitrary: ys)
  case (Cons x m)
  obtain k v where x: "x = (k, v)" by (cases x)
  have less: "\<forall>k' \<in> fst ` set ys. k' < k" using Cons.prems x by (auto simp: map_ok_def sorted_wrt_append)
  then have "map_of ys k = None" by (force simp: map_of_eq_None_iff)
  then have "fst (map_insert k v ys) = ys @ [x]"
    using map_put_last [OF less, of v] x by (simp add: map_insert_def)
  then show ?case using Cons.IH [of "ys @ [x]"] Cons.prems x by simp
qed simp

lemma fold_map_upd:
  assumes "distinct (map fst m)" and "dom f \<inter> fst ` set m = {}"
  shows "fold (\<lambda>(k, v) f. if f k = None then f(k \<mapsto> v) else f) m f = f ++ map_of m"
  using assms
proof (induction m arbitrary: f)
  case (Cons x m)
  obtain k v where x: "x = (k, v)" by (cases x)
  have "f k = None" and disj: "dom (f(k \<mapsto> v)) \<inter> fst ` set m = {}"
    using Cons.prems x by (auto simp del: dom_fun_upd simp: dom_def rev_image_eqI)
  moreover have "f(k \<mapsto> v) ++ map_of m = f ++ (map_of m)(k \<mapsto> v)"
    using Cons.prems x by (auto simp: fun_eq_iff map_add_def map_of_eq_None_iff split: option.splits)
      (metis image_eqI fst_conv map_of_SomeD)+
  moreover have "fold (\<lambda>(k, v) f. if f k = None then f(k \<mapsto> v) else f) m (f(k \<mapsto> v)) = f(k \<mapsto> v) ++ map_of m"
    by (rule Cons.IH [OF _ disj]) (use Cons.prems in simp)
  ultimately show ?case using x by (simp add: fun_eq_iff map_add_def)
qed simp

text \<open>A small concrete library to evaluate with: trees, and a table of the texts it knows.\<close>

datatype tree = Tnull | Tscalar string | Tseq "tree list" | Tmap "(tree \<times> tree) list"

fun tree_push :: "tree \<Rightarrow> tree \<Rightarrow> tree" where
  "tree_push (Tseq ns) n = Tseq (ns @ [n])"
| "tree_push _ n = Tseq [n]"

fun tree_set :: "string \<Rightarrow> tree \<Rightarrow> tree \<Rightarrow> tree" where
  "tree_set k n (Tmap m) =
     (if Tscalar k \<in> fst ` set m
      then Tmap (map (\<lambda>(k', n'). (k', if k' = Tscalar k then n else n')) m)
      else Tmap (m @ [(Tscalar k, n)]))"
| "tree_set k n _ = Tmap [(Tscalar k, n)]"

fun tree_size :: "tree \<Rightarrow> nat" where
  "tree_size (Tseq ns) = length ns"
| "tree_size (Tmap m) = length m"
| "tree_size _ = 0"

fun tree_entries :: "tree \<Rightarrow> (tree \<times> tree) list" where
  "tree_entries (Tmap m) = m"
| "tree_entries _ = []"

fun tree_at :: "nat \<Rightarrow> tree \<Rightarrow> tree" where
  "tree_at i (Tseq ns) = (if i < length ns then ns ! i else Tnull)"
| "tree_at i _ = Tnull"

fun tree_scalar :: "tree \<Rightarrow> string outcome" where
  "tree_scalar (Tscalar s) = Inr s"
| "tree_scalar _ = Inl (Throw (Std_exception ''bad conversion''))"

fun tree_get :: "string \<Rightarrow> tree \<Rightarrow> tree option outcome" where
  "tree_get k (Tmap m) = Inr (map_of m (Tscalar k))"
| "tree_get k (Tscalar s) = Inl (Throw (Std_exception ''operator[] call on a scalar''))"
| "tree_get k _ = Inr None"

definition tree_yaml :: "(string \<times> tree) list \<Rightarrow> tree yaml" where
  "tree_yaml tbl =
     \<lparr>y_load = (\<lambda>s. case map_of tbl s of None \<Rightarrow> Inl (Throw (Std_exception ''bad file'')) | Some n \<Rightarrow> Inr n),
      y_emit = (\<lambda>n. case map_of (map prod.swap tbl) n of None \<Rightarrow> [] | Some s \<Rightarrow> s),
      y_diag = (\<lambda>n. case map_of (map prod.swap tbl) n of None \<Rightarrow> [] | Some s \<Rightarrow> s),
      y_null = Tnull, y_undefined = Tnull, y_str = Tscalar, y_push = tree_push, y_set = tree_set, y_get = tree_get,
      y_size = tree_size, y_at = tree_at, y_entries = tree_entries,
      y_is_map = (\<lambda>n. case n of Tmap _ \<Rightarrow> True | _ \<Rightarrow> False),
      y_is_scalar = (\<lambda>n. case n of Tscalar _ \<Rightarrow> True | _ \<Rightarrow> False),
      y_scalar = tree_scalar, y_as_string = tree_scalar\<rparr>"

lemma tree_seq_of: "seq_of (tree_yaml tbl) ns = (if ns = [] then Tnull else Tseq ns)"
proof -
  have "foldl tree_push (Tseq ms) ns = Tseq (ms @ ns)" for ms ns by (induction ns arbitrary: ms) simp_all
  then show ?thesis by (cases ns) (simp_all add: seq_of_def tree_yaml_def)
qed

lemma tree_yaml_seqs: "yaml_seqs (tree_yaml tbl)"
  unfolding yaml_seqs_def tree_seq_of by (simp add: tree_yaml_def)

lemma tree_map_node:
  assumes "distinct (map fst m)"
  shows "map_node (tree_yaml tbl) m = (if m = [] then Tnull else Tmap (map (\<lambda>(k, n). (Tscalar k, n)) m))"
proof -
  have "foldl (\<lambda>node (k, n). tree_set k n node) (Tmap (map (\<lambda>(k, n). (Tscalar k, n)) a)) b =
      Tmap (map (\<lambda>(k, n). (Tscalar k, n)) (a @ b))" if "distinct (map fst (a @ b))" for a b
    using that
  proof (induction b arbitrary: a)
    case (Cons x b)
    obtain k n where x: "x = (k, n)" by (cases x)
    have "Tscalar k \<notin> fst ` set (map (\<lambda>(k, n). (Tscalar k, n)) a)"
      using Cons.prems x by force
    then show ?case using Cons.IH [of "a @ [x]"] Cons.prems x by simp
  qed simp
  from this [of "[hd m]" "tl m"] assms show ?thesis
    by (cases m) (auto simp: map_node_def tree_yaml_def)
qed

lemma tree_yaml_maps: "yaml_maps (tree_yaml tbl)"
  unfolding yaml_maps_def by (auto simp: tree_map_node) (auto simp: tree_yaml_def)

section \<open>Properties\<close>

text \<open>
  C36. What becomes of the sequence containers when they are converted to text and back. The text
  of each element is loaded as a node, and of the node the text is converted back: when all
  elements have texts that load, and the printed sequence of their nodes loads again, a vector and a list come
  back as exactly the elements that the nodes convert to, in order, or fail with the first that
  fails; a set and an unordered set as the set of them. So a vector or list comes back as it
  was exactly when each of its elements does, and then a set does too.
\<close>

theorem sequence_casts_roundtrip:
  assumes "yaml_seqs y" and "list_all2 (loads_as y to) xs ns" and "reloads y (seq_of y ns)"
  shows "bind_out (vector_to_string y to xs) (string_to_vector y from) = come_back y from ns \<and>
    bind_out (list_to_string y to xs) (string_to_list y from) = come_back y from ns \<and>
    bind_out (set_to_string y to xs) (string_to_set y from key) = bind_out (come_back y from ns) (\<lambda>vs. Inr (fold (set_insert key) vs [])) \<and>
    (iter s = xs \<longrightarrow> bind_out (unordered_set_to_string y to iter s) (string_to_unordered_set y from) =
      bind_out (come_back y from ns) (\<lambda>vs. Inr (set vs))) \<and>
    (come_back y from ns = Inr xs \<longleftrightarrow> list_all2 (\<lambda>n x. from (y_emit y n) = Inr x) ns xs) \<and>
    (set_ok key xs \<and> come_back y from ns = Inr xs \<longrightarrow> bind_out (set_to_string y to xs) (string_to_set y from key) = Inr xs)"
proof -
  let ?images = "come_back y from ns"
  have id: "bind_out ?images Inr = ?images" by (cases ?images) simp_all
  have vec: "(\<lambda>vs. Inr (fold (\<lambda>v res. res @ [v]) vs [])) = Inr" by (simp add: fold_snoc)
  have set: "(\<lambda>vs. Inr (fold insert vs {})) = (\<lambda>vs. Inr (set vs))" by (simp add: fold_insert)
  have "come_back y from ns = Inr xs \<longleftrightarrow> list_all2 (\<lambda>n x. from (y_emit y n) = Inr x) ns xs"
    by (simp add: come_back_def convert_all_eq)
  moreover have "set_ok key xs \<and> ?images = Inr xs \<longrightarrow> bind_out ?images (\<lambda>vs. Inr (fold (set_insert key) vs [])) = Inr xs"
    using fold_set_insert [of key "[]" xs] by (auto simp: set_ok_def)
  ultimately show ?thesis
    by (simp add: seq_roundtrip [OF assms] vector_to_string_def string_to_vector_def list_to_string_def
        string_to_list_def set_to_string_def string_to_set_def unordered_set_to_string_def string_to_unordered_set_def
        vec set id)
qed

definition digit_yaml :: "tree yaml" where
  "digit_yaml = tree_yaml [(''1'', Tscalar ''1''), (''2'', Tscalar ''2''),
     (''- 1, - 2'', Tseq [Tscalar ''1'', Tscalar ''2'']),
     (''~'', Tnull), ([], Tnull), (''- ~, - 1'', Tseq [Tnull, Tscalar ''1'']),
     (''a: 1, b: 2'', Tmap [(Tscalar ''a'', Tscalar ''1''), (Tscalar ''b'', Tscalar ''2'')])]"

text \<open>The strings \<open>1\<close> and \<open>2\<close> come back, and an empty string does not.\<close>

theorem sequence_casts_roundtrip_witness:
  "bind_out (set_to_string digit_yaml Inr [''1'', ''2'']) (string_to_set digit_yaml Inr id) = Inr [''1'', ''2''] \<and>
   bind_out (vector_to_string digit_yaml Inr [[], ''1'']) (string_to_vector digit_yaml Inr) = Inr [''~'', ''1'']"
proof -
  have seqs: "yaml_seqs digit_yaml" unfolding digit_yaml_def by (rule tree_yaml_seqs)
  have els: "list_all2 (loads_as digit_yaml Inr) [''1'', ''2''] [Tscalar ''1'', Tscalar ''2'']"
      "list_all2 (loads_as digit_yaml Inr) [[], ''1''] [Tnull, Tscalar ''1'']"
    by (simp_all add: loads_as_def digit_yaml_def tree_yaml_def)
  have docs: "reloads digit_yaml (seq_of digit_yaml [Tscalar ''1'', Tscalar ''2''])" "reloads digit_yaml (seq_of digit_yaml [Tnull, Tscalar ''1''])"
    unfolding digit_yaml_def tree_seq_of by (simp_all add: reloads_def tree_yaml_def)
  have images: "come_back digit_yaml Inr [Tscalar ''1'', Tscalar ''2''] = Inr [''1'', ''2'']"
      "come_back digit_yaml Inr [Tnull, Tscalar ''1''] = Inr [''~'', ''1'']"
    by (simp_all add: come_back_def digit_yaml_def tree_yaml_def)
  show ?thesis
    using sequence_casts_roundtrip [OF seqs els(1) docs(1), of Inr id]
      sequence_casts_roundtrip [OF seqs els(2) docs(2), of Inr id] images
    by (simp add: set_ok_def)
qed

text \<open>
  An empty string in a vector of strings becomes a string of one tilde, for every YAML library that loads the empty
  text as a null node and prints a null node as a tilde.
\<close>

theorem empty_string_becomes_tilde:
  assumes "yaml_seqs y" and "y_load y [] = Inr (y_null y)" and "y_emit y (y_null y) = ''~''" and "reloads y (seq_of y [y_null y])"
  shows "bind_out (vector_to_string y Inr [[]]) (string_to_vector y Inr) = Inr [''~'']"
  using seq_roundtrip [OF assms(1) _ assms(4), of Inr "[[]]" Inr "\<lambda>v res. res @ [v]" "[]"] assms(2,3)
  by (simp add: come_back_def vector_to_string_def string_to_vector_def loads_as_def)

text \<open>
  The map containers survive the conversion to text and back, with their keys and in key
  order, under the same conditions on values and document; the unordered map as the map of its
  entries, whatever the order of iteration was.
\<close>

theorem map_casts_roundtrip:
  assumes "yaml_maps y" and "map_ok m"
    and "list_all2 (entry_writes y from to) m ns"
    and "reloads y (map_node y ns)"
  shows "bind_out (map_to_string y to m) (string_to_map y from) = Inr m \<and>
    (iter (map_of m) = m \<longrightarrow>
      bind_out (unordered_map_to_string y to iter (map_of m)) (string_to_unordered_map y from) = Inr (map_of m))"
  using fold_map_insert [of "[]" m] fold_map_upd [of m Map.empty] assms(2)
  by (simp add: map_roundtrip [OF assms(1) map_ok_distinct [OF assms(2)] assms(3,4)] map_to_string_def string_to_map_def unordered_map_to_string_def
      string_to_unordered_map_def map_ok_distinct)

theorem map_casts_roundtrip_witness:
  "bind_out (map_to_string digit_yaml Inr [(''a'', ''1''), (''b'', ''2'')]) (string_to_map digit_yaml Inr) =
    Inr [(''a'', ''1''), (''b'', ''2'')]"
proof -
  have maps: "yaml_maps digit_yaml" unfolding digit_yaml_def by (rule tree_yaml_maps)
  have els: "list_all2 (entry_writes digit_yaml Inr Inr)
      [(''a'', ''1''), (''b'', ''2'')] [(''a'', Tscalar ''1''), (''b'', Tscalar ''2'')]"
    by (simp add: entry_writes_def writes_def loads_as_def digit_yaml_def tree_yaml_def)
  have "reloads digit_yaml (map_node digit_yaml [(''a'', Tscalar ''1''), (''b'', Tscalar ''2'')])"
    unfolding digit_yaml_def by (simp add: tree_map_node) (simp add: reloads_def tree_yaml_def)
  from map_casts_roundtrip [OF maps _ els this, of "\<lambda>_. []"] show ?thesis
    by (simp add: map_ok_def)
qed

end
