(* ===== verification/Config.thy ===== *)
theory Config
  imports LogBehaviour Yaml
begin

text \<open>
  Configuration variables and their registry (\<open>src/config/config.h\<close>, \<open>config.cpp\<close>).

  Variables are shared through pointers, so they live in a store like the loggers. A variable of
  type \<open>T\<close> is a value of the one type \<open>'v\<close> together with what the templates take from \<open>T\<close>: its
  names, its conversions to and from text and its equality, and what the conversion from text prints; two variables have the same C++ type
  when the \<open>ty_id\<close> agree. Listeners act on the logging system, the only other part of the program
  that a listener in the sources touches.
\<close>

section \<open>Logging from the other components\<close>

text \<open>The clock, the disk and the place of a logging statement.\<close>

record 'tm log_env =
  le_clock :: "'tm clock"
  le_disk :: os_env
  le_site :: log_site

text \<open>\<open>SHS_LOG_LEVEL(SHS_LOG_ROOT(), level) << txt\<close>.\<close>

definition root_log :: "'tm log_env \<Rightarrow> LogLevel \<Rightarrow> string \<Rightarrow> (logsys, unit) act" where
  "root_log le level txt s =
     (case shs_log (le_clock le) (le_disk le) (le_site le) (getRoot s) level txt s of
        None \<Rightarrow> (Inl No_return, s)
      | Some (Inl e) \<Rightarrow> (Inl e, s)
      | Some (Inr s') \<Rightarrow> (Inr (), s'))"

section \<open>Variables\<close>

record 'v cv_type =
  ty_id :: string
  ty_name :: string
  ty_from :: "string \<Rightarrow> 'v outcome"
  ty_prints :: "string \<Rightarrow> string list"
  ty_to :: "'v \<Rightarrow> string outcome"
  ty_eq :: "'v \<Rightarrow> 'v \<Rightarrow> bool"

type_synonym 'v on_change_cb = "'v \<Rightarrow> 'v \<Rightarrow> (logsys, unit) act"

text \<open>The members of \<open>ConfigVarBase\<close>, and a variable, which begins with them.\<close>

record ConfigVarBase =
  cvb_name :: string
  cvb_description :: string

record 'v ConfigVar =
  cv_name :: string
  cv_description :: string
  cv_type :: "'v cv_type"
  cv_val :: 'v
  cv_cbs :: "(u64 \<times> 'v on_change_cb option) list"

text \<open>
  The variables, the table of the registry (\<open>GetDatas\<close>), the counter \<open>s_func_id\<close>, which is a
  static variable of the member function and so one for each type, and the logging system.
\<close>

record 'v config =
  cf_vars :: "addr \<Rightarrow> 'v ConfigVar option"
  cf_next :: addr
  cf_datas :: "(string \<times> addr) list"
  cf_func_id :: "string \<Rightarrow> u64"
  cf_log :: logsys

definition in_log :: "(logsys, 'a) act \<Rightarrow> ('v config, 'a) act" where
  "in_log m c = (case m (cf_log c) of (r, s) \<Rightarrow> (r, c\<lparr>cf_log := s\<rparr>))"

definition put_var :: "addr \<Rightarrow> 'v ConfigVar \<Rightarrow> 'v config \<Rightarrow> 'v config" where
  "put_var a v c = c\<lparr>cf_vars := (cf_vars c)(a \<mapsto> v)\<rparr>"

text \<open>A member function called through a pointer.\<close>

definition on_var :: "addr \<Rightarrow> ('v ConfigVar \<Rightarrow> ('v config, 'a) act) \<Rightarrow> ('v config, 'a) act" where
  "on_var a f c =
     (case cf_vars c a of None \<Rightarrow> (Inl (Null_deref ''ConfigVar''), c) | Some v \<Rightarrow> f v c)"

text \<open>The constructors: \<open>ConfigVarBase\<close> keeps the name in lower case.\<close>

definition new_ConfigVarBase :: "string \<Rightarrow> string \<Rightarrow> ConfigVarBase" where
  "new_ConfigVarBase name description = \<lparr>cvb_name = map to_lower name, cvb_description = description\<rparr>"

lemma new_ConfigVarBase_simps [simp]:
  "cvb_name (new_ConfigVarBase name description) = map to_lower name"
  "cvb_description (new_ConfigVarBase name description) = description"
  by (simp_all add: new_ConfigVarBase_def)

definition new_ConfigVar :: "'v cv_type \<Rightarrow> 'v \<Rightarrow> string \<Rightarrow> string \<Rightarrow> 'v ConfigVar" where
  "new_ConfigVar ty default_value name description =
     (let base = new_ConfigVarBase name description
      in \<lparr>cv_name = cvb_name base, cv_description = cvb_description base, cv_type = ty, cv_val = default_value, cv_cbs = []\<rparr>)"

definition ConfigVar_getName :: "addr \<Rightarrow> 'v config \<Rightarrow> string outcome" where
  "ConfigVar_getName a c = (case cf_vars c a of None \<Rightarrow> Inl (Null_deref ''ConfigVar'') | Some v \<Rightarrow> Inr (cv_name v))"

definition ConfigVar_getDescription :: "addr \<Rightarrow> 'v config \<Rightarrow> string outcome" where
  "ConfigVar_getDescription a c =
     (case cf_vars c a of None \<Rightarrow> Inl (Null_deref ''ConfigVar'') | Some v \<Rightarrow> Inr (cv_description v))"

definition ConfigVar_toString :: "'tm log_env \<Rightarrow> addr \<Rightarrow> ('v config, string) act" where
  "ConfigVar_toString le a = on_var a (\<lambda>v.
     catch_std (\<lambda>c. (ty_to (cv_type v) (cv_val v), c))
       (\<lambda>e. bindA (in_log (root_log le ERROR (''ConfigVar::toString exception '' @ exn_what e @
               '' convert: '' @ ty_id (cv_type v) @ '' to string'')))
            (\<lambda>_. returnA [])))"

text \<open>Calling a \<open>std::function\<close>; an empty one throws \<open>std::bad_function_call\<close>.\<close>

definition call_cb :: "'v on_change_cb option \<Rightarrow> 'v \<Rightarrow> 'v \<Rightarrow> (logsys, unit) act" where
  "call_cb cb old new =
     (case cb of None \<Rightarrow> (\<lambda>s. (Inl (Throw (Std_exception ''bad_function_call'')), s)) | Some f \<Rightarrow> f old new)"

definition ConfigVar_setValue :: "addr \<Rightarrow> 'v \<Rightarrow> ('v config, unit) act" where
  "ConfigVar_setValue a val = on_var a (\<lambda>v.
     if ty_eq (cv_type v) (cv_val v) val then returnA ()
     else bindA (in_log (forA (\<lambda>(k, cb). call_cb cb (cv_val v) val) (cv_cbs v)))
            (\<lambda>_ c. (Inr (), put_var a (v\<lparr>cv_val := val\<rparr>) c)))"

text \<open>
  The conversion from text: a conversion may print lines on the console before it ends, by a value or
  by an exception.
\<close>

definition print_lines :: "string list \<Rightarrow> (logsys, unit) act" where
  "print_lines ls = forA (\<lambda>l s. (Inr (), cout_line l s)) ls"

definition convert_text :: "'v cv_type \<Rightarrow> string \<Rightarrow> ('v config, 'v) act" where
  "convert_text ty val = bindA (in_log (print_lines (ty_prints ty val))) (\<lambda>_ c. (ty_from ty val, c))"

definition ConfigVar_fromString :: "'tm log_env \<Rightarrow> addr \<Rightarrow> string \<Rightarrow> ('v config, bool) act" where
  "ConfigVar_fromString le a val = on_var a (\<lambda>v.
     catch_std
       (bindA (convert_text (cv_type v) val) (\<lambda>x.
          bindA (ConfigVar_setValue a x) (\<lambda>_. returnA True)))
       (\<lambda>e. bindA (in_log (root_log le ERROR (''ConfigVar::fromString exception '' @ exn_what e @
               '' convert: string to'' @ ty_name (cv_type v) @ '' name='' @ cv_name v @ '' - '' @ val)))
            (\<lambda>_. returnA False)))"

definition ConfigVar_getTypeName :: "addr \<Rightarrow> 'v config \<Rightarrow> string outcome" where
  "ConfigVar_getTypeName a c = fst (on_var a (\<lambda>v. returnA (ty_name (cv_type v))) c)"

definition ConfigVar_getValue :: "addr \<Rightarrow> 'v config \<Rightarrow> 'v outcome" where
  "ConfigVar_getValue a c = fst (on_var a (\<lambda>v. returnA (cv_val v)) c)"

definition ConfigVar_addListener :: "addr \<Rightarrow> 'v on_change_cb option \<Rightarrow> ('v config, u64) act" where
  "ConfigVar_addListener a cb = on_var a (\<lambda>v c.
     let t = ty_id (cv_type v);
         k = cf_func_id c t + 1;
         c1 = c\<lparr>cf_func_id := (cf_func_id c)(t := k)\<rparr>
     in (Inr k, put_var a (v\<lparr>cv_cbs := fst (map_insert k cb (cv_cbs v))\<rparr>) c1))"

definition ConfigVar_delListener :: "addr \<Rightarrow> u64 \<Rightarrow> ('v config, unit) act" where
  "ConfigVar_delListener a k = on_var a (\<lambda>v c.
     (Inr (), put_var a (v\<lparr>cv_cbs := map_erase k (cv_cbs v)\<rparr>) c))"

definition ConfigVar_getListener :: "addr \<Rightarrow> u64 \<Rightarrow> 'v config \<Rightarrow> 'v on_change_cb option outcome" where
  "ConfigVar_getListener a k c = fst (on_var a (\<lambda>v.
     returnA (case map_of (cv_cbs v) k of None \<Rightarrow> None | Some cb \<Rightarrow> cb)) c)"

definition ConfigVar_clearListener :: "addr \<Rightarrow> ('v config, unit) act" where
  "ConfigVar_clearListener a = on_var a (\<lambda>v c. (Inr (), put_var a (v\<lparr>cv_cbs := []\<rparr>) c))"

section \<open>The registry\<close>

definition name_chars :: string where
  "name_chars = ''abcdefghijklmnopqrstuvwxyz._1234567890''"

definition LookupBase :: "string \<Rightarrow> 'v config \<Rightarrow> addr option" where
  "LookupBase name c = map_of (cf_datas c) name"

text \<open>
  \<open>Config::Lookup(default_value, name, description)\<close>. The text of the variable that has another
  type is computed only when the message is logged at all.
\<close>

definition root_passes :: "LogLevel \<Rightarrow> logsys \<Rightarrow> bool" where
  "root_passes level s =
     (case ls_loggers s (getRoot s) of None \<Rightarrow> False | Some lg \<Rightarrow> lg_level lg \<le> level)"

definition Lookup ::
  "'tm log_env \<Rightarrow> 'v cv_type \<Rightarrow> 'v \<Rightarrow> string \<Rightarrow> string \<Rightarrow> ('v config, addr option) act" where
  "Lookup le ty default_value name description c =
     (case map_of (cf_datas c) name of
        Some a \<Rightarrow> on_var a (\<lambda>v.
          if ty_id (cv_type v) = ty_id ty
          then bindA (in_log (root_log le INFO (''Looup name: '' @ name @ '' exists''))) (\<lambda>_. returnA (Some a))
          else bindA (\<lambda>c. if root_passes ERROR (cf_log c) then ConfigVar_toString le a c else (Inr [], c)) (\<lambda>t.
               bindA (in_log (root_log le ERROR (''Lookup name='' @ name @ '' exists but type not '' @
                  ty_name ty @ '' real_type='' @ ty_name (cv_type v) @ '' '' @ t)))
               (\<lambda>_. returnA None))) c
      | None \<Rightarrow>
          if find_first_not_of name name_chars \<noteq> None
          then bindA (in_log (root_log le ERROR (''Lookup name invalid '' @ name)))
                 (\<lambda>_ c. (Inl (Throw (Invalid_argument name)), c)) c
          else (let a = cf_next c;
                    c1 = put_var a (new_ConfigVar ty default_value name description) (c\<lparr>cf_next := Suc a\<rparr>);
                    (m, inserted) = map_insert name a (cf_datas c1);
                    c2 = c1\<lparr>cf_datas := m\<rparr>
                in if inserted then (Inr (Some a), c2)
                   else bindA (in_log (root_log le ERROR ''Failed to insert new config var''))
                          (\<lambda>_. returnA None) c2))"

text \<open>\<open>Config::Lookup(name)\<close>: the variable of that name, if it has the type.\<close>

definition Lookup_typed :: "'v cv_type \<Rightarrow> string \<Rightarrow> 'v config \<Rightarrow> addr option" where
  "Lookup_typed ty name c =
     (case map_of (cf_datas c) name of
        None \<Rightarrow> None
      | Some a \<Rightarrow>
          (case cf_vars c a of
             None \<Rightarrow> None
           | Some v \<Rightarrow> if ty_id (cv_type v) = ty_id ty then Some a else None))"

text \<open>\<open>Config::Visit\<close>: \<open>cb\<close> is called with every variable, in the order of the names.\<close>

definition Visit :: "(addr \<Rightarrow> ('v config, unit) act) \<Rightarrow> ('v config, unit) act" where
  "Visit cb c = forA (\<lambda>(name, a). cb a) (cf_datas c) c"

section \<open>Loading a document\<close>

text \<open>
  \<open>ListAllMember\<close>: appends the members of a node, with their dotted names, to the list; its state
  is the list and the logging system. A document is a graph of nodes, and one with a cycle would
  not end: the first argument bounds the depth, and running out of it is not returning.
\<close>

primrec ListAllMember ::
  "nat \<Rightarrow> 'n yaml \<Rightarrow> 'tm log_env \<Rightarrow> string \<Rightarrow> 'n \<Rightarrow> ((string \<times> 'n) list \<times> logsys, unit) act" where
  "ListAllMember 0 y le prefx node = (\<lambda>st. (Inl No_return, st))"
| "ListAllMember (Suc d) y le prefx node = (\<lambda>(output, s).
     if find_first_not_of prefx name_chars \<noteq> None
     then (case root_log le ERROR (''Config invalid name: '' @ prefx @ '' : '' @ y_emit y node) s of
             (r, s') \<Rightarrow> (r, (output, s')))
     else if y_is_map y node
     then forA (\<lambda>(first, second).
            bindA (\<lambda>st. (y_scalar y first, st)) (\<lambda>k.
              ListAllMember d y le (if prefx = [] then k else prefx @ ''.'' @ k) second))
            (y_entries y node) (output @ [(prefx, node)], s)
     else (Inr (), (output @ [(prefx, node)], s)))"

text \<open>One round of the loop of \<open>Config::LoadFromYaml\<close>, and the function.\<close>

definition load_member :: "'n yaml \<Rightarrow> 'tm log_env \<Rightarrow> string \<times> 'n \<Rightarrow> ('v config, unit) act" where
  "load_member y le i c =
     (case i of (name, node) \<Rightarrow>
        if name = [] then (Inr (), c)
        else (case LookupBase (map to_lower name) c of
                None \<Rightarrow> (Inr (), c)
              | Some a \<Rightarrow>
                  bindA (if y_is_scalar y node
                         then bindA (\<lambda>c. (y_scalar y node, c)) (ConfigVar_fromString le a)
                         else ConfigVar_fromString le a (y_emit y node))
                    (\<lambda>_. returnA ()) c))"

definition LoadFromYaml :: "nat \<Rightarrow> 'n yaml \<Rightarrow> 'tm log_env \<Rightarrow> 'n \<Rightarrow> ('v config, unit) act" where
  "LoadFromYaml d y le root c =
     (case ListAllMember d y le [] root ([], cf_log c) of
        (Inl e, (_, s)) \<Rightarrow> (Inl e, c\<lparr>cf_log := s\<rparr>)
      | (Inr _, (all_nodes, s)) \<Rightarrow> forA (load_member y le) all_nodes (c\<lparr>cf_log := s\<rparr>))"

end
