(* ===== verification/LogConfig.thy ===== *)
theory LogConfig
  imports Config
begin

text \<open>
  The configuration of the logging system (\<open>LogAppenderDefine\<close>, \<open>LogDefine\<close>, their conversions, the
  variable \<open>g_log_defines\<close> and its listener, and the \<open>toYamlNode\<close> functions in
  \<open>src/_log/log.cpp\<close>).
\<close>

section \<open>Printing the logging system as YAML\<close>

definition set_str :: "'n yaml \<Rightarrow> string \<Rightarrow> string \<Rightarrow> 'n \<Rightarrow> 'n" where
  "set_str y k s node = y_set y k (y_str y s) node"

text \<open>\<open>node[k].push_back(n)\<close>: a member that is not there becomes a sequence.\<close>

definition push_member :: "'n yaml \<Rightarrow> string \<Rightarrow> 'n \<Rightarrow> 'n \<Rightarrow> 'n outcome" where
  "push_member y k n node =
     bind_out (y_get y k node) (\<lambda>m.
       Inr (y_set y k (y_push y (case m of None \<Rightarrow> y_undefined y | Some q \<Rightarrow> q) n) node))"

definition appender_common_node :: "'n yaml \<Rightarrow> string \<Rightarrow> LogAppender \<Rightarrow> 'n" where
  "appender_common_node y type x =
     (let n0 = set_str y ''type'' type (y_null y);
          n1 = (if ap_level x \<noteq> UNKNOW then set_str y ''level'' (level_to_string (ap_level x)) n0 else n0)
      in (case ap_formatter x of None \<Rightarrow> n1 | Some f \<Rightarrow> set_str y ''formatter'' (fmt_pattern f) n1))"

definition appender_toYamlNode :: "'n yaml \<Rightarrow> LogAppender \<Rightarrow> 'n" where
  "appender_toYamlNode y x =
     (case ap_sink x of
        Stdout_sink \<Rightarrow> appender_common_node y ''StdoutLogAppender'' x
      | File_sink filename os t \<Rightarrow> set_str y ''file'' filename (appender_common_node y ''FileLogAppender'' x))"

definition Logger_toYamlNode :: "'n yaml \<Rightarrow> logsys \<Rightarrow> Logger \<Rightarrow> 'n outcome" where
  "Logger_toYamlNode y s lg =
     (let n0 = set_str y ''name'' (lg_name lg) (y_null y);
          n1 = (if lg_level lg \<noteq> UNKNOW then set_str y ''level'' (level_to_string (lg_level lg)) n0 else n0)
      in foldM (\<lambda>a node.
           case ls_appenders s a of
             None \<Rightarrow> Inl (Null_deref ''LogAppender'')
           | Some x \<Rightarrow> push_member y ''appenders'' (appender_toYamlNode y x) node)
         (lg_appenders lg) n1)"

definition LoggerManager_toYamlNode :: "'n yaml \<Rightarrow> logsys \<Rightarrow> 'n outcome" where
  "LoggerManager_toYamlNode y s =
     foldM (\<lambda>(name, a) node.
         case ls_loggers s a of
           None \<Rightarrow> Inl (Null_deref ''Logger'')
         | Some lg \<Rightarrow> bind_out (Logger_toYamlNode y s lg) (\<lambda>n. Inr (y_push y node n)))
       (mgr_loggers s) (y_null y)"

text \<open>\<open>toYamlString\<close> of the appenders, of \<open>Logger\<close> and of \<open>LoggerManager\<close>.\<close>

definition toYamlString :: "'n yaml \<Rightarrow> 'n outcome \<Rightarrow> string outcome" where
  "toYamlString y node = bind_out node (\<lambda>n. Inr (y_emit y n))"

definition StdoutLogAppender_toYamlString :: "'n yaml \<Rightarrow> LogAppender \<Rightarrow> string outcome" where
  "StdoutLogAppender_toYamlString y x = toYamlString y (Inr (appender_common_node y ''StdoutLogAppender'' x))"

definition FileLogAppender_toYamlString :: "'n yaml \<Rightarrow> string \<Rightarrow> LogAppender \<Rightarrow> string outcome" where
  "FileLogAppender_toYamlString y filename x =
     toYamlString y (Inr (set_str y ''file'' filename (appender_common_node y ''FileLogAppender'' x)))"

definition Logger_toYamlString :: "'n yaml \<Rightarrow> logsys \<Rightarrow> Logger \<Rightarrow> string outcome" where
  "Logger_toYamlString y s lg = toYamlString y (Logger_toYamlNode y s lg)"

definition LoggerManager_toYamlString :: "'n yaml \<Rightarrow> logsys \<Rightarrow> string outcome" where
  "LoggerManager_toYamlString y s = toYamlString y (LoggerManager_toYamlNode y s)"

section \<open>Definitions of loggers\<close>

record LogAppenderDefine =
  lad_type :: int
  lad_level :: LogLevel
  lad_formatter :: string
  lad_file :: string

record LogDefine =
  ld_name :: string
  ld_level :: LogLevel
  ld_formatter :: string
  ld_appenders :: "LogAppenderDefine list"

definition new_LogAppenderDefine :: LogAppenderDefine where
  "new_LogAppenderDefine = \<lparr>lad_type = 0, lad_level = UNKNOW, lad_formatter = [], lad_file = []\<rparr>"

definition new_LogDefine :: LogDefine where
  "new_LogDefine = \<lparr>ld_name = [], ld_level = UNKNOW, ld_formatter = [], ld_appenders = []\<rparr>"

definition LogAppenderDefine_eq :: "LogAppenderDefine \<Rightarrow> LogAppenderDefine \<Rightarrow> bool" where
  "LogAppenderDefine_eq a b \<longleftrightarrow> lad_type a = lad_type b \<and> lad_level a = lad_level b \<and>
     lad_formatter a = lad_formatter b \<and> lad_file a = lad_file b"

text \<open>\<open>operator==\<close>; the last conjunct of the source compares \<open>appenders\<close> with itself.\<close>

definition LogDefine_eq :: "LogDefine \<Rightarrow> LogDefine \<Rightarrow> bool" where
  "LogDefine_eq a b \<longleftrightarrow> ld_name a = ld_name b \<and> ld_level a = ld_level b \<and>
     ld_formatter a = ld_formatter b \<and>
     list_all2 LogAppenderDefine_eq (ld_appenders a) (ld_appenders a)"

definition LogDefine_less :: "LogDefine \<Rightarrow> LogDefine \<Rightarrow> bool" where
  "LogDefine_less a b \<longleftrightarrow> ld_name a < ld_name b"

definition LogDefine_isValid :: "LogDefine \<Rightarrow> bool" where
  "LogDefine_isValid d \<longleftrightarrow> ld_name d \<noteq> []"

text \<open>\<open>operator==\<close> of \<open>std::set<LogDefine>\<close>, which \<open>operator<\<close> orders by the name.\<close>

definition logs_eq :: "LogDefine list \<Rightarrow> LogDefine list \<Rightarrow> bool" where
  "logs_eq a b \<longleftrightarrow> length a = length b \<and> list_all2 LogDefine_eq a b"

section \<open>Conversions\<close>

text \<open>
  \<open>Lexical_cast<std::string, LogDefine>\<close>; its state is the sequence of lines written to the
  console. \<open>read_appender\<close> is one round of the loop over the appenders, and \<open>finish_appender\<close> its
  part from the level on.
\<close>

definition say :: "string \<Rightarrow> (string list, unit) act" where
  "say line out = (Inr (), out @ [line])"

definition lift_out :: "'a outcome \<Rightarrow> ('s, 'a) act" where
  "lift_out r s = (r, s)"

definition member_string :: "'n yaml \<Rightarrow> string \<Rightarrow> 'n \<Rightarrow> string outcome" where
  "member_string y k node =
     bind_out (y_get y k node) (\<lambda>m. y_as_string y (case m of None \<Rightarrow> y_undefined y | Some n \<Rightarrow> n))"

definition is_defined :: "'n yaml \<Rightarrow> string \<Rightarrow> 'n \<Rightarrow> bool outcome" where
  "is_defined y k node = bind_out (y_get y k node) (\<lambda>m. Inr (m \<noteq> None))"

definition finish_appender ::
  "'n yaml \<Rightarrow> 'n \<Rightarrow> 'n \<Rightarrow> LogDefine \<Rightarrow> LogAppenderDefine \<Rightarrow> (string list, LogDefine) act" where
  "finish_appender y node a ld lad =
     bindA (lift_out (is_defined y ''level'' a)) (\<lambda>has_level.
     bindA (if has_level then lift_out (bind_out (member_string y ''level'' node) (\<lambda>l. Inr (level_from_string l)))
            else returnA (ld_level ld)) (\<lambda>level.
     bindA (lift_out (is_defined y ''formatter'' a)) (\<lambda>has_formatter.
     bindA (if has_formatter then lift_out (member_string y ''formatter'' a) else returnA (lad_formatter lad))
       (\<lambda>formatter.
         returnA (ld\<lparr>ld_appenders := ld_appenders ld @
           [lad\<lparr>lad_level := level, lad_formatter := formatter\<rparr>]\<rparr>)))))"

definition read_appender ::
  "'n yaml \<Rightarrow> 'n \<Rightarrow> 'n \<Rightarrow> LogDefine \<Rightarrow> (string list, LogDefine) act" where
  "read_appender y node a ld =
     bindA (lift_out (is_defined y ''type'' a)) (\<lambda>has_type.
       if \<not> has_type
       then bindA (say (''log config error: appender type is null, '' @ y_diag y a)) (\<lambda>_. returnA ld)
       else bindA (lift_out (member_string y ''type'' a)) (\<lambda>type.
         if type = ''FileLogAppender''
         then bindA (lift_out (is_defined y ''file'' a)) (\<lambda>has_file.
           if \<not> has_file
           then bindA (say (''log config error: fileappender file is null'' @ y_diag y a)) (\<lambda>_. returnA ld)
           else bindA (lift_out (member_string y ''file'' a)) (\<lambda>file.
             finish_appender y node a ld (new_LogAppenderDefine\<lparr>lad_type := 1, lad_file := file\<rparr>)))
         else if type = ''StdoutLogAppender''
         then finish_appender y node a ld (new_LogAppenderDefine\<lparr>lad_type := 2\<rparr>)
         else bindA (say (''log config error: appender type is invalid, '' @ y_diag y a))
                (\<lambda>_. finish_appender y node a ld new_LogAppenderDefine)))"

fun read_appenders ::
  "'n yaml \<Rightarrow> 'n \<Rightarrow> 'n list \<Rightarrow> LogDefine \<Rightarrow> (string list, LogDefine) act" where
  "read_appenders y node [] ld = returnA ld"
| "read_appenders y node (a # as) ld = bindA (read_appender y node a ld) (read_appenders y node as)"

definition LogDefine_from_string :: "'n yaml \<Rightarrow> string \<Rightarrow> (string list, LogDefine) act" where
  "LogDefine_from_string y f =
     bindA (lift_out (y_load y f)) (\<lambda>node.
     bindA (lift_out (is_defined y ''name'' node)) (\<lambda>has_name.
       if \<not> has_name
       then bindA (say (''log config error: name is null, '' @ y_diag y node))
              (\<lambda>_. lift_out (Inl (Throw (Logic_error ''log config name is null''))))
       else bindA (lift_out (member_string y ''name'' node)) (\<lambda>name.
         bindA (lift_out (is_defined y ''level'' node)) (\<lambda>has_level.
         bindA (if has_level then lift_out (member_string y ''level'' node) else returnA []) (\<lambda>level.
         let ld = new_LogDefine\<lparr>ld_name := name, ld_level := level_from_string level\<rparr>
         in bindA (lift_out (y_get y ''appenders'' node)) (\<lambda>m.
            case m of
              None \<Rightarrow> returnA ld
            | Some as \<Rightarrow> read_appenders y node (map (\<lambda>i. y_at y i as) [0..<y_size y as]) ld))))))"

text \<open>\<open>Lexical_cast<LogDefine, std::string>\<close>.\<close>

definition appender_define_node :: "'n yaml \<Rightarrow> LogAppenderDefine \<Rightarrow> 'n" where
  "appender_define_node y a =
     (let n1 = (if lad_type a = 1 then set_str y ''file'' (lad_file a) (set_str y ''type'' ''FileLogAppender'' (y_null y))
                else if lad_type a = 2 then set_str y ''type'' ''StdoutLogAppender'' (y_null y)
                else y_null y);
          n2 = (if lad_level a \<noteq> UNKNOW then set_str y ''level'' (level_to_string (lad_level a)) n1 else n1)
      in (if lad_formatter a \<noteq> [] then set_str y ''formatter'' (lad_formatter a) n2 else n2))"

definition LogDefine_to_string :: "'n yaml \<Rightarrow> LogDefine \<Rightarrow> string outcome" where
  "LogDefine_to_string y f =
     (let n0 = set_str y ''name'' (ld_name f) (y_null y);
          n1 = (if ld_level f \<noteq> UNKNOW then set_str y ''level'' (level_to_string (ld_level f)) n0 else n0)
      in bind_out (foldM (\<lambda>a node. push_member y ''appenders'' (appender_define_node y a) node) (ld_appenders f) n1)
           (\<lambda>node. Inr (y_emit y node)))"

text \<open>
  The type \<open>std::set<LogDefine>\<close> of the variable, among the values of the registry. The conversion of
  a set prints what the conversions of its elements print, up to the first that throws.
\<close>

fun prints_until :: "('a \<Rightarrow> 'b outcome \<times> string list) \<Rightarrow> 'a list \<Rightarrow> string list" where
  "prints_until f [] = []"
| "prints_until f (x # xs) = (case f x of (Inl e, ls) \<Rightarrow> ls | (Inr v, ls) \<Rightarrow> ls @ prints_until f xs)"

definition logs_prints :: "'n yaml \<Rightarrow> string \<Rightarrow> string list" where
  "logs_prints y f =
     (case y_load y f of
        Inl e \<Rightarrow> []
      | Inr node \<Rightarrow> prints_until (\<lambda>i. LogDefine_from_string y (y_emit y (y_at y i node)) []) [0..<y_size y node])"

datatype 'v conf_val = Logs_val "LogDefine list" | Other_val 'v

definition logs_type :: "'n yaml \<Rightarrow> 'v conf_val cv_type" where
  "logs_type y =
     \<lparr>ty_id = ''St3setIN3shs9LogDefineESt4lessIS1_ESaIS1_EE'',
      ty_name = ''std::set<shs::LogDefine>'',
      ty_from = (\<lambda>f. bind_out (string_to_set y (\<lambda>t. fst (LogDefine_from_string y t [])) ld_name f) (\<lambda>x. Inr (Logs_val x))),
      ty_prints = logs_prints y,
      ty_to = (\<lambda>v. case v of
          Logs_val x \<Rightarrow> set_to_string y (LogDefine_to_string y) x
        | Other_val _ \<Rightarrow> Inl (Throw (Std_exception ''bad value''))),
      ty_eq = (\<lambda>a b. case (a, b) of (Logs_val x, Logs_val z) \<Rightarrow> logs_eq x z | _ \<Rightarrow> False)\<rparr>"

section \<open>The listener\<close>

definition logsys_op :: "(logsys \<Rightarrow> logsys outcome) \<Rightarrow> (logsys, unit) act" where
  "logsys_op f s = (case f s of Inl e \<Rightarrow> (Inl e, s) | Inr s' \<Rightarrow> (Inr (), s'))"

definition logsys_get :: "(logsys \<Rightarrow> ('a \<times> logsys) outcome) \<Rightarrow> (logsys, 'a) act" where
  "logsys_get f s = (case f s of Inl e \<Rightarrow> (Inl e, s) | Inr (x, s') \<Rightarrow> (Inr x, s'))"

definition add_defined_appender ::
  "'tm log_env \<Rightarrow> string \<Rightarrow> addr \<Rightarrow> LogAppenderDefine \<Rightarrow> (logsys, unit) act" where
  "add_defined_appender le name logger a =
     (if lad_type a \<noteq> 1 \<and> lad_type a \<noteq> 2 then returnA ()
      else bindA (\<lambda>s. case (if lad_type a = 1 then new_FileLogAppender (le_disk le) (lad_file a) s
                             else new_StdoutLogAppender s) of (ap, s') \<Rightarrow> (Inr ap, s')) (\<lambda>ap.
        bindA (logsys_op (LogAppender_setLevel ap (lad_level a))) (\<lambda>_.
        bindA (if lad_formatter a = [] then returnA ()
               else (case new_LogFormatter (lad_formatter a) of (fmt, ls) \<Rightarrow>
                 bindA (print_lines ls) (\<lambda>_.
                   if \<not> fmt_error fmt then logsys_op (LogAppender_setFormatter ap (Some fmt))
                   else print_lines [''log.name='' @ name @ '' appender type='' @ int_str (lad_type a) @
                     '' formatter='' @ lad_formatter a @ '' is invalid'']))) (\<lambda>_.
        logsys_op (Logger_addAppender logger ap)))))"

text \<open>One round of the loop over the new definitions, and one of the loop over the old.\<close>

definition apply_define :: "'tm log_env \<Rightarrow> LogDefine list \<Rightarrow> LogDefine \<Rightarrow> (logsys, unit) act" where
  "apply_define le old_value i =
     (if (case set_find ld_name i old_value of None \<Rightarrow> False | Some j \<Rightarrow> LogDefine_eq i j) then returnA ()
      else bindA (logsys_get (getLogger (ld_name i))) (\<lambda>logger.
        bindA (logsys_op (Logger_setLevel logger (ld_level i))) (\<lambda>_.
        bindA (logsys_op (Logger_clearAppenders logger)) (\<lambda>_.
        forA (add_defined_appender le (ld_name i) logger) (ld_appenders i)))))"

definition drop_define :: "LogDefine list \<Rightarrow> LogDefine \<Rightarrow> (logsys, unit) act" where
  "drop_define new_value i =
     (if set_find ld_name i new_value \<noteq> None then returnA ()
      else bindA (logsys_get (getLogger (ld_name i))) (\<lambda>logger.
        bindA (logsys_op (Logger_setLevel logger UNKNOW)) (\<lambda>_.
        logsys_op (Logger_clearAppenders logger))))"

definition on_logger_conf_changed ::
  "'tm log_env \<Rightarrow> LogDefine list \<Rightarrow> LogDefine list \<Rightarrow> (logsys, unit) act" where
  "on_logger_conf_changed le old_value new_value =
     bindA (root_log le INFO ''on_logger_conf_changed'') (\<lambda>_.
     bindA (forA (apply_define le old_value) new_value) (\<lambda>_.
     forA (drop_define new_value) old_value))"

definition logs_listener :: "'tm log_env \<Rightarrow> 'v conf_val on_change_cb" where
  "logs_listener le old new =
     (case (old, new) of
        (Logs_val x, Logs_val z) \<Rightarrow> on_logger_conf_changed le x z
      | _ \<Rightarrow> returnA ())"

text \<open>
  The static initialisers: \<open>g_log_defines\<close> and \<open>__log_init\<close>. A null pointer from \<open>Lookup\<close> is
  dereferenced.
\<close>

definition LogIniter :: "'n yaml \<Rightarrow> 'tm log_env \<Rightarrow> ('v conf_val config, unit) act" where
  "LogIniter y le =
     bindA (Lookup le (logs_type y) (Logs_val []) ''logs'' ''logs config'') (\<lambda>p.
       case p of
         None \<Rightarrow> lift_out (Inl (Null_deref ''g_log_defines''))
       | Some a \<Rightarrow> bindA (ConfigVar_addListener a (Some (logs_listener le))) (\<lambda>_. returnA ()))"

end
