(* ===== verification/ConfigInvariants.thy ===== *)
theory ConfigInvariants
  imports Config
begin

text \<open>
  The invariant of the configuration registry and the effect of every operation on it.
\<close>

section \<open>Logging to the root\<close>

lemma shs_log_returns:
  assumes "logsys_ok s" and "ls_loggers s a \<noteq> None"
  shows "\<exists>s'. shs_log ck env st a level msg s = Some (Inr s') \<and> log_frame s s'"
  using Logger_log_returns [OF assms] assms(2)
  by (auto simp: shs_log_def ss_write_def new_LogEvent_def)

lemma root_log_returns:
  assumes "logsys_ok s"
  obtains s' where "root_log le level msg s = (Inr (), s')" and "log_frame s s'" and "logsys_ok s'"
proof -
  have "ls_loggers s (getRoot s) \<noteq> None" using root_exists [OF assms] by (auto simp: getRoot_def)
  from shs_log_returns [OF assms this] obtain s' where
    "shs_log (le_clock le) (le_disk le) (le_site le) (getRoot s) level msg s = Some (Inr s')" "log_frame s s'"
    by blast
  then show thesis using log_frame_ok [OF assms] that by (auto simp: root_log_def)
qed

section \<open>The invariant\<close>

text \<open>
  What the conversions of a type and the listeners are expected to do: they fail only with
  exceptions derived from \<open>std::exception\<close>, and a listener leaves the logging system well-formed.
\<close>

definition std_failure :: "failure \<Rightarrow> bool" where
  "std_failure e = (case e of Throw x \<Rightarrow> is_std_exn x | _ \<Rightarrow> False)"

lemma std_failureE:
  assumes "std_failure e"
  obtains x where "e = Throw x" and "is_std_exn x"
  using assms by (auto simp: std_failure_def split: failure.splits)

definition type_ok :: "'v cv_type \<Rightarrow> bool" where
  "type_ok ty \<longleftrightarrow> (\<forall>v e. ty_to ty v = Inl e \<longrightarrow> std_failure e) \<and>
     (\<forall>t e. ty_from ty t = Inl e \<longrightarrow> std_failure e)"

definition cb_ok :: "'v on_change_cb option \<Rightarrow> bool" where
  "cb_ok cb \<longleftrightarrow> (\<forall>old new s r s'. logsys_ok s \<longrightarrow> call_cb cb old new s = (r, s') \<longrightarrow>
     logsys_ok s' \<and> (\<forall>e. r = Inl e \<longrightarrow> std_failure e))"

definition var_ok :: "(string \<Rightarrow> u64) \<Rightarrow> 'v ConfigVar \<Rightarrow> bool" where
  "var_ok ids v \<longleftrightarrow> type_ok (cv_type v) \<and> map_ok (cv_cbs v) \<and>
     (\<forall>(k, cb) \<in> set (cv_cbs v). cb_ok cb \<and> k \<le> ids (ty_id (cv_type v)))"

definition valid_name :: "string \<Rightarrow> bool" where
  "valid_name name \<longleftrightarrow> find_first_not_of name name_chars = None"

definition config_ok :: "'v config \<Rightarrow> bool" where
  "config_ok c \<longleftrightarrow> logsys_ok (cf_log c) \<and> fresh_in (cf_vars c) (cf_next c) \<and> map_ok (cf_datas c) \<and>
     (\<forall>name a. map_of (cf_datas c) name = Some a \<longrightarrow>
        (\<exists>v. cf_vars c a = Some v \<and> cv_name v = name \<and> valid_name name)) \<and>
     (\<forall>a v. cf_vars c a = Some v \<longrightarrow> var_ok (cf_func_id c) v)"

lemma config_okD:
  assumes "config_ok c"
  shows "logsys_ok (cf_log c)" and "fresh_in (cf_vars c) (cf_next c)" and "map_ok (cf_datas c)"
    and "map_of (cf_datas c) name = Some a \<Longrightarrow> \<exists>v. cf_vars c a = Some v \<and> cv_name v = name \<and> valid_name name"
    and "cf_vars c a = Some v \<Longrightarrow> var_ok (cf_func_id c) v"
  using assms unfolding config_ok_def by blast+

lemma cb_okI:
  assumes "\<And>old new s r s'. logsys_ok s \<Longrightarrow> call_cb cb old new s = (r, s') \<Longrightarrow>
    logsys_ok s' \<and> (\<forall>e. r = Inl e \<longrightarrow> std_failure e)"
  shows "cb_ok cb"
  using assms unfolding cb_ok_def by blast

lemma cb_ok_empty [simp]: "cb_ok None"
  by (auto simp: cb_ok_def call_cb_def std_failure_def)

text \<open>The changes of the state that keep the invariant.\<close>

lemma config_ok_log: "config_ok c \<Longrightarrow> logsys_ok s \<Longrightarrow> config_ok (c\<lparr>cf_log := s\<rparr>)"
  by (simp add: config_ok_def)

lemma config_ok_put:
  assumes "config_ok c" and "cf_vars c a = Some v" and "var_ok (cf_func_id c) v'" and "cv_name v' = cv_name v"
  shows "config_ok (put_var a v' c)"
proof -
  have "fresh_in ((cf_vars c)(a \<mapsto> v')) (cf_next c)"
    using config_okD(2) [OF assms(1)] assms(2) by (simp add: fresh_in_update)
  then show ?thesis
    using assms unfolding config_ok_def put_var_def by (auto split: if_splits) fastforce+
qed

lemma name_chars_lower: "valid_name name \<Longrightarrow> map to_lower name = name"
proof -
  have "\<forall>x \<in> set name_chars. to_lower x = x" by code_simp
  then show "valid_name name \<Longrightarrow> map to_lower name = name"
    by (auto simp: valid_name_def intro!: map_idI)
qed

lemma config_ok_new:
  assumes "config_ok c" and "map_of (cf_datas c) name = None" and "valid_name name" and "type_ok ty"
  shows "config_ok ((put_var (cf_next c) (new_ConfigVar ty dv name ds) c)
    \<lparr>cf_next := Suc (cf_next c), cf_datas := map_put name (cf_next c) (cf_datas c)\<rparr>)"
proof -
  have none: "cf_vars c (cf_next c) = None" using fresh_in_None [OF config_okD(2) [OF assms(1)]] .
  have "var_ok (cf_func_id c) (new_ConfigVar ty dv name ds)" "cv_name (new_ConfigVar ty dv name ds) = name"
    using assms(3,4) by (simp_all add: var_ok_def new_ConfigVar_def name_chars_lower)
  then show ?thesis
    using assms none unfolding config_ok_def put_var_def
    by (auto split: if_splits) (metis option.distinct(1))+
qed

section \<open>Operations on one variable\<close>

text \<open>What an operation may change: the logging system, and nothing of the registry.\<close>

definition only_log :: "'v config \<Rightarrow> 'v config \<Rightarrow> bool" where
  "only_log c c' \<longleftrightarrow> (\<exists>s. c' = c\<lparr>cf_log := s\<rparr> \<and> logsys_ok s)"

lemma only_log_ok: "config_ok c \<Longrightarrow> only_log c c' \<Longrightarrow> config_ok c'"
  by (auto simp: only_log_def config_ok_log)

lemma only_log_refl: "config_ok c \<Longrightarrow> only_log c c"
  unfolding only_log_def by (rule exI [of _ "cf_log c"]) (simp add: config_okD)

lemma only_log_trans: "only_log c c' \<Longrightarrow> only_log c' c'' \<Longrightarrow> only_log c c''"
  by (auto simp: only_log_def)

lemma only_log_same:
  "only_log c c' \<Longrightarrow> cf_vars c' = cf_vars c \<and> cf_next c' = cf_next c \<and> cf_datas c' = cf_datas c \<and>
    cf_func_id c' = cf_func_id c"
  by (auto simp: only_log_def)

lemma in_root_log:
  assumes "config_ok c"
  obtains c' where "in_log (root_log le level msg) c = (Inr (), c')" and "only_log c c'"
proof -
  obtain s where "root_log le level msg (cf_log c) = (Inr (), s)" "logsys_ok s"
    using root_log_returns [OF config_okD(1) [OF assms]] by metis
  then show thesis using that by (auto simp: in_log_def only_log_def)
qed

lemma toString_returns:
  assumes "config_ok c" and "cf_vars c a = Some v"
  obtains c' where "ConfigVar_toString le a c =
    (Inr (case ty_to (cv_type v) (cv_val v) of Inr t \<Rightarrow> t | Inl _ \<Rightarrow> []), c')" and "only_log c c'"
proof (cases "ty_to (cv_type v) (cv_val v)")
  case (Inr t)
  then show ?thesis using assms that only_log_refl [OF assms(1)]
    by (simp add: ConfigVar_toString_def on_var_def catch_std_def)
next
  case (Inl e)
  have "type_ok (cv_type v)" using config_okD(5) [OF assms] by (simp add: var_ok_def)
  then have "std_failure e" using Inl unfolding type_ok_def by blast
  then obtain x where e: "e = Throw x" "is_std_exn x" by (rule std_failureE)
  obtain c' where "in_log (root_log le ERROR (''ConfigVar::toString exception '' @ exn_what x @
      '' convert: '' @ ty_id (cv_type v) @ '' to string'')) c = (Inr (), c')" "only_log c c'"
    using in_root_log [OF assms(1)] by metis
  then show ?thesis using assms(2) that Inl e
    by (simp add: ConfigVar_toString_def on_var_def catch_std_def bindA_def returnA_def)
qed

text \<open>The listeners of a variable, called in the order of their keys.\<close>

definition notify :: "'v ConfigVar \<Rightarrow> 'v \<Rightarrow> (logsys, unit) act" where
  "notify v val = forA (\<lambda>(k, cb). call_cb cb (cv_val v) val) (cv_cbs v)"

lemma forA_callbacks:
  assumes "\<forall>(k, cb) \<in> set cbs. cb_ok cb" and "logsys_ok s"
    and "forA (\<lambda>(k, cb). call_cb cb old new) cbs s = (r, s')"
  shows "logsys_ok s' \<and> (\<forall>e. r = Inl e \<longrightarrow> std_failure e)"
  using assms
proof (induction cbs arbitrary: s)
  case (Cons x cbs)
  obtain k cb where x: "x = (k, cb)" by (cases x)
  obtain q t where q: "call_cb cb old new s = (q, t)" by (cases "call_cb cb old new s")
  have t: "logsys_ok t" "\<And>e. q = Inl e \<Longrightarrow> std_failure e"
    using Cons.prems(1,2) q x unfolding cb_ok_def by auto
  show ?case
  proof (cases q)
    case (Inl e)
    then show ?thesis using Cons.prems(3) q t x by (simp add: bindA_def)
  next
    case (Inr u)
    then have "forA (\<lambda>(k, cb). call_cb cb old new) cbs t = (r, s')"
      using Cons.prems(3) q x by (simp add: bindA_def)
    then show ?thesis using Cons.IH [OF _ t(1)] Cons.prems(1) by simp
  qed
qed auto

lemma notify_ok:
  assumes "config_ok c" and "cf_vars c a = Some v" and "notify v val (cf_log c) = (r, s)"
  shows "logsys_ok s \<and> (\<forall>e. r = Inl e \<longrightarrow> std_failure e)"
proof (rule forA_callbacks)
  show "\<forall>(k, cb) \<in> set (cv_cbs v). cb_ok cb" using config_okD(5) [OF assms(1,2)] by (auto simp: var_ok_def)
qed (use assms config_okD(1) in \<open>auto simp: notify_def\<close>)

lemma setValue_eq:
  assumes "cf_vars c a = Some v"
  shows "ConfigVar_setValue a val c =
    (if ty_eq (cv_type v) (cv_val v) val then (Inr (), c)
     else case notify v val (cf_log c) of
       (Inl e, s) \<Rightarrow> (Inl e, c\<lparr>cf_log := s\<rparr>)
     | (Inr _, s) \<Rightarrow> (Inr (), put_var a (v\<lparr>cv_val := val\<rparr>) (c\<lparr>cf_log := s\<rparr>)))"
  using assms
  by (simp add: ConfigVar_setValue_def on_var_def returnA_def bindA_def in_log_def notify_def split: prod.split sum.split)

lemma var_ok_val [simp]: "var_ok ids (v\<lparr>cv_val := x\<rparr>) = var_ok ids v"
  by (simp add: var_ok_def)

text \<open>The log after a conversion has printed its lines.\<close>

definition printed :: "string list \<Rightarrow> logsys \<Rightarrow> logsys" where
  "printed ls s = fold cout_line ls s"

lemma print_lines_printed: "print_lines ls s = (Inr (), printed ls s)"
  by (induction ls arbitrary: s) (simp_all add: print_lines_def printed_def bindA_def)

lemma printed_Nil [simp]: "printed [] s = s"
  by (simp add: printed_def)

lemma printed_ok: "logsys_ok s \<Longrightarrow> logsys_ok (printed ls s)"
  by (induction ls arbitrary: s) (auto simp: printed_def intro: log_frame_ok cout_line_frame)

lemma convert_text_eq: "convert_text ty tx c = (ty_from ty tx, c\<lparr>cf_log := printed (ty_prints ty tx) (cf_log c)\<rparr>)"
  by (simp add: convert_text_def bindA_def in_log_def print_lines_printed)

text \<open>
  The result of \<open>fromString\<close>: what the variable holds after it, and what it answers.
\<close>

definition accepts :: "'v ConfigVar \<Rightarrow> string \<Rightarrow> logsys \<Rightarrow> 'v option" where
  "accepts v tx s =
     (case ty_from (cv_type v) tx of
        Inl _ \<Rightarrow> None
      | Inr x \<Rightarrow> if ty_eq (cv_type v) (cv_val v) x then Some (cv_val v)
                 else if isl (fst (notify v x (printed (ty_prints (cv_type v) tx) s))) then None else Some x)"

lemma fromString_caught:
  assumes "config_ok c" and "cf_vars c a = Some v" and "std_failure e" and "only_log c d"
    and "bindA (convert_text (cv_type v) tx)
      (\<lambda>x. bindA (ConfigVar_setValue a x) (\<lambda>_. returnA True)) c = (Inl e, d)"
  shows "\<exists>c'. ConfigVar_fromString le a tx c = (Inr False, c') \<and> only_log c c'"
proof -
  obtain x where e: "e = Throw x" "is_std_exn x" using assms(3) by (rule std_failureE)
  obtain c' where c': "in_log (root_log le ERROR (''ConfigVar::fromString exception '' @ exn_what x @
      '' convert: string to'' @ ty_name (cv_type v) @ '' name='' @ cv_name v @ '' - '' @ tx)) d = (Inr (), c')"
      "only_log d c'"
    using in_root_log [OF only_log_ok [OF assms(1,4)]] by metis
  have "ConfigVar_fromString le a tx c = (Inr False, c')"
    using assms(2,5) e c'(1) by (simp add: ConfigVar_fromString_def on_var_def catch_std_def returnA_def)
  then show ?thesis using only_log_trans [OF assms(4) c'(2)] by blast
qed

lemma fromString_result:
  assumes "config_ok c" and "cf_vars c a = Some v"
  shows "\<exists>c'. ConfigVar_fromString le a tx c = (Inr (accepts v tx (cf_log c) \<noteq> None), c') \<and>
    only_log (put_var a (v\<lparr>cv_val := (case accepts v tx (cf_log c) of None \<Rightarrow> cv_val v | Some x \<Rightarrow> x)\<rparr>) c) c'"
proof -
  have same: "put_var a (v\<lparr>cv_val := cv_val v\<rparr>) c = c"
    using assms(2) by (simp add: put_var_def fun_upd_idem)
  have ty: "type_ok (cv_type v)" using config_okD(5) [OF assms] by (simp add: var_ok_def)
  let ?p = "printed (ty_prints (cv_type v) tx) (cf_log c)"
  let ?c = "c\<lparr>cf_log := ?p\<rparr>"
  have p: "logsys_ok ?p" by (rule printed_ok [OF config_okD(1) [OF assms(1)]])
  have c: "config_ok ?c" "cf_vars ?c a = Some v" "only_log c ?c"
    using config_ok_log [OF assms(1) p] assms(2) p by (auto simp: only_log_def)
  show ?thesis
  proof (cases "ty_from (cv_type v) tx")
    case (Inl e)
    then have "std_failure e" using ty unfolding type_ok_def by blast
    then show ?thesis
      using fromString_caught [OF assms _ c(3), of e tx le] Inl same
      by (simp add: accepts_def bindA_def convert_text_eq)
  next
    case (Inr x)
    obtain r s where r: "notify v x ?p = (r, s)" by (cases "notify v x ?p")
    have n: "logsys_ok s" "\<And>e. r = Inl e \<Longrightarrow> std_failure e" using notify_ok [OF c(1,2), of x r s] r by auto
    show ?thesis
    proof (cases "\<not> ty_eq (cv_type v) (cv_val v) x \<and> isl r")
      case True
      then obtain e where e: "r = Inl e" by (auto simp: isl_def)
      have "only_log c (c\<lparr>cf_log := s\<rparr>)" using n by (auto simp: only_log_def)
      then show ?thesis
        using fromString_caught [OF assms, of e "c\<lparr>cf_log := s\<rparr>" tx le] n e Inr r True same
        by (simp add: accepts_def bindA_def convert_text_eq setValue_eq [OF c(2)])
    next
      case False
      have "only_log (put_var a w c) (put_var a w (c\<lparr>cf_log := s\<rparr>))" for w
        unfolding only_log_def by (rule exI [of _ s]) (use n in \<open>simp add: put_var_def\<close>)
      then show ?thesis
        using False c assms(2) Inr r same
        by (cases r) (auto simp: ConfigVar_fromString_def on_var_def catch_std_def bindA_def accepts_def
            convert_text_eq setValue_eq [OF c(2)] returnA_def)
    qed
  qed
qed


section \<open>The remaining operations keep the invariant\<close>

lemma setValue_ok:
  assumes "config_ok c" and "cf_vars c a = Some v"
  shows "config_ok (snd (ConfigVar_setValue a val c))"
proof -
  obtain r s where r: "notify v val (cf_log c) = (r, s)" by (cases "notify v val (cf_log c)")
  have s: "config_ok (c\<lparr>cf_log := s\<rparr>)" using notify_ok [OF assms r] config_ok_log [OF assms(1)] by blast
  then have "config_ok (put_var a (v\<lparr>cv_val := val\<rparr>) (c\<lparr>cf_log := s\<rparr>))"
    using assms config_okD(5) [OF assms] by (intro config_ok_put) auto
  then show ?thesis using s r assms by (auto simp: setValue_eq [OF assms(2)] split: sum.split)
qed

lemma fromString_ok:
  assumes "config_ok c" and "cf_vars c a = Some v"
  shows "config_ok (snd (ConfigVar_fromString le a tx c))"
proof -
  have "config_ok (put_var a (v\<lparr>cv_val := x\<rparr>) c)" for x
    using assms config_okD(5) [OF assms] by (intro config_ok_put) auto
  then show ?thesis using fromString_result [OF assms, of le tx] only_log_ok by fastforce
qed

lemma cbs_shrink_ok:
  "var_ok ids v \<Longrightarrow> map_ok m \<Longrightarrow> set m \<subseteq> set (cv_cbs v) \<Longrightarrow> var_ok ids (v\<lparr>cv_cbs := m\<rparr>)"
  by (auto simp: var_ok_def)

lemma delListener_ok:
  assumes "config_ok c" and "cf_vars c a = Some v"
  shows "config_ok (snd (ConfigVar_delListener a k c))" and "config_ok (snd (ConfigVar_clearListener a c))"
proof -
  have v: "var_ok (cf_func_id c) v" by (rule config_okD(5) [OF assms])
  then have "map_ok (map_erase k (cv_cbs v))" by (auto simp: var_ok_def)
  then have "var_ok (cf_func_id c) (v\<lparr>cv_cbs := map_erase k (cv_cbs v)\<rparr>)"
    by (rule cbs_shrink_ok [OF v]) (auto simp: map_erase_def)
  then show "config_ok (snd (ConfigVar_delListener a k c))"
    using assms by (simp add: ConfigVar_delListener_def on_var_def config_ok_put)
  have "var_ok (cf_func_id c) (v\<lparr>cv_cbs := []\<rparr>)" by (rule cbs_shrink_ok [OF v]) simp_all
  then show "config_ok (snd (ConfigVar_clearListener a c))"
    using assms by (simp add: ConfigVar_clearListener_def on_var_def config_ok_put)
qed

text \<open>A new listener gets a key that no listener of the variable has, as long as the counter does not wrap.\<close>

lemma addListener_result:
  assumes "config_ok c" and "cf_vars c a = Some v" and "cf_func_id c (ty_id (cv_type v)) \<noteq> - 1" and "cb_ok cb"
  shows "let k = cf_func_id c (ty_id (cv_type v)) + 1;
      c' = put_var a (v\<lparr>cv_cbs := map_put k cb (cv_cbs v)\<rparr>) (c\<lparr>cf_func_id := (cf_func_id c)(ty_id (cv_type v) := k)\<rparr>)
    in ConfigVar_addListener a cb c = (Inr k, c') \<and> config_ok c' \<and> map_of (cv_cbs v) k = None"
proof -
  let ?t = "ty_id (cv_type v)"
  let ?k = "cf_func_id c ?t + 1"
  have less: "cf_func_id c ?t < ?k" using assms(3) by (rule less_inc_word)
  have v: "var_ok (cf_func_id c) v" by (rule config_okD(5) [OF assms(1,2)])
  have none: "map_of (cv_cbs v) ?k = None"
    using v less by (force simp: map_of_eq_None_iff var_ok_def)
  have up: "var_ok (cf_func_id c) w \<Longrightarrow> var_ok ((cf_func_id c)(?t := ?k)) w" for w :: "'a ConfigVar"
    using less by (fastforce simp: var_ok_def)
  have "var_ok ((cf_func_id c)(?t := ?k)) (v\<lparr>cv_cbs := map_put ?k cb (cv_cbs v)\<rparr>)"
    using up [OF v] assms(4) set_map_put [of ?k cb "cv_cbs v"] by (fastforce simp: var_ok_def)
  moreover have "config_ok (c\<lparr>cf_func_id := (cf_func_id c)(?t := ?k)\<rparr>)"
    using assms(1) up by (simp add: config_ok_def)
  ultimately show ?thesis
    using assms(2) none
    by (simp add: Let_def ConfigVar_addListener_def on_var_def map_insert_def config_ok_put)
qed

end
