(* ===== verification/ConfigBehaviour.thy ===== *)
theory ConfigBehaviour
  imports ConfigInvariants
begin

text \<open>
  What \<open>Config::Lookup\<close> answers in every case, the members that \<open>ListAllMember\<close> finds and the
  values that \<open>LoadFromYaml\<close> leaves, and the registry as a step relation over its operations.
\<close>

section \<open>Lookup\<close>

lemma Lookup_found:
  assumes "config_ok c" and "map_of (cf_datas c) name = Some a" and "cf_vars c a = Some v"
  shows "\<exists>c'. Lookup le ty dv name ds c = (Inr (if ty_id (cv_type v) = ty_id ty then Some a else None), c') \<and> only_log c c'"
proof (cases "ty_id (cv_type v) = ty_id ty")
  case True
  obtain c' where "in_log (root_log le INFO (''Looup name: '' @ name @ '' exists'')) c = (Inr (), c')" "only_log c c'"
    using in_root_log [OF assms(1)] by metis
  then show ?thesis using assms True by (simp add: Lookup_def on_var_def bindA_def returnA_def)
next
  case False
  obtain t d where d: "(if root_passes ERROR (cf_log c) then ConfigVar_toString le a c else (Inr [], c)) = (Inr t, d)" "only_log c d"
  proof (cases "root_passes ERROR (cf_log c)")
    case True
    obtain d where "ConfigVar_toString le a c =
        (Inr (case ty_to (cv_type v) (cv_val v) of Inr t \<Rightarrow> t | Inl _ \<Rightarrow> []), d)" "only_log c d"
      by (rule toString_returns [OF assms(1,3)])
    then show thesis using that True by simp
  qed (use that only_log_refl [OF assms(1)] in simp)
  obtain c' where "in_log (root_log le ERROR (''Lookup name='' @ name @ '' exists but type not '' @
      ty_name ty @ '' real_type='' @ ty_name (cv_type v) @ '' '' @ t)) d = (Inr (), c')" "only_log d c'"
    using in_root_log [OF only_log_ok [OF assms(1) d(2)]] by metis
  then show ?thesis using assms False d only_log_trans [OF d(2)]
    by (simp add: Lookup_def on_var_def bindA_def returnA_def)
qed

lemma Lookup_invalid:
  assumes "config_ok c" and "map_of (cf_datas c) name = None" and "\<not> valid_name name"
  shows "\<exists>c'. Lookup le ty dv name ds c = (Inl (Throw (Invalid_argument name)), c') \<and> only_log c c'"
proof -
  obtain c' where "in_log (root_log le ERROR (''Lookup name invalid '' @ name)) c = (Inr (), c')" "only_log c c'"
    using in_root_log [OF assms(1)] by metis
  then show ?thesis using assms by (auto simp: Lookup_def bindA_def valid_name_def)
qed

lemma Lookup_new:
  assumes "map_of (cf_datas c) name = None" and "valid_name name"
  shows "Lookup le ty dv name ds c = (Inr (Some (cf_next c)),
    (put_var (cf_next c) (new_ConfigVar ty dv name ds) c)
      \<lparr>cf_next := Suc (cf_next c), cf_datas := map_put name (cf_next c) (cf_datas c)\<rparr>)"
  using assms by (simp add: Lookup_def valid_name_def map_insert_def put_var_def Let_def)

text \<open>What an operation leaves of the registry: names keep their variables, variables their types.\<close>

definition config_grows :: "'v config \<Rightarrow> 'v config \<Rightarrow> bool" where
  "config_grows c c' \<longleftrightarrow>
     (\<forall>name a. map_of (cf_datas c) name = Some a \<longrightarrow> map_of (cf_datas c') name = Some a) \<and>
     (\<forall>a v. cf_vars c a = Some v \<longrightarrow> (\<exists>v'. cf_vars c' a = Some v' \<and> cv_name v' = cv_name v \<and>
        cv_type v' = cv_type v \<and> cv_description v' = cv_description v))"

lemma config_grows_refl [simp]: "config_grows c c"
  by (simp add: config_grows_def)

lemma config_grows_trans: "config_grows c d \<Longrightarrow> config_grows d e \<Longrightarrow> config_grows c e"
  unfolding config_grows_def by (intro conjI allI impI) (blast, metis)

lemma only_log_grows: "only_log c c' \<Longrightarrow> config_grows c c'"
  by (auto simp: only_log_def config_grows_def)

lemma put_grows:
  "cf_vars c a = Some v \<Longrightarrow> cv_name v' = cv_name v \<Longrightarrow> cv_type v' = cv_type v \<Longrightarrow>
    cv_description v' = cv_description v \<Longrightarrow> config_grows c (put_var a v' c)"
  by (simp add: config_grows_def put_var_def)

text \<open>An operation that keeps the invariant and the registry, whatever its result.\<close>

definition keeps :: "'v config \<Rightarrow> 'v config \<Rightarrow> bool" where
  "keeps c c' \<longleftrightarrow> config_ok c' \<and> config_grows c c'"

lemma keeps_trans: "keeps c d \<Longrightarrow> keeps d e \<Longrightarrow> keeps c e"
  using config_grows_trans by (auto simp: keeps_def)

lemma only_log_keeps: "config_ok c \<Longrightarrow> only_log c c' \<Longrightarrow> keeps c c'"
  by (simp add: keeps_def only_log_ok only_log_grows)

lemma Lookup_keeps:
  assumes "config_ok c" and "type_ok ty"
  shows "keeps c (snd (Lookup le ty dv name ds c))"
proof (cases "map_of (cf_datas c) name")
  case (Some a)
  then obtain v where "cf_vars c a = Some v" using config_okD(4) [OF assms(1)] by blast
  then show ?thesis
    using Lookup_found [OF assms(1) Some, of v le ty dv ds] only_log_keeps [OF assms(1)] by auto
next
  case None
  show ?thesis
  proof (cases "valid_name name")
    case True
    have "cf_vars c (cf_next c) = None" using fresh_in_None [OF config_okD(2) [OF assms(1)]] .
    then show ?thesis
      using config_ok_new [OF assms(1) None True assms(2), of dv ds] None
      unfolding Lookup_new [OF None True] snd_conv
      by (auto simp: keeps_def config_grows_def put_var_def)
  next
    case False
    then show ?thesis using Lookup_invalid [OF assms(1) None False, of le ty dv ds] only_log_keeps [OF assms(1)] by auto
  qed
qed

lemma setValue_keeps:
  assumes "config_ok c" and "cf_vars c a = Some v"
  shows "keeps c (snd (ConfigVar_setValue a val c))"
proof -
  have "config_grows c (snd (ConfigVar_setValue a val c))"
    using assms(2) unfolding setValue_eq [OF assms(2)]
    by (auto simp: config_grows_def put_var_def split: prod.split sum.split)
  then show ?thesis using setValue_ok [OF assms] by (simp add: keeps_def)
qed

lemma fromString_keeps:
  assumes "config_ok c" and "cf_vars c a = Some v"
  shows "keeps c (snd (ConfigVar_fromString le a tx c))"
proof -
  have "config_grows c (put_var a (v\<lparr>cv_val := x\<rparr>) c)" for x using assms(2) by (intro put_grows) simp_all
  then have "config_grows c (snd (ConfigVar_fromString le a tx c))"
    using fromString_result [OF assms, of le tx] only_log_grows config_grows_trans by fastforce
  then show ?thesis using fromString_ok [OF assms] by (simp add: keeps_def)
qed

section \<open>Members of a document\<close>

text \<open>
  A document no deeper than \<open>d\<close> whose map keys are scalars; the library gives the text of scalars.
\<close>

primrec document :: "nat \<Rightarrow> 'n yaml \<Rightarrow> 'n \<Rightarrow> bool" where
  "document 0 y node = False"
| "document (Suc d) y node \<longleftrightarrow> (y_is_scalar y node \<longrightarrow> (\<exists>t. y_scalar y node = Inr t)) \<and>
     (y_is_map y node \<longrightarrow>
       (\<forall>(first, second) \<in> set (y_entries y node). (\<exists>k. y_scalar y first = Inr k) \<and> document d y second))"

text \<open>The members that a load considers, with their dotted names, in document order.\<close>

definition join_name :: "string \<Rightarrow> string \<Rightarrow> string" where
  "join_name prefx k = (if prefx = [] then k else prefx @ ''.'' @ k)"

primrec members :: "nat \<Rightarrow> 'n yaml \<Rightarrow> string \<Rightarrow> 'n \<Rightarrow> (string \<times> 'n) list" where
  "members 0 y prefx node = []"
| "members (Suc d) y prefx node =
     (if \<not> valid_name prefx then []
      else (prefx, node) #
        (if y_is_map y node
         then concat (map (\<lambda>(first, second). members d y (join_name prefx (projr (y_scalar y first))) second) (y_entries y node))
         else []))"

lemma members_valid: "(p, n) \<in> set (members d y prefx node) \<Longrightarrow> valid_name p"
  by (induction d arbitrary: prefx node) (auto split: if_splits)

lemma members_document:
  "document d y node \<Longrightarrow> (p, n) \<in> set (members d y prefx node) \<Longrightarrow> y_is_scalar y n \<Longrightarrow> \<exists>t. y_scalar y n = Inr t"
proof (induction d arbitrary: prefx node)
  case (Suc d)
  consider "n = node" | f s q where "y_is_map y node" "(f, s) \<in> set (y_entries y node)" "(p, n) \<in> set (members d y q s)"
    using Suc.prems(2) by (auto split: if_splits)
  then show ?case
  proof cases
    case 1
    then show ?thesis using Suc.prems by simp
  next
    case 2
    then show ?thesis using Suc.IH [OF _ 2(3)] Suc.prems by auto
  qed
qed simp

lemma ListAllMember_members:
  assumes "document d y node" and "logsys_ok s"
  shows "\<exists>s'. ListAllMember d y le prefx node (outp, s) = (Inr (), (outp @ members d y prefx node, s')) \<and> logsys_ok s'"
  using assms
proof (induction d arbitrary: prefx node outp s)
  case (Suc d)
  show ?case
  proof (cases "valid_name prefx")
    case False
    obtain s' where "root_log le ERROR (''Config invalid name: '' @ prefx @ '' : '' @ y_emit y node) s = (Inr (), s')" "logsys_ok s'"
      using root_log_returns [OF Suc.prems(2)] by metis
    then show ?thesis using False by (auto simp: valid_name_def)
  next
    case True
    let ?f = "\<lambda>(first, second). bindA (\<lambda>st. (y_scalar y first, st)) (\<lambda>k.
        ListAllMember d y le (if prefx = [] then k else prefx @ ''.'' @ k) second)"
    let ?m = "\<lambda>(first, second). members d y (join_name prefx (projr (y_scalar y first))) second"
    have loop: "\<exists>s'. forA ?f es (out, s) = (Inr (), (out @ concat (map ?m es), s')) \<and> logsys_ok s'"
      if "logsys_ok s" "\<forall>(first, second) \<in> set es. (\<exists>k. y_scalar y first = Inr k) \<and> document d y second" for es out s
      using that
    proof (induction es arbitrary: out s)
      case (Cons e es)
      obtain f n k where e: "e = (f, n)" "y_scalar y f = Inr k" "document d y n" using Cons.prems(2) by (cases e) auto
      obtain s1 where "ListAllMember d y le (join_name prefx k) n (out, s) = (Inr (), (out @ members d y (join_name prefx k) n, s1))" "logsys_ok s1"
        using Suc.IH [OF e(3) Cons.prems(1)] by blast
      then show ?case
        using Cons.IH [of s1 "out @ members d y (join_name prefx k) n"] Cons.prems(2) e
        by (auto simp: bindA_def join_name_def)
    qed simp
    show ?thesis
    proof (cases "y_is_map y node")
      case map: True
      then show ?thesis
        using loop [OF Suc.prems(2), of "y_entries y node" "outp @ [(prefx, node)]"] Suc.prems(1) True
        by (auto simp: valid_name_def)
    next
      case False
      then show ?thesis using Suc.prems(2) True by (simp add: valid_name_def)
    qed
  qed
qed simp

lemma ListAllMember_ok:
  "logsys_ok (snd st) \<Longrightarrow> logsys_ok (snd (snd (ListAllMember d y le prefx node st)))"
proof (induction d arbitrary: prefx node st)
  case (Suc d)
  obtain out s where st: "st = (out, s)" by (cases st)
  obtain s' where s': "root_log le ERROR (''Config invalid name: '' @ prefx @ '' : '' @ y_emit y node) s = (Inr (), s')" "logsys_ok s'"
    using root_log_returns [of s] Suc.prems st by (metis snd_conv)
  let ?f = "\<lambda>(first, second). bindA (\<lambda>st. (y_scalar y first, st)) (\<lambda>k.
      ListAllMember d y le (if prefx = [] then k else prefx @ ''.'' @ k) second)"
  have step: "logsys_ok (snd (snd (?f x st)))" if "logsys_ok (snd st)" for x st
    using Suc.IH that by (auto simp: bindA_def split: sum.split prod.split)
  have "logsys_ok (snd (snd (forA ?f es st)))" if "logsys_ok (snd st)" for es st
    by (rule forA_keeps [where P = "\<lambda>st. logsys_ok (snd st)"]) (use step that in auto)
  then show ?case using Suc.prems st s' by (auto split: prod.split)
qed simp

section \<open>Loading\<close>

lemma load_member_keeps:
  assumes "config_ok c"
  shows "keeps c (snd (load_member y le i c))"
proof -
  obtain p n where i: "i = (p, n)" by (cases i)
  show ?thesis
  proof (cases "map_of (cf_datas c) (map to_lower p)")
    case None
    then show ?thesis using assms i by (simp add: load_member_def LookupBase_def keeps_def)
  next
    case (Some a)
    then obtain v where v: "cf_vars c a = Some v" using config_okD(4) [OF assms] by blast
    have tail: "snd (bindA (ConfigVar_fromString le a tx) (\<lambda>_. returnA ()) c) = snd (ConfigVar_fromString le a tx c)" for tx
      by (simp add: bindA_def returnA_def split: sum.split prod.split)
    show ?thesis
    proof (cases "p \<noteq> [] \<and> y_is_scalar y n")
      case True
      then show ?thesis
        using fromString_keeps [OF assms v, of le] assms Some i
        by (cases "y_scalar y n") (simp_all add: load_member_def LookupBase_def bindA_assoc tail bindA_def [of "Pair _"] keeps_def)
    next
      case False
      then show ?thesis
        using fromString_keeps [OF assms v, of le] assms Some i
        by (auto simp: load_member_def LookupBase_def tail keeps_def)
    qed
  qed
qed

lemma LoadFromYaml_keeps:
  assumes "config_ok c"
  shows "keeps c (snd (LoadFromYaml d y le root c))"
proof -
  obtain r out s where l: "ListAllMember d y le [] root ([], cf_log c) = (r, (out, s))"
    by (metis prod.exhaust)
  then have "logsys_ok s" using ListAllMember_ok [of "([], cf_log c)" d y le "[]" root] config_okD(1) [OF assms] by simp
  then have ol: "only_log c (c\<lparr>cf_log := s\<rparr>)" by (auto simp: only_log_def)
  then have start: "keeps c (c\<lparr>cf_log := s\<rparr>)" by (rule only_log_keeps [OF assms])
  have "keeps c (snd (forA (load_member y le) out (c\<lparr>cf_log := s\<rparr>)))"
  proof (rule forA_keeps [where P = "keeps c"])
    fix x d assume "keeps c d"
    then show "keeps c (snd (load_member y le x d))"
      using load_member_keeps [of d] keeps_trans unfolding keeps_def by blast
  qed (rule start)
  then show ?thesis using l start by (auto simp: LoadFromYaml_def split: sum.split)
qed

end
