(* ===== verification/LogConfigProps.thy ===== *)
theory LogConfigProps
  imports LogConfig ConfigBehaviour
begin

text \<open>
  What the configuration of the logging system does: the listener brings the loggers to the state
  that the new definitions describe, and two mistakes in the definitions, appender levels that are
  read from the wrong node and an equality that ignores the appenders.
\<close>

section \<open>The listener\<close>

lemma printed_stdout: "printed ls s = s\<lparr>ls_stdout := ls_stdout s @ concat (map (\<lambda>l. l @ newline) ls)\<rparr>"
  by (induction ls arbitrary: s) (simp_all add: printed_def cout_line_def)

lemma print_lines_eq: "print_lines ls s = (Inr (), s\<lparr>ls_stdout := ls_stdout s @ concat (map (\<lambda>l. l @ newline) ls)\<rparr>)"
  by (simp add: print_lines_printed printed_stdout)

definition known_type :: "LogAppenderDefine \<Rightarrow> bool" where
  "known_type d \<longleftrightarrow> lad_type d = 1 \<or> lad_type d = 2"

text \<open>The formatter that a definition asks for: the default one when it has none or a wrong one.\<close>

definition chosen_formatter :: "string \<Rightarrow> LogFormatter" where
  "chosen_formatter p =
     (if p = [] \<or> fmt_error (fst (new_LogFormatter p)) then fst (new_LogFormatter default_pattern)
      else fst (new_LogFormatter p))"

definition appender_matches :: "logsys \<Rightarrow> addr \<Rightarrow> LogAppenderDefine \<Rightarrow> bool" where
  "appender_matches s ap d \<longleftrightarrow> (\<exists>x. ls_appenders s ap = Some x \<and> ap_level x = lad_level d \<and>
     ap_formatter x = Some (chosen_formatter (lad_formatter d)) \<and>
     (if lad_type d = 1 then \<exists>os. ap_sink x = File_sink (lad_file d) os 0 else ap_sink x = Stdout_sink))"

definition logger_matches :: "logsys \<Rightarrow> LogDefine \<Rightarrow> bool" where
  "logger_matches s d \<longleftrightarrow> (\<exists>a lg. map_of (mgr_loggers s) (ld_name d) = Some a \<and> ls_loggers s a = Some lg \<and>
     lg_level lg = ld_level d \<and> list_all2 (appender_matches s) (lg_appenders lg) (filter known_type (ld_appenders d)))"

lemma add_appender_ok:
  assumes "logsys_ok s" and "ls_loggers s a = Some lg" and "ap_formatter x \<noteq> None"
  shows "logsys_ok (s\<lparr>ls_appenders := (ls_appenders s)(ls_next_appender s \<mapsto> x), ls_next_appender := Suc (ls_next_appender s),
    ls_stdout := out, ls_loggers := (ls_loggers s)(a \<mapsto> lg\<lparr>lg_appenders := lg_appenders lg @ [ls_next_appender s]\<rparr>)\<rparr>)"
    (is "logsys_ok ?s")
proof -
  let ?s1 = "snd (alloc_appender x s)"
  have s1: "logsys_ok ?s1" "ls_appenders ?s1 (ls_next_appender s) \<noteq> None"
    using alloc_appender_ok [OF assms(1,3)] by (simp_all add: alloc_appender_def Let_def)
  have "logsys_ok (?s1\<lparr>ls_stdout := out\<rparr>)"
    using s1(1) by (simp add: logsys_ok_def logger_ok_def)
  moreover have "Logger_addAppender a (ls_next_appender s) (?s1\<lparr>ls_stdout := out\<rparr>) = Inr ?s"
    using assms(2) by (simp add: Logger_addAppender_def with_logger_def alloc_appender_def Let_def)
  moreover have "ls_appenders (?s1\<lparr>ls_stdout := out\<rparr>) (ls_next_appender s) \<noteq> None" using s1(2) by simp
  ultimately show ?thesis using logger_setters_ok(2) by blast
qed

text \<open>One appender of a definition.\<close>

lemma add_defined_appender_known:
  assumes "logsys_ok s" and "ls_loggers s a = Some lg" and "known_type d"
  shows "\<exists>x out. add_defined_appender le name a d s = (Inr (), s\<lparr>ls_appenders := (ls_appenders s)(ls_next_appender s \<mapsto> x),
      ls_next_appender := Suc (ls_next_appender s), ls_stdout := out,
      ls_loggers := (ls_loggers s)(a \<mapsto> lg\<lparr>lg_appenders := lg_appenders lg @ [ls_next_appender s]\<rparr>)\<rparr>) \<and>
    ap_level x = lad_level d \<and> ap_formatter x = Some (chosen_formatter (lad_formatter d)) \<and>
    (if lad_type d = 1 then \<exists>os. ap_sink x = File_sink (lad_file d) os 0 else ap_sink x = Stdout_sink)"
proof -
  obtain fmt ls where fmt: "new_LogFormatter (lad_formatter d) = (fmt, ls)"
    by (cases "new_LogFormatter (lad_formatter d)")
  let ?k = "if lad_type d = 1 then File_sink (lad_file d) (fst (reopen (le_disk le) (lad_file d) new_ofstream)) 0 else Stdout_sink"
  let ?x = "\<lparr>ap_level = lad_level d, ap_formatter = Some (chosen_formatter (lad_formatter d)), ap_sink = ?k\<rparr>"
  let ?m = "''log.name='' @ name @ '' appender type='' @ int_str (lad_type d) @ '' formatter='' @ lad_formatter d @ '' is invalid''"
  let ?out = "ls_stdout s @ (if lad_formatter d = [] then [] else concat (map (\<lambda>l. l @ newline) ls) @
      (if fmt_error fmt then ?m @ newline else []))"
  have "add_defined_appender le name a d s = (Inr (), s\<lparr>ls_appenders := (ls_appenders s)(ls_next_appender s \<mapsto> ?x),
      ls_next_appender := Suc (ls_next_appender s), ls_stdout := ?out,
      ls_loggers := (ls_loggers s)(a \<mapsto> lg\<lparr>lg_appenders := lg_appenders lg @ [ls_next_appender s]\<rparr>)\<rparr>)"
    using assms(2,3) fmt
    by (cases "lad_formatter d = []"; cases "fmt_error fmt"; cases "lad_type d = 1")
      (simp_all add: add_defined_appender_def new_FileLogAppender_def new_StdoutLogAppender_def
        alloc_appender_def Let_def known_type_def bindA_def logsys_op_def log_defs returnA_def print_lines_eq chosen_formatter_def)
  then show ?thesis by (intro exI [of _ ?x] exI [of _ ?out]) simp
qed

definition appenders_extend :: "logsys \<Rightarrow> logsys \<Rightarrow> bool" where
  "appenders_extend s s' \<longleftrightarrow> (\<forall>b x. ls_appenders s b = Some x \<longrightarrow> ls_appenders s' b = Some x)"

lemma appender_matches_extend:
  "appender_matches s ap d \<Longrightarrow> appenders_extend s s' \<Longrightarrow> appender_matches s' ap d"
  by (auto simp: appender_matches_def appenders_extend_def)

lemma add_defined_appenders:
  assumes "logsys_ok s" and "ls_loggers s a = Some lg"
  shows "\<exists>s' aps. forA (add_defined_appender le name a) ds s = (Inr (), s') \<and> logsys_ok s' \<and>
    ls_loggers s' = (ls_loggers s)(a \<mapsto> lg\<lparr>lg_appenders := lg_appenders lg @ aps\<rparr>) \<and>
    mgr_loggers s' = mgr_loggers s \<and> mgr_root s' = mgr_root s \<and> appenders_extend s s' \<and>
    list_all2 (appender_matches s') aps (filter known_type ds)"
  using assms
proof (induction ds arbitrary: s lg)
  case Nil
  then show ?case
    by (intro exI [of _ s] exI [of _ "[]"]) (simp add: fun_upd_idem appenders_extend_def)
next
  case (Cons d ds)
  show ?case
  proof (cases "known_type d")
    case False
    then have "add_defined_appender le name a d s = (Inr (), s)"
      by (simp add: add_defined_appender_def known_type_def returnA_def)
    then show ?thesis using Cons.IH [OF Cons.prems] False by simp
  next
    case True
    let ?ap = "ls_next_appender s"
    obtain x out where x: "add_defined_appender le name a d s = (Inr (), s\<lparr>ls_appenders := (ls_appenders s)(?ap \<mapsto> x),
        ls_next_appender := Suc ?ap, ls_stdout := out,
        ls_loggers := (ls_loggers s)(a \<mapsto> lg\<lparr>lg_appenders := lg_appenders lg @ [?ap]\<rparr>)\<rparr>)" (is "_ = (_, ?s1)")
      and fx: "ap_level x = lad_level d" "ap_formatter x = Some (chosen_formatter (lad_formatter d))"
        "if lad_type d = 1 then \<exists>os. ap_sink x = File_sink (lad_file d) os 0 else ap_sink x = Stdout_sink"
      using add_defined_appender_known [OF Cons.prems True, of le name] by blast
    let ?lg = "lg\<lparr>lg_appenders := lg_appenders lg @ [?ap]\<rparr>"
    have ok: "logsys_ok ?s1" using fx(2) by (intro add_appender_ok Cons.prems) simp
    have lg: "ls_loggers ?s1 a = Some ?lg" by simp
    have ext: "appenders_extend s ?s1"
      using fresh_in_None [OF logsys_okD(2) [OF Cons.prems(1)]] by (auto simp: appenders_extend_def)
    have m: "appender_matches ?s1 ?ap d" using fx by (simp add: appender_matches_def)
    obtain s' aps where s': "forA (add_defined_appender le name a) ds ?s1 = (Inr (), s')" "logsys_ok s'"
        "ls_loggers s' = (ls_loggers ?s1)(a \<mapsto> ?lg\<lparr>lg_appenders := lg_appenders ?lg @ aps\<rparr>)"
        "mgr_loggers s' = mgr_loggers ?s1" "mgr_root s' = mgr_root ?s1" "appenders_extend ?s1 s'"
        "list_all2 (appender_matches s') aps (filter known_type ds)"
      using Cons.IH [OF ok lg] by blast
    have "forA (add_defined_appender le name a) (d # ds) s = (Inr (), s')" using x s'(1) by (simp add: bindA_def)
    moreover have "list_all2 (appender_matches s') (?ap # aps) (filter known_type (d # ds))"
      using s'(7) True appender_matches_extend [OF m s'(6)] by simp
    moreover have "appenders_extend s s'" using ext s'(6) by (simp add: appenders_extend_def)
    ultimately show ?thesis using s'(2-5) by (intro exI [of _ s'] exI [of _ "?ap # aps"]) simp
  qed
qed


text \<open>What the configuration of one logger leaves: the loggers of other names, and every appender.\<close>

definition kept_except :: "string \<Rightarrow> logsys \<Rightarrow> logsys \<Rightarrow> bool" where
  "kept_except n s s' \<longleftrightarrow> appenders_extend s s' \<and>
     (\<forall>m a. m \<noteq> n \<longrightarrow> map_of (mgr_loggers s) m = Some a \<longrightarrow>
        map_of (mgr_loggers s') m = Some a \<and> ls_loggers s' a = ls_loggers s a)"

lemma kept_except_refl [simp]: "kept_except n s s"
  by (simp add: kept_except_def appenders_extend_def)

lemma kept_exceptD:
  "kept_except k s s' \<Longrightarrow> n \<noteq> k \<Longrightarrow> map_of (mgr_loggers s) n = Some a \<Longrightarrow>
    map_of (mgr_loggers s') n = Some a \<and> ls_loggers s' a = ls_loggers s a"
  unfolding kept_except_def by blast

lemma kept_except_matches:
  assumes "kept_except n s s'" and "ld_name d \<noteq> n" and "logger_matches s d"
  shows "logger_matches s' d"
proof -
  obtain a lg where a: "map_of (mgr_loggers s) (ld_name d) = Some a" "ls_loggers s a = Some lg"
      "lg_level lg = ld_level d" "list_all2 (appender_matches s) (lg_appenders lg) (filter known_type (ld_appenders d))"
    using assms(3) by (auto simp: logger_matches_def)
  have "list_all2 (appender_matches s') (lg_appenders lg) (filter known_type (ld_appenders d))"
    using a(4) by (rule list_all2_mono) (use assms(1) appender_matches_extend kept_except_def in blast)
  then show ?thesis using a assms(1,2) by (auto simp: logger_matches_def kept_except_def)
qed

text \<open>Looking a logger up by its name and resetting it, as both loops of the listener begin.\<close>

lemma reset_logger:
  assumes "logsys_ok s"
  shows "\<exists>a s' lg. bindA (logsys_get (getLogger n)) (\<lambda>logger.
      bindA (logsys_op (Logger_setLevel logger level)) (\<lambda>_.
      bindA (logsys_op (Logger_clearAppenders logger)) (\<lambda>_. k logger))) s = k a s' \<and>
    logsys_ok s' \<and> kept_except n s s' \<and> map_of (mgr_loggers s') n = Some a \<and> ls_loggers s' a = Some lg \<and>
    lg_name lg = n \<and> lg_level lg = level \<and> lg_appenders lg = []"
proof -
  obtain a s1 where g: "getLogger n s = Inr (a, s1)" using getLogger_cases [OF assms, of n] by metis
  note gok = getLogger_ok [OF assms g]
  then obtain lg where lg: "ls_loggers s1 a = Some lg" "lg_name lg = n" by blast
  have kept: "kept_except n s s1"
    using assms
  proof (cases rule: getLogger_cases [where name = n])
    case (created b t)
    then show ?thesis
      using g logsys_okD(4) [OF assms] by (fastforce simp: kept_except_def appenders_extend_def)
  qed (use g in simp)
  let ?lg1 = "lg\<lparr>lg_level := level\<rparr>" and ?lg = "lg\<lparr>lg_level := level, lg_appenders := []\<rparr>"
  let ?s2 = "s1\<lparr>ls_loggers := (ls_loggers s1)(a \<mapsto> ?lg1)\<rparr>" and ?s3 = "s1\<lparr>ls_loggers := (ls_loggers s1)(a \<mapsto> ?lg)\<rparr>"
  have ops: "Logger_setLevel a level s1 = Inr ?s2" "Logger_clearAppenders a ?s2 = Inr ?s3"
    using lg by (simp_all add: Logger_setLevel_def Logger_clearAppenders_def with_logger_def)
  then have "logsys_ok ?s3" using gok logger_setters_ok(1,4) by blast
  moreover have "b \<noteq> a" if "m \<noteq> n" "map_of (mgr_loggers s) m = Some b" for m b
    using kept that logsys_okD(4) [of s1 m b] gok lg by (auto simp: kept_except_def)
  then have "kept_except n s ?s3" using kept by (auto simp: kept_except_def appenders_extend_def)
  ultimately show ?thesis
    using g ops gok lg by (intro exI [of _ a] exI [of _ ?s3] exI [of _ ?lg]) (simp add: bindA_def logsys_get_def logsys_op_def)
qed

definition unchanged_in :: "LogDefine list \<Rightarrow> LogDefine \<Rightarrow> bool" where
  "unchanged_in old i \<longleftrightarrow> (case set_find ld_name i old of None \<Rightarrow> False | Some j \<Rightarrow> LogDefine_eq i j)"

lemma apply_define_result:
  assumes "logsys_ok s"
  shows "\<exists>s'. apply_define le old i s = (Inr (), s') \<and> logsys_ok s' \<and> kept_except (ld_name i) s s' \<and>
    (if unchanged_in old i then s' = s else logger_matches s' i)"
proof (cases "unchanged_in old i")
  case True
  then show ?thesis using assms by (simp add: apply_define_def unchanged_in_def returnA_def)
next
  case False
  obtain a s1 lg where s1: "apply_define le old i s = forA (add_defined_appender le (ld_name i) a) (ld_appenders i) s1"
      "logsys_ok s1" "kept_except (ld_name i) s s1" "map_of (mgr_loggers s1) (ld_name i) = Some a"
      "ls_loggers s1 a = Some lg" "lg_name lg = ld_name i" "lg_level lg = ld_level i" "lg_appenders lg = []"
    using reset_logger [OF assms, of "ld_name i" "ld_level i" "\<lambda>logger. forA (add_defined_appender le (ld_name i) logger) (ld_appenders i)"] False
    by (auto simp: apply_define_def unchanged_in_def)
  obtain s' aps where s': "forA (add_defined_appender le (ld_name i) a) (ld_appenders i) s1 = (Inr (), s')" "logsys_ok s'"
      "ls_loggers s' = (ls_loggers s1)(a \<mapsto> lg\<lparr>lg_appenders := lg_appenders lg @ aps\<rparr>)"
      "mgr_loggers s' = mgr_loggers s1" "appenders_extend s1 s'"
      "list_all2 (appender_matches s') aps (filter known_type (ld_appenders i))"
    using add_defined_appenders [OF s1(2,5)] by blast
  have "logger_matches s' i" using s1 s' by (auto simp: logger_matches_def)
  moreover have "b \<noteq> a" if "m \<noteq> ld_name i" "map_of (mgr_loggers s1) m = Some b" for m b
    using that logsys_okD(4) [OF s1(2) that(2)] s1(5,6) by auto
  then have "kept_except (ld_name i) s s'"
    using s1(3) s'(3-5) by (auto simp: kept_except_def appenders_extend_def)
  ultimately show ?thesis using s1(1) s'(1,2) False by auto
qed

lemma apply_defines:
  assumes "logsys_ok s" and "distinct (map ld_name new)"
  shows "\<exists>s'. forA (apply_define le old) new s = (Inr (), s') \<and> logsys_ok s' \<and>
    (\<forall>i \<in> set new. \<not> unchanged_in old i \<longrightarrow> logger_matches s' i) \<and>
    (\<forall>n. (\<forall>i \<in> set new. ld_name i = n \<longrightarrow> unchanged_in old i) \<longrightarrow> (\<forall>a. map_of (mgr_loggers s) n = Some a \<longrightarrow>
      map_of (mgr_loggers s') n = Some a \<and> ls_loggers s' a = ls_loggers s a)) \<and> appenders_extend s s'"
  using assms
proof (induction new arbitrary: s)
  case Nil
  then show ?case by (simp add: appenders_extend_def)
next
  case (Cons i new)
  obtain s1 where s1: "apply_define le old i s = (Inr (), s1)" "logsys_ok s1" "kept_except (ld_name i) s s1"
      "if unchanged_in old i then s1 = s else logger_matches s1 i"
    using apply_define_result [OF Cons.prems(1)] by blast
  obtain s' where s': "forA (apply_define le old) new s1 = (Inr (), s')" "logsys_ok s'"
      "\<forall>i \<in> set new. \<not> unchanged_in old i \<longrightarrow> logger_matches s' i"
      "\<forall>n. (\<forall>i \<in> set new. ld_name i = n \<longrightarrow> unchanged_in old i) \<longrightarrow> (\<forall>a. map_of (mgr_loggers s1) n = Some a \<longrightarrow>
        map_of (mgr_loggers s') n = Some a \<and> ls_loggers s' a = ls_loggers s1 a)" "appenders_extend s1 s'"
    using Cons.IH [OF s1(2)] Cons.prems(2) by auto
  have ext: "appenders_extend s s'" using s1(3) s'(5) by (simp add: kept_except_def appenders_extend_def)
  have "logger_matches s' i" if ch: "\<not> unchanged_in old i"
  proof -
    obtain a lg where a: "map_of (mgr_loggers s1) (ld_name i) = Some a" "ls_loggers s1 a = Some lg" "lg_level lg = ld_level i"
        "list_all2 (appender_matches s1) (lg_appenders lg) (filter known_type (ld_appenders i))"
      using s1(4) ch by (auto simp: logger_matches_def)
    have "\<forall>j \<in> set new. ld_name j \<noteq> ld_name i" using Cons.prems(2) by (auto simp: image_iff)
    then have "map_of (mgr_loggers s') (ld_name i) = Some a" "ls_loggers s' a = ls_loggers s1 a" using s'(4) a(1) by auto
    moreover have "list_all2 (appender_matches s') (lg_appenders lg) (filter known_type (ld_appenders i))"
      using a(4) by (rule list_all2_mono) (rule appender_matches_extend [OF _ s'(5)])
    ultimately show ?thesis using a by (auto simp: logger_matches_def)
  qed
  moreover have "map_of (mgr_loggers s') n = Some a \<and> ls_loggers s' a = ls_loggers s a"
    if "\<forall>j \<in> set (i # new). ld_name j = n \<longrightarrow> unchanged_in old j" "map_of (mgr_loggers s) n = Some a" for n a
  proof -
    have "map_of (mgr_loggers s1) n = Some a \<and> ls_loggers s1 a = ls_loggers s a"
      using that s1(4) kept_exceptD [OF s1(3), of n a] by (cases "ld_name i = n") simp_all
    moreover have "\<forall>j \<in> set new. ld_name j = n \<longrightarrow> unchanged_in old j" using that(1) by simp
    ultimately show ?thesis using s'(4) by metis
  qed
  ultimately show ?case using s1(1) s'(1-3) ext by (intro exI [of _ s']) (simp add: bindA_def)
qed


definition silenced :: "logsys \<Rightarrow> string \<Rightarrow> bool" where
  "silenced s n \<longleftrightarrow> (\<exists>a lg. map_of (mgr_loggers s) n = Some a \<and> ls_loggers s a = Some lg \<and>
     lg_level lg = UNKNOW \<and> lg_appenders lg = [])"

lemma drop_define_result:
  assumes "logsys_ok s"
  shows "\<exists>s'. drop_define new i s = (Inr (), s') \<and> logsys_ok s' \<and>
    (if ld_name i \<in> ld_name ` set new then s' = s else kept_except (ld_name i) s s' \<and> silenced s' (ld_name i))"
proof (cases "ld_name i \<in> ld_name ` set new")
  case True
  then show ?thesis using assms set_find_None [of ld_name i new] by (auto simp: drop_define_def returnA_def)
next
  case False
  have drop: "drop_define new i = bindA (logsys_get (getLogger (ld_name i))) (\<lambda>logger.
      bindA (logsys_op (Logger_setLevel logger UNKNOW)) (\<lambda>_.
      bindA (logsys_op (Logger_clearAppenders logger)) (\<lambda>_ s. (Inr (), s))))"
    using False set_find_None [of ld_name i new]
    by (auto simp: drop_define_def bindA_def fun_eq_iff split: prod.split sum.split)
  show ?thesis
    using reset_logger [OF assms, of "ld_name i" UNKNOW "\<lambda>_ s. (Inr (), s)"] False unfolding drop silenced_def by auto
qed

lemma kept_except_silenced:
  "kept_except n s s' \<Longrightarrow> m \<noteq> n \<Longrightarrow> silenced s m \<Longrightarrow> silenced s' m"
  by (auto simp: kept_except_def silenced_def)

lemma drop_defines:
  assumes "logsys_ok s"
  shows "\<exists>s'. forA (drop_define new) old s = (Inr (), s') \<and> logsys_ok s' \<and> appenders_extend s s' \<and>
    (\<forall>i \<in> set old. ld_name i \<notin> ld_name ` set new \<longrightarrow> silenced s' (ld_name i)) \<and>
    (\<forall>n. n \<in> ld_name ` set old - ld_name ` set new \<longrightarrow> silenced s n \<longrightarrow> silenced s' n) \<and>
    (\<forall>n a. n \<notin> ld_name ` set old - ld_name ` set new \<longrightarrow> map_of (mgr_loggers s) n = Some a \<longrightarrow>
      map_of (mgr_loggers s') n = Some a \<and> ls_loggers s' a = ls_loggers s a)"
  using assms
proof (induction old arbitrary: s)
  case Nil
  then show ?case by (simp add: appenders_extend_def)
next
  case (Cons i old)
  obtain s1 where s1: "drop_define new i s = (Inr (), s1)" "logsys_ok s1"
      "if ld_name i \<in> ld_name ` set new then s1 = s else kept_except (ld_name i) s s1 \<and> silenced s1 (ld_name i)"
    using drop_define_result [OF Cons.prems] by blast
  obtain s' where s': "forA (drop_define new) old s1 = (Inr (), s')" "logsys_ok s'" "appenders_extend s1 s'"
      "\<forall>i \<in> set old. ld_name i \<notin> ld_name ` set new \<longrightarrow> silenced s' (ld_name i)"
      "\<forall>n. n \<in> ld_name ` set old - ld_name ` set new \<longrightarrow> silenced s1 n \<longrightarrow> silenced s' n"
      "\<forall>n a. n \<notin> ld_name ` set old - ld_name ` set new \<longrightarrow> map_of (mgr_loggers s1) n = Some a \<longrightarrow>
        map_of (mgr_loggers s') n = Some a \<and> ls_loggers s' a = ls_loggers s1 a"
    using Cons.IH [OF s1(2)] by blast
  have keep: "silenced s' m" if "silenced s1 m" for m
  proof (cases "m \<in> ld_name ` set old - ld_name ` set new")
    case False
    then show ?thesis using s'(6) that unfolding silenced_def by metis
  qed (use s'(5) that in blast)
  have "silenced s' (ld_name i)" if "ld_name i \<notin> ld_name ` set new" using keep s1(3) that by simp
  moreover have "silenced s' n" if "silenced s n" "n \<in> ld_name ` set (i # old) - ld_name ` set new" for n
    using that s1(3) s'(4) keep kept_except_silenced [of "ld_name i" s s1 n]
    by (cases "n = ld_name i") (auto split: if_splits)
  moreover have "map_of (mgr_loggers s') n = Some a \<and> ls_loggers s' a = ls_loggers s a"
    if "n \<notin> ld_name ` set (i # old) - ld_name ` set new" "map_of (mgr_loggers s) n = Some a" for n a
  proof -
    have "map_of (mgr_loggers s1) n = Some a \<and> ls_loggers s1 a = ls_loggers s a"
      using that s1(3) kept_exceptD [of "ld_name i" s s1 n a]
      by (cases "ld_name i = n"; cases "ld_name i \<in> ld_name ` set new") auto
    moreover have "n \<notin> ld_name ` set old - ld_name ` set new" using that(1) by auto
    ultimately show ?thesis using s'(6) by metis
  qed
  moreover have "appenders_extend s s'" using s1(3) s'(3) by (auto simp: kept_except_def appenders_extend_def split: if_splits)
  ultimately show ?case using s1(1) s'(1,2,4) by (intro exI [of _ s']) (simp add: bindA_def)
qed

definition touched :: "LogDefine list \<Rightarrow> LogDefine list \<Rightarrow> string \<Rightarrow> bool" where
  "touched old new n \<longleftrightarrow> (\<exists>i \<in> set new. ld_name i = n \<and> \<not> unchanged_in old i) \<or>
     n \<in> ld_name ` set old - ld_name ` set new"

lemma listener_result:
  assumes "logsys_ok s" and "set_ok ld_name new"
  shows "\<exists>s'. on_logger_conf_changed le old new s = (Inr (), s') \<and> logsys_ok s' \<and>
    (\<forall>i \<in> set new. \<not> unchanged_in old i \<longrightarrow> logger_matches s' i) \<and>
    (\<forall>i \<in> set old. ld_name i \<notin> ld_name ` set new \<longrightarrow> silenced s' (ld_name i)) \<and>
    (\<forall>n a. \<not> touched old new n \<longrightarrow> map_of (mgr_loggers s) n = Some a \<longrightarrow>
      map_of (mgr_loggers s') n = Some a \<and> ls_loggers s' a = ls_loggers s a)"
proof -
  obtain s0 where s0: "root_log le INFO ''on_logger_conf_changed'' s = (Inr (), s0)" "log_frame s s0" "logsys_ok s0"
    by (rule root_log_returns [OF assms(1)])
  have dist: "distinct (map ld_name new)" using assms(2) by (simp add: set_ok_def strict_sorted_iff)
  obtain s1 where s1: "forA (apply_define le old) new s0 = (Inr (), s1)" "logsys_ok s1"
      "\<forall>i \<in> set new. \<not> unchanged_in old i \<longrightarrow> logger_matches s1 i"
      "\<forall>n. (\<forall>i \<in> set new. ld_name i = n \<longrightarrow> unchanged_in old i) \<longrightarrow> (\<forall>a. map_of (mgr_loggers s0) n = Some a \<longrightarrow>
        map_of (mgr_loggers s1) n = Some a \<and> ls_loggers s1 a = ls_loggers s0 a)"
    using apply_defines [OF s0(3) dist] by blast
  obtain s' where s': "forA (drop_define new) old s1 = (Inr (), s')" "logsys_ok s'" "appenders_extend s1 s'"
      "\<forall>i \<in> set old. ld_name i \<notin> ld_name ` set new \<longrightarrow> silenced s' (ld_name i)"
      "\<forall>n a. n \<notin> ld_name ` set old - ld_name ` set new \<longrightarrow> map_of (mgr_loggers s1) n = Some a \<longrightarrow>
        map_of (mgr_loggers s') n = Some a \<and> ls_loggers s' a = ls_loggers s1 a"
    using drop_defines [OF s1(2)] by blast
  have "logger_matches s' i" if i: "i \<in> set new" "\<not> unchanged_in old i" for i
  proof -
    obtain a lg where a: "map_of (mgr_loggers s1) (ld_name i) = Some a" "ls_loggers s1 a = Some lg" "lg_level lg = ld_level i"
        "list_all2 (appender_matches s1) (lg_appenders lg) (filter known_type (ld_appenders i))"
      using s1(3) i by (auto simp: logger_matches_def)
    have "list_all2 (appender_matches s') (lg_appenders lg) (filter known_type (ld_appenders i))"
      using a(4) by (rule list_all2_mono) (rule appender_matches_extend [OF _ s'(3)])
    moreover have "map_of (mgr_loggers s') (ld_name i) = Some a \<and> ls_loggers s' a = ls_loggers s1 a"
      using s'(5) a(1) i(1) by blast
    ultimately show ?thesis using a by (auto simp: logger_matches_def)
  qed
  moreover have "map_of (mgr_loggers s') n = Some a \<and> ls_loggers s' a = ls_loggers s a"
    if "\<not> touched old new n" "map_of (mgr_loggers s) n = Some a" for n a
    using that s0(2) s1(4) s'(5) unfolding touched_def log_frame_def by (metis (no_types, lifting))
  ultimately show ?thesis
    using s0(1) s1(1) s'(1,2,4) by (intro exI [of _ s']) (simp add: on_logger_conf_changed_def bindA_def)
qed


section \<open>Properties\<close>

text \<open>
  C2. A change of the logger definitions is carried out: the listener returns in every well-formed
  state of the logging system; each definition that is new or not equal to the old one of its name
  then has a logger of that name with its level and exactly its appenders of known type, in order,
  each with the level, file and formatter (the default one for a missing or wrong pattern) of its
  definition; every logger whose definition was dropped is at level UNKNOW without appenders; and
  every other registered logger is as before.
\<close>

theorem logger_definitions_applied:
  assumes "logsys_ok s" and "set_ok ld_name new"
  shows "\<exists>s'. on_logger_conf_changed le old new s = (Inr (), s') \<and> logsys_ok s' \<and>
    (\<forall>i \<in> set new. \<not> unchanged_in old i \<longrightarrow> logger_matches s' i) \<and>
    (\<forall>i \<in> set old. ld_name i \<notin> ld_name ` set new \<longrightarrow> silenced s' (ld_name i)) \<and>
    (\<forall>n a. \<not> touched old new n \<longrightarrow> map_of (mgr_loggers s) n = Some a \<longrightarrow>
      map_of (mgr_loggers s') n = Some a \<and> ls_loggers s' a = ls_loggers s a)"
  by (rule listener_result [OF assms])

definition demo_env :: "unit log_env" where
  "demo_env = \<lparr>le_clock = \<lparr>localtime_r = (\<lambda>t. Some ()), strftime = (\<lambda>n f tm. f)\<rparr>,
     le_disk = \<lparr>can_open = (\<lambda>f. True), can_write = (\<lambda>f. True)\<rparr>,
     le_site = \<lparr>site_file = ''a.cpp'', site_line = 1, site_thread = 1, site_fiber = 0, site_time = 0,
       site_thread_name = ''main''\<rparr>\<rparr>"

definition demo_define :: LogDefine where
  "demo_define = \<lparr>ld_name = ''sys'', ld_level = INFO, ld_formatter = [],
     ld_appenders = [\<lparr>lad_type = 2, lad_level = INFO, lad_formatter = [], lad_file = []\<rparr>]\<rparr>"

definition root_define :: LogDefine where
  "root_define = \<lparr>ld_name = ''root'', ld_level = DEBUG, ld_formatter = [], ld_appenders = []\<rparr>"

theorem logger_definitions_applied_witness:
  "\<exists>s s'. logsys_start (\<lambda>f. []) = Inr s \<and>
    on_logger_conf_changed demo_env [root_define] [demo_define] s = (Inr (), s') \<and>
    logger_matches s' demo_define \<and> silenced s' ''root''"
proof -
  obtain s where s: "logsys_start (\<lambda>f. []) = Inr s" by (simp add: logsys_start_eq)
  have new: "set_ok ld_name [demo_define]" "\<not> unchanged_in [root_define] demo_define"
    by (simp_all add: set_ok_def unchanged_in_def set_find_def demo_define_def root_define_def)
  obtain s' where s': "on_logger_conf_changed demo_env [root_define] [demo_define] s = (Inr (), s')"
      "\<forall>i \<in> set [demo_define]. \<not> unchanged_in [root_define] i \<longrightarrow> logger_matches s' i"
      "\<forall>i \<in> set [root_define]. ld_name i \<notin> ld_name ` set [demo_define] \<longrightarrow> silenced s' (ld_name i)"
    using logger_definitions_applied [OF logsys_start_ok [OF s] new(1), of demo_env "[root_define]"] by blast
  have "silenced s' ''root''" using s'(3) by (simp add: root_define_def demo_define_def)
  then show ?thesis using s s'(1,2) new(2) by auto
qed

text \<open>Two definitions are the same for the set when neither is less: when they have the same name.\<close>

lemma LogDefine_equivalent:
  "\<not> LogDefine_less a b \<and> \<not> LogDefine_less b a \<longleftrightarrow> ld_name a = ld_name b"
  by (auto simp: LogDefine_less_def)

lemma string_to_set_ok:
  assumes "string_to_set y from key tx = Inr xs"
  shows "set_ok key xs"
proof -
  obtain node where "foldM (\<lambda>i res. bind_out (from (y_emit y (y_at y i node))) (\<lambda>v. Inr (set_insert key v res)))
      [0..<y_size y node] [] = Inr xs"
    using assms by (auto simp: string_to_set_def seq_from_def bind_out_eq_Inr)
  then show ?thesis
    by (rule foldM_invariant [where P = "set_ok key", rotated 2]) (auto simp: bind_out_eq_Inr)
qed

lemma logs_listener_ok: "cb_ok (Some (logs_listener le))"
proof (rule cb_okI)
  fix old new :: "'v conf_val" and s r s'
  assume s: "logsys_ok s" and call: "call_cb (Some (logs_listener le)) old new s = (r, s')"
  have "\<exists>t. on_logger_conf_changed le x z s = (Inr (), t) \<and> logsys_ok t" for x z
  proof -
    obtain s0 where s0: "root_log le INFO ''on_logger_conf_changed'' s = (Inr (), s0)" "logsys_ok s0"
      using root_log_returns [OF s] by metis
    obtain s1 where s1: "forA (apply_define le x) z s0 = (Inr (), s1)" "logsys_ok s1"
      using forA_returns [of z logsys_ok "apply_define le x" s0] apply_define_result [of _ le x] s0(2) by blast
    obtain s2 where "forA (drop_define z) x s1 = (Inr (), s2)" "logsys_ok s2" using drop_defines [OF s1(2)] by blast
    then show ?thesis using s0(1) s1(1) by (simp add: on_logger_conf_changed_def bindA_def)
  qed
  then show "logsys_ok s' \<and> (\<forall>e. r = Inl e \<longrightarrow> std_failure e)"
    using call s by (auto simp: call_cb_def logs_listener_def returnA_def split: conf_val.splits)
     (metis Pair_inject sum.distinct(1))+
qed


definition logs_var :: "'n yaml \<Rightarrow> 'tm log_env \<Rightarrow> LogDefine list \<Rightarrow> 'v conf_val ConfigVar \<Rightarrow> bool" where
  "logs_var y le old v \<longleftrightarrow> cv_type v = logs_type y \<and> cv_val v = Logs_val old \<and>
     (\<exists>k. cv_cbs v = [(k, Some (logs_listener le))])"

text \<open>
  The static initialisers: in a registry without a variable named \<open>logs\<close> they register one of
  type \<open>std::set<LogDefine>\<close> with the empty set as its value, whose only listener is the one that
  configures the loggers; they neither throw nor dereference a null pointer.
\<close>

theorem LogIniter_installs:
  assumes "config_ok c" and "LookupBase ''logs'' c = None" and "type_ok (logs_type y :: 'v conf_val cv_type)"
    and "cf_func_id c (ty_id (logs_type y :: 'v conf_val cv_type)) \<noteq> - 1"
  shows "\<exists>c' a v. LogIniter y le (c :: 'v conf_val config) = (Inr (), c') \<and> config_ok c' \<and>
    LookupBase ''logs'' c' = Some a \<and> cf_vars c' a = Some v \<and> logs_var y le [] v \<and> cf_log c' = cf_log c"
proof -
  let ?a = "cf_next c" and ?v = "new_ConfigVar (logs_type y) (Logs_val []) ''logs'' ''logs config'' :: 'v conf_val ConfigVar"
  let ?c1 = "(put_var ?a ?v c)\<lparr>cf_next := Suc ?a, cf_datas := map_put ''logs'' ?a (cf_datas c)\<rparr>"
  let ?cb = "Some (logs_listener le)"
  have none: "map_of (cf_datas c) ''logs'' = None" using assms(2) by (simp add: LookupBase_def)
  have valid: "valid_name ''logs''" by (simp add: valid_name_def name_chars_def)
  have ty: "cv_type ?v = logs_type y" by (simp add: new_ConfigVar_def)
  have c1: "config_ok ?c1" by (rule config_ok_new [OF assms(1) none valid assms(3)])
  have v1: "cf_vars ?c1 ?a = Some ?v" by (simp add: put_var_def)
  have id: "cf_func_id ?c1 (ty_id (cv_type ?v)) \<noteq> - 1" using assms(4) ty by (simp add: put_var_def)
  obtain k c' where c': "ConfigVar_addListener ?a ?cb ?c1 = (Inr k, c')" "config_ok c'"
      "c' = put_var ?a (?v\<lparr>cv_cbs := map_put k ?cb (cv_cbs ?v)\<rparr>) (?c1\<lparr>cf_func_id := (cf_func_id ?c1)(ty_id (cv_type ?v) := k)\<rparr>)"
    using addListener_result [OF c1 v1 id logs_listener_ok [of le]] by (auto simp: Let_def)
  have "LogIniter y le c = (Inr (), c')"
    using Lookup_new [OF none valid, of le "logs_type y" "Logs_val []" "''logs config''"] c'(1)
    by (simp add: LogIniter_def bindA_def returnA_def)
  moreover have "LookupBase ''logs'' c' = Some ?a" "cf_log c' = cf_log c" by (simp_all add: c'(3) put_var_def LookupBase_def)
  moreover have "cf_vars c' ?a = Some (?v\<lparr>cv_cbs := [(k, ?cb)]\<rparr>)" by (simp add: c'(3) put_var_def new_ConfigVar_def)
  moreover have "logs_var y le [] (?v\<lparr>cv_cbs := [(k, ?cb)]\<rparr>)" by (simp add: logs_var_def new_ConfigVar_def)
  ultimately show ?thesis using c'(2) by blast
qed

text \<open>
  C8. Loading logger definitions: when the text of the variable \<open>logs\<close> converts to definitions
  that the variable's equality tells from the current ones, \<open>fromString\<close> answers true, the variable
  holds them, and the loggers of the program are as the definitions say.
\<close>

theorem logs_text_configures_loggers:
  assumes "config_ok c" and "cf_vars c a = Some v" and "logs_var y le old v"
    and "string_to_set y (\<lambda>t. fst (LogDefine_from_string y t [])) ld_name tx = Inr new"
    and "\<not> logs_eq old new"
  shows "\<exists>c' v'. ConfigVar_fromString le a tx c = (Inr True, c') \<and> config_ok c' \<and>
    cf_vars c' a = Some v' \<and> logs_var y le new v' \<and>
    (\<forall>i \<in> set new. \<not> unchanged_in old i \<longrightarrow> logger_matches (cf_log c') i) \<and>
    (\<forall>i \<in> set old. ld_name i \<notin> ld_name ` set new \<longrightarrow> silenced (cf_log c') (ld_name i))"
proof -
  obtain k where v: "cv_type v = logs_type y" "cv_val v = Logs_val old" "cv_cbs v = [(k, Some (logs_listener le))]"
    using assms(3) by (auto simp: logs_var_def)
  let ?p = "printed (ty_prints (cv_type v) tx) (cf_log c)"
  obtain s where s: "on_logger_conf_changed le old new ?p = (Inr (), s)"
      "\<forall>i \<in> set new. \<not> unchanged_in old i \<longrightarrow> logger_matches s i"
      "\<forall>i \<in> set old. ld_name i \<notin> ld_name ` set new \<longrightarrow> silenced s (ld_name i)"
    using listener_result [OF printed_ok [OF config_okD(1) [OF assms(1)]] string_to_set_ok [OF assms(4)]] by blast
  have conv: "ty_from (cv_type v) tx = Inr (Logs_val new)" using assms(4) v(1) by (simp add: logs_type_def)
  have eq: "\<not> ty_eq (cv_type v) (cv_val v) (Logs_val new)" using assms(5) v(1,2) by (simp add: logs_type_def)
  have ntf: "notify v (Logs_val new) ?p = (Inr (), s)"
    using s(1) v(2,3) by (simp add: notify_def call_cb_def logs_listener_def bindA_def)
  let ?c = "put_var a (v\<lparr>cv_val := Logs_val new\<rparr>) (c\<lparr>cf_log := s\<rparr>)"
  have res: "ConfigVar_fromString le a tx c = (Inr True, ?c)"
    using assms(2) conv eq ntf
    by (simp add: ConfigVar_fromString_def on_var_def catch_std_def bindA_def convert_text_eq setValue_eq [where v = v] returnA_def)
  have "config_ok ?c" using fromString_ok [OF assms(1,2), of le tx] res by simp
  moreover have "cf_vars ?c a = Some (v\<lparr>cv_val := Logs_val new\<rparr>)" by (simp add: put_var_def)
  moreover have "logs_var y le new (v\<lparr>cv_val := Logs_val new\<rparr>)" using v by (simp add: logs_var_def)
  moreover have "cf_log ?c = s" by (simp add: put_var_def)
  ultimately show ?thesis using res s(2,3) by metis
qed

section \<open>Two mistakes in the definitions\<close>

definition levels_agree :: "LogDefine \<Rightarrow> bool" where
  "levels_agree ld \<longleftrightarrow> (\<forall>x \<in> set (ld_appenders ld). lad_level x = ld_level ld)"

definition reads_level :: "'n yaml \<Rightarrow> 'n \<Rightarrow> LogLevel \<Rightarrow> bool" where
  "reads_level y node level \<longleftrightarrow> (\<forall>t. member_string y ''level'' node = Inr t \<longrightarrow> level_from_string t = level)"

lemma yields_lift: "(\<And>x. r = Inr x \<Longrightarrow> P x) \<Longrightarrow> yields (lift_out r) P"
  by (simp add: yields_def lift_out_def)

definition same_level :: "LogDefine \<Rightarrow> LogDefine \<Rightarrow> bool" where
  "same_level ld ld' \<longleftrightarrow> ld_level ld' = ld_level ld \<and> levels_agree ld'"

lemma finish_appender_levels:
  assumes "reads_level y node (ld_level ld)" and "levels_agree ld"
  shows "yields (finish_appender y node a ld lad) (same_level ld)"
  unfolding finish_appender_def
proof (rule yields_bind [OF yields_any], rule yields_bind [where Q = "\<lambda>level. level = ld_level ld"])
  fix has_level
  show "yields (if has_level then lift_out (bind_out (member_string y ''level'' node) (\<lambda>l. Inr (level_from_string l)))
      else returnA (ld_level ld)) (\<lambda>level. level = ld_level ld)"
    using assms(1) by (intro yields_if yields_lift yields_return) (auto simp: bind_out_eq_Inr reads_level_def)
next
  fix level
  assume "level = ld_level ld"
  then show "yields (bindA (lift_out (is_defined y ''formatter'' a)) (\<lambda>has_formatter.
      bindA (if has_formatter then lift_out (member_string y ''formatter'' a) else returnA (lad_formatter lad))
        (\<lambda>formatter. returnA (ld\<lparr>ld_appenders := ld_appenders ld @ [lad\<lparr>lad_level := level, lad_formatter := formatter\<rparr>]\<rparr>))))
      (same_level ld)"
    using assms(2)
    by (intro yields_bind [OF yields_any] yields_return) (simp add: same_level_def levels_agree_def)
qed

lemma read_appender_levels:
  assumes "reads_level y node (ld_level ld)" and "levels_agree ld"
  shows "yields (read_appender y node a ld) (same_level ld)"
proof -
  have "same_level ld ld" using assms(2) by (simp add: same_level_def)
  then show ?thesis
    unfolding read_appender_def
    by (intro yields_bind [OF yields_any] yields_if yields_return finish_appender_levels [OF assms])
qed

lemma read_appenders_levels:
  "reads_level y node (ld_level ld) \<Longrightarrow> levels_agree ld \<Longrightarrow> yields (read_appenders y node as ld) levels_agree"
proof (induction as arbitrary: ld)
  case (Cons a as)
  have "yields (read_appenders y node as ld') levels_agree" if "same_level ld ld'" for ld'
    using Cons that by (simp add: same_level_def)
  then have "yields (bindA (read_appender y node a ld) (read_appenders y node as)) levels_agree"
    by (rule yields_bind [OF read_appender_levels [OF Cons.prems]])
  then show ?case by (simp add: yields_def)
next
  case Nil
  then show ?case by (simp add: yields_def returnA_def)
qed

text \<open>
  An appender cannot be given a level of its own: whatever the text, a definition that the
  conversion accepts gives every appender the level of its logger, because the level of an
  appender that has one is read from the logger's node.
\<close>

theorem appender_level_is_logger_level:
  assumes "isl (y_as_string y (y_undefined y))" and "LogDefine_from_string y f out = (Inr ld, out')"
    and "x \<in> set (ld_appenders ld)"
  shows "lad_level x = ld_level ld"
proof -
  have level: "yields (bindA (lift_out (is_defined y ''level'' node)) (\<lambda>has_level.
      bindA (if has_level then lift_out (member_string y ''level'' node) else returnA []) T)) levels_agree"
    if T: "\<And>level. reads_level y node (level_from_string level) \<Longrightarrow> yields (T level) levels_agree" for node T
  proof (rule yields_bind [where Q = "\<lambda>has. is_defined y ''level'' node = Inr has"])
    fix has assume has: "is_defined y ''level'' node = Inr has"
    show "yields (bindA (if has then lift_out (member_string y ''level'' node) else returnA []) T) levels_agree"
    proof (rule yields_bind [OF _ T])
      show "yields (if has then lift_out (member_string y ''level'' node) else returnA [])
          (\<lambda>level. reads_level y node (level_from_string level))"
        using has assms(1)
        by (intro yields_if yields_lift yields_return)
          (auto simp: is_defined_def reads_level_def member_string_def bind_out_eq_Inr isl_def)
    qed
  qed (simp add: yields_lift)
  have tail: "yields (case m of None \<Rightarrow> returnA ld | Some as \<Rightarrow> read_appenders y node (f as) ld) levels_agree"
    if "reads_level y node (ld_level ld)" "ld_appenders ld = []" for node m f ld
    using that by (cases m) (auto intro!: yields_return read_appenders_levels simp: levels_agree_def)
  have "yields (LogDefine_from_string y f) levels_agree"
    unfolding LogDefine_from_string_def Let_def
    by (intro yields_bind [OF yields_any] yields_if level tail yields_lift) (simp_all add: new_LogDefine_def)
  then have "levels_agree ld" using assms(2) by (rule yieldsD)
  then show ?thesis using assms(3) by (simp add: levels_agree_def)
qed


text \<open>A document in which the appender asks for WARN and the logger for INFO.\<close>

definition logs_yaml :: "tree yaml" where
  "logs_yaml = tree_yaml
     [(''D'', Tmap [(Tscalar ''name'', Tscalar ''sys''), (Tscalar ''level'', Tscalar ''INFO''),
        (Tscalar ''appenders'', Tseq [Tmap [(Tscalar ''type'', Tscalar ''StdoutLogAppender''),
           (Tscalar ''level'', Tscalar ''WARN'')]])]),
      (''L'', Tseq [Tmap [(Tscalar ''name'', Tscalar ''sys''), (Tscalar ''level'', Tscalar ''INFO''),
        (Tscalar ''appenders'', Tseq [Tmap [(Tscalar ''type'', Tscalar ''StdoutLogAppender''),
           (Tscalar ''level'', Tscalar ''WARN'')]])]])]"

lemma logs_yaml_cast: "LogDefine_from_string logs_yaml ''D'' [] = (Inr demo_define, [])"
  by code_simp

theorem appender_level_is_logger_level_witness:
  "LogDefine_from_string logs_yaml ''D'' [] = (Inr demo_define, []) \<and>
    lad_level (hd (ld_appenders demo_define)) = INFO"
proof -
  have un: "isl (y_as_string logs_yaml (y_undefined logs_yaml))" by (simp add: logs_yaml_def tree_yaml_def)
  have x: "hd (ld_appenders demo_define) \<in> set (ld_appenders demo_define)" by (simp add: demo_define_def)
  show ?thesis
    using appender_level_is_logger_level [OF un logs_yaml_cast x] logs_yaml_cast by (simp add: demo_define_def)
qed

text \<open>
  C35. A change of the appenders alone is lost: when the new definitions have the names, levels and
  formatters of the current ones, in order, \<open>fromString\<close> answers true and changes nothing, whatever the
  appenders are, except that the lines that the conversion prints are on the console: no variable, no
  logger, no appender and no file. The equality of definitions compares the appenders of one of them with
  themselves.
\<close>

theorem appender_changes_are_lost:
  assumes "cf_vars c a = Some v" and "logs_var y le old v"
    and "string_to_set y (\<lambda>t. fst (LogDefine_from_string y t [])) ld_name tx = Inr new"
    and "list_all2 (\<lambda>d e. ld_name d = ld_name e \<and> ld_level d = ld_level e \<and> ld_formatter d = ld_formatter e) old new"
  shows "ConfigVar_fromString le a tx c =
    (Inr True, c\<lparr>cf_log := (cf_log c)\<lparr>ls_stdout := ls_stdout (cf_log c) @ concat (map (\<lambda>l. l @ newline) (logs_prints y tx))\<rparr>\<rparr>)"
proof -
  have "list_all2 LogAppenderDefine_eq xs xs" for xs
    by (induction xs) (simp_all add: LogAppenderDefine_eq_def)
  then have "logs_eq old new"
    using assms(4) by (auto simp: logs_eq_def LogDefine_eq_def list_all2_lengthD elim!: list_all2_mono)
  then have "ty_eq (cv_type v) (cv_val v) (Logs_val new)" using assms(2) by (auto simp: logs_var_def logs_type_def)
  moreover have "ty_from (cv_type v) tx = Inr (Logs_val new)" "ty_prints (cv_type v) tx = logs_prints y tx"
    using assms(2,3) by (auto simp: logs_var_def logs_type_def)
  ultimately show ?thesis
    using assms(1) by (simp add: ConfigVar_fromString_def on_var_def catch_std_def bindA_def convert_text_eq
        setValue_eq [where v = v] returnA_def printed_stdout)
qed

definition demo_old :: LogDefine where
  "demo_old = demo_define\<lparr>ld_appenders := []\<rparr>"

definition demo_var :: "unit conf_val ConfigVar" where
  "demo_var = \<lparr>cv_name = ''logs'', cv_description = [], cv_type = logs_type logs_yaml, cv_val = Logs_val [demo_old],
     cv_cbs = [(1, Some (logs_listener demo_env))]\<rparr>"

definition demo_config :: "logsys \<Rightarrow> unit conf_val config" where
  "demo_config s = \<lparr>cf_vars = [0 \<mapsto> demo_var], cf_next = 1, cf_datas = [(''logs'', 0)], cf_func_id = (\<lambda>t. 1), cf_log = s\<rparr>"

lemma logs_yaml_set:
  "string_to_set logs_yaml (\<lambda>t. fst (LogDefine_from_string logs_yaml t [])) ld_name ''L'' = Inr [demo_define]"
  by code_simp

text \<open>The same with an appender of a type there is not.\<close>

definition syslog_node :: tree where
  "syslog_node = Tmap [(Tscalar ''type'', Tscalar ''Syslog'')]"

definition syslog_yaml :: "tree yaml" where
  "syslog_yaml = (let d = Tmap [(Tscalar ''name'', Tscalar ''sys''), (Tscalar ''level'', Tscalar ''INFO''), (Tscalar ''appenders'', Tseq [syslog_node])]
     in tree_yaml [(''D'', d), (''L'', Tseq [d]), (''type: Syslog'', syslog_node)])"

lemma syslog_yaml_set:
  "string_to_set syslog_yaml (\<lambda>t. fst (LogDefine_from_string syslog_yaml t [])) ld_name ''L'' =
     Inr [demo_old\<lparr>ld_appenders := [new_LogAppenderDefine\<lparr>lad_level := INFO\<rparr>]\<rparr>]"
  by code_simp

lemma syslog_yaml_prints: "logs_prints syslog_yaml ''L'' = [''log config error: appender type is invalid, type: Syslog'']"
  by code_simp

theorem appender_changes_are_lost_witness:
  "\<exists>s. logsys_start (\<lambda>f. []) = Inr s \<and> [demo_old] \<noteq> [demo_old\<lparr>ld_appenders := [new_LogAppenderDefine\<lparr>lad_level := INFO\<rparr>]\<rparr>] \<and>
    (let c = put_var 0 (demo_var\<lparr>cv_type := logs_type syslog_yaml\<rparr>) (demo_config s); t = ''log config error: appender type is invalid, type: Syslog''
     in ConfigVar_fromString demo_env 0 ''L'' c = (Inr True, c\<lparr>cf_log := s\<lparr>ls_stdout := ls_stdout s @ t @ newline\<rparr>\<rparr>))"
proof -
  obtain s where s: "logsys_start (\<lambda>f. []) = Inr s" by (simp add: logsys_start_eq)
  let ?v = "demo_var\<lparr>cv_type := logs_type syslog_yaml\<rparr>"
  have v: "cf_vars (put_var 0 ?v (demo_config s)) 0 = Some ?v" "logs_var syslog_yaml demo_env [demo_old] ?v"
    by (simp_all add: put_var_def demo_var_def logs_var_def)
  have "cf_log (put_var 0 ?v (demo_config s)) = s" by (simp add: put_var_def demo_config_def)
  moreover have "ld_appenders demo_old = []" by (simp add: demo_old_def)
  ultimately show ?thesis
    using appender_changes_are_lost [OF v syslog_yaml_set] s
    by (auto simp: syslog_yaml_prints Let_def dest!: arg_cong [where f = ld_appenders])
qed


section \<open>The conversions fail only with standard exceptions\<close>

definition std_out :: "'a outcome \<Rightarrow> bool" where
  "std_out r \<longleftrightarrow> (\<forall>e. r = Inl e \<longrightarrow> std_failure e)"

definition std_act :: "('s, 'a) act \<Rightarrow> bool" where
  "std_act m \<longleftrightarrow> (\<forall>s. std_out (fst (m s)))"

lemma std_out_simps [simp]: "std_out (Inr x)" "std_out (Inl e) \<longleftrightarrow> std_failure e"
  by (simp_all add: std_out_def)

lemma std_out_bind: "std_out r \<Longrightarrow> (\<And>x. std_out (f x)) \<Longrightarrow> std_out (bind_out r f)"
  by (cases r) simp_all

lemma std_out_foldM: "(\<And>x s. std_out (f x s)) \<Longrightarrow> std_out (foldM f xs s)"
  by (induction xs arbitrary: s) (simp_all add: std_out_bind)

lemma std_act_bind: "std_act m \<Longrightarrow> (\<And>x. std_act (f x)) \<Longrightarrow> std_act (bindA m f)"
  unfolding std_act_def bindA_def by (auto split: prod.split sum.split) (metis fst_conv std_out_simps(2))

lemma std_act_basic: "std_act (returnA x)" "std_act (say l)" "std_out r \<Longrightarrow> std_act (lift_out r)"
  by (simp_all add: std_act_def returnA_def say_def lift_out_def)

lemma std_act_if: "std_act m \<Longrightarrow> std_act m' \<Longrightarrow> std_act (if b then m else m')"
  by simp

definition yaml_std :: "'n yaml \<Rightarrow> bool" where
  "yaml_std y \<longleftrightarrow> (\<forall>s. std_out (y_load y s)) \<and> (\<forall>k n. std_out (y_get y k n)) \<and> (\<forall>n. std_out (y_as_string y n))"

lemma member_std: "yaml_std y \<Longrightarrow> std_out (member_string y k n)" "yaml_std y \<Longrightarrow> std_out (is_defined y k n)"
  by (simp_all add: yaml_std_def member_string_def is_defined_def std_out_bind)

lemma finish_appender_std: "yaml_std y \<Longrightarrow> std_act (finish_appender y node a ld lad)"
  unfolding finish_appender_def by (intro std_act_bind std_act_if std_act_basic std_out_bind member_std std_out_simps)

lemma read_appender_std: "yaml_std y \<Longrightarrow> std_act (read_appender y node a ld)"
  unfolding read_appender_def
  by (intro std_act_bind std_act_if std_act_basic member_std finish_appender_std)

lemma read_appenders_std: "yaml_std y \<Longrightarrow> std_act (read_appenders y node as ld)"
proof (induction as arbitrary: ld)
  case (Cons a as)
  have "std_act (bindA (read_appender y node a ld) (read_appenders y node as))"
    using Cons by (intro std_act_bind read_appender_std)
  then show ?case by (simp add: std_act_def)
qed (simp add: std_act_def returnA_def)

lemma LogDefine_from_string_std:
  assumes "yaml_std y"
  shows "std_act (LogDefine_from_string y f)"
proof -
  have "std_act (case m of None \<Rightarrow> returnA ld | Some as \<Rightarrow> read_appenders y node (g as) ld)" for m ld g node
    by (cases m) (simp_all add: std_act_basic read_appenders_std [OF assms])
  moreover have "std_out (y_load y f)" "std_out (y_get y k n)" for k n using assms by (simp_all add: yaml_std_def)
  moreover have "std_out (Inl (Throw (Logic_error t)))" for t by (simp add: std_failure_def)
  ultimately show ?thesis
    unfolding LogDefine_from_string_def Let_def
    by (intro std_act_bind std_act_if std_act_basic member_std [OF assms])
qed

lemma LogDefine_to_string_std:
  assumes "yaml_std y"
  shows "std_out (LogDefine_to_string y d)"
  using assms
  by (auto simp: LogDefine_to_string_def Let_def push_member_def yaml_std_def intro!: std_out_bind std_out_foldM)

lemma logs_type_ok:
  assumes "yaml_std y"
  shows "type_ok (logs_type y :: 'v conf_val cv_type)"
proof -
  have elem: "std_out (fst (LogDefine_from_string y t []))" for t
    using LogDefine_from_string_std [OF assms] by (simp add: std_act_def)
  have "std_out (string_to_set y (\<lambda>t. fst (LogDefine_from_string y t [])) ld_name f)" for f
    using assms elem unfolding string_to_set_def seq_from_def yaml_std_def
    by (intro std_out_bind std_out_foldM) auto
  then have "std_out (ty_from (logs_type y :: 'v conf_val cv_type) f)" for f by (simp add: logs_type_def std_out_bind)
  moreover have "std_out (set_to_string y (LogDefine_to_string y) x)" for x
    using assms LogDefine_to_string_std [OF assms] unfolding set_to_string_def seq_to_def push_all_def yaml_std_def
    by (intro std_out_bind std_out_foldM) auto
  then have "std_out (ty_to (logs_type y :: 'v conf_val cv_type) v)" for v by (cases v) (simp_all add: logs_type_def std_failure_def)
  ultimately show ?thesis by (simp add: type_ok_def std_out_def)
qed

lemma tree_yaml_std: "yaml_std (tree_yaml tbl)"
proof -
  have "std_out (tree_get k n)" for k n by (cases "(k, n)" rule: tree_get.cases) (simp_all add: std_failure_def)
  moreover have "std_out (tree_scalar n)" for n by (cases n) (simp_all add: std_failure_def)
  ultimately show ?thesis by (simp add: yaml_std_def tree_yaml_def std_failure_def split: option.split)
qed

definition no_config :: "logsys \<Rightarrow> unit conf_val config" where
  "no_config s = \<lparr>cf_vars = Map.empty, cf_next = 0, cf_datas = [], cf_func_id = (\<lambda>t. 0), cf_log = s\<rparr>"

theorem LogIniter_installs_witness:
  "\<exists>s c'. logsys_start (\<lambda>f. []) = Inr s \<and> LogIniter logs_yaml demo_env (no_config s) = (Inr (), c') \<and>
    LookupBase ''logs'' c' \<noteq> None"
proof -
  obtain s where s: "logsys_start (\<lambda>f. []) = Inr s" by (simp add: logsys_start_eq)
  have c: "config_ok (no_config s)" "LookupBase ''logs'' (no_config s) = None"
    using logsys_start_ok [OF s] by (simp_all add: config_ok_def no_config_def fresh_in_def LookupBase_def)
  have ty: "type_ok (logs_type logs_yaml :: unit conf_val cv_type)"
    unfolding logs_yaml_def by (rule logs_type_ok [OF tree_yaml_std])
  have "cf_func_id (no_config s) (ty_id (logs_type logs_yaml :: unit conf_val cv_type)) \<noteq> - 1" by (simp add: no_config_def)
  from LogIniter_installs [OF c ty this, of demo_env] show ?thesis using s by auto
qed

lemma demo_config_ok:
  assumes "logsys_ok s"
  shows "config_ok (demo_config s)"
proof -
  have "type_ok (logs_type logs_yaml :: unit conf_val cv_type)"
    unfolding logs_yaml_def by (rule logs_type_ok [OF tree_yaml_std])
  moreover have "cb_ok (Some (logs_listener demo_env :: unit conf_val on_change_cb))" by (rule logs_listener_ok)
  ultimately have "var_ok (\<lambda>t. 1) demo_var" by (simp add: var_ok_def demo_var_def map_ok_def)
  moreover have "valid_name ''logs''" by (simp add: valid_name_def name_chars_def)
  ultimately show ?thesis
    using assms by (simp add: config_ok_def demo_config_def fresh_in_def map_ok_def demo_var_def)
qed

definition quiet_var :: "unit conf_val ConfigVar" where
  "quiet_var = demo_var\<lparr>cv_val := Logs_val []\<rparr>"

theorem logs_text_configures_loggers_witness:
  "\<exists>s c'. logsys_start (\<lambda>f. []) = Inr s \<and>
    ConfigVar_fromString demo_env 0 ''L'' (put_var 0 quiet_var (demo_config s)) = (Inr True, c') \<and>
    logger_matches (cf_log c') demo_define"
proof -
  obtain s where s: "logsys_start (\<lambda>f. []) = Inr s" by (simp add: logsys_start_eq)
  let ?c = "put_var 0 quiet_var (demo_config s)"
  have v: "cf_vars (demo_config s) 0 = Some demo_var" by (simp add: demo_config_def)
  note ok = demo_config_ok [OF logsys_start_ok [OF s]]
  have "config_ok ?c"
    using config_okD(5) [OF ok v] by (intro config_ok_put [OF ok v]) (simp_all add: quiet_var_def)
  moreover have "cf_vars ?c 0 = Some quiet_var" "logs_var logs_yaml demo_env [] quiet_var" "\<not> logs_eq [] [demo_define]"
    by (simp_all add: put_var_def quiet_var_def demo_var_def logs_var_def logs_eq_def)
  moreover have "\<not> unchanged_in [] demo_define" by (simp add: unchanged_in_def set_find_def)
  ultimately show ?thesis
    using logs_text_configures_loggers [of ?c 0 quiet_var logs_yaml demo_env "[]" "''L''" "[demo_define]"] logs_yaml_set s
    by auto
qed

end
