(* ===== verification/Startup.thy ===== *)
theory Startup
  imports LogConfigProps "HOL-Library.Multiset"
begin

text \<open>
  The one instance of the manager (\<open>src/util/singleton.h\<close>, \<open>LoggerMgr\<close> in \<open>_log/LoggerManager.h\<close>, the
  macros \<open>SHS_LOG_ROOT\<close> and \<open>SHS_LOG_NAME\<close>), and the initialisers of the static variables of the
  program, which C++ runs before \<open>main\<close> in an order that is not specified across files.
\<close>

section \<open>Static variables of functions\<close>

text \<open>
  The variable is initialised by the first pass through its declaration that does not throw. The
  state is the variable beside the state that the initialiser works on.
\<close>

type_synonym 'a static_var = "'a option"

definition static_init :: "('s, 'a) act \<Rightarrow> ('a static_var \<times> 's, 'a) act" where
  "static_init init vs =
     (case vs of
        (Some x, s) \<Rightarrow> (Inr x, (Some x, s))
      | (None, s) \<Rightarrow>
          (case init s of
             (Inl e, s') \<Rightarrow> (Inl e, (None, s'))
           | (Inr x, s') \<Rightarrow> (Inr x, (Some x, s'))))"

text \<open>\<open>ctor\<close> constructs a \<open>T\<close> and gives its address.\<close>

definition SingleTon_GetInstance :: "('s, addr) act \<Rightarrow> (addr static_var \<times> 's, addr) act" where
  "SingleTon_GetInstance ctor = static_init ctor"

definition SingleTonPtr_GetInstance :: "('s, addr) act \<Rightarrow> (addr static_var \<times> 's, addr) act" where
  "SingleTonPtr_GetInstance ctor = static_init ctor"

text \<open>\<open>name\<close> is what \<open>abi::__cxa_demangle(typeid(T).name(), ...)\<close> gives: a text, or a null pointer.\<close>

definition TypeToName :: "string option \<Rightarrow> (string option static_var \<times> 's, string option) act" where
  "TypeToName name = static_init (returnA name)"

lemma static_init_again: "static_init init vs = (Inr x, (v, s)) \<Longrightarrow> static_init init' (v, s') = (Inr x, (v, s'))"
  by (auto simp: static_init_def split: prod.splits option.splits sum.splits)

text \<open>The manager is the part of \<open>logsys\<close> that it constructs; its address is 0.\<close>

definition LoggerMgr_GetInstance :: "(addr static_var \<times> logsys, addr) act" where
  "LoggerMgr_GetInstance = SingleTonPtr_GetInstance (bindA (logsys_op new_LoggerManager) (\<lambda>_. returnA 0))"

definition SHS_LOG_ROOT :: "(addr static_var \<times> logsys, addr) act" where
  "SHS_LOG_ROOT = bindA LoggerMgr_GetInstance (\<lambda>_ (v, s). (Inr (getRoot s), (v, s)))"

definition SHS_LOG_NAME :: "string \<Rightarrow> (addr static_var \<times> logsys, addr) act" where
  "SHS_LOG_NAME name = bindA LoggerMgr_GetInstance (\<lambda>_ (v, s).
     case logsys_get (getLogger name) s of (r, s') \<Rightarrow> (r, (v, s')))"

section \<open>The static variables of the program\<close>

text \<open>
  \<open>g_logger\<close> of \<open>util.cpp\<close>, \<open>fiber.cpp\<close>, \<open>thread.cpp\<close> and \<open>thread_posix.cpp\<close>; \<open>g_fiber_stack_size\<close>, whose
  type \<open>uint32_t\<close> and default value are arguments; \<open>g_log_defines\<close> and \<open>__log_init\<close>, which stand in one
  file and are made in this order.
\<close>

datatype initialiser = Init_g_logger | Init_g_fiber_stack_size | Init_logs

record 'v program =
  pg_manager :: "addr static_var"
  pg_config :: "'v conf_val config"
  pg_g_loggers :: "addr list"

definition init_g_logger :: "('v program, unit) act" where
  "init_g_logger p =
     (case SHS_LOG_NAME ''system'' (pg_manager p, cf_log (pg_config p)) of
        (r, (v, s)) \<Rightarrow>
          (let p' = p\<lparr>pg_manager := v, pg_config := (pg_config p)\<lparr>cf_log := s\<rparr>\<rparr>
           in case r of Inl e \<Rightarrow> (Inl e, p') | Inr a \<Rightarrow> (Inr (), p'\<lparr>pg_g_loggers := pg_g_loggers p @ [a]\<rparr>)))"

definition g_fiber_stack_size ::
  "'tm log_env \<Rightarrow> 'v conf_val cv_type \<Rightarrow> 'v conf_val \<Rightarrow> ('v conf_val config, addr option) act" where
  "g_fiber_stack_size le u32_type dv = Lookup le u32_type dv ''fiber.stack_size'' ''fiber stack size''"

definition on_config :: "('v conf_val config, 'a) act \<Rightarrow> ('v program, unit) act" where
  "on_config m p =
     (case m (pg_config p) of
        (Inl e, c) \<Rightarrow> (Inl e, p\<lparr>pg_config := c\<rparr>)
      | (Inr x, c) \<Rightarrow> (Inr (), p\<lparr>pg_config := c\<rparr>))"

fun run_initialiser ::
  "'n yaml \<Rightarrow> 'tm log_env \<Rightarrow> 'v conf_val cv_type \<Rightarrow> 'v conf_val \<Rightarrow> initialiser \<Rightarrow> ('v program, unit) act" where
  "run_initialiser y le ty dv Init_g_logger = init_g_logger"
| "run_initialiser y le ty dv Init_g_fiber_stack_size = on_config (g_fiber_stack_size le ty dv)"
| "run_initialiser y le ty dv Init_logs = on_config (LogIniter y le)"

definition no_program :: "files \<Rightarrow> 'v program" where
  "no_program fs = \<lparr>pg_manager = None,
     pg_config = \<lparr>cf_vars = Map.empty, cf_next = 0, cf_datas = [], cf_func_id = (\<lambda>t. 0), cf_log = logsys_empty fs\<rparr>,
     pg_g_loggers = []\<rparr>"

text \<open>The initialisers of the library, in the order of the files here.\<close>

definition static_initialisers :: "initialiser list" where
  "static_initialisers =
     [Init_logs, Init_g_logger, Init_g_fiber_stack_size, Init_g_logger, Init_g_logger, Init_g_logger]"

section \<open>Any order will do\<close>

text \<open>The logging system after the first logger has been asked for.\<close>

definition system_logs :: "files \<Rightarrow> logsys" where
  "system_logs fs = snd (projr (getLogger ''system'' (projr (logsys_start fs))))"

lemma first_logger: "SHS_LOG_NAME ''system'' (None, logsys_empty fs) = (Inr 1, (Some 0, system_logs fs))"
proof -
  obtain s where s: "logsys_start fs = Inr s" by (simp add: logsys_start_eq)
  obtain s1 where "getLogger ''system'' s = Inr (1, s1)"
    using s by (auto simp: logsys_start_eq getLogger_def new_Logger_def Let_def Logger_setRoot_def with_logger_def)
  then show ?thesis
    using s by (simp add: SHS_LOG_NAME_def LoggerMgr_GetInstance_def SingleTonPtr_GetInstance_def static_init_def
        logsys_op_def logsys_start_def [symmetric] returnA_def logsys_get_def system_logs_def bindA_def)
qed

lemma system_logs_ok: "logsys_ok (system_logs fs)"
  and system_logs_reachable: "log_reachable ck fs (system_logs fs)"
  and system_logs_silent: "ls_stdout (system_logs fs) = []" "ls_files (system_logs fs) = fs"
  and system_logs_names: "map fst (mgr_loggers (system_logs fs)) = [''root'', ''system'']"
    "map_of (mgr_loggers (system_logs fs)) ''system'' = Some 1"
proof -
  obtain s where s: "logsys_start fs = Inr s" by (simp add: logsys_start_eq)
  obtain s1 where s1: "getLogger ''system'' s = Inr (1, s1)" "ls_stdout s1 = []" "ls_files s1 = fs"
      "mgr_loggers s1 = map_put ''system'' 1 [(''root'', 0)]"
    using s by (auto simp: logsys_start_eq getLogger_def new_Logger_def Let_def Logger_setRoot_def with_logger_def)
  have eq: "system_logs fs = s1" using s s1 by (simp add: system_logs_def)
  show "log_reachable ck fs (system_logs fs)" for ck :: "'a clock"
    unfolding eq by (rule reach_step [OF reach_start [OF s] step_get [OF s1(1)]])
  then show "logsys_ok (system_logs fs)" by (rule log_reachable_ok)
  show "ls_stdout (system_logs fs) = []" "ls_files (system_logs fs) = fs" using eq s1 by simp_all
  have "map_put ''system'' 1 [(''root'', 0)] = [(''root'', 0), (''system'', 1 :: addr)]" by code_simp
  then show "map fst (mgr_loggers (system_logs fs)) = [''root'', ''system'']"
    "map_of (mgr_loggers (system_logs fs)) ''system'' = Some 1" using eq s1(4) by simp_all
qed

lemma later_logger: "SHS_LOG_NAME ''system'' (Some 0, system_logs fs) = (Inr 1, (Some 0, system_logs fs))"
  by (simp add: SHS_LOG_NAME_def LoggerMgr_GetInstance_def SingleTonPtr_GetInstance_def static_init_def logsys_get_def
      getLogger_def system_logs_names bindA_def)

text \<open>Looking up a new name, and the initialiser of the logs, do not look at the logging system.\<close>

definition with_logs :: "'n yaml \<Rightarrow> 'tm log_env \<Rightarrow> 'v conf_val config \<Rightarrow> 'v conf_val config" where
  "with_logs y le c =
     (let ty = logs_type y :: 'v conf_val cv_type; a = cf_next c; k = cf_func_id c (ty_id ty) + 1;
          v = new_ConfigVar ty (Logs_val []) ''logs'' ''logs config''
      in c\<lparr>cf_vars := (cf_vars c)(a \<mapsto> v\<lparr>cv_cbs := [(k, Some (logs_listener le))]\<rparr>), cf_next := Suc a,
           cf_datas := map_put ''logs'' a (cf_datas c), cf_func_id := (cf_func_id c)(ty_id ty := k)\<rparr>)"

lemma LogIniter_run:
  assumes "map_of (cf_datas c) ''logs'' = None"
  shows "LogIniter y le c = (Inr (), with_logs y le c)"
proof -
  have valid: "valid_name ''logs''" by (simp add: valid_name_def name_chars_def)
  show ?thesis
    unfolding LogIniter_def
    by (simp add: Lookup_new [OF assms valid] with_logs_def ConfigVar_addListener_def on_var_def put_var_def Let_def
        returnA_def bindA_def map_insert_def new_ConfigVar_def)
qed

text \<open>What has been made when the initialisers in \<open>D\<close> have run.\<close>

definition logs_made :: "'n yaml \<Rightarrow> 'tm log_env \<Rightarrow> 'v conf_val config \<Rightarrow> bool" where
  "logs_made y le c \<longleftrightarrow> (\<exists>a v. LookupBase ''logs'' c = Some a \<and> cf_vars c a = Some v \<and> logs_var y le [] v)"

definition size_made :: "'v conf_val cv_type \<Rightarrow> 'v conf_val \<Rightarrow> 'v conf_val config \<Rightarrow> bool" where
  "size_made ty dv c \<longleftrightarrow> (\<exists>a v. LookupBase ''fiber.stack_size'' c = Some a \<and> cf_vars c a = Some v \<and>
     cv_type v = ty \<and> cv_val v = dv \<and> cv_cbs v = [])"

definition started ::
  "'n yaml \<Rightarrow> 'tm log_env \<Rightarrow> 'v conf_val cv_type \<Rightarrow> 'v conf_val \<Rightarrow> files \<Rightarrow> initialiser list \<Rightarrow> 'v program \<Rightarrow> bool" where
  "started y le ty dv fs D p \<longleftrightarrow>
     config_ok ((pg_config p)\<lparr>cf_log := system_logs fs\<rparr>) \<and>
     (pg_manager p, cf_log (pg_config p)) =
       (if Init_g_logger \<in> set D then (Some 0, system_logs fs) else (None, logsys_empty fs)) \<and>
     pg_g_loggers p = map (\<lambda>_. 1) (filter (\<lambda>i. i = Init_g_logger) D) \<and>
     (if Init_logs \<in> set D then logs_made y le (pg_config p)
      else LookupBase ''logs'' (pg_config p) = None \<and> cf_func_id (pg_config p) = (\<lambda>t. 0)) \<and>
     (if Init_g_fiber_stack_size \<in> set D then size_made ty dv (pg_config p)
      else LookupBase ''fiber.stack_size'' (pg_config p) = None)"

lemma made_log [simp]:
  "logs_made y le (c\<lparr>cf_log := s\<rparr>) = logs_made y le c" "size_made ty dv (c\<lparr>cf_log := s\<rparr>) = size_made ty dv c"
  "LookupBase n (c\<lparr>cf_log := s\<rparr>) = LookupBase n c"
  by (simp_all add: logs_made_def size_made_def LookupBase_def)

lemma started_logger:
  assumes "started y le ty dv fs D p"
  shows "\<exists>p'. init_g_logger p = (Inr (), p') \<and> started y le ty dv fs (D @ [Init_g_logger]) p'"
proof -
  have "SHS_LOG_NAME ''system'' (pg_manager p, cf_log (pg_config p)) = (Inr 1, (Some 0, system_logs fs))"
    using assms first_logger [of fs] later_logger [of fs] by (simp add: started_def split: if_splits)
  then show ?thesis using assms by (simp add: init_g_logger_def started_def)
qed

text \<open>Making a variable of another name leaves the variables alone.\<close>

lemma config_grows_made:
  assumes "\<And>n a. LookupBase n c = Some a \<Longrightarrow> LookupBase n c' = Some a"
    and "\<And>a v. cf_vars c a = Some v \<Longrightarrow> cf_vars c' a = Some v"
  shows "logs_made y le c \<Longrightarrow> logs_made y le c'" and "size_made ty dv c \<Longrightarrow> size_made ty dv c'"
  using assms unfolding logs_made_def size_made_def by blast+

lemma started_stack_size:
  assumes st: "started y le ty dv fs D p" and new: "Init_g_fiber_stack_size \<notin> set D" and ty: "type_ok ty"
  shows "\<exists>p'. on_config (g_fiber_stack_size le ty dv) p = (Inr (), p') \<and> started y le ty dv fs (D @ [Init_g_fiber_stack_size]) p'"
proof -
  let ?n = "''fiber.stack_size''" and ?c = "pg_config p"
  let ?v = "new_ConfigVar ty dv ?n ''fiber stack size''"
  let ?c' = "(put_var (cf_next ?c) ?v ?c)\<lparr>cf_next := Suc (cf_next ?c), cf_datas := map_put ?n (cf_next ?c) (cf_datas ?c)\<rparr>"
  have ok: "config_ok (?c\<lparr>cf_log := system_logs fs\<rparr>)" using st by (simp add: started_def)
  have none: "map_of (cf_datas ?c) ?n = None" using st new by (simp add: started_def LookupBase_def)
  have valid: "valid_name ?n" by (simp add: valid_name_def name_chars_def)
  have run: "on_config (g_fiber_stack_size le ty dv) p = (Inr (), p\<lparr>pg_config := ?c'\<rparr>)"
    by (simp add: on_config_def g_fiber_stack_size_def Lookup_new [OF none valid])
  have "map_of (cf_datas (?c\<lparr>cf_log := system_logs fs\<rparr>)) ?n = None" using none by simp
  from config_ok_new [OF ok this valid ty, of dv "''fiber stack size''"]
  have ok': "config_ok (?c'\<lparr>cf_log := system_logs fs\<rparr>)" by (cases ?c) (simp add: put_var_def)
  have "cf_vars ?c (cf_next ?c) = None" using fresh_in_None [OF config_okD(2) [OF ok]] by simp
  then have grows: "LookupBase n ?c = Some a \<Longrightarrow> LookupBase n ?c' = Some a"
      "cf_vars ?c b = Some v \<Longrightarrow> cf_vars ?c' b = Some v" for n a b v
    using none by (auto simp: LookupBase_def put_var_def)
  have "size_made ty dv ?c'" by (simp add: size_made_def LookupBase_def put_var_def new_ConfigVar_def Let_def)
  moreover have "logs_made y le ?c \<Longrightarrow> logs_made y le ?c'" by (rule config_grows_made(1) [OF grows])
  moreover have "LookupBase ''logs'' ?c' = LookupBase ''logs'' ?c" "cf_log ?c' = cf_log ?c" "cf_func_id ?c' = cf_func_id ?c"
    by (simp_all add: LookupBase_def put_var_def)
  ultimately show ?thesis
    unfolding run using st ok' by (intro exI [of _ "p\<lparr>pg_config := ?c'\<rparr>"]) (simp add: started_def)
qed

lemma started_logs:
  assumes st: "started y le ty dv fs D p" and new: "Init_logs \<notin> set D" and ty: "type_ok (logs_type y :: 'v conf_val cv_type)"
  shows "\<exists>p' :: 'v program. on_config (LogIniter y le) p = (Inr (), p') \<and> started y le ty dv fs (D @ [Init_logs]) p'"
proof -
  let ?c = "pg_config p" and ?s = "system_logs fs"
  have ok: "config_ok (?c\<lparr>cf_log := ?s\<rparr>)" using st by (simp add: started_def)
  have none: "LookupBase ''logs'' (?c\<lparr>cf_log := ?s\<rparr>) = None" "map_of (cf_datas ?c) ''logs'' = None"
      "cf_func_id (?c\<lparr>cf_log := ?s\<rparr>) (ty_id (logs_type y :: 'v conf_val cv_type)) \<noteq> - 1"
    using st new by (simp_all add: started_def LookupBase_def)
  have ok': "config_ok ((with_logs y le ?c)\<lparr>cf_log := ?s\<rparr>)"
    using LogIniter_installs [OF ok none(1) ty none(3), of le] LogIniter_run [of "?c\<lparr>cf_log := ?s\<rparr>" y le] none(2)
    by (cases ?c) (auto simp: with_logs_def Let_def)
  have run: "on_config (LogIniter y le) p = (Inr (), p\<lparr>pg_config := with_logs y le ?c\<rparr>)"
    by (simp add: on_config_def LogIniter_run [OF none(2)])
  have "cf_vars ?c (cf_next ?c) = None" using fresh_in_None [OF config_okD(2) [OF ok]] by simp
  then have grows: "LookupBase n ?c = Some a \<Longrightarrow> LookupBase n (with_logs y le ?c) = Some a"
      "cf_vars ?c b = Some v \<Longrightarrow> cf_vars (with_logs y le ?c) b = Some v" for n a b v
    using none(2) by (auto simp: LookupBase_def with_logs_def Let_def)
  have "logs_made y le (with_logs y le ?c)"
    by (simp add: logs_made_def LookupBase_def with_logs_def new_ConfigVar_def Let_def logs_var_def)
  moreover have "size_made ty' dv ?c \<Longrightarrow> size_made ty' dv (with_logs y le ?c)" for ty' by (rule config_grows_made(2) [OF grows])
  moreover have "LookupBase ''fiber.stack_size'' (with_logs y le ?c) = LookupBase ''fiber.stack_size'' ?c"
      "cf_log (with_logs y le ?c) = cf_log ?c"
    by (simp_all add: LookupBase_def with_logs_def Let_def)
  ultimately show ?thesis
    unfolding run using st ok' by (intro exI [of _ "p\<lparr>pg_config := with_logs y le ?c\<rparr>"]) (simp add: started_def)
qed

text \<open>One after the other, with at most one of each variable of the registry.\<close>

lemma started_all:
  assumes "started y le ty dv fs D p" and "type_ok ty" and "type_ok (logs_type y :: 'v conf_val cv_type)"
    and "count_list (D @ inits) Init_logs \<le> 1" and "count_list (D @ inits) Init_g_fiber_stack_size \<le> 1"
  shows "\<exists>p' :: 'v program. forA (run_initialiser y le ty dv) inits p = (Inr (), p') \<and> started y le ty dv fs (D @ inits) p'"
  using assms
proof (induction inits arbitrary: D p)
  case (Cons i inits)
  have new: "i = Init_g_logger \<or> i \<notin> set D"
    using Cons.prems(4,5) by (cases i) (auto simp: count_list_0_iff [symmetric])
  have "\<exists>p'. run_initialiser y le ty dv i p = (Inr (), p') \<and> started y le ty dv fs (D @ [i]) p'"
    using started_logger [OF Cons.prems(1)] started_stack_size [OF Cons.prems(1) _ Cons.prems(2)]
      started_logs [OF Cons.prems(1) _ Cons.prems(3)] new by (cases i) auto
  then obtain p1 where p1: "run_initialiser y le ty dv i p = (Inr (), p1)" "started y le ty dv fs (D @ [i]) p1" by blast
  show ?case using Cons.IH [OF p1(2) Cons.prems(2,3)] Cons.prems(4,5) p1(1) by (auto simp: bindA_def)
qed simp

lemma no_program_started: "started y le ty dv fs [] (no_program fs)"
  using system_logs_ok [of fs]
  by (simp add: started_def no_program_def LookupBase_def config_ok_def fresh_in_def map_ok_def)

lemma four_loggers: "length (filter (\<lambda>i. i = Init_g_logger) static_initialisers) = 4"
  by (simp add: static_initialisers_def)

text \<open>
  C34. The order in which the static variables of the program are initialised does not matter:
  whatever it is, every initialiser returns normally; the manager has been constructed, by the first
  that asks for a logger, and has only the loggers \<open>root\<close> and \<open>system\<close>; all \<open>g_logger\<close> are the one logger named \<open>system\<close>; the loggers
  are in a reachable state, nothing has been written; the registry is well formed and has the two
  variables, with their default values, of which \<open>logs\<close> has the listener that configures the loggers.
\<close>

theorem static_initialisation_any_order:
  assumes "mset inits = mset static_initialisers" and "type_ok ty" and "type_ok (logs_type y :: 'v conf_val cv_type)"
  shows "\<exists>p :: 'v program. forA (run_initialiser y le ty dv) inits (no_program fs) = (Inr (), p) \<and>
    pg_manager p \<noteq> None \<and> config_ok (pg_config p) \<and> log_reachable ck fs (cf_log (pg_config p)) \<and>
    map fst (mgr_loggers (cf_log (pg_config p))) = [''root'', ''system''] \<and>
    (\<exists>a. pg_g_loggers p = [a, a, a, a] \<and> getLogger ''system'' (cf_log (pg_config p)) = Inr (a, cf_log (pg_config p))) \<and>
    ls_stdout (cf_log (pg_config p)) = [] \<and> ls_files (cf_log (pg_config p)) = fs \<and>
    logs_made y le (pg_config p) \<and> size_made ty dv (pg_config p)"
proof -
  have count: "count_list inits i = count_list static_initialisers i" for i
    by (rule mset_eq_length_filter [OF assms(1)])
  obtain p :: "'v program" where p: "forA (run_initialiser y le ty dv) inits (no_program fs) = (Inr (), p)" "started y le ty dv fs inits p"
    using started_all [OF no_program_started assms(2,3), where inits = inits and fs = fs and le = le and dv = dv] count [of Init_logs] count [of Init_g_fiber_stack_size]
    by (auto simp: static_initialisers_def)
  have set: "set inits = {Init_logs, Init_g_logger, Init_g_fiber_stack_size}"
    using mset_eq_setD [OF assms(1)] by (auto simp: static_initialisers_def)
  have "mset (filter (\<lambda>i. i = Init_g_logger) inits) = mset (filter (\<lambda>i. i = Init_g_logger) static_initialisers)"
    using assms(1) by simp
  then have "length (filter (\<lambda>i. i = Init_g_logger) inits) = 4"
    by (metis (no_types, lifting) size_mset four_loggers)
  then have "map (\<lambda>_. 1 :: addr) (filter (\<lambda>i. i = Init_g_logger) inits) = [1, 1, 1, 1]"
    by (simp add: map_replicate_const numeral_eq_Suc)
  moreover have log: "cf_log (pg_config p) = system_logs fs" using p(2) set by (simp add: started_def)
  moreover have "config_ok (pg_config p)"
  proof -
    have "(pg_config p)\<lparr>cf_log := system_logs fs\<rparr> = pg_config p" using log by (cases "pg_config p") simp
    then show ?thesis using p(2) unfolding started_def by metis
  qed
  ultimately show ?thesis
    using p set system_logs_reachable [of ck fs] system_logs_silent [of fs] system_logs_names [of fs]
    by (intro exI [of _ p]) (simp add: started_def getLogger_def)
qed

definition size_type :: "u32 conf_val cv_type" where
  "size_type =
     \<lparr>ty_id = ''j'', ty_name = ''unsigned int'',
      ty_from = (\<lambda>t. if t \<noteq> [] \<and> (\<forall>ch \<in> set t. ch \<in> set ''0123456789'')
        then Inr (Other_val (foldl (\<lambda>n ch. 10 * n + of_char ch - 48) 0 t))
        else Inl (Throw (Std_exception ''bad lexical cast: source type value could not be interpreted as target''))),
      ty_prints = (\<lambda>t. []),
      ty_to = (\<lambda>v. case v of Other_val x \<Rightarrow> Inr (nat_str (unat x)) | Logs_val _ \<Rightarrow> Inl (Throw (Std_exception ''bad value''))),
      ty_eq = (\<lambda>a b. case (a, b) of (Other_val x, Other_val z) \<Rightarrow> x = z | _ \<Rightarrow> False)\<rparr>"

theorem static_initialisation_any_order_witness:
  "\<exists>p :: u32 program. forA (run_initialiser logs_yaml demo_env size_type (Other_val 131072))
     [Init_g_logger, Init_g_logger, Init_g_fiber_stack_size, Init_logs, Init_g_logger, Init_g_logger] (no_program (\<lambda>f. [])) = (Inr (), p) \<and>
   (\<exists>a. pg_g_loggers p = [a, a, a, a]) \<and> ls_stdout (cf_log (pg_config p)) = []"
proof -
  let ?inits = "[Init_g_logger, Init_g_logger, Init_g_fiber_stack_size, Init_logs, Init_g_logger, Init_g_logger]"
  have "type_ok size_type" by (auto simp: type_ok_def size_type_def std_failure_def split: conf_val.splits)
  moreover have "type_ok (logs_type logs_yaml :: u32 conf_val cv_type)"
    unfolding logs_yaml_def by (rule logs_type_ok [OF tree_yaml_std])
  moreover have "mset ?inits = mset static_initialisers" by (simp add: static_initialisers_def)
  ultimately show ?thesis
    using static_initialisation_any_order [of ?inits size_type logs_yaml demo_env "Other_val 131072" "\<lambda>f. []" some_clock] by blast
qed

end
