(* ===== verification/Registry.thy ===== *)
theory Registry
  imports Prelude
begin

text \<open>
  The contract that \<open>LoggerManager::getLogger\<close> and \<open>Config::Lookup\<close> share: a table of named
  objects whose access function returns the object of a name and creates it when there is none.
  \<open>get\<close> may also return a null pointer, and then the table is as before.
\<close>

locale get_or_create =
  fixes get :: "'k \<Rightarrow> 's \<Rightarrow> ('a option \<times> 's) outcome"
    and look :: "'s \<Rightarrow> 'k \<Rightarrow> 'a option"
    and ok :: "'s \<Rightarrow> bool"
  assumes get_found: "ok s \<Longrightarrow> look s k = Some a \<Longrightarrow>
      \<exists>s'. get k s = Inr (Some a, s') \<and> look s' = look s \<and> ok s'"
    and get_missing: "ok s \<Longrightarrow> look s k = None \<Longrightarrow> get k s = Inr (Some a, s') \<Longrightarrow>
      look s' = (look s)(k \<mapsto> a) \<and> ok s'"
    and get_null: "ok s \<Longrightarrow> get k s = Inr (None, s') \<Longrightarrow> look s' = look s \<and> ok s'"
begin

lemma get_result:
  assumes "ok s" and "get k s = Inr (Some a, s')"
  shows "ok s' \<and> look s' k = Some a \<and> look s \<subseteq>\<^sub>m look s'"
proof (cases "look s k")
  case None
  then show ?thesis using get_missing [OF assms(1) None assms(2)] by (auto simp: map_le_def)
next
  case (Some b)
  obtain t where "get k s = Inr (Some b, t)" "look t = look s" "ok t"
    using get_found [OF assms(1) Some] by blast
  then show ?thesis using assms(2) Some by simp
qed

lemma get_keeps: "ok s \<Longrightarrow> get k s = Inr (r, s') \<Longrightarrow> ok s' \<and> look s \<subseteq>\<^sub>m look s'"
proof (cases r)
  case None
  assume "ok s" "get k s = Inr (r, s')"
  then show ?thesis using get_null [of s k s'] None by simp
next
  case (Some a)
  assume "ok s" "get k s = Inr (r, s')"
  then show ?thesis using get_result [of s k a s'] Some by simp
qed

lemma get_again:
  assumes "ok s" and "get k s = Inr (Some a, s1)"
  shows "\<exists>s2. get k s1 = Inr (Some a, s2) \<and> look s2 = look s1"
  using get_result [OF assms] get_found by blast

text \<open>A sequence of accesses: what is once found under a name stays there.\<close>

fun gets :: "'k list \<Rightarrow> 's \<Rightarrow> 's outcome" where
  "gets [] s = Inr s"
| "gets (k # ks) s = bind_out (get k s) (\<lambda>(r, s'). gets ks s')"

lemma gets_keep: "ok s \<Longrightarrow> gets ks s = Inr s' \<Longrightarrow> ok s' \<and> look s \<subseteq>\<^sub>m look s'"
proof (induction ks arbitrary: s)
  case (Cons k ks)
  from Cons.prems(2) obtain r s1 where s1: "get k s = Inr (r, s1)" "gets ks s1 = Inr s'"
    by (auto simp: bind_out_eq_Inr)
  have "ok s1" "look s \<subseteq>\<^sub>m look s1" using get_keeps [OF Cons.prems(1) s1(1)] by auto
  then show ?case using Cons.IH [OF _ s1(2)] map_le_trans by blast
qed simp

lemma get_stable:
  assumes "ok s" and "get k s = Inr (Some a, s1)" and "gets ks s1 = Inr s2"
  shows "\<exists>s3. get k s2 = Inr (Some a, s3)"
proof -
  have "ok s1" "look s1 k = Some a" using get_result [OF assms(1,2)] by auto
  with gets_keep [OF _ assms(3)] have "ok s2" "look s2 k = Some a"
    by (auto simp: map_le_def dom_def)
  then show ?thesis using get_found by blast
qed

end

end
