(* ===== verification/LogProps.thy ===== *)
theory LogProps
  imports LogBehaviour Registry
begin

text \<open>The properties of the logging system, and its logger table as a registry.\<close>

definition get_logger_ptr :: "string \<Rightarrow> logsys \<Rightarrow> (addr option \<times> logsys) outcome" where
  "get_logger_ptr name s = bind_out (getLogger name s) (\<lambda>(a, s'). Inr (Some a, s'))"

interpretation loggers: get_or_create get_logger_ptr "\<lambda>s. map_of (mgr_loggers s)" logsys_ok
proof unfold_locales
  fix s k a
  assume "logsys_ok s" "map_of (mgr_loggers s) k = Some a"
  then show "\<exists>s'. get_logger_ptr k s = Inr (Some a, s') \<and>
      map_of (mgr_loggers s') = map_of (mgr_loggers s) \<and> logsys_ok s'"
    by (simp add: get_logger_ptr_def getLogger_def)
next
  fix s k a s'
  assume ok: "logsys_ok s" and none: "map_of (mgr_loggers s) k = None"
    and get: "get_logger_ptr k s = Inr (Some a, s')"
  then have get: "getLogger k s = Inr (a, s')" by (auto simp: get_logger_ptr_def bind_out_eq_Inr)
  show "map_of (mgr_loggers s') = (map_of (mgr_loggers s))(k \<mapsto> a) \<and> logsys_ok s'"
    using ok
  proof (cases rule: getLogger_cases [where name = k])
    case (created b t)
    then show ?thesis using get getLogger_ok [OF ok get] by auto
  qed (use none in simp)
next
  fix s k s'
  assume "logsys_ok s" "get_logger_ptr k s = Inr (None, s')"
  then show "map_of (mgr_loggers s') = map_of (mgr_loggers s) \<and> logsys_ok s'"
    by (auto simp: get_logger_ptr_def bind_out_eq_Inr)
qed

text \<open>
  C9. Logging always returns and never dereferences a null pointer: in every state the program
  can reach through the logging interface, \<open>Logger::log\<close> on an existing logger terminates
  normally for every level, event and behaviour of the disk, in a state that is again reachable.
\<close>

theorem log_terminates:
  assumes "log_reachable ck fs s" and "ls_loggers s a \<noteq> None"
  shows "\<exists>s'. Logger_log ck env a level e s = Some (Inr s') \<and> log_reachable ck fs s'"
proof -
  obtain s' where s': "Logger_log ck env a level e s = Some (Inr s')"
    using Logger_log_returns [OF log_reachable_ok [OF assms(1)] assms(2)] by blast
  then show ?thesis using reach_step [OF assms(1) step_log] by blast
qed

text \<open>A clock and a disk to evaluate with.\<close>

definition some_clock :: "unit clock" where
  "some_clock = \<lparr>localtime_r = (\<lambda>t. Some ()), strftime = (\<lambda>n f tm. f)\<rparr>"

definition good_disk :: os_env where
  "good_disk = \<lparr>can_open = (\<lambda>f. True), can_write = (\<lambda>f. True)\<rparr>"

definition bad_disk :: os_env where
  "bad_disk = \<lparr>can_open = (\<lambda>f. True), can_write = (\<lambda>f. False)\<rparr>"

definition some_event :: LogEvent where
  "some_event = ss_write (new_LogEvent 0 INFO ''a.cpp'' 7 0 3 0 100 ''main'') ''hi''"

theorem log_terminates_witness:
  "\<exists>s s'. logsys_start (\<lambda>f. []) = Inr s \<and>
    Logger_log some_clock bad_disk 0 INFO some_event s = Some (Inr s')"
proof -
  obtain s where s: "logsys_start (\<lambda>f. []) = Inr s" "ls_loggers s 0 \<noteq> None"
    by (simp add: logsys_start_eq)
  have "log_reachable some_clock (\<lambda>f. []) s" by (rule reach_start [OF s(1)])
  then show ?thesis using log_terminates [of some_clock "\<lambda>f. []" s 0 bad_disk INFO some_event] s by blast
qed

text \<open>
  C1. \<open>Logger::log\<close> refines its specification: the event goes to the appenders of the logger, in
  their order and under the logger's name, when the level passes; to those of the root, under the
  root's name, when the logger has none and the level passes there too; otherwise to nobody.
\<close>

theorem log_refines_receivers:
  assumes "log_reachable ck fs s" and "ls_loggers s a \<noteq> None"
  shows "Logger_log ck env a level e s = Some (deliver ck env level e (receivers s a level) s)"
  by (rule Logger_log_deliver [OF log_reachable_ok [OF assms(1)] assms(2)])

theorem log_refines_receivers_witness:
  "\<exists>s. logsys_start (\<lambda>f. []) = Inr s \<and> receivers s 0 INFO = [(''root'', 0)] \<and>
    Logger_log some_clock good_disk 0 INFO some_event s =
      Some (deliver some_clock good_disk INFO some_event (receivers s 0 INFO) s)"
proof -
  obtain s where s: "logsys_start (\<lambda>f. []) = Inr s" "ls_loggers s 0 \<noteq> None" "receivers s 0 INFO = [(''root'', 0)]"
    by (simp add: logsys_start_eq receivers_def own_receivers_def less_eq_LogLevel_def)
  have "log_reachable some_clock (\<lambda>f. []) s" by (rule reach_start [OF s(1)])
  then show ?thesis
    using log_refines_receivers [of some_clock "\<lambda>f. []" s 0 good_disk INFO some_event] s by blast
qed

text \<open>
  C5. Delivery: where the disk works and the streams of the receiving appenders do, one log call
  extends the console by exactly the formatted lines of the console appenders whose level passes,
  in order, and every file by exactly the formatted texts of the appenders on that file; nothing
  is lost, repeated or written elsewhere, also when an appender reopens its file.
\<close>

theorem log_delivers:
  assumes "log_reachable ck fs s" and "ls_loggers s a \<noteq> None" and "disk_ok env"
    and "\<And>n b. (n, b) \<in> set (receivers s a level) \<Longrightarrow> appender_ready s b"
  shows "\<exists>s'. Logger_log ck env a level e s = Some (Inr s') \<and>
    ls_stdout s' = ls_stdout s @ concat (map (console_text ck level e s) (receivers s a level)) \<and>
    (\<forall>g. ls_files s' g = ls_files s g @ concat (map (file_text ck level e g s) (receivers s a level)))"
proof -
  note ok = log_reachable_ok [OF assms(1)]
  obtain s' where s': "deliver ck env level e (receivers s a level) s = Inr s'"
    using deliver_returns [OF ok, of "receivers s a level"] receivers_live [OF ok] by blast
  then show ?thesis
    using Logger_log_deliver [OF ok assms(2), of ck env level e] deliver_text [OF ok assms(3,4) s'] by auto
qed

theorem log_delivers_witness:
  "\<exists>s s'. logsys_start (\<lambda>f. []) = Inr s \<and>
    Logger_log some_clock good_disk 0 INFO some_event s = Some (Inr s') \<and>
    ls_stdout s' = console_text some_clock INFO some_event s (''root'', 0)"
proof -
  obtain s where s: "logsys_start (\<lambda>f. []) = Inr s" "ls_loggers s 0 \<noteq> None"
      "receivers s 0 INFO = [(''root'', 0)]" "appender_ready s 0" "ls_stdout s = []"
    by (simp add: logsys_start_eq receivers_def own_receivers_def less_eq_LogLevel_def appender_ready_def)
  have "log_reachable some_clock (\<lambda>f. []) s" by (rule reach_start [OF s(1)])
  then show ?thesis
    using log_delivers [of some_clock "\<lambda>f. []" s 0 good_disk INFO some_event] s
    by (fastforce simp: disk_ok_def good_disk_def)
qed

text \<open>
  C29. The output is append-only: whatever sequence of calls is made on the logging interface,
  with whatever disk, the text already on the console and in every file stays in place as a
  prefix of what is there later.
\<close>

theorem log_output_append_only:
  assumes "log_reachable ck fs s" and "(log_step ck)\<^sup>*\<^sup>* s s'"
  shows "prefix (ls_stdout s) (ls_stdout s') \<and> prefix (ls_files s f) (ls_files s' f) \<and>
    prefix (fs f) (ls_files s f)"
proof -
  have "prefix (fs f) (ls_files s f)" using assms(1)
  proof (induction rule: log_reachable.induct)
    case (reach_start s)
    then show ?case by (auto simp: logsys_start_eq)
  next
    case (reach_step s s')
    then show ?case
      using log_step_grows [OF reach_step.hyps(2) log_reachable_ok [OF reach_step.hyps(1)]]
      by (auto simp: log_grows_def intro: prefix_order.trans)
  qed
  then show ?thesis
    using log_steps_grow [OF assms(2) log_reachable_ok [OF assms(1)]] by (simp add: log_grows_def)
qed

theorem log_output_append_only_witness:
  "\<exists>s s'. logsys_start (\<lambda>f. ''old'') = Inr s \<and> (log_step some_clock)\<^sup>*\<^sup>* s s' \<and> s' \<noteq> s \<and>
    prefix ''old'' (ls_files s' ''a.log'')"
proof -
  obtain s where s: "logsys_start (\<lambda>f. ''old'') = Inr s" "ls_stdout s = []" "ls_files s = (\<lambda>f. ''old'')"
    by (simp add: logsys_start_eq)
  have "log_reachable some_clock (\<lambda>f. ''old'') s" by (rule reach_start [OF s(1)])
  moreover have steps: "(log_step some_clock)\<^sup>*\<^sup>* s (cout_line ''x'' s)"
    by (rule r_into_rtranclp) (rule step_print)
  ultimately have "prefix ''old'' (ls_files (cout_line ''x'' s) ''a.log'')"
    using log_output_append_only [of some_clock "\<lambda>f. ''old''" s "cout_line ''x'' s" "''a.log''"] s by simp
  moreover have "cout_line ''x'' s \<noteq> s" using s(2) by (metis append_Nil cout_line_def list.distinct(1)
        append_Cons logsys.select_convs(5) logsys.surjective logsys.update_convs(5))
  ultimately show ?thesis using s(1) steps by blast
qed

text \<open>
  C26. The identity of loggers: \<open>getLogger\<close> always returns, and the logger it returns carries the
  requested name; after any further calls on the logging interface the same name still gives the
  same logger, and different names give different loggers.
\<close>

theorem getLogger_identity:
  assumes "log_reachable ck fs s"
  shows "\<exists>a s1. getLogger name s = Inr (a, s1) \<and>
    (\<exists>lg. ls_loggers s1 a = Some lg \<and> lg_name lg = name) \<and>
    (\<forall>s2. (log_step ck)\<^sup>*\<^sup>* s1 s2 \<longrightarrow> getLogger name s2 = Inr (a, s2) \<and>
      (\<forall>other b s3. other \<noteq> name \<longrightarrow> getLogger other s2 = Inr (b, s3) \<longrightarrow> b \<noteq> a))"
proof -
  note ok = log_reachable_ok [OF assms]
  obtain a s1 where get: "getLogger name s = Inr (a, s1)"
    using getLogger_cases [OF ok, of name] by metis
  note g = getLogger_ok [OF ok get]
  have later: "getLogger name s2 = Inr (a, s2) \<and>
      (\<forall>other b s3. other \<noteq> name \<longrightarrow> getLogger other s2 = Inr (b, s3) \<longrightarrow> b \<noteq> a)"
    if steps: "(log_step ck)\<^sup>*\<^sup>* s1 s2" for s2
  proof -
    have grow: "log_grows s1 s2" "logsys_ok s2" using log_steps_grow [OF steps] g by auto
    obtain lg where "ls_loggers s1 a = Some lg" "lg_name lg = name" using g by blast
    then obtain lg2 where lg2: "ls_loggers s2 a = Some lg2" "lg_name lg2 = name"
      using grow(1) unfolding log_grows_def by blast
    have "map_of (mgr_loggers s2) name = Some a" using grow(1) g by (simp add: log_grows_def)
    then have "getLogger name s2 = Inr (a, s2)" by (simp add: getLogger_def)
    moreover have "b \<noteq> a" if "other \<noteq> name" "getLogger other s2 = Inr (b, s3)" for other b s3
    proof -
      have "\<exists>lg. ls_loggers s3 b = Some lg \<and> lg_name lg = other"
        using getLogger_ok [OF grow(2) that(2)] by blast
      moreover have "\<exists>lg. ls_loggers s3 a = Some lg \<and> lg_name lg = name"
        using getLogger_grows [OF grow(2) that(2)] lg2 by (fastforce simp: log_grows_def)
      ultimately show ?thesis using that(1) by auto
    qed
    ultimately show ?thesis by blast
  qed
  show ?thesis using get g later by blast
qed

theorem getLogger_identity_witness:
  "\<exists>s a s1. logsys_start (\<lambda>f. []) = Inr s \<and> getLogger ''system'' s = Inr (a, s1) \<and>
    getLogger ''system'' s1 = Inr (a, s1)"
proof -
  obtain s where s: "logsys_start (\<lambda>f. []) = Inr s" by (simp add: logsys_start_eq)
  have "log_reachable some_clock (\<lambda>f. []) s" by (rule reach_start [OF s])
  from getLogger_identity [OF this, of "''system''"] show ?thesis using s by blast
qed

end
