(* ===== verification/LogFiles.thy ===== *)
theory LogFiles
  imports LogProps
begin

text \<open>
  The life of a file appender: a stream whose file could not be opened recovers by itself, a
  stream that failed while its file was open never does. The logging macros, which build the
  event only when the level of the logger lets it pass.
\<close>

section \<open>A stream that failed while its file was open\<close>

definition stuck :: "logsys \<Rightarrow> addr \<Rightarrow> bool" where
  "stuck s a \<longleftrightarrow> (\<exists>x fn os t f. ls_appenders s a = Some x \<and> ap_sink x = File_sink fn os t \<and>
     os_file os = Some f \<and> os_fail os)"

lemma file_log_stuck:
  assumes "os_file os = Some f" and "os_fail os" and "ap_formatter x = Some fm"
  shows "\<exists>t'. file_log ck env name level e a x fn os t s = Inr (if ap_level x \<le> level then
    cout_line ''error'' (s\<lparr>ls_appenders := (ls_appenders s)(a \<mapsto> x\<lparr>ap_sink := File_sink fn os t'\<rparr>)\<rparr>) else s)"
  using assms reopen_stuck [OF assms(1,2), of env fn]
  by (cases "t + 3 \<le> ev_time e") (auto simp: file_log_def Let_def formatter_stream_stuck)

lemma appender_log_stuck:
  assumes "logsys_ok s" and "stuck s a"
  shows "\<exists>s'. appender_log ck env name level e a s = Inr s' \<and> ls_files s' = ls_files s"
proof -
  obtain x fn os t f where x: "ls_appenders s a = Some x" "ap_sink x = File_sink fn os t"
      "os_file os = Some f" "os_fail os" using assms(2) by (auto simp: stuck_def)
  obtain fm where fm: "ap_formatter x = Some fm" using logsys_okD(8) [OF assms(1) x(1)] by blast
  show ?thesis using file_log_stuck [OF x(3,4) fm, of ck env name level e a fn t s] x(1,2)
    by (auto simp: appender_log_def cout_line_def)
qed

lemma stuck_cout [simp]: "stuck (cout_line txt s) a = stuck s a"
  by (simp add: stuck_def cout_line_def)

lemma appender_log_other:
  assumes "appender_log ck env name level e b s = Inr s'" and "b \<noteq> a"
  shows "ls_appenders s' a = ls_appenders s a"
  using assms
  by (auto simp: appender_log_def stdout_log_def file_log_def Let_def cout_line_def
      split: option.splits sink.splits prod.splits if_splits)

lemma appender_log_keeps_stuck:
  assumes "logsys_ok s" and "stuck s a" and "appender_log ck env name level e b s = Inr s'"
  shows "stuck s' a"
proof (cases "b = a")
  case True
  obtain x fn os t f where x: "ls_appenders s a = Some x" "ap_sink x = File_sink fn os t"
      "os_file os = Some f" "os_fail os" using assms(2) by (auto simp: stuck_def)
  obtain fm where fm: "ap_formatter x = Some fm" using logsys_okD(8) [OF assms(1) x(1)] by blast
  obtain t' where "file_log ck env name level e a x fn os t s = Inr (if ap_level x \<le> level then
      cout_line ''error'' (s\<lparr>ls_appenders := (ls_appenders s)(a \<mapsto> x\<lparr>ap_sink := File_sink fn os t'\<rparr>)\<rparr>) else s)"
    using file_log_stuck [OF x(3,4) fm] by blast
  then have "s' = (if ap_level x \<le> level then
      cout_line ''error'' (s\<lparr>ls_appenders := (ls_appenders s)(a \<mapsto> x\<lparr>ap_sink := File_sink fn os t'\<rparr>)\<rparr>) else s)"
    using assms(3) True x(1,2) by (simp add: appender_log_def)
  then show ?thesis using assms(2) x by (simp add: stuck_def cout_line_def)
next
  case False
  then show ?thesis
    using appender_log_other [OF assms(3) False] assms(2) by (simp add: stuck_def)
qed

lemma deliver_keeps_stuck:
  assumes "logsys_ok s" and "stuck s a" and "\<And>n b. (n, b) \<in> set rs \<Longrightarrow> ls_appenders s b \<noteq> None"
    and "deliver ck env level e rs s = Inr s'"
  shows "stuck s' a"
  using assms
proof (induction rs arbitrary: s)
  case Nil
  then show ?case by (simp add: deliver_def)
next
  case (Cons r rs)
  obtain n b where r: "r = (n, b)" by (cases r)
  have live: "ls_appenders s b \<noteq> None" using Cons.prems(3) [of n b] r by simp
  obtain x where x: "ls_appenders s b = Some x" using live by blast
  obtain fm where fm: "ap_formatter x = Some fm" using logsys_okD(8) [OF Cons.prems(1) x] by blast
  obtain s1 where s1: "appender_log ck env n level e b s = Inr s1" "log_frame s s1"
    using appender_log_returns [OF x fm] by blast
  have rest: "deliver ck env level e rs s1 = Inr s'"
    using Cons.prems(4) r s1(1) by (simp add: deliver_def)
  have "ls_appenders s1 c \<noteq> None" if "(m, c) \<in> set rs" for m c
    using Cons.prems(3) [of m c] that log_frame_live [OF s1(2), of c] by simp
  then show ?case
    using Cons.IH [OF log_frame_ok [OF Cons.prems(1) s1(2)]
        appender_log_keeps_stuck [OF Cons.prems(1,2) s1(1)] _ rest] by blast
qed

lemma with_appender_stuck:
  "with_appender b f s = Inr s' \<Longrightarrow> (\<And>x. ap_sink (f x) = ap_sink x) \<Longrightarrow> stuck s a \<Longrightarrow> stuck s' a"
  by (auto simp: with_appender_def stuck_def split: option.splits)

lemma with_logger_stuck: "with_logger b f s = Inr s' \<Longrightarrow> stuck s a \<Longrightarrow> stuck s' a"
  by (auto simp: with_logger_def stuck_def split: option.splits)

lemma alloc_stuck:
  assumes "logsys_ok s" and "alloc_appender x s = (b, s')" and "stuck s a"
  shows "stuck s' a"
proof -
  have "ls_appenders s b = None"
    using alloc_appender_ok [OF assms(1)] fresh_in_None [OF logsys_okD(2) [OF assms(1)]] assms(2)
    by (auto simp: alloc_appender_def Let_def)
  then show ?thesis using assms(2,3) by (auto simp: alloc_appender_def Let_def stuck_def)
qed

lemma getLogger_stuck:
  assumes "logsys_ok s" and "getLogger name s = Inr (b, s')" and "stuck s a"
  shows "stuck s' a"
  using assms(1)
proof (cases rule: getLogger_cases [where name = name])
  case (found c lg)
  then show ?thesis using assms by simp
next
  case (created c t)
  then show ?thesis using assms by (auto simp: stuck_def)
qed

lemma Logger_log_stuck:
  assumes "logsys_ok s" and "Logger_log ck env b level e s = Some (Inr s')" and "stuck s a"
  shows "stuck s' a"
proof -
  have "ls_loggers s b \<noteq> None"
    using assms(2) by (subst (asm) Logger_log.simps) (auto split: option.splits)
  then have "deliver ck env level e (receivers s b level) s = Inr s'"
    using Logger_log_deliver [OF assms(1), of b ck env level e] assms(2) by simp
  then show ?thesis
    using deliver_keeps_stuck [OF assms(1,3)] receivers_live [OF assms(1)] by blast
qed

lemma log_step_stuck: "log_step ck s s' \<Longrightarrow> logsys_ok s \<Longrightarrow> stuck s a \<Longrightarrow> stuck s' a"
proof (induction rule: log_step.induct)
  case (step_log env b level e s s')
  then show ?case by (blast intro: Logger_log_stuck)
next
  case (step_get name s b s')
  then show ?case by (blast intro: getLogger_stuck)
next
  case (step_new_stdout s b s')
  then show ?case unfolding new_StdoutLogAppender_def by (blast intro: alloc_stuck)
next
  case (step_new_file env fn s b s')
  then show ?case unfolding new_FileLogAppender_def by (blast intro: alloc_stuck)
next
  case (step_ap_level ap level s s')
  then show ?case
    unfolding LogAppender_setLevel_def by (auto elim: with_appender_stuck)
next
  case (step_ap_formatter ap f s s')
  then show ?case
    unfolding LogAppender_setFormatter_def by (auto elim: with_appender_stuck)
qed (auto simp: Logger_setLevel_def Logger_addAppender_def Logger_delAppender_def
    Logger_clearAppenders_def elim: with_logger_stuck)

lemma log_steps_stuck:
  "(log_step ck)\<^sup>*\<^sup>* s s' \<Longrightarrow> logsys_ok s \<Longrightarrow> stuck s a \<Longrightarrow> logsys_ok s' \<and> stuck s' a"
  by (induction rule: rtranclp_induct) (auto intro: log_step_ok log_step_stuck)

text \<open>
  C28. A file appender whose stream failed while its file was open is lost: after any further
  calls, with any disk, it returns normally and writes nothing, because \<open>reopen\<close> does not close a
  stream in a failed state and so cannot open it again.
\<close>

theorem failed_file_stays_silent:
  assumes "log_reachable ck fs s" and "stuck s a" and "(log_step ck)\<^sup>*\<^sup>* s s'"
  shows "\<exists>s''. appender_log ck env name level e a s' = Inr s'' \<and> ls_files s'' = ls_files s'"
  using log_steps_stuck [OF assms(3) log_reachable_ok [OF assms(1)] assms(2)] appender_log_stuck
  by blast


definition plain_formatter :: LogFormatter where
  "plain_formatter = \<lparr>fmt_pattern = ''x'', fmt_items = [StringFormatItem ''x''], fmt_error = False\<rparr>"

lemma stuck_example:
  obtains s where "log_reachable some_clock (\<lambda>f. []) s" and "stuck s 1"
proof -
  obtain s where s: "logsys_start (\<lambda>f. []) = Inr s" by (simp add: logsys_start_eq)
  let ?s1 = "snd (new_FileLogAppender good_disk ''a.log'' s)"
  let ?s2 = "projr (LogAppender_setFormatter 1 (Some plain_formatter) ?s1)"
  let ?s3 = "projr (Logger_addAppender 0 1 ?s2)"
  let ?s4 = "projr (the (Logger_log some_clock bad_disk 0 INFO some_event ?s3))"
  note defs = logsys_start_eq new_FileLogAppender_def alloc_appender_def log_defs Let_def
    reopen_def new_ofstream_def ofstream_close_def ofstream_open_def good_disk_def bad_disk_def
    plain_formatter_def
  have r1: "log_reachable some_clock (\<lambda>f. []) ?s1"
    by (rule reach_step [OF reach_start [OF s] step_new_file]) (rule prod.collapse [symmetric])
  have "LogAppender_setFormatter 1 (Some plain_formatter) ?s1 = Inr ?s2"
    using s by (auto simp: defs)
  then have r2: "log_reachable some_clock (\<lambda>f. []) ?s2" by (rule reach_step [OF r1 step_ap_formatter])
  have "Logger_addAppender 0 1 ?s2 = Inr ?s3" and "ls_appenders ?s2 1 \<noteq> None"
    using s by (auto simp: defs)
  then have r3: "log_reachable some_clock (\<lambda>f. []) ?s3" by (metis reach_step [OF r2] step_add)
  have live: "ls_loggers ?s3 0 \<noteq> None" using s by (auto simp: defs)
  have "Logger_log some_clock bad_disk 0 INFO some_event ?s3 = Some (Inr ?s4)"
    using Logger_log_returns [OF log_reachable_ok [OF r3] live, of some_clock bad_disk INFO some_event]
    by auto
  then have r4: "log_reachable some_clock (\<lambda>f. []) ?s4" by (rule reach_step [OF r3 step_log])
  have "stuck ?s4 1"
    using s
    by (auto simp: defs stuck_def Logger_log.simps appender_log_def stdout_log_def file_log_def
        cout_line_def ofstream_write_def some_event_def ss_write_def new_LogEvent_def less_eq_LogLevel_def)
  with r4 show thesis by (rule that)
qed

theorem failed_file_stays_silent_witness:
  "\<exists>s s'. stuck s 1 \<and> appender_log some_clock good_disk ''root'' INFO some_event 1 s = Inr s' \<and>
    ls_files s' = ls_files s"
proof -
  obtain s where s: "log_reachable some_clock (\<lambda>f. []) s" "stuck s 1" by (rule stuck_example)
  show ?thesis
    using failed_file_stays_silent [OF s rtranclp.rtrancl_refl, of good_disk "''root''" INFO some_event] s(2)
    by blast
qed

section \<open>A stream whose file could not be opened\<close>

text \<open>
  Recovery: a file appender whose file could not be opened, whatever the bits of its stream,
  opens it on the first event that passes its level at least three seconds after the last attempt
  (in the 64-bit arithmetic of the code) once the disk lets it, writes exactly that event's text
  to the file, prints no error, and is in working order afterwards.
\<close>

theorem unopened_file_recovers:
  assumes "ls_appenders s a = Some x" and "ap_sink x = File_sink fn os t" and "ap_formatter x = Some f"
    and "os_file os = None" and "ap_level x \<le> level" and "t + 3 \<le> ev_time e"
    and "can_open env fn" and "can_write env fn"
  shows "\<exists>s'. appender_log ck env name level e a s = Inr s' \<and>
    ls_files s' = (ls_files s)(fn := ls_files s fn @ formatter_string ck f name level e) \<and>
    ls_stdout s' = ls_stdout s \<and> appender_ready s' a"
proof -
  let ?os = "fst (reopen env fn os)"
  have ready: "stream_ready fn ?os" using reopen_ready [OF assms(7), of os] assms(4) by simp
  have "formatter_stream ck env (fmt_items f) name level e (?os, ls_files s) =
      (?os, (ls_files s)(fn := ls_files s fn @ formatter_string ck f name level e))"
    unfolding formatter_string_def by (rule formatter_stream_ready [OF assms(8) ready])
  then show ?thesis
    using assms ready
    by (simp add: appender_log_def file_log_def Let_def stream_ready_def appender_ready_def)
qed

theorem unopened_file_recovers_witness:
  "\<exists>s s'. ls_appenders s 0 = Some \<lparr>ap_level = DEBUG, ap_formatter = Some plain_formatter,
      ap_sink = File_sink ''a.log'' \<lparr>os_file = None, os_fail = True\<rparr> 5\<rparr> \<and>
    appender_log some_clock good_disk ''root'' INFO some_event 0 s = Inr s' \<and>
    ls_files s' ''a.log'' = ''x''"
proof -
  let ?x = "\<lparr>ap_level = DEBUG, ap_formatter = Some plain_formatter,
      ap_sink = File_sink ''a.log'' \<lparr>os_file = None, os_fail = True\<rparr> 5\<rparr>"
  let ?s = "(logsys_empty (\<lambda>f. []))\<lparr>ls_appenders := [0 \<mapsto> ?x]\<rparr>"
  have "\<exists>s'. appender_log some_clock good_disk ''root'' INFO some_event 0 ?s = Inr s' \<and>
      ls_files s' = (ls_files ?s)(''a.log'' := ls_files ?s ''a.log'' @
        formatter_string some_clock plain_formatter ''root'' INFO some_event) \<and>
      ls_stdout s' = ls_stdout ?s \<and> appender_ready s' 0"
    by (rule unopened_file_recovers [of ?s 0 ?x _ "\<lparr>os_file = None, os_fail = True\<rparr>" 5])
      (simp_all add: less_eq_LogLevel_def good_disk_def some_event_def ss_write_def new_LogEvent_def)
  then obtain s' where s': "appender_log some_clock good_disk ''root'' INFO some_event 0 ?s = Inr s'"
      "ls_files s' ''a.log'' = ''x''"
    by (auto simp: formatter_string_def plain_formatter_def logsys_empty_def)
  show ?thesis by (rule exI [of _ ?s], rule exI [of _ s']) (use s' in simp)
qed

section \<open>The logging macros\<close>

definition site_event :: "log_site \<Rightarrow> addr \<Rightarrow> LogLevel \<Rightarrow> string \<Rightarrow> LogEvent" where
  "site_event st a level txt =
     ss_write (new_LogEvent a level (site_file st) (site_line st) 0 (site_thread st)
       (site_fiber st) (site_time st) (site_thread_name st)) txt"

lemma Logger_log_filtered:
  "ls_loggers s a = Some lg \<Longrightarrow> \<not> lg_level lg \<le> level \<Longrightarrow> Logger_log ck env a level e s = Some (Inr s)"
  by (subst Logger_log.simps) simp

text \<open>
  The stream macro is the method: \<open>SHS_LOG_LEVEL(logger, level) << txt\<close>, which tests the level
  before it builds the event and logs from the destructor of the wrapper, is the same as calling
  \<open>logger->log\<close> with the finished event, in every state and for every disk. The format macro is
  the stream macro on the formatted text, except that it logs the fixed thread name
  \<open>shs::Thread::GetName\<close> instead of the name of the thread.
\<close>

theorem log_macros_are_log:
  "shs_log ck env st a level txt s = Logger_log ck env a level (site_event st a level txt) s \<and>
   shs_log_fmt (\<lambda>f x. Some (pr f x)) ck env st a level fmt al s =
     shs_log ck env (st\<lparr>site_thread_name := ''shs::Thread::GetName''\<rparr>) a level (pr fmt al) s"
proof (rule conjI)
  have ev: "ev_logger (site_event st a level u) = a" "ev_level (site_event st a level u) = level" for st u
    by (simp_all add: site_event_def ss_write_def new_LogEvent_def)
  have none: "Logger_log ck env a level e s = Some (Inl (Null_deref ''Logger''))" if "ls_loggers s a = None" for e
    using that by (subst Logger_log.simps) simp
  show "shs_log ck env st a level txt s = Logger_log ck env a level (site_event st a level txt) s"
    using ev
    by (auto simp: shs_log_def none Logger_log_filtered
        simp flip: site_event_def split: option.split)
  show "shs_log_fmt (\<lambda>f x. Some (pr f x)) ck env st a level fmt al s =
      shs_log ck env (st\<lparr>site_thread_name := ''shs::Thread::GetName''\<rparr>) a level (pr fmt al) s"
    by (simp add: shs_log_fmt_def shs_log_def event_format_def split: option.split)
qed

end
