(* ===== verification/Locks.thy ===== *)
theory Locks
  imports Prelude
begin

text \<open>
  The synchronisation classes of \<open>src/mutex/mutex.h\<close> and \<open>src/mutex/mutex.cpp\<close>.

  The objects of the POSIX threads library are parameters: a record of functions on an abstract
  state, each returning the library's result code; a call that does not return now (the lock is
  taken) gives None. What the classes add, the exceptions on a result code other than zero and
  the guards that lock on construction and unlock on destruction, is modelled in full, and so is
  \<open>CASLock\<close>, which is written on top of \<open>std::atomic_flag\<close>.
\<close>

section \<open>The library underneath\<close>

type_synonym tid = nat

text \<open>The result of a call that may block: None while it does not return.\<close>

type_synonym 'm call = "'m outcome option"

record 'm mutex_api =
  pm_init :: "int \<times> 'm"
  pm_lock :: "tid \<Rightarrow> 'm \<Rightarrow> (int \<times> 'm) option"
  pm_unlock :: "tid \<Rightarrow> 'm \<Rightarrow> int \<times> 'm"
  pm_destroy :: "'m \<Rightarrow> int"

record 'm rwlock_api =
  pr_init :: "int \<times> 'm"
  pr_rdlock :: "tid \<Rightarrow> 'm \<Rightarrow> (int \<times> 'm) option"
  pr_wrlock :: "tid \<Rightarrow> 'm \<Rightarrow> (int \<times> 'm) option"
  pr_unlock :: "tid \<Rightarrow> 'm \<Rightarrow> int \<times> 'm"
  pr_destroy :: "'m \<Rightarrow> int"

record 'm sem_api =
  ps_init :: "u32 \<Rightarrow> int \<times> 'm"
  ps_wait :: "'m \<Rightarrow> (int \<times> 'm) option"
  ps_post :: "'m \<Rightarrow> int \<times> 'm"
  ps_destroy :: "'m \<Rightarrow> int"

text \<open>\<open>if(rc) throw std::logic_error(what);\<close>\<close>

definition check_rc :: "string \<Rightarrow> int \<times> 'm \<Rightarrow> 'm outcome" where
  "check_rc what r = (case r of (rc, m) \<Rightarrow>
     if rc \<noteq> 0 then Inl (Throw (Logic_error what)) else Inr m)"

lemma check_rc_Inr [simp]: "check_rc what (rc, m) = Inr m' \<longleftrightarrow> rc = 0 \<and> m' = m"
  by (auto simp: check_rc_def)

section \<open>The classes\<close>

text \<open>Semaphore. The destructor's result is what it writes to \<open>std::cerr\<close>.\<close>

definition Semaphore_new :: "'m sem_api \<Rightarrow> u32 \<Rightarrow> 'm outcome" where
  "Semaphore_new api count = check_rc ''sem_init error'' (ps_init api count)"

definition Semaphore_delete :: "'m sem_api \<Rightarrow> 'm \<Rightarrow> string list" where
  "Semaphore_delete api m = (if ps_destroy api m \<noteq> 0 then [''sem_destroy error''] else [])"

definition Semaphore_wait :: "'m sem_api \<Rightarrow> 'm \<Rightarrow> 'm call" where
  "Semaphore_wait api m = map_option (check_rc ''sem_wait error'') (ps_wait api m)"

definition Semaphore_notify :: "'m sem_api \<Rightarrow> 'm \<Rightarrow> 'm outcome" where
  "Semaphore_notify api m = check_rc ''sem_post error'' (ps_post api m)"

text \<open>Mutex.\<close>

definition Mutex_new :: "'m mutex_api \<Rightarrow> 'm outcome" where
  "Mutex_new api = check_rc ''pthread_mutex_init error'' (pm_init api)"

definition Mutex_delete :: "'m mutex_api \<Rightarrow> 'm \<Rightarrow> string list" where
  "Mutex_delete api m =
     (if pm_destroy api m \<noteq> 0
      then [''pthread_mutex_destroy error:  EBUSY - The mutex is currenty locked''] else [])"

definition Mutex_lock :: "'m mutex_api \<Rightarrow> tid \<Rightarrow> 'm \<Rightarrow> 'm call" where
  "Mutex_lock api t m = map_option (check_rc ''pthread_mutex_lock error'') (pm_lock api t m)"

definition Mutex_unlock :: "'m mutex_api \<Rightarrow> tid \<Rightarrow> 'm \<Rightarrow> 'm outcome" where
  "Mutex_unlock api t m = check_rc ''pthread_mutex_unlock error'' (pm_unlock api t m)"

text \<open>RWMutex: one unlock for both kinds of holders.\<close>

definition RWMutex_new :: "'m rwlock_api \<Rightarrow> 'm outcome" where
  "RWMutex_new api = check_rc ''pthread_rwlock_init error'' (pr_init api)"

definition RWMutex_delete :: "'m rwlock_api \<Rightarrow> 'm \<Rightarrow> string list" where
  "RWMutex_delete api m = (if pr_destroy api m \<noteq> 0 then [''pthread_rwlock_destroy error''] else [])"

definition RWMutex_rdlock :: "'m rwlock_api \<Rightarrow> tid \<Rightarrow> 'm \<Rightarrow> 'm call" where
  "RWMutex_rdlock api t m = map_option (check_rc ''pthread_rwlock_rdlock error'') (pr_rdlock api t m)"

definition RWMutex_wrlock :: "'m rwlock_api \<Rightarrow> tid \<Rightarrow> 'm \<Rightarrow> 'm call" where
  "RWMutex_wrlock api t m = map_option (check_rc ''pthread_rwlock_wrlock error'') (pr_wrlock api t m)"

definition RWMutex_unlock :: "'m rwlock_api \<Rightarrow> tid \<Rightarrow> 'm \<Rightarrow> 'm outcome" where
  "RWMutex_unlock api t m = check_rc ''pthread_rwlock_unlock error'' (pr_unlock api t m)"

text \<open>SpinLock.\<close>

definition SpinLock_new :: "'m mutex_api \<Rightarrow> 'm outcome" where
  "SpinLock_new api = check_rc ''pthread_spin_init error'' (pm_init api)"

definition SpinLock_delete :: "'m mutex_api \<Rightarrow> 'm \<Rightarrow> string list" where
  "SpinLock_delete api m = (if pm_destroy api m \<noteq> 0 then [''pthread_spin_destroy error''] else [])"

definition SpinLock_lock :: "'m mutex_api \<Rightarrow> tid \<Rightarrow> 'm \<Rightarrow> 'm call" where
  "SpinLock_lock api t m = map_option (check_rc ''pthread_spin_lock error'') (pm_lock api t m)"

definition SpinLock_unlock :: "'m mutex_api \<Rightarrow> tid \<Rightarrow> 'm \<Rightarrow> 'm outcome" where
  "SpinLock_unlock api t m = check_rc ''pthread_spin_unlock error'' (pm_unlock api t m)"

text \<open>NullMutex and NullRWMutex: every operation returns at once and does nothing.\<close>

definition NullMutex_lock :: "'m \<Rightarrow> 'm call" where
  "NullMutex_lock m = Some (Inr m)"

definition NullMutex_unlock :: "'m \<Rightarrow> 'm outcome" where
  "NullMutex_unlock m = Inr m"

definition NullRWMutex_rdlock :: "'m \<Rightarrow> 'm call" where
  "NullRWMutex_rdlock m = Some (Inr m)"

definition NullRWMutex_wrlock :: "'m \<Rightarrow> 'm call" where
  "NullRWMutex_wrlock m = Some (Inr m)"

definition NullRWMutex_unlock :: "'m \<Rightarrow> 'm outcome" where
  "NullRWMutex_unlock m = Inr m"

text \<open>
  CASLock: the flag, \<open>test_and_set\<close> (the new flag and the old value), and the operations. Called
  with the flag set, the loop of \<open>lock\<close> runs until another thread clears it: within the call of
  one thread that is None.
\<close>

type_synonym atomic_flag = bool

definition test_and_set :: "atomic_flag \<Rightarrow> atomic_flag \<times> bool" where
  "test_and_set f = (True, f)"

definition CASLock_new :: atomic_flag where
  "CASLock_new = False"

definition CASLock_lock :: "atomic_flag \<Rightarrow> atomic_flag call" where
  "CASLock_lock f = (case test_and_set f of (f', old) \<Rightarrow> if old then None else Some (Inr f'))"

definition CASLock_try_lock :: "atomic_flag \<Rightarrow> atomic_flag \<times> bool" where
  "CASLock_try_lock f = (case test_and_set f of (f', old) \<Rightarrow> (f', \<not> old))"

definition CASLock_unlock :: "atomic_flag \<Rightarrow> atomic_flag outcome" where
  "CASLock_unlock f = Inr False"

section \<open>The guards\<close>

text \<open>
  \<open>ScopedLockImpl<T>\<close>: \<open>lock\<close> and \<open>unlock\<close> are those of \<open>T\<close> called by the thread that owns the
  guard.
\<close>

record ScopedLock =
  sl_locked :: bool

definition scoped_new :: "('m \<Rightarrow> 'm call) \<Rightarrow> 'm \<Rightarrow> ('m \<times> ScopedLock) call" where
  "scoped_new lock m =
     (case lock m of
        None \<Rightarrow> None
      | Some r \<Rightarrow> Some (bind_out r (\<lambda>m'. Inr (m', \<lparr>sl_locked = True\<rparr>))))"

definition scoped_lock :: "('m \<Rightarrow> 'm call) \<Rightarrow> 'm \<times> ScopedLock \<Rightarrow> ('m \<times> ScopedLock) call" where
  "scoped_lock lock s = (case s of (m, g) \<Rightarrow>
     if \<not> sl_locked g
     then (case lock m of
             None \<Rightarrow> None
           | Some r \<Rightarrow> Some (bind_out r (\<lambda>m'. Inr (m', g\<lparr>sl_locked := True\<rparr>))))
     else Some (Inr (m, g)))"

definition scoped_unlock :: "('m \<Rightarrow> 'm outcome) \<Rightarrow> 'm \<times> ScopedLock \<Rightarrow> ('m \<times> ScopedLock) outcome" where
  "scoped_unlock unlock s = (case s of (m, g) \<Rightarrow>
     if sl_locked g then bind_out (unlock m) (\<lambda>m'. Inr (m', g\<lparr>sl_locked := False\<rparr>))
     else Inr (m, g))"

text \<open>
  The destructor calls \<open>unlock\<close>. Destructors are \<open>noexcept\<close>, so an exception that leaves it ends
  the process.
\<close>

definition scoped_delete :: "('m \<Rightarrow> 'm outcome) \<Rightarrow> 'm \<times> ScopedLock \<Rightarrow> 'm outcome" where
  "scoped_delete unlock s =
     (case scoped_unlock unlock s of
        Inl (Throw e) \<Rightarrow> Inl (Assert_failed ''std::terminate'')
      | Inl e \<Rightarrow> Inl e
      | Inr (m, g) \<Rightarrow> Inr m)"

text \<open>The calls a scope may make on its guard between construction and destruction.\<close>

datatype guard_call = Guard_lock | Guard_unlock

fun guard_step ::
  "('m \<Rightarrow> 'm call) \<Rightarrow> ('m \<Rightarrow> 'm outcome) \<Rightarrow> guard_call \<Rightarrow> 'm \<times> ScopedLock \<Rightarrow> ('m \<times> ScopedLock) call" where
  "guard_step lock unlock Guard_lock s = scoped_lock lock s"
| "guard_step lock unlock Guard_unlock s = Some (scoped_unlock unlock s)"

fun guard_run ::
  "('m \<Rightarrow> 'm call) \<Rightarrow> ('m \<Rightarrow> 'm outcome) \<Rightarrow> guard_call list \<Rightarrow> 'm \<times> ScopedLock \<Rightarrow> ('m \<times> ScopedLock) call" where
  "guard_run lock unlock [] s = Some (Inr s)"
| "guard_run lock unlock (c # cs) s =
     (case guard_step lock unlock c s of
        None \<Rightarrow> None
      | Some (Inl e) \<Rightarrow> Some (Inl e)
      | Some (Inr s') \<Rightarrow> guard_run lock unlock cs s')"

text \<open>A whole scope: construction, the calls, destruction.\<close>

definition guard_scope ::
  "('m \<Rightarrow> 'm call) \<Rightarrow> ('m \<Rightarrow> 'm outcome) \<Rightarrow> guard_call list \<Rightarrow> 'm \<Rightarrow> 'm call" where
  "guard_scope lock unlock cs m =
     (case scoped_new lock m of
        None \<Rightarrow> None
      | Some (Inl e) \<Rightarrow> Some (Inl e)
      | Some (Inr s) \<Rightarrow>
          (case guard_run lock unlock cs s of
             None \<Rightarrow> None
           | Some (Inl e) \<Rightarrow> Some (Inl e)
           | Some (Inr s') \<Rightarrow> Some (scoped_delete unlock s')))"

text \<open>
  \<open>ReadScopedLockImpl<T>\<close> and \<open>WriteScopedLockImpl<T>\<close>: the members of \<open>T\<close> that they call, and the two
  guards.
\<close>

record 'm rw_members =
  rw_rdlock :: "'m \<Rightarrow> 'm call"
  rw_wrlock :: "'m \<Rightarrow> 'm call"
  rw_unlock :: "'m \<Rightarrow> 'm outcome"

record ReadScopedLock =
  rl_locked :: bool

record WriteScopedLock =
  wl_locked :: bool

definition ReadScopedLock_new :: "'m rw_members \<Rightarrow> 'm \<Rightarrow> ('m \<times> ReadScopedLock) call" where
  "ReadScopedLock_new T m =
     (case rw_rdlock T m of
        None \<Rightarrow> None
      | Some r \<Rightarrow> Some (bind_out r (\<lambda>m'. Inr (m', \<lparr>rl_locked = True\<rparr>))))"

definition ReadScopedLock_lock :: "'m rw_members \<Rightarrow> 'm \<times> ReadScopedLock \<Rightarrow> ('m \<times> ReadScopedLock) call" where
  "ReadScopedLock_lock T s = (case s of (m, g) \<Rightarrow>
     if \<not> rl_locked g
     then (case rw_rdlock T m of
             None \<Rightarrow> None
           | Some r \<Rightarrow> Some (bind_out r (\<lambda>m'. Inr (m', g\<lparr>rl_locked := True\<rparr>))))
     else Some (Inr (m, g)))"

definition ReadScopedLock_unlock :: "'m rw_members \<Rightarrow> 'm \<times> ReadScopedLock \<Rightarrow> ('m \<times> ReadScopedLock) outcome" where
  "ReadScopedLock_unlock T s = (case s of (m, g) \<Rightarrow>
     if rl_locked g then bind_out (rw_unlock T m) (\<lambda>m'. Inr (m', g\<lparr>rl_locked := False\<rparr>))
     else Inr (m, g))"

definition ReadScopedLock_delete :: "'m rw_members \<Rightarrow> 'm \<times> ReadScopedLock \<Rightarrow> 'm outcome" where
  "ReadScopedLock_delete T s =
     (case ReadScopedLock_unlock T s of
        Inl (Throw e) \<Rightarrow> Inl (Assert_failed ''std::terminate'')
      | Inl e \<Rightarrow> Inl e
      | Inr (m, g) \<Rightarrow> Inr m)"

definition WriteScopedLock_new :: "'m rw_members \<Rightarrow> 'm \<Rightarrow> ('m \<times> WriteScopedLock) call" where
  "WriteScopedLock_new T m =
     (case rw_wrlock T m of
        None \<Rightarrow> None
      | Some r \<Rightarrow> Some (bind_out r (\<lambda>m'. Inr (m', \<lparr>wl_locked = True\<rparr>))))"

definition WriteScopedLock_lock :: "'m rw_members \<Rightarrow> 'm \<times> WriteScopedLock \<Rightarrow> ('m \<times> WriteScopedLock) call" where
  "WriteScopedLock_lock T s = (case s of (m, g) \<Rightarrow>
     if \<not> wl_locked g
     then (case rw_wrlock T m of
             None \<Rightarrow> None
           | Some r \<Rightarrow> Some (bind_out r (\<lambda>m'. Inr (m', g\<lparr>wl_locked := True\<rparr>))))
     else Some (Inr (m, g)))"

definition WriteScopedLock_unlock :: "'m rw_members \<Rightarrow> 'm \<times> WriteScopedLock \<Rightarrow> ('m \<times> WriteScopedLock) outcome" where
  "WriteScopedLock_unlock T s = (case s of (m, g) \<Rightarrow>
     if wl_locked g then bind_out (rw_unlock T m) (\<lambda>m'. Inr (m', g\<lparr>wl_locked := False\<rparr>))
     else Inr (m, g))"

definition WriteScopedLock_delete :: "'m rw_members \<Rightarrow> 'm \<times> WriteScopedLock \<Rightarrow> 'm outcome" where
  "WriteScopedLock_delete T s =
     (case WriteScopedLock_unlock T s of
        Inl (Throw e) \<Rightarrow> Inl (Assert_failed ''std::terminate'')
      | Inl e \<Rightarrow> Inl e
      | Inr (m, g) \<Rightarrow> Inr m)"

text \<open>The classes the templates are used on.\<close>

definition RWMutex_members :: "'m rwlock_api \<Rightarrow> tid \<Rightarrow> 'm rw_members" where
  "RWMutex_members api t =
     \<lparr>rw_rdlock = RWMutex_rdlock api t, rw_wrlock = RWMutex_wrlock api t, rw_unlock = RWMutex_unlock api t\<rparr>"

definition NullRWMutex_members :: "'m rw_members" where
  "NullRWMutex_members =
     \<lparr>rw_rdlock = NullRWMutex_rdlock, rw_wrlock = NullRWMutex_wrlock, rw_unlock = NullRWMutex_unlock\<rparr>"

text \<open>Their scopes.\<close>

fun read_run :: "'m rw_members \<Rightarrow> guard_call list \<Rightarrow> 'm \<times> ReadScopedLock \<Rightarrow> ('m \<times> ReadScopedLock) call" where
  "read_run T [] s = Some (Inr s)"
| "read_run T (c # cs) s =
     (case (case c of Guard_lock \<Rightarrow> ReadScopedLock_lock T s | Guard_unlock \<Rightarrow> Some (ReadScopedLock_unlock T s)) of
        None \<Rightarrow> None
      | Some (Inl e) \<Rightarrow> Some (Inl e)
      | Some (Inr s') \<Rightarrow> read_run T cs s')"

definition read_scope :: "'m rw_members \<Rightarrow> guard_call list \<Rightarrow> 'm \<Rightarrow> 'm call" where
  "read_scope T cs m =
     (case ReadScopedLock_new T m of
        None \<Rightarrow> None
      | Some (Inl e) \<Rightarrow> Some (Inl e)
      | Some (Inr s) \<Rightarrow>
          (case read_run T cs s of
             None \<Rightarrow> None
           | Some (Inl e) \<Rightarrow> Some (Inl e)
           | Some (Inr s') \<Rightarrow> Some (ReadScopedLock_delete T s')))"

fun write_run :: "'m rw_members \<Rightarrow> guard_call list \<Rightarrow> 'm \<times> WriteScopedLock \<Rightarrow> ('m \<times> WriteScopedLock) call" where
  "write_run T [] s = Some (Inr s)"
| "write_run T (c # cs) s =
     (case (case c of Guard_lock \<Rightarrow> WriteScopedLock_lock T s | Guard_unlock \<Rightarrow> Some (WriteScopedLock_unlock T s)) of
        None \<Rightarrow> None
      | Some (Inl e) \<Rightarrow> Some (Inl e)
      | Some (Inr s') \<Rightarrow> write_run T cs s')"

definition write_scope :: "'m rw_members \<Rightarrow> guard_call list \<Rightarrow> 'm \<Rightarrow> 'm call" where
  "write_scope T cs m =
     (case WriteScopedLock_new T m of
        None \<Rightarrow> None
      | Some (Inl e) \<Rightarrow> Some (Inl e)
      | Some (Inr s) \<Rightarrow>
          (case write_run T cs s of
             None \<Rightarrow> None
           | Some (Inl e) \<Rightarrow> Some (Inl e)
           | Some (Inr s') \<Rightarrow> Some (WriteScopedLock_delete T s')))"

text \<open>The two templates are the first one, with \<open>rdlock\<close> and \<open>wrlock\<close> for \<open>lock\<close>.\<close>

lemma read_run_is_guard_run:
  "map_option (map_sum id (map_prod id (\<lambda>g. \<lparr>sl_locked = rl_locked g\<rparr>))) (read_run T cs s) =
   guard_run (rw_rdlock T) (rw_unlock T) cs (map_prod id (\<lambda>g. \<lparr>sl_locked = rl_locked g\<rparr>) s)"
proof (induction cs arbitrary: s)
  case (Cons c cs)
  obtain m g where s: "s = (m, g)" by (cases s)
  show ?case
    using Cons.IH
    by (cases c)
      (auto simp: s ReadScopedLock_lock_def ReadScopedLock_unlock_def scoped_lock_def scoped_unlock_def bind_out_def
        split: option.split sum.split)
qed simp

lemma write_run_is_guard_run:
  "map_option (map_sum id (map_prod id (\<lambda>g. \<lparr>sl_locked = wl_locked g\<rparr>))) (write_run T cs s) =
   guard_run (rw_wrlock T) (rw_unlock T) cs (map_prod id (\<lambda>g. \<lparr>sl_locked = wl_locked g\<rparr>) s)"
proof (induction cs arbitrary: s)
  case (Cons c cs)
  obtain m g where s: "s = (m, g)" by (cases s)
  show ?case
    using Cons.IH
    by (cases c)
      (auto simp: s WriteScopedLock_lock_def WriteScopedLock_unlock_def scoped_lock_def scoped_unlock_def bind_out_def
        split: option.split sum.split)
qed simp

lemma read_delete_is_scoped_delete:
  "ReadScopedLock_delete T s = scoped_delete (rw_unlock T) (map_prod id (\<lambda>g. \<lparr>sl_locked = rl_locked g\<rparr>) s)"
  by (cases s)
    (auto simp: ReadScopedLock_delete_def ReadScopedLock_unlock_def scoped_delete_def scoped_unlock_def bind_out_def
      split: sum.split failure.split)

lemma write_delete_is_scoped_delete:
  "WriteScopedLock_delete T s = scoped_delete (rw_unlock T) (map_prod id (\<lambda>g. \<lparr>sl_locked = wl_locked g\<rparr>) s)"
  by (cases s)
    (auto simp: WriteScopedLock_delete_def WriteScopedLock_unlock_def scoped_delete_def scoped_unlock_def bind_out_def
      split: sum.split failure.split)

lemma read_scope_is_guard_scope: "read_scope T cs m = guard_scope (rw_rdlock T) (rw_unlock T) cs m"
proof -
  have "guard_run (rw_rdlock T) (rw_unlock T) cs (m', \<lparr>sl_locked = True\<rparr>) =
      map_option (map_sum id (map_prod id (\<lambda>g. \<lparr>sl_locked = rl_locked g\<rparr>))) (read_run T cs (m', \<lparr>rl_locked = True\<rparr>))" for m'
    using read_run_is_guard_run [of T cs "(m', \<lparr>rl_locked = True\<rparr>)"] by simp
  then show ?thesis
    by (auto simp: read_scope_def guard_scope_def ReadScopedLock_new_def scoped_new_def bind_out_def
        read_delete_is_scoped_delete split: option.split sum.split)
qed

lemma write_scope_is_guard_scope: "write_scope T cs m = guard_scope (rw_wrlock T) (rw_unlock T) cs m"
proof -
  have "guard_run (rw_wrlock T) (rw_unlock T) cs (m', \<lparr>sl_locked = True\<rparr>) =
      map_option (map_sum id (map_prod id (\<lambda>g. \<lparr>sl_locked = wl_locked g\<rparr>))) (write_run T cs (m', \<lparr>wl_locked = True\<rparr>))" for m'
    using write_run_is_guard_run [of T cs "(m', \<lparr>wl_locked = True\<rparr>)"] by simp
  then show ?thesis
    by (auto simp: write_scope_def guard_scope_def WriteScopedLock_new_def scoped_new_def bind_out_def
        write_delete_is_scoped_delete split: option.split sum.split)
qed

end
