(* ===== verification/LockContracts.thy ===== *)
theory LockContracts
  imports Locks "HOL-Library.Multiset"
begin

text \<open>
  What the guards of \<open>src/mutex/mutex.h\<close> promise, once for every kind of lock, and the proof that
  each class of the file is such a lock: \<open>CASLock\<close> by its own code, the others under the
  documented behaviour of the POSIX objects they wrap. Then \<open>CASLock\<close> among several threads.
\<close>

lemma guard_scope_blocked: "lock m = None \<Longrightarrow> guard_scope lock unlock cs m = None"
  by (simp add: guard_scope_def scoped_new_def)

section \<open>The contract of a lock\<close>

text \<open>
  \<open>avail\<close> says that the calling thread can take the lock now and does not hold it, \<open>held\<close> that it
  holds it once.
\<close>

locale lockable =
  fixes lock :: "'m \<Rightarrow> 'm call"
    and unlock :: "'m \<Rightarrow> 'm outcome"
    and avail :: "'m \<Rightarrow> bool"
    and held :: "'m \<Rightarrow> bool"
  assumes lock_avail: "avail m \<Longrightarrow> \<exists>m'. lock m = Some (Inr m') \<and> held m'"
    and unlock_held: "held m \<Longrightarrow> \<exists>m'. unlock m = Inr m' \<and> avail m'"
begin

definition guard_ok :: "'m \<times> ScopedLock \<Rightarrow> bool" where
  "guard_ok s \<longleftrightarrow> (if sl_locked (snd s) then held (fst s) else avail (fst s))"

lemma guard_ok_pair [simp]: "guard_ok (m, g) \<longleftrightarrow> (if sl_locked g then held m else avail m)"
  by (simp add: guard_ok_def)

lemma scoped_new_ok: "avail m \<Longrightarrow> \<exists>s. scoped_new lock m = Some (Inr s) \<and> guard_ok s"
  using lock_avail [of m] by (auto simp: scoped_new_def simp del: split_paired_Ex)

lemma scoped_lock_ok: "guard_ok s \<Longrightarrow> \<exists>s'. scoped_lock lock s = Some (Inr s') \<and> guard_ok s'"
  using lock_avail [of "fst s"] by (cases s) (auto simp: scoped_lock_def simp del: split_paired_Ex)

lemma scoped_unlock_ok:
  "guard_ok s \<Longrightarrow> \<exists>m g. scoped_unlock unlock s = Inr (m, g) \<and> avail m \<and> \<not> sl_locked g"
  using unlock_held [of "fst s"] by (cases s) (auto simp: scoped_unlock_def split: if_splits)

lemma scoped_delete_ok: "guard_ok s \<Longrightarrow> \<exists>m'. scoped_delete unlock s = Inr m' \<and> avail m'"
  using scoped_unlock_ok [of s] by (auto simp: scoped_delete_def)

lemma guard_step_ok: "guard_ok s \<Longrightarrow> \<exists>s'. guard_step lock unlock c s = Some (Inr s') \<and> guard_ok s'"
  using scoped_lock_ok [of s] scoped_unlock_ok [of s] by (cases c) fastforce+

lemma guard_run_ok: "guard_ok s \<Longrightarrow> \<exists>s'. guard_run lock unlock cs s = Some (Inr s') \<and> guard_ok s'"
proof (induction cs arbitrary: s)
  case (Cons c cs)
  from Cons.prems obtain s1 where s1: "guard_step lock unlock c s = Some (Inr s1)" "guard_ok s1"
    using guard_step_ok by blast
  from Cons.IH [OF s1(2)] s1(1) show ?case by simp
qed simp

lemma guard_scope_ok: "avail m \<Longrightarrow> \<exists>m'. guard_scope lock unlock cs m = Some (Inr m') \<and> avail m'"
proof -
  assume "avail m"
  then obtain s where s: "scoped_new lock m = Some (Inr s)" "guard_ok s"
    using scoped_new_ok by blast
  from s(2) obtain s' where s': "guard_run lock unlock cs s = Some (Inr s')" "guard_ok s'"
    using guard_run_ok by blast
  from s'(2) obtain m' where "scoped_delete unlock s' = Inr m'" "avail m'"
    using scoped_delete_ok by blast
  with s s' show ?thesis by (simp add: guard_scope_def)
qed

end

interpretation cas: lockable CASLock_lock CASLock_unlock "\<lambda>f. \<not> f" "\<lambda>f. f"
  by unfold_locales (auto simp: CASLock_lock_def CASLock_unlock_def test_and_set_def)

section \<open>The POSIX objects\<close>

text \<open>
  The documented behaviour of \<open>pthread_mutex_t\<close> and \<open>pthread_spinlock_t\<close> that the classes rely
  on, for a thread \<open>t\<close>: a free lock is taken, another thread's lock is waited for, and the owner's
  unlock succeeds. Nothing is said of a thread that locks again what it holds.
\<close>

locale pthread_mutex =
  fixes api :: "'m mutex_api"
    and owner :: "'m \<Rightarrow> tid option"
  assumes init_ok: "pm_init api = (0, m) \<Longrightarrow> owner m = None"
    and lock_free: "owner m = None \<Longrightarrow> \<exists>m'. pm_lock api t m = Some (0, m') \<and> owner m' = Some t"
    and lock_taken: "owner m = Some u \<Longrightarrow> u \<noteq> t \<Longrightarrow> pm_lock api t m = None"
    and unlock_owner: "owner m = Some t \<Longrightarrow> \<exists>m'. pm_unlock api t m = (0, m') \<and> owner m' = None"
begin

lemma Mutex_lockable:
  "lockable (Mutex_lock api t) (Mutex_unlock api t) (\<lambda>m. owner m = None) (\<lambda>m. owner m = Some t)"
  using lock_free unlock_owner
  by unfold_locales (fastforce simp: Mutex_lock_def Mutex_unlock_def check_rc_def)+

lemma SpinLock_lockable:
  "lockable (SpinLock_lock api t) (SpinLock_unlock api t) (\<lambda>m. owner m = None) (\<lambda>m. owner m = Some t)"
  using lock_free unlock_owner
  by unfold_locales (fastforce simp: SpinLock_lock_def SpinLock_unlock_def check_rc_def)+

end

text \<open>A mutex that behaves as documented: its state is its owner.\<close>

definition posix_mutex :: "tid option mutex_api" where
  "posix_mutex =
     \<lparr>pm_init = (0, None),
      pm_lock = (\<lambda>t m. case m of None \<Rightarrow> Some (0, Some t) | Some u \<Rightarrow> None),
      pm_unlock = (\<lambda>t m. if m = Some t then (0, None) else (1, m)),
      pm_destroy = (\<lambda>m. if m = None then 0 else 16)\<rparr>"

interpretation posix_mx: pthread_mutex posix_mutex "\<lambda>m. m"
  by unfold_locales (auto simp: posix_mutex_def)

lemma posix_spin:
  "SpinLock_lock posix_mutex t None = Some (Inr (Some t))"
  "SpinLock_unlock posix_mutex t (Some t) = Inr None"
  by (simp_all add: SpinLock_lock_def SpinLock_unlock_def posix_mutex_def check_rc_def)

text \<open>
  The documented behaviour of \<open>pthread_rwlock_t\<close>: any number of readers or one writer.
\<close>

locale pthread_rwlock =
  fixes api :: "'m rwlock_api"
    and writer :: "'m \<Rightarrow> tid option"
    and readers :: "'m \<Rightarrow> tid multiset"
  assumes rw_init: "pr_init api = (0, m) \<Longrightarrow> writer m = None \<and> readers m = {#}"
    and rd_free: "writer m = None \<Longrightarrow>
      \<exists>m'. pr_rdlock api t m = Some (0, m') \<and> writer m' = None \<and> readers m' = add_mset t (readers m)"
    and rd_taken: "writer m = Some u \<Longrightarrow> u \<noteq> t \<Longrightarrow> pr_rdlock api t m = None"
    and wr_free: "writer m = None \<Longrightarrow> readers m = {#} \<Longrightarrow>
      \<exists>m'. pr_wrlock api t m = Some (0, m') \<and> writer m' = Some t \<and> readers m' = {#}"
    and wr_taken: "writer m = Some u \<or> u \<in># readers m \<Longrightarrow> u \<noteq> t \<Longrightarrow> pr_wrlock api t m = None"
    and unlock_writer: "writer m = Some t \<Longrightarrow>
      \<exists>m'. pr_unlock api t m = (0, m') \<and> writer m' = None \<and> readers m' = readers m"
    and unlock_reader: "writer m = None \<Longrightarrow> t \<in># readers m \<Longrightarrow>
      \<exists>m'. pr_unlock api t m = (0, m') \<and> writer m' = None \<and> readers m' = readers m - {#t#}"
begin

lemma ReadLock_lockable:
  "lockable (RWMutex_rdlock api t) (RWMutex_unlock api t)
     (\<lambda>m. writer m = None \<and> readers m = R) (\<lambda>m. writer m = None \<and> readers m = add_mset t R)"
proof unfold_locales
  fix m
  assume "writer m = None \<and> readers m = R"
  then show "\<exists>m'. RWMutex_rdlock api t m = Some (Inr m') \<and> writer m' = None \<and> readers m' = add_mset t R"
    using rd_free [of m t] by (auto simp: RWMutex_rdlock_def check_rc_def)
next
  fix m
  assume "writer m = None \<and> readers m = add_mset t R"
  then show "\<exists>m'. RWMutex_unlock api t m = Inr m' \<and> writer m' = None \<and> readers m' = R"
    using unlock_reader [of m t] by (auto simp: RWMutex_unlock_def check_rc_def)
qed

lemma WriteLock_lockable:
  "lockable (RWMutex_wrlock api t) (RWMutex_unlock api t)
     (\<lambda>m. writer m = None \<and> readers m = {#}) (\<lambda>m. writer m = Some t \<and> readers m = {#})"
proof unfold_locales
  fix m
  assume "writer m = None \<and> readers m = {#}"
  then show "\<exists>m'. RWMutex_wrlock api t m = Some (Inr m') \<and> writer m' = Some t \<and> readers m' = {#}"
    using wr_free [of m t] by (auto simp: RWMutex_wrlock_def check_rc_def)
next
  fix m
  assume "writer m = Some t \<and> readers m = {#}"
  then show "\<exists>m'. RWMutex_unlock api t m = Inr m' \<and> writer m' = None \<and> readers m' = {#}"
    using unlock_writer [of m t] by (auto simp: RWMutex_unlock_def check_rc_def)
qed

end

definition posix_rwlock :: "(tid option \<times> tid multiset) rwlock_api" where
  "posix_rwlock =
     \<lparr>pr_init = (0, (None, {#})),
      pr_rdlock = (\<lambda>t (w, rs). if w = None then Some (0, (None, add_mset t rs)) else None),
      pr_wrlock = (\<lambda>t (w, rs). if w = None \<and> rs = {#} then Some (0, (Some t, {#})) else None),
      pr_unlock = (\<lambda>t (w, rs).
        if w = Some t then (0, (None, rs))
        else if w = None \<and> t \<in># rs then (0, (None, rs - {#t#}))
        else (1, (w, rs))),
      pr_destroy = (\<lambda>m. if m = (None, {#}) then 0 else 16)\<rparr>"

interpretation posix_rw: pthread_rwlock posix_rwlock fst snd
  by unfold_locales (auto simp: posix_rwlock_def)

section \<open>CASLock among threads\<close>

text \<open>
  Each thread is outside, in the loop of \<open>lock()\<close>, or between \<open>lock()\<close> and \<open>unlock()\<close>; one step is
  one access to the flag by one thread. A thread in the loop is inside when \<open>CASLock_lock\<close> returns;
  when it does not return at this moment, the access has left the flag as \<open>test_and_set\<close> leaves it.
\<close>

datatype cas_pc = Outside | Spinning | Inside

record cas_sys =
  cas_flag :: atomic_flag
  cas_pcs :: "tid \<Rightarrow> cas_pc"

definition cas_start :: cas_sys where
  "cas_start = \<lparr>cas_flag = CASLock_new, cas_pcs = (\<lambda>_. Outside)\<rparr>"

inductive cas_step :: "cas_sys \<Rightarrow> cas_sys \<Rightarrow> bool" where
  cas_call: "cas_pcs s t = Outside \<Longrightarrow> cas_step s (s\<lparr>cas_pcs := (cas_pcs s)(t := Spinning)\<rparr>)"
| cas_spin: "cas_pcs s t = Spinning \<Longrightarrow> CASLock_lock (cas_flag s) = None \<Longrightarrow>
    cas_step s (s\<lparr>cas_flag := fst (test_and_set (cas_flag s))\<rparr>)"
| cas_acquire: "cas_pcs s t = Spinning \<Longrightarrow> CASLock_lock (cas_flag s) = Some (Inr f) \<Longrightarrow>
    cas_step s (s\<lparr>cas_flag := f, cas_pcs := (cas_pcs s)(t := Inside)\<rparr>)"
| cas_try: "cas_pcs s t = Outside \<Longrightarrow> CASLock_try_lock (cas_flag s) = (f, got) \<Longrightarrow>
    cas_step s (s\<lparr>cas_flag := f, cas_pcs := (cas_pcs s)(t := if got then Inside else Outside)\<rparr>)"
| cas_release: "cas_pcs s t = Inside \<Longrightarrow> CASLock_unlock (cas_flag s) = Inr f \<Longrightarrow>
    cas_step s (s\<lparr>cas_flag := f, cas_pcs := (cas_pcs s)(t := Outside)\<rparr>)"

inductive cas_reachable :: "cas_sys \<Rightarrow> bool" where
  cas_init: "cas_reachable cas_start"
| cas_more: "cas_reachable s \<Longrightarrow> cas_step s s' \<Longrightarrow> cas_reachable s'"

text \<open>The invariant: the flag is set exactly while some thread is inside, and that is one thread.\<close>

definition cas_inv :: "cas_sys \<Rightarrow> bool" where
  "cas_inv s \<longleftrightarrow> (cas_flag s \<longleftrightarrow> (\<exists>t. cas_pcs s t = Inside)) \<and>
     (\<forall>t u. cas_pcs s t = Inside \<longrightarrow> cas_pcs s u = Inside \<longrightarrow> t = u)"

lemma cas_inv_start: "cas_inv cas_start"
  by (simp add: cas_inv_def cas_start_def CASLock_new_def)

lemma cas_inv_step: "cas_step s s' \<Longrightarrow> cas_inv s \<Longrightarrow> cas_inv s'"
  by (induction rule: cas_step.induct)
    (force simp: cas_inv_def test_and_set_def CASLock_lock_def CASLock_try_lock_def CASLock_unlock_def split: if_splits)+

lemma cas_inv_reachable: "cas_reachable s \<Longrightarrow> cas_inv s"
  by (induction rule: cas_reachable.induct) (auto intro: cas_inv_start cas_inv_step)

section \<open>Properties\<close>

text \<open>
  A scoped lock on a \<open>Mutex\<close> is balanced: under the documented behaviour of the POSIX mutex,
  a scope that constructs the guard on a free mutex, calls \<open>lock\<close> and \<open>unlock\<close> on it in any
  order and number, and destroys it, never blocks, never throws, and leaves the mutex free; while
  another thread owns the mutex the constructor does not return.
\<close>

theorem Mutex_scope_balanced:
  assumes "pthread_mutex api owner"
  shows "(owner m = None \<longrightarrow>
      (\<exists>m'. guard_scope (Mutex_lock api t) (Mutex_unlock api t) cs m = Some (Inr m') \<and> owner m' = None)) \<and>
    (\<forall>u. owner m = Some u \<longrightarrow> u \<noteq> t \<longrightarrow>
      guard_scope (Mutex_lock api t) (Mutex_unlock api t) cs m = None)"
proof (intro conjI impI allI)
  assume "owner m = None"
  then show "\<exists>m'. guard_scope (Mutex_lock api t) (Mutex_unlock api t) cs m = Some (Inr m') \<and> owner m' = None"
    by (rule lockable.guard_scope_ok [OF pthread_mutex.Mutex_lockable [OF assms]])
next
  fix u
  assume "owner m = Some u" "u \<noteq> t"
  then show "guard_scope (Mutex_lock api t) (Mutex_unlock api t) cs m = None"
    using pthread_mutex.lock_taken [OF assms] by (simp add: guard_scope_blocked Mutex_lock_def)
qed

theorem Mutex_scope_balanced_witness:
  "guard_scope (Mutex_lock posix_mutex 1) (Mutex_unlock posix_mutex 1) [Guard_unlock, Guard_lock, Guard_lock] None
     = Some (Inr None) \<and>
   guard_scope (Mutex_lock posix_mutex 1) (Mutex_unlock posix_mutex 1) [] (Some 2) = None"
  using Mutex_scope_balanced [OF posix_mx.pthread_mutex_axioms, of None 1 "[Guard_unlock, Guard_lock, Guard_lock]"]
    Mutex_scope_balanced [OF posix_mx.pthread_mutex_axioms, of "Some 2" 1 "[]"]
  by auto

text \<open>
  The two guards of \<open>RWMutex\<close> are balanced in the same way: a read scope, whatever it calls,
  leaves the set of readers as it was; a write scope on a free lock leaves it free; and a write
  scope does not begin while another thread reads or writes.
\<close>

theorem RWMutex_scopes_balanced:
  assumes "pthread_rwlock api writer readers"
  shows "(writer m = None \<longrightarrow>
      (\<exists>m'. read_scope (RWMutex_members api t) cs m = Some (Inr m') \<and>
        writer m' = None \<and> readers m' = readers m)) \<and>
    (writer m = None \<and> readers m = {#} \<longrightarrow>
      (\<exists>m'. write_scope (RWMutex_members api t) cs m = Some (Inr m') \<and>
        writer m' = None \<and> readers m' = {#})) \<and>
    (\<forall>u. u \<noteq> t \<and> (writer m = Some u \<or> u \<in># readers m) \<longrightarrow>
      write_scope (RWMutex_members api t) cs m = None)"
  unfolding read_scope_is_guard_scope write_scope_is_guard_scope RWMutex_members_def rw_members.simps
proof (intro conjI impI allI)
  assume "writer m = None"
  then show "\<exists>m'. guard_scope (RWMutex_rdlock api t) (RWMutex_unlock api t) cs m = Some (Inr m') \<and>
      writer m' = None \<and> readers m' = readers m"
    using lockable.guard_scope_ok [OF pthread_rwlock.ReadLock_lockable [OF assms]] by simp
next
  assume "writer m = None \<and> readers m = {#}"
  then show "\<exists>m'. guard_scope (RWMutex_wrlock api t) (RWMutex_unlock api t) cs m = Some (Inr m') \<and>
      writer m' = None \<and> readers m' = {#}"
    by (rule lockable.guard_scope_ok [OF pthread_rwlock.WriteLock_lockable [OF assms]])
next
  fix u
  assume "u \<noteq> t \<and> (writer m = Some u \<or> u \<in># readers m)"
  then show "guard_scope (RWMutex_wrlock api t) (RWMutex_unlock api t) cs m = None"
    using pthread_rwlock.wr_taken [OF assms, of m u t]
    by (intro guard_scope_blocked) (auto simp: RWMutex_wrlock_def)
qed

theorem RWMutex_scopes_balanced_witness:
  "read_scope (RWMutex_members posix_rwlock 1) [Guard_unlock] (None, {#2#})
     = Some (Inr (None, {#2#})) \<and>
   write_scope (RWMutex_members posix_rwlock 1) [] (None, {#2#}) = None"
  using RWMutex_scopes_balanced [OF posix_rw.pthread_rwlock_axioms, of "(None, {#2#})" 1 "[Guard_unlock]"]
    RWMutex_scopes_balanced [OF posix_rw.pthread_rwlock_axioms, of "(None, {#2#})" 1 "[]"]
  by auto

text \<open>
  C24. Mutual exclusion of \<open>CASLock\<close>: in every reachable state of any number of threads that call
  \<open>lock\<close>, \<open>try_lock\<close> and, when inside, \<open>unlock\<close>, at most one thread is inside, the flag is set
  exactly while one is, and exactly then \<open>lock\<close> does not return and \<open>try_lock\<close> answers false.
\<close>

theorem CASLock_mutual_exclusion:
  assumes "cas_reachable s"
  shows "(cas_pcs s t = Inside \<and> cas_pcs s u = Inside \<longrightarrow> t = u) \<and>
    (cas_flag s \<longleftrightarrow> (\<exists>t. cas_pcs s t = Inside)) \<and>
    (CASLock_lock (cas_flag s) = None \<longleftrightarrow> (\<exists>t. cas_pcs s t = Inside)) \<and>
    (snd (CASLock_try_lock (cas_flag s)) \<longleftrightarrow> (\<forall>t. cas_pcs s t \<noteq> Inside))"
  using cas_inv_reachable [OF assms]
  by (auto simp: cas_inv_def CASLock_lock_def CASLock_try_lock_def test_and_set_def)

text \<open>One thread has the lock and another is in the loop.\<close>

theorem CASLock_mutual_exclusion_witness:
  "\<exists>s. cas_reachable s \<and> cas_pcs s 1 = Inside \<and> cas_pcs s 2 = Spinning \<and> CASLock_lock (cas_flag s) = None"
proof -
  let ?s1 = "cas_start\<lparr>cas_pcs := (cas_pcs cas_start)(1 := Spinning)\<rparr>"
  let ?s2 = "?s1\<lparr>cas_flag := True, cas_pcs := (cas_pcs ?s1)(1 := Inside)\<rparr>"
  let ?s3 = "?s2\<lparr>cas_pcs := (cas_pcs ?s2)(2 := Spinning)\<rparr>"
  have "cas_step cas_start ?s1" by (rule cas_call) (simp add: cas_start_def)
  moreover have "cas_step ?s1 ?s2"
    by (rule cas_acquire) (simp_all add: cas_start_def CASLock_new_def CASLock_lock_def test_and_set_def)
  moreover have "cas_step ?s2 ?s3" by (rule cas_call) (simp add: cas_start_def)
  ultimately have "cas_reachable ?s3" using cas_more cas_init by metis
  then show ?thesis using CASLock_mutual_exclusion [of ?s3 1 1] by (intro exI [of _ ?s3]) simp
qed

text \<open>
  No lost wake-up of \<open>CASLock\<close>: in a reachable state in which no thread is inside, the next
  access of any spinning thread takes the lock, and so does a \<open>try_lock\<close>.
\<close>

theorem CASLock_progress:
  assumes "cas_reachable s" and "\<forall>u. cas_pcs s u \<noteq> Inside" and "cas_pcs s t = Spinning"
  shows "CASLock_lock (cas_flag s) = Some (Inr True) \<and> CASLock_try_lock (cas_flag s) = (True, True) \<and>
    cas_step s (s\<lparr>cas_flag := True, cas_pcs := (cas_pcs s)(t := Inside)\<rparr>)"
proof -
  have "\<not> cas_flag s" using cas_inv_reachable [OF assms(1)] assms(2) by (auto simp: cas_inv_def)
  then show ?thesis
    using cas_acquire [OF assms(3), of True]
    by (simp add: CASLock_lock_def CASLock_try_lock_def test_and_set_def)
qed

theorem CASLock_progress_witness:
  "CASLock_lock (cas_flag (cas_start\<lparr>cas_pcs := (cas_pcs cas_start)(1 := Spinning)\<rparr>)) = Some (Inr True)"
proof -
  let ?s = "cas_start\<lparr>cas_pcs := (cas_pcs cas_start)(1 := Spinning)\<rparr>"
  have "cas_reachable ?s"
    using cas_more [OF cas_init cas_call [of cas_start 1]] by (simp add: cas_start_def)
  then show ?thesis using CASLock_progress [of ?s 1] by (simp add: cas_start_def)
qed

end
