(* ===== verification/LogThreads.thy ===== *)
theory LogThreads
  imports LogFiles LockContracts
begin

text \<open>
  Appenders among several threads: \<open>log\<close> of both kinds of \<open>LogAppender\<close> (\<open>src/_log/log.cpp\<close>) cut
  where it takes and gives back the appender's \<open>SpinLock\<close> and at every output, and the two setters, in
  every interleaving. The test of the level and that of \<open>m_lastTime\<close> take no lock.
\<close>

section \<open>The pieces of log\<close>

text \<open>What a call gets: the name of the logger, the level, the event.\<close>

type_synonym log_call = "string \<times> LogLevel \<times> LogEvent"

definition log_passes :: "addr \<Rightarrow> log_call \<Rightarrow> logsys \<Rightarrow> bool" where
  "log_passes a c s = (case c of (name, level, e) \<Rightarrow>
     (case ls_appenders s a of None \<Rightarrow> False | Some x \<Rightarrow> ap_level x \<le> level))"

definition is_console :: "logsys \<Rightarrow> addr \<Rightarrow> bool" where
  "is_console s a = (case ls_appenders s a of None \<Rightarrow> False | Some x \<Rightarrow> ap_sink x = Stdout_sink)"

text \<open>Outside the lock, of an appender to a file: the test of the time, and the new \<open>m_lastTime\<close>.\<close>

definition log_due :: "addr \<Rightarrow> log_call \<Rightarrow> logsys \<Rightarrow> bool" where
  "log_due a c s = (case c of (name, level, e) \<Rightarrow>
     (case ls_appenders s a of
        None \<Rightarrow> False
      | Some x \<Rightarrow> (case ap_sink x of Stdout_sink \<Rightarrow> False | File_sink fn os t \<Rightarrow> t + 3 \<le> ev_time e)))"

definition log_stamp :: "addr \<Rightarrow> log_call \<Rightarrow> logsys \<Rightarrow> logsys" where
  "log_stamp a c s = (case c of (name, level, e) \<Rightarrow>
     (case ls_appenders s a of
        None \<Rightarrow> s
      | Some x \<Rightarrow>
          (case ap_sink x of
             Stdout_sink \<Rightarrow> s
           | File_sink fn os t \<Rightarrow>
               s\<lparr>ls_appenders := (ls_appenders s)(a \<mapsto> x\<lparr>ap_sink := File_sink fn os (ev_time e)\<rparr>)\<rparr>)))"

text \<open>Under the lock: \<open>reopen\<close>.\<close>

definition log_reopen :: "os_env \<Rightarrow> addr \<Rightarrow> logsys \<Rightarrow> logsys" where
  "log_reopen env a s =
     (case ls_appenders s a of
        None \<Rightarrow> s
      | Some x \<Rightarrow>
          (case ap_sink x of
             Stdout_sink \<Rightarrow> s
           | File_sink fn os t \<Rightarrow>
               s\<lparr>ls_appenders := (ls_appenders s)(a \<mapsto> x\<lparr>ap_sink := File_sink fn (fst (reopen env fn os)) t\<rparr>)\<rparr>))"

text \<open>
  Under the lock: the outputs of one call, in order (the formatted string and \<open>std::endl\<close>, or one
  per format item); one output; and the message of a stream that failed.
\<close>

definition log_texts :: "'tm clock \<Rightarrow> bool \<Rightarrow> log_call \<Rightarrow> LogFormatter \<Rightarrow> string list" where
  "log_texts ck console c f = (case c of (name, level, e) \<Rightarrow>
     if console then [formatter_string ck f name level e, newline]
     else map (format_item ck name level e) (fmt_items f))"

definition log_put :: "os_env \<Rightarrow> addr \<Rightarrow> string \<Rightarrow> logsys \<Rightarrow> logsys" where
  "log_put env a txt s =
     (case ls_appenders s a of
        None \<Rightarrow> s
      | Some x \<Rightarrow>
          (case ap_sink x of
             Stdout_sink \<Rightarrow> s\<lparr>ls_stdout := ls_stdout s @ txt\<rparr>
           | File_sink fn os t \<Rightarrow>
               (let (os', fs) = ofstream_write env txt (os, ls_files s)
                in s\<lparr>ls_files := fs, ls_appenders := (ls_appenders s)(a \<mapsto> x\<lparr>ap_sink := File_sink fn os' t\<rparr>)\<rparr>)))"

definition log_report :: "addr \<Rightarrow> logsys \<Rightarrow> logsys" where
  "log_report a s =
     (case ls_appenders s a of
        None \<Rightarrow> s
      | Some x \<Rightarrow>
          (case ap_sink x of
             Stdout_sink \<Rightarrow> s
           | File_sink fn os t \<Rightarrow> if os_fail os then cout_line ''error'' s else s))"

text \<open>The pieces one after the other.\<close>

definition log_pieces :: "'tm clock \<Rightarrow> os_env \<Rightarrow> addr \<Rightarrow> log_call \<Rightarrow> logsys \<Rightarrow> logsys outcome" where
  "log_pieces ck env a c s =
     (case ls_appenders s a of
        None \<Rightarrow> Inl (Null_deref ''LogAppender'')
      | Some x \<Rightarrow>
          (if log_passes a c s
           then let s1 = (if log_due a c s then log_stamp a c (log_reopen env a s) else s)
                in (case ap_formatter x of
                      None \<Rightarrow> Inl (Null_deref ''m_formatter'')
                    | Some f \<Rightarrow>
                        Inr (log_report a (fold (log_put env a) (log_texts ck (is_console s a) c f) s1)))
           else Inr s))"

lemma fold_put_file:
  assumes "ls_appenders s a = Some x" and "ap_sink x = File_sink fn os t"
  shows "fold (log_put env a) (map (format_item ck name level e) is) s =
    (case formatter_stream ck env is name level e (os, ls_files s) of (os', fs) \<Rightarrow>
       s\<lparr>ls_files := fs, ls_appenders := (ls_appenders s)(a \<mapsto> x\<lparr>ap_sink := File_sink fn os' t\<rparr>)\<rparr>)"
  using assms
proof (induction "is" arbitrary: s x os)
  case Nil
  have "x\<lparr>ap_sink := File_sink fn os t\<rparr> = x" using Nil by simp
  moreover have "(ls_appenders s)(a \<mapsto> x) = ls_appenders s" using Nil by (intro fun_upd_idem) simp
  ultimately show ?case by (simp del: fun_upd_apply)
next
  case (Cons i "is")
  obtain os' fs where w: "ofstream_write env (format_item ck name level e i) (os, ls_files s) = (os', fs)" by fastforce
  let ?s = "s\<lparr>ls_files := fs, ls_appenders := (ls_appenders s)(a \<mapsto> x\<lparr>ap_sink := File_sink fn os' t\<rparr>)\<rparr>"
  have "log_put env a (format_item ck name level e i) s = ?s"
    using Cons.prems w by (simp add: log_put_def)
  then show ?case
    using Cons.IH [of ?s "x\<lparr>ap_sink := File_sink fn os' t\<rparr>" os'] w
    by (simp add: fun_upd_def split: prod.split cong: if_cong)
qed

lemma fold_put_moved:
  assumes "y = x\<lparr>ap_sink := File_sink fn os t\<rparr>" and "s' = s\<lparr>ls_appenders := (ls_appenders s)(a \<mapsto> y)\<rparr>"
  shows "fold (log_put env a) (map (format_item ck name level e) is) s' =
    (case formatter_stream ck env is name level e (os, ls_files s) of (os', fs) \<Rightarrow>
       s\<lparr>ls_files := fs, ls_appenders := (ls_appenders s)(a \<mapsto> x\<lparr>ap_sink := File_sink fn os' t\<rparr>)\<rparr>)"
  using fold_put_file [of s' a y fn os t env ck name level e "is"] assms
  by (simp add: fun_upd_def split: prod.split cong: if_cong)

text \<open>
  A thread that is alone runs \<open>log\<close> as it is: the pieces one after the other are
  \<open>StdoutLogAppender::log\<close> and \<open>FileLogAppender::log\<close>, on every state, for every disk.
\<close>

theorem log_alone: "log_pieces ck env a (name, level, e) = appender_log ck env name level e a"
proof
  fix s
  show "log_pieces ck env a (name, level, e) s = appender_log ck env name level e a s"
  proof (cases "ls_appenders s a")
    case None
    then show ?thesis by (simp add: log_pieces_def appender_log_def)
  next
    case (Some x)
    show ?thesis
    proof (cases "ap_sink x")
      case Stdout_sink
      then show ?thesis using Some
        by (auto simp: log_pieces_def appender_log_def stdout_log_def log_passes_def log_due_def is_console_def
            log_texts_def log_put_def log_report_def cout_line_def split: option.split)
    next
      case (File_sink fn os t)
      let ?due = "t + 3 \<le> ev_time e"
      let ?s = "if ?due then log_stamp a (name, level, e) (log_reopen env a s) else s"
      obtain os1 t1 where p: "(if ?due then (fst (reopen env fn os), ev_time e) else (os, t)) = (os1, t1)" by fastforce
      have s: "?s = s\<lparr>ls_appenders := (ls_appenders s)(a \<mapsto> x\<lparr>ap_sink := File_sink fn os1 t1\<rparr>)\<rparr>"
      proof (cases ?due)
        case True
        then show ?thesis using Some File_sink p by (auto simp: log_stamp_def log_reopen_def)
      next
        case False
        then have "x\<lparr>ap_sink := File_sink fn os1 t1\<rparr> = x" using File_sink p by simp
        moreover have "(ls_appenders s)(a \<mapsto> x) = ls_appenders s" using Some by (intro fun_upd_idem) simp
        ultimately show ?thesis using False by (simp del: fun_upd_apply)
      qed
      have flags: "log_due a (name, level, e) s = ?due" "\<not> is_console s a"
          "log_passes a (name, level, e) s = (ap_level x \<le> level)"
        using Some File_sink by (simp_all add: log_due_def is_console_def log_passes_def)
      show ?thesis
      proof (cases "ap_formatter x")
        case None
        then show ?thesis using Some File_sink flags p
          by (simp add: log_pieces_def appender_log_def file_log_def Let_def split: prod.split)
      next
        case f: (Some f)
        obtain os' fs where r: "formatter_stream ck env (fmt_items f) name level e (os1, ls_files s) = (os', fs)"
          by fastforce
        let ?s2 = "s\<lparr>ls_files := fs, ls_appenders := (ls_appenders s)(a \<mapsto> x\<lparr>ap_sink := File_sink fn os' t1\<rparr>)\<rparr>"
        have "fold (log_put env a) (map (format_item ck name level e) (fmt_items f)) ?s = ?s2"
          unfolding s by (subst fold_put_moved [OF refl refl]) (simp add: r)
        moreover have "log_report a ?s2 = (if os_fail os' then cout_line ''error'' ?s2 else ?s2)"
          by (simp add: log_report_def)
        ultimately have pieces: "log_pieces ck env a (name, level, e) s =
            (if ap_level x \<le> level then Inr (if os_fail os' then cout_line ''error'' ?s2 else ?s2) else Inr s)"
          using Some f flags by (simp add: log_pieces_def log_texts_def del: fun_upd_apply)
        have "file_log ck env name level e a x fn os t s =
            (if ap_level x \<le> level then Inr (if os_fail os' then cout_line ''error'' ?s2 else ?s2) else Inr s)"
          using f p r by (simp add: file_log_def Let_def del: fun_upd_apply)
        with pieces show ?thesis using Some File_sink by (simp add: appender_log_def)
      qed
    qed
  qed
qed

section \<open>Steps of several threads\<close>

text \<open>Where a thread is in its call of \<open>log\<close>; the outputs that are left, while it writes.\<close>

datatype log_pc =
    Out
  | Tests addr log_call
  | Reopens addr log_call
  | Reopening addr log_call
  | Stamps addr log_call
  | Wants addr log_call
  | Writes addr "string list"

text \<open>What is done under the lock: a call begins with the formatter it finds, and writes.\<close>

datatype log_action = Begins log_call LogFormatter | Puts string

record 'm log_shared =
  lt_sys :: logsys
  lt_lock :: "addr \<Rightarrow> 'm"
  lt_at :: "tid \<Rightarrow> log_pc"

inductive log_tstep ::
  "'m mutex_api \<Rightarrow> 'tm clock \<Rightarrow> os_env \<Rightarrow> 'm log_shared \<Rightarrow> (tid \<times> addr \<times> log_action) list \<Rightarrow> 'm log_shared \<Rightarrow> bool"
  for api :: "'m mutex_api" and ck :: "'tm clock" and env :: os_env where
  calls: "lt_at s t = Out \<Longrightarrow> log_passes a c (lt_sys s) \<Longrightarrow>
     log_tstep api ck env s []
       (s\<lparr>lt_at := (lt_at s)(t := if is_console (lt_sys s) a then Wants a c else Tests a c)\<rparr>)"
| tests: "lt_at s t = Tests a c \<Longrightarrow>
     log_tstep api ck env s [] (s\<lparr>lt_at := (lt_at s)(t := if log_due a c (lt_sys s) then Reopens a c else Wants a c)\<rparr>)"
| locks_file: "lt_at s t = Reopens a c \<Longrightarrow> SpinLock_lock api t (lt_lock s a) = Some (Inr m) \<Longrightarrow>
     log_tstep api ck env s [] (s\<lparr>lt_lock := (lt_lock s)(a := m), lt_at := (lt_at s)(t := Reopening a c)\<rparr>)"
| reopens: "lt_at s t = Reopening a c \<Longrightarrow> SpinLock_unlock api t (lt_lock s a) = Inr m \<Longrightarrow>
     log_tstep api ck env s []
       \<lparr>lt_sys = log_reopen env a (lt_sys s), lt_lock = (lt_lock s)(a := m), lt_at = (lt_at s)(t := Stamps a c)\<rparr>"
| stamps: "lt_at s t = Stamps a c \<Longrightarrow>
     log_tstep api ck env s [] (s\<lparr>lt_sys := log_stamp a c (lt_sys s), lt_at := (lt_at s)(t := Wants a c)\<rparr>)"
| starts_line: "lt_at s t = Wants a c \<Longrightarrow> SpinLock_lock api t (lt_lock s a) = Some (Inr m) \<Longrightarrow>
     ls_appenders (lt_sys s) a = Some x \<Longrightarrow> ap_formatter x = Some f \<Longrightarrow>
     log_tstep api ck env s [(t, a, Begins c f)]
       (s\<lparr>lt_lock := (lt_lock s)(a := m),
          lt_at := (lt_at s)(t := Writes a (log_texts ck (is_console (lt_sys s) a) c f))\<rparr>)"
| puts: "lt_at s t = Writes a (txt # txts) \<Longrightarrow>
     log_tstep api ck env s [(t, a, Puts txt)]
       (s\<lparr>lt_sys := log_put env a txt (lt_sys s), lt_at := (lt_at s)(t := Writes a txts)\<rparr>)"
| leaves_log: "lt_at s t = Writes a [] \<Longrightarrow> SpinLock_unlock api t (lt_lock s a) = Inr m \<Longrightarrow>
     log_tstep api ck env s []
       \<lparr>lt_sys = log_report a (lt_sys s), lt_lock = (lt_lock s)(a := m), lt_at = (lt_at s)(t := Out)\<rparr>"
| sets_level: "lt_at s t = Out \<Longrightarrow> SpinLock_lock api t (lt_lock s a) = Some (Inr m) \<Longrightarrow>
     LogAppender_setLevel a level (lt_sys s) = Inr s' \<Longrightarrow> SpinLock_unlock api t m = Inr m' \<Longrightarrow>
     log_tstep api ck env s [] (s\<lparr>lt_sys := s', lt_lock := (lt_lock s)(a := m')\<rparr>)"
| sets_formatter: "lt_at s t = Out \<Longrightarrow> SpinLock_lock api t (lt_lock s a) = Some (Inr m) \<Longrightarrow>
     LogAppender_setFormatter a f (lt_sys s) = Inr s' \<Longrightarrow> SpinLock_unlock api t m = Inr m' \<Longrightarrow>
     log_tstep api ck env s [] (s\<lparr>lt_sys := s', lt_lock := (lt_lock s)(a := m')\<rparr>)"

inductive log_trun ::
  "'m mutex_api \<Rightarrow> 'tm clock \<Rightarrow> os_env \<Rightarrow> 'm log_shared \<Rightarrow> (tid \<times> addr \<times> log_action) list \<Rightarrow> 'm log_shared \<Rightarrow> bool"
  for api :: "'m mutex_api" and ck :: "'tm clock" and env :: os_env and s0 :: "'m log_shared" where
  log_tstart: "log_trun api ck env s0 [] s0"
| log_tmore: "log_trun api ck env s0 es s \<Longrightarrow> log_tstep api ck env s es' s' \<Longrightarrow> log_trun api ck env s0 (es @ es') s'"

text \<open>At first no thread logs and the locks are new.\<close>

definition log_first :: "'m mutex_api \<Rightarrow> 'm log_shared \<Rightarrow> bool" where
  "log_first api s \<longleftrightarrow> lt_at s = (\<lambda>t. Out) \<and> (\<forall>a. SpinLock_new api = Inr (lt_lock s a))"

section \<open>The invariant\<close>

text \<open>Who holds the lock of an appender.\<close>

fun holds :: "log_pc \<Rightarrow> addr \<Rightarrow> bool" where
  "holds (Reopening b c) a = (b = a)"
| "holds (Writes b txts) a = (b = a)"
| "holds pc a = False"

definition owners_ok :: "('m \<Rightarrow> tid option) \<Rightarrow> 'm log_shared \<Rightarrow> bool" where
  "owners_ok owner s \<longleftrightarrow> (\<forall>a t. owner (lt_lock s a) = Some t \<longleftrightarrow> holds (lt_at s t) a)"

text \<open>What was done through the appender \<open>a\<close>: whole calls, and one that has begun.\<close>

definition outs_of :: "addr \<Rightarrow> (tid \<times> addr \<times> log_action) list \<Rightarrow> (tid \<times> log_action) list" where
  "outs_of a es = map (\<lambda>(t, b, e). (t, e)) (filter (\<lambda>(t, b, e). b = a) es)"

definition part_line :: "'tm clock \<Rightarrow> bool \<Rightarrow> tid \<Rightarrow> string list \<Rightarrow> (tid \<times> log_action) list \<Rightarrow> bool" where
  "part_line ck console t left g \<longleftrightarrow>
     (\<exists>c f wrote. wrote @ left = log_texts ck console c f \<and> g = (t, Begins c f) # map (\<lambda>x. (t, Puts x)) wrote)"

definition whole_line :: "'tm clock \<Rightarrow> bool \<Rightarrow> (tid \<times> log_action) list \<Rightarrow> bool" where
  "whole_line ck console g \<longleftrightarrow> (\<exists>t. part_line ck console t [] g)"

fun begun_line :: "'tm clock \<Rightarrow> bool \<Rightarrow> tid \<Rightarrow> log_pc \<Rightarrow> (tid \<times> log_action) list \<Rightarrow> bool" where
  "begun_line ck console t (Writes b txts) r = part_line ck console t txts r"
| "begun_line ck console t pc r = (r = [])"

definition in_lines ::
  "'tm clock \<Rightarrow> bool \<Rightarrow> tid option \<Rightarrow> (tid \<Rightarrow> log_pc) \<Rightarrow> (tid \<times> log_action) list \<Rightarrow> bool" where
  "in_lines ck console own pcs tr \<longleftrightarrow> (\<exists>lines r. tr = concat lines @ r \<and>
     (\<forall>g \<in> set lines. whole_line ck console g) \<and>
     (case own of None \<Rightarrow> r = [] | Some t \<Rightarrow> begun_line ck console t (pcs t) r))"

definition lines_inv ::
  "('m \<Rightarrow> tid option) \<Rightarrow> 'tm clock \<Rightarrow> (addr \<Rightarrow> bool) \<Rightarrow> (tid \<times> addr \<times> log_action) list \<Rightarrow> 'm log_shared \<Rightarrow> bool" where
  "lines_inv owner ck console es s \<longleftrightarrow> owners_ok owner s \<and> is_console (lt_sys s) = console \<and>
     (\<forall>a. in_lines ck (console a) (owner (lt_lock s a)) (lt_at s) (outs_of a es))"

lemma outs_of_simps [simp]:
  "outs_of a [] = []" "outs_of a (es @ es') = outs_of a es @ outs_of a es'"
  "outs_of a [(t, b, e)] = (if b = a then [(t, e)] else [])"
  by (simp_all add: outs_of_def)

text \<open>The pieces keep what an appender writes to.\<close>

lemma is_console_keeps [simp]:
  "is_console (log_reopen env a s) = is_console s" "is_console (log_stamp a c s) = is_console s"
  "is_console (log_put env a txt s) = is_console s" "is_console (log_report a s) = is_console s"
  by (auto simp: fun_eq_iff is_console_def log_reopen_def log_stamp_def log_put_def log_report_def cout_line_def
      split: option.split sink.split prod.split)

lemma is_console_setters:
  "LogAppender_setLevel a level s = Inr s' \<Longrightarrow> is_console s' = is_console s"
  "LogAppender_setFormatter a f s = Inr s' \<Longrightarrow> is_console s' = is_console s"
  by (auto simp: fun_eq_iff is_console_def LogAppender_setLevel_def LogAppender_setFormatter_def with_appender_def
      split: option.splits if_splits)

lemma in_lines_cong:
  "(\<And>t. own = Some t \<Longrightarrow> pcs' t = pcs t) \<Longrightarrow> in_lines ck con own pcs' tr = in_lines ck con own pcs tr"
  by (cases own) (simp_all add: in_lines_def)

text \<open>
  A step of the thread \<open>t\<close> at the appender \<open>a\<close>: the owners of the other locks are where they were.
\<close>

lemma lines_move:
  assumes inv: "lines_inv owner ck console es s"
    and own: "owners_ok owner s'" and con: "is_console (lt_sys s') = is_console (lt_sys s)"
    and locks: "\<And>b. b \<noteq> a \<Longrightarrow> lt_lock s' b = lt_lock s b" and at: "\<And>u. u \<noteq> t \<Longrightarrow> lt_at s' u = lt_at s u"
    and es: "\<forall>(u, b, e) \<in> set es'. b = a"
    and here: "in_lines ck (console a) (owner (lt_lock s a)) (lt_at s) (outs_of a es) \<Longrightarrow>
      in_lines ck (console a) (owner (lt_lock s' a)) (lt_at s') (outs_of a es @ outs_of a es')"
    and there: "\<And>b. b \<noteq> a \<Longrightarrow> holds (lt_at s t) b \<Longrightarrow> lt_at s' t = lt_at s t"
  shows "lines_inv owner ck console (es @ es') s'"
proof -
  have "in_lines ck (console b) (owner (lt_lock s' b)) (lt_at s') (outs_of b (es @ es'))" for b
  proof (cases "b = a")
    case True
    then show ?thesis using inv here by (simp add: lines_inv_def)
  next
    case False
    have "outs_of b es' = []" using es False by (auto simp: outs_of_def filter_empty_conv)
    moreover have "lt_at s' u = lt_at s u" if "owner (lt_lock s b) = Some u" for u
      using that inv at there [OF False] by (cases "u = t") (auto simp: lines_inv_def owners_ok_def)
    moreover have "in_lines ck (console b) (owner (lt_lock s b)) (lt_at s) (outs_of b es)"
      using inv by (simp add: lines_inv_def)
    ultimately show ?thesis
      using locks [OF False] by (simp add: in_lines_cong [of "owner (lt_lock s b)" "lt_at s'" "lt_at s"])
  qed
  then show ?thesis using own con inv by (simp add: lines_inv_def)
qed

lemma in_lines_none: "in_lines ck con None pcs tr \<longleftrightarrow> (\<exists>lines. tr = concat lines \<and> (\<forall>g \<in> set lines. whole_line ck con g))"
  by (simp add: in_lines_def)

lemma in_lines_idle: "pcs t = Reopening a c \<Longrightarrow> in_lines ck con (Some t) pcs tr = in_lines ck con None pcs' tr"
  by (simp add: in_lines_def)

lemma in_lines_begins:
  assumes "in_lines ck con None pcs tr" and "pcs' t = Writes a (log_texts ck con c f)"
  shows "in_lines ck con (Some t) pcs' (tr @ [(t, Begins c f)])"
proof -
  have "part_line ck con t (log_texts ck con c f) [(t, Begins c f)]"
    unfolding part_line_def by (rule exI [of _ c], rule exI [of _ f], rule exI [of _ "[]"]) simp
  then show ?thesis using assms by (auto simp: in_lines_def)
qed

lemma in_lines_puts:
  assumes "in_lines ck con (Some t) pcs tr" and "pcs t = Writes a (txt # txts)" and "pcs' t = Writes a txts"
  shows "in_lines ck con (Some t) pcs' (tr @ [(t, Puts txt)])"
proof -
  obtain lines r where l: "tr = concat lines @ r" "\<forall>g \<in> set lines. whole_line ck con g"
      "part_line ck con t (txt # txts) r" using assms by (auto simp: in_lines_def)
  then have "part_line ck con t txts (r @ [(t, Puts txt)])"
    unfolding part_line_def by (metis (no_types, lifting) append.assoc append_Cons append_Nil list.simps(8) list.simps(9) map_append)
  then show ?thesis using l assms(3) by (auto simp: in_lines_def)
qed

lemma in_lines_leaves:
  assumes "in_lines ck con (Some t) pcs tr" and "pcs t = Writes a []"
  shows "in_lines ck con None pcs' tr"
proof -
  obtain lines r where "tr = concat lines @ r" "\<forall>g \<in> set lines. whole_line ck con g" "part_line ck con t [] r"
    using assms by (auto simp: in_lines_def)
  then show ?thesis unfolding in_lines_none by (intro exI [of _ "lines @ [r]"]) (auto simp: whole_line_def)
qed

text \<open>The lock of an appender, in the steps of a thread.\<close>

context pthread_mutex
begin

lemma spin_got:
  assumes "SpinLock_lock api t m = Some (Inr m')" and "owner m \<noteq> Some t"
  shows "owner m = None \<and> owner m' = Some t"
proof -
  have "owner m = None" using assms lock_taken [of m _ t] by (cases "owner m") (auto simp: SpinLock_lock_def)
  then show ?thesis using lock_free [of m t] assms(1) by (auto simp: SpinLock_lock_def check_rc_def)
qed

lemma spin_freed: "SpinLock_unlock api t m = Inr m' \<Longrightarrow> owner m = Some t \<Longrightarrow> owner m' = None"
  using unlock_owner [of m t] by (auto simp: SpinLock_unlock_def check_rc_def)

lemma owners_take:
  assumes "owners_ok owner s" and "\<And>b. \<not> holds (lt_at s t) b" and "\<And>b. holds pc b \<longleftrightarrow> b = a"
    and "SpinLock_lock api t (lt_lock s a) = Some (Inr m)"
    and "lt_lock s' = (lt_lock s)(a := m)" and "lt_at s' = (lt_at s)(t := pc)"
  shows "owners_ok owner s' \<and> owner (lt_lock s a) = None \<and> owner (lt_lock s' a) = Some t"
proof -
  have "owner (lt_lock s a) \<noteq> Some t" using assms(1,2) by (auto simp: owners_ok_def)
  then have o: "owner (lt_lock s a) = None" "owner m = Some t" using spin_got [OF assms(4)] by auto
  moreover have "\<not> holds (lt_at s u) a" for u using assms(1) o(1) by (metis option.simps(3) owners_ok_def)
  ultimately show ?thesis using assms by (auto simp: owners_ok_def)
qed

lemma owners_give:
  assumes "owners_ok owner s" and "\<And>b. holds (lt_at s t) b \<longleftrightarrow> b = a" and "\<And>b. \<not> holds pc b"
    and "SpinLock_unlock api t (lt_lock s a) = Inr m"
    and "lt_lock s' = (lt_lock s)(a := m)" and "lt_at s' = (lt_at s)(t := pc)"
  shows "owners_ok owner s' \<and> owner (lt_lock s a) = Some t \<and> owner (lt_lock s' a) = None"
proof -
  have t: "owner (lt_lock s a) = Some t" using assms(1,2) by (simp add: owners_ok_def)
  moreover have "holds (lt_at s u) a \<Longrightarrow> u = t" for u
    using assms(1) t by (metis option.inject owners_ok_def)
  ultimately show ?thesis
    using spin_freed [OF assms(4)] assms by (auto simp: owners_ok_def)
qed

lemma owners_brief:
  assumes "owners_ok owner s" and "lt_at s t = Out" and "SpinLock_lock api t (lt_lock s a) = Some (Inr m)"
    and "SpinLock_unlock api t m = Inr m'" and "lt_lock s' = (lt_lock s)(a := m')" and "lt_at s' = lt_at s"
  shows "owners_ok owner s' \<and> owner (lt_lock s a) = None \<and> owner (lt_lock s' a) = None"
proof -
  have "owner (lt_lock s a) \<noteq> Some t" using assms(1,2) by (auto simp: owners_ok_def)
  then have o: "owner (lt_lock s a) = None" "owner m' = None"
    using spin_got [OF assms(3)] spin_freed [OF assms(4)] by auto
  moreover have "\<not> holds (lt_at s u) a" for u using assms(1) o(1) by (metis option.simps(3) owners_ok_def)
  ultimately show ?thesis
    using assms by (auto simp: owners_ok_def)
qed

end

lemma owners_same:
  "owners_ok owner s \<Longrightarrow> lt_lock s' = lt_lock s \<Longrightarrow> lt_at s' = (lt_at s)(t := pc) \<Longrightarrow>
   holds pc = holds (lt_at s t) \<Longrightarrow> owners_ok owner s'"
  by (auto simp: owners_ok_def)

text \<open>A step outside the locks.\<close>

lemma lines_outside:
  assumes inv: "lines_inv owner ck console es s" and "holds (lt_at s t) = (\<lambda>b. False)" and "holds pc = (\<lambda>b. False)"
    and "is_console (lt_sys s') = is_console (lt_sys s)" and "lt_lock s' = lt_lock s" and "lt_at s' = (lt_at s)(t := pc)"
  shows "lines_inv owner ck console es s'"
proof -
  have own: "owners_ok owner s" using inv by (simp add: lines_inv_def)
  have "in_lines ck (console a) (owner (lt_lock s a)) (lt_at s') tr = in_lines ck (console a) (owner (lt_lock s a)) (lt_at s) tr" for a tr
    using own assms(2,6) by (intro in_lines_cong) (auto simp: owners_ok_def)
  moreover have "owners_ok owner s'" using owners_same [OF own assms(5,6)] assms(2,3) by simp
  ultimately show ?thesis using inv assms(4,5) by (simp add: lines_inv_def)
qed

context pthread_mutex
begin

lemma lines_step:
  assumes "log_tstep api ck env s es' s'" and "lines_inv owner ck console es s"
  shows "lines_inv owner ck console (es @ es') s'"
  using assms
proof (induction rule: log_tstep.induct)
  case (calls s t a c)
  show ?case unfolding append_Nil2
    by (rule lines_outside [OF calls(3), where t = t and pc = "if is_console (lt_sys s) a then Wants a c else Tests a c"])
      (use calls(1) in \<open>auto simp: fun_eq_iff\<close>)
next
  case (tests s t a c)
  show ?case unfolding append_Nil2
    by (rule lines_outside [OF tests(2), where t = t and pc = "if log_due a c (lt_sys s) then Reopens a c else Wants a c"])
      (use tests(1) in \<open>auto simp: fun_eq_iff\<close>)
next
  case (stamps s t a c)
  show ?case unfolding append_Nil2
    by (rule lines_outside [OF stamps(2), where t = t and pc = "Wants a c"]) (use stamps(1) in \<open>auto simp: fun_eq_iff\<close>)
next
  case (locks_file s t a c m)
  let ?s = "s\<lparr>lt_lock := (lt_lock s)(a := m), lt_at := (lt_at s)(t := Reopening a c)\<rparr>"
  have own: "owners_ok owner s" using locks_file(3) by (simp add: lines_inv_def)
  have o: "owners_ok owner ?s \<and> owner (lt_lock s a) = None \<and> owner (lt_lock ?s a) = Some t"
    by (rule owners_take [where s = s and t = t and a = a and m = m and pc = "Reopening a c"]) (use own locks_file(1,2) in auto)
  show ?case
    by (rule lines_move [OF locks_file(3) conjunct1 [OF o], where a = a and t = t])
      (use o locks_file(1) in_lines_idle [of "lt_at ?s" t a c ck "console a" _ "lt_at s"] in auto)
next
  case (reopens s t a c m)
  let ?s = "\<lparr>lt_sys = log_reopen env a (lt_sys s), lt_lock = (lt_lock s)(a := m), lt_at = (lt_at s)(t := Stamps a c)\<rparr>"
  have own: "owners_ok owner s" using reopens(3) by (simp add: lines_inv_def)
  have o: "owners_ok owner ?s \<and> owner (lt_lock s a) = Some t \<and> owner (lt_lock ?s a) = None"
    by (rule owners_give [where s = s and t = t and a = a and m = m and pc = "Stamps a c"]) (use own reopens(1,2) in auto)
  show ?case
    by (rule lines_move [OF reopens(3) conjunct1 [OF o], where a = a and t = t])
      (use o reopens(1) in_lines_idle [of "lt_at s" t a c ck "console a" _ "lt_at ?s"] in auto)
next
  case (starts_line s t a c m x f)
  let ?pc = "Writes a (log_texts ck (is_console (lt_sys s) a) c f)"
  let ?s = "s\<lparr>lt_lock := (lt_lock s)(a := m), lt_at := (lt_at s)(t := ?pc)\<rparr>"
  have own: "owners_ok owner s" and con: "is_console (lt_sys s) = console"
    using starts_line(5) by (simp_all add: lines_inv_def)
  have o: "owners_ok owner ?s \<and> owner (lt_lock s a) = None \<and> owner (lt_lock ?s a) = Some t"
    by (rule owners_take [where s = s and t = t and a = a and m = m and pc = ?pc]) (use own starts_line(1,2) in auto)
  have writes: "in_lines ck (console a) (Some t) (lt_at ?s) (tr @ [(t, Begins c f)])"
    if "in_lines ck (console a) None (lt_at s) tr" for tr
    by (rule in_lines_begins [OF that, where a = a]) (simp add: con)
  show ?case
    by (rule lines_move [OF starts_line(5) conjunct1 [OF o], where a = a and t = t])
      (use o starts_line(1) writes in auto)
next
  case (puts s t a w ws)
  let ?s = "s\<lparr>lt_sys := log_put env a w (lt_sys s), lt_at := (lt_at s)(t := Writes a ws)\<rparr>"
  have own: "owners_ok owner s" using puts(2) by (simp add: lines_inv_def)
  have o: "owners_ok owner ?s"
    by (rule owners_same [OF own, where t = t and pc = "Writes a ws"]) (use puts(1) in \<open>auto simp: fun_eq_iff\<close>)
  have "owner (lt_lock s a) = Some t" using own puts(1) by (simp add: owners_ok_def)
  then show ?case
    by (intro lines_move [OF puts(2) o, where a = a and t = t])
      (use puts(1) in_lines_puts [of ck "console a" t "lt_at s" _ a w ws "lt_at ?s"] in auto)
next
  case (leaves_log s t a m)
  let ?s = "\<lparr>lt_sys = log_report a (lt_sys s), lt_lock = (lt_lock s)(a := m), lt_at = (lt_at s)(t := Out)\<rparr>"
  have own: "owners_ok owner s" using leaves_log(3) by (simp add: lines_inv_def)
  have o: "owners_ok owner ?s \<and> owner (lt_lock s a) = Some t \<and> owner (lt_lock ?s a) = None"
    by (rule owners_give [where s = s and t = t and a = a and m = m and pc = Out]) (use own leaves_log(1,2) in auto)
  show ?case
    by (rule lines_move [OF leaves_log(3) conjunct1 [OF o], where a = a and t = t])
      (use o leaves_log(1) in_lines_leaves [of ck "console a" t "lt_at s" _ a "lt_at ?s"] in auto)
next
  case (sets_level s t a m level s' m')
  let ?s = "s\<lparr>lt_sys := s', lt_lock := (lt_lock s)(a := m')\<rparr>"
  have own: "owners_ok owner s" using sets_level(5) by (simp add: lines_inv_def)
  have o: "owners_ok owner ?s \<and> owner (lt_lock s a) = None \<and> owner (lt_lock ?s a) = None"
    by (rule owners_brief [OF own sets_level(1,2,4)]) simp_all
  show ?case
    by (rule lines_move [OF sets_level(5) conjunct1 [OF o], where a = a and t = t])
      (use o is_console_setters(1) [OF sets_level(3)] in auto)
next
  case (sets_formatter s t a m f s' m')
  let ?s = "s\<lparr>lt_sys := s', lt_lock := (lt_lock s)(a := m')\<rparr>"
  have own: "owners_ok owner s" using sets_formatter(5) by (simp add: lines_inv_def)
  have o: "owners_ok owner ?s \<and> owner (lt_lock s a) = None \<and> owner (lt_lock ?s a) = None"
    by (rule owners_brief [OF own sets_formatter(1,2,4)]) simp_all
  show ?case
    by (rule lines_move [OF sets_formatter(5) conjunct1 [OF o], where a = a and t = t])
      (use o is_console_setters(2) [OF sets_formatter(3)] in auto)
qed

lemma lines_run:
  assumes "log_trun api ck env s0 es s" and "log_first api s0"
  shows "lines_inv owner ck (is_console (lt_sys s0)) es s"
  using assms(1)
proof (induction rule: log_trun.induct)
  case log_tstart
  have "owner (lt_lock s0 a) = None" for a
    using assms(2) init_ok [of "lt_lock s0 a"]
    by (auto simp: log_first_def SpinLock_new_def check_rc_def split: prod.splits if_splits)
  then show ?case using assms(2) by (simp add: lines_inv_def owners_ok_def log_first_def in_lines_none exI [of _ "[]"])
next
  case (log_tmore es s es' s')
  show ?case by (rule lines_step [OF log_tmore(2,3)])
qed

end

section \<open>What the files get\<close>

text \<open>The file of an appender, and the text that was written through it.\<close>

definition file_of :: "logsys \<Rightarrow> addr \<Rightarrow> string option" where
  "file_of s a =
     (case ls_appenders s a of
        None \<Rightarrow> None
      | Some x \<Rightarrow> (case ap_sink x of Stdout_sink \<Rightarrow> None | File_sink fn os t \<Rightarrow> Some fn))"

fun put_text :: "log_action \<Rightarrow> string" where
  "put_text (Puts w) = w"
| "put_text (Begins c f) = []"

definition out_text :: "(tid \<times> log_action) list \<Rightarrow> string" where
  "out_text tr = concat (map (put_text \<circ> snd) tr)"

definition all_ready :: "logsys \<Rightarrow> bool" where
  "all_ready s \<longleftrightarrow> (\<forall>a x. ls_appenders s a = Some x \<longrightarrow> sink_ready (ap_sink x))"

text \<open>No two appenders have the same file.\<close>

definition own_files :: "logsys \<Rightarrow> bool" where
  "own_files s \<longleftrightarrow> (\<forall>a b. file_of s a \<noteq> None \<and> file_of s a = file_of s b \<longrightarrow> a = b)"

definition files_inv :: "logsys \<Rightarrow> (tid \<times> addr \<times> log_action) list \<Rightarrow> logsys \<Rightarrow> bool" where
  "files_inv s0 es s \<longleftrightarrow> all_ready s \<and> file_of s = file_of s0 \<and>
     (\<forall>a fn. file_of s0 a = Some fn \<longrightarrow> ls_files s fn = ls_files s0 fn @ out_text (outs_of a es)) \<and>
     ls_stdout s = ls_stdout s0 @ concat (map (\<lambda>(t, a, e). if is_console s0 a then put_text e else []) es)"

lemma out_text_simps [simp]:
  "out_text [] = []" "out_text (tr @ tr') = out_text tr @ out_text tr'" "out_text [(t, e)] = put_text e"
  by (simp_all add: out_text_def)

lemma out_text_puts [simp]: "out_text (map (\<lambda>w. (t, Puts w)) ws) = concat ws"
  by (simp add: out_text_def comp_def)

text \<open>A change of one appender that leaves its file and its readiness alone.\<close>

lemma files_inv_update:
  assumes "files_inv s0 es s" and "ls_appenders s a = Some x" and "ls_appenders s' = (ls_appenders s)(a \<mapsto> y)"
    and "ls_files s' = ls_files s" and "ls_stdout s' = ls_stdout s" and "sink_ready (ap_sink y)"
    and "\<And>fn os t. ap_sink x = File_sink fn os t \<Longrightarrow> \<exists>os' t'. ap_sink y = File_sink fn os' t'"
    and "ap_sink x = Stdout_sink \<Longrightarrow> ap_sink y = Stdout_sink"
  shows "files_inv s0 es s'"
proof -
  have "file_of s' = file_of s"
    using assms(2,3,7,8) by (cases "ap_sink x") (auto simp: fun_eq_iff file_of_def)
  moreover have "all_ready s'" using assms(1,3,6) by (auto simp: files_inv_def all_ready_def)
  ultimately show ?thesis using assms(1,4,5) by (simp add: files_inv_def)
qed

lemma files_reopen:
  assumes "files_inv s0 es s" and "disk_ok env"
  shows "files_inv s0 es (log_reopen env a s)"
proof (cases "\<exists>x fn os t. ls_appenders s a = Some x \<and> ap_sink x = File_sink fn os t")
  case True
  then obtain x fn os t where x: "ls_appenders s a = Some x" "ap_sink x = File_sink fn os t" by blast
  then have "stream_ready fn os" using assms(1) by (force simp: files_inv_def all_ready_def)
  then have "stream_ready fn (fst (reopen env fn os))"
    using reopen_ready [of env fn os] assms(2) by (simp add: disk_ok_def)
  then show ?thesis
    using x by (intro files_inv_update [OF assms(1) x(1)]) (auto simp: log_reopen_def)
next
  case False
  then have "log_reopen env a s = s" by (auto simp: log_reopen_def split: option.split sink.split)
  then show ?thesis using assms(1) by simp
qed

lemma files_stamp:
  assumes "files_inv s0 es s"
  shows "files_inv s0 es (log_stamp a c s)"
proof (cases "\<exists>x fn os t. ls_appenders s a = Some x \<and> ap_sink x = File_sink fn os t")
  case True
  then obtain x fn os t where x: "ls_appenders s a = Some x" "ap_sink x = File_sink fn os t" by blast
  then have r: "stream_ready fn os" using assms(1) by (force simp: files_inv_def all_ready_def)
  obtain name level e where c: "c = (name, level, e)" by (cases c)
  show ?thesis
    by (rule files_inv_update [OF assms x(1), where y = "x\<lparr>ap_sink := File_sink fn os (ev_time e)\<rparr>"])
      (use x r c in \<open>auto simp: log_stamp_def\<close>)
next
  case False
  then have "log_stamp a c s = s" by (auto simp: log_stamp_def split: option.split sink.split prod.split)
  then show ?thesis using assms by simp
qed

lemma files_report: "files_inv s0 es s \<Longrightarrow> files_inv s0 es (log_report a s)"
  by (auto simp: files_inv_def all_ready_def log_report_def stream_ready_def dest!: spec
      split: option.split sink.split)

lemma files_setters:
  assumes "files_inv s0 es s"
  shows "LogAppender_setLevel a level s = Inr s' \<Longrightarrow> files_inv s0 es s'"
    and "LogAppender_setFormatter a f s = Inr s' \<Longrightarrow> files_inv s0 es s'"
proof -
  have ready: "sink_ready (ap_sink x)" if "ls_appenders s a = Some x" for x
    using assms that by (auto simp: files_inv_def all_ready_def)
  show "LogAppender_setLevel a level s = Inr s' \<Longrightarrow> files_inv s0 es s'"
    by (auto simp: LogAppender_setLevel_def with_appender_def ready split: option.splits
        intro!: files_inv_update [OF assms])
  show "LogAppender_setFormatter a f s = Inr s' \<Longrightarrow> files_inv s0 es s'"
    by (auto simp: LogAppender_setFormatter_def with_appender_def ready split: option.splits
        intro!: files_inv_update [OF assms])
qed

lemma ready_write:
  "stream_ready fn os \<Longrightarrow> can_write env fn \<Longrightarrow> ofstream_write env w (os, fs) = (os, fs(fn := fs fn @ w))"
  by (auto simp: ofstream_write_def stream_ready_def)

lemma files_put:
  assumes "files_inv s0 es s" and "disk_ok env" and "own_files s0" and "is_console s = is_console s0"
  shows "files_inv s0 (es @ [(t, a, Puts w)]) (log_put env a w s)"
proof (cases "ls_appenders s a")
  case None
  then have "file_of s0 a = None" "\<not> is_console s0 a"
    using assms(1,4) by (auto simp: is_console_def file_of_def files_inv_def fun_eq_iff dest!: spec [of _ a])
  then show ?thesis using None assms(1) by (auto simp: files_inv_def log_put_def)
next
  case x: (Some x)
  show ?thesis
  proof (cases "ap_sink x")
    case Stdout_sink
    then have "is_console s0 a" "file_of s0 a = None"
      using x assms(1,4) by (auto simp: is_console_def file_of_def files_inv_def fun_eq_iff dest!: spec [of _ a])
    then show ?thesis
      using x Stdout_sink assms(1) by (auto simp: files_inv_def log_put_def all_ready_def file_of_def fun_eq_iff)
  next
    case (File_sink fn os t')
    have r: "stream_ready fn os" using x File_sink assms(1) by (force simp: files_inv_def all_ready_def)
    have id: "(ls_appenders s)(a \<mapsto> x\<lparr>ap_sink := File_sink fn os t'\<rparr>) = ls_appenders s"
      using x File_sink by (intro fun_upd_idem) simp
    have put: "log_put env a w s = s\<lparr>ls_files := (ls_files s)(fn := ls_files s fn @ w)\<rparr>"
      using x File_sink ready_write [OF r, of env w] assms(2) id
      by (simp add: log_put_def disk_ok_def del: fun_upd_apply)
    have here: "file_of s0 a = Some fn" "\<not> is_console s0 a"
      using x File_sink assms(1,4) by (auto simp: is_console_def file_of_def files_inv_def fun_eq_iff dest!: spec [of _ a])
    have "file_of s0 b \<noteq> Some fn" if "b \<noteq> a" for b
      using here(1) assms(3) that unfolding own_files_def by (metis option.distinct(1))
    then show ?thesis
      unfolding put using here assms(1) by (auto simp: files_inv_def all_ready_def file_of_def fun_eq_iff)
  qed
qed

lemma files_begins: "files_inv s0 es s \<Longrightarrow> files_inv s0 (es @ [(t, a, Begins c f)]) s"
  by (auto simp: files_inv_def)

context pthread_mutex
begin

lemma files_step:
  assumes "log_tstep api ck env s es' s'" and "files_inv s0 es (lt_sys s)" and "disk_ok env" and "own_files s0"
    and "is_console (lt_sys s) = is_console s0"
  shows "files_inv s0 (es @ es') (lt_sys s')"
  using assms
  by (induction rule: log_tstep.induct)
    (auto intro: files_reopen files_stamp files_put files_report files_begins files_setters)

lemma files_run:
  assumes "log_trun api ck env s0 es s" and "log_first api s0" and "disk_ok env"
    and "all_ready (lt_sys s0)" and "own_files (lt_sys s0)"
  shows "files_inv (lt_sys s0) es (lt_sys s)"
  using assms(1)
proof (induction rule: log_trun.induct)
  case log_tstart
  then show ?case using assms(4) by (simp add: files_inv_def)
next
  case (log_tmore es s es' s')
  have "is_console (lt_sys s) = is_console (lt_sys s0)"
    using lines_run [OF log_tmore(1) assms(2)] by (simp add: lines_inv_def)
  then show ?case by (rule files_step [OF log_tmore(2,3) assms(3,5)])
qed

end

text \<open>The text of a call, whole or in part.\<close>

definition call_text :: "'tm clock \<Rightarrow> log_call \<times> LogFormatter \<Rightarrow> string" where
  "call_text ck cf = (case cf of ((name, level, e), f) \<Rightarrow> formatter_string ck f name level e)"

fun begun_calls :: "(tid \<times> log_action) list \<Rightarrow> (log_call \<times> LogFormatter) list" where
  "begun_calls [] = []"
| "begun_calls ((t, Begins c f) # tr) = (c, f) # begun_calls tr"
| "begun_calls ((t, Puts w) # tr) = begun_calls tr"

lemma begun_calls_append [simp]: "begun_calls (tr @ tr') = begun_calls tr @ begun_calls tr'"
  by (induction tr rule: begun_calls.induct) simp_all

lemma begun_calls_puts [simp]: "begun_calls (map (\<lambda>w. (t, Puts w)) ws) = []"
  by (induction ws) simp_all

lemma file_texts: "concat (log_texts ck False c f) = call_text ck (c, f)"
  by (simp add: log_texts_def call_text_def formatter_string_def formatter_format_concat split: prod.split)

lemma part_line_text:
  assumes "part_line ck False t left g"
  shows "\<exists>c f wrote. begun_calls g = [(c, f)] \<and> out_text g = concat wrote \<and> wrote @ left = log_texts ck False c f"
proof -
  obtain c f wrote where "wrote @ left = log_texts ck False c f" "g = [(t, Begins c f)] @ map (\<lambda>w. (t, Puts w)) wrote"
    using assms by (auto simp: part_line_def)
  then show ?thesis by (auto simp del: append_Cons)
qed

lemma whole_lines_text:
  "\<forall>g \<in> set gs. whole_line ck False g \<Longrightarrow>
   out_text (concat gs) = concat (map (call_text ck) (begun_calls (concat gs)))"
proof (induction gs)
  case (Cons g gs)
  obtain t where "part_line ck False t [] g" using Cons.prems by (auto simp: whole_line_def)
  then obtain c f wrote where "begun_calls g = [(c, f)]" "out_text g = concat wrote" "wrote = log_texts ck False c f"
    using part_line_text [of ck t "[]" g] by (metis append_Nil2)
  then show ?case using Cons by (simp add: file_texts)
qed simp

end
