(* ===== verification/LogThreadsProps.thy ===== *)
theory LogThreadsProps
  imports LogThreads
begin

text \<open>
  What follows for threads that log: the lines of a file are whole, whatever the interleaving, and
  those of the console need not be.
\<close>

section \<open>One call, piece by piece\<close>

lemma log_trun_trans: "log_trun api ck env s es s' \<Longrightarrow> log_trun api ck env s' es' s'' \<Longrightarrow> log_trun api ck env s (es @ es') s''"
proof (rotate_tac, induction rule: log_trun.induct)
  case log_tstart
  then show ?case by simp
next
  case (log_tmore es1 s1 es2 s2)
  from log_trun.log_tmore [OF log_tmore(3) [OF log_tmore(4)] log_tmore(2)] show ?case by simp
qed

lemma log_trun_one: "log_tstep api ck env s es s' \<Longrightarrow> log_trun api ck env s es s'"
  using log_trun.log_tmore [OF log_trun.log_tstart] by fastforce

text \<open>A thread that finds the lock of a console appender free writes the text, and then the newline.\<close>

lemma console_first_half:
  assumes "lt_at s t = Out" and "lt_lock s a = None" and x: "ls_appenders (lt_sys s) a = Some x"
    and "ap_sink x = Stdout_sink" and "ap_formatter x = Some f" and "log_passes a c (lt_sys s)"
  shows "log_trun posix_mutex ck env s [(t, a, Begins c f), (t, a, Puts (call_text ck (c, f)))]
    \<lparr>lt_sys = (lt_sys s)\<lparr>ls_stdout := ls_stdout (lt_sys s) @ call_text ck (c, f)\<rparr>,
     lt_lock = (lt_lock s)(a := Some t), lt_at = (lt_at s)(t := Writes a [newline])\<rparr>"
proof -
  have con: "is_console (lt_sys s) a" using x assms(4) by (simp add: is_console_def)
  have texts: "log_texts ck True c f = [call_text ck (c, f), newline]"
    by (simp add: log_texts_def call_text_def split: prod.split)
  let ?s1 = "s\<lparr>lt_at := (lt_at s)(t := Wants a c)\<rparr>"
  let ?s2 = "?s1\<lparr>lt_lock := (lt_lock s)(a := Some t), lt_at := (lt_at s)(t := Writes a [call_text ck (c, f), newline])\<rparr>"
  have r1: "log_trun posix_mutex ck env s [] ?s1"
    using log_trun_one [OF log_tstep.calls [OF assms(1,6)]] con by simp
  have r2: "log_trun posix_mutex ck env ?s1 [(t, a, Begins c f)] ?s2"
    using log_trun_one [OF log_tstep.starts_line [of ?s1 t a c posix_mutex "Some t" x f ck env]]
      assms(2,5) x con texts by (simp add: posix_spin)
  have "log_put env a (call_text ck (c, f)) (lt_sys s) =
      (lt_sys s)\<lparr>ls_stdout := ls_stdout (lt_sys s) @ call_text ck (c, f)\<rparr>"
    using x assms(4) by (simp add: log_put_def)
  then have r3: "log_trun posix_mutex ck env ?s2 [(t, a, Puts (call_text ck (c, f)))]
      \<lparr>lt_sys = (lt_sys s)\<lparr>ls_stdout := ls_stdout (lt_sys s) @ call_text ck (c, f)\<rparr>,
       lt_lock = (lt_lock s)(a := Some t), lt_at = (lt_at s)(t := Writes a [newline])\<rparr>"
    using log_trun_one [OF log_tstep.puts [of ?s2 t a "call_text ck (c, f)" "[newline]" posix_mutex ck env]]
    by (cases s) simp
  from log_trun_trans [OF r1 log_trun_trans [OF r2 r3]] show ?thesis by simp
qed

lemma console_second_half:
  assumes "lt_at s t = Writes a [newline]" and "lt_lock s a = Some t"
    and x: "ls_appenders (lt_sys s) a = Some x" "ap_sink x = Stdout_sink"
  shows "log_trun posix_mutex ck env s [(t, a, Puts newline)]
    \<lparr>lt_sys = (lt_sys s)\<lparr>ls_stdout := ls_stdout (lt_sys s) @ newline\<rparr>,
     lt_lock = (lt_lock s)(a := None), lt_at = (lt_at s)(t := Out)\<rparr>"
proof -
  let ?sys = "(lt_sys s)\<lparr>ls_stdout := ls_stdout (lt_sys s) @ newline\<rparr>"
  let ?s1 = "s\<lparr>lt_sys := ?sys, lt_at := (lt_at s)(t := Writes a [])\<rparr>"
  have r1: "log_trun posix_mutex ck env s [(t, a, Puts newline)] ?s1"
    using log_trun_one [OF log_tstep.puts [OF assms(1), of posix_mutex ck env]] x by (simp add: log_put_def)
  have r2: "log_trun posix_mutex ck env ?s1 []
      \<lparr>lt_sys = ?sys, lt_lock = (lt_lock s)(a := None), lt_at = (lt_at s)(t := Out)\<rparr>"
    using log_trun_one [OF log_tstep.leaves_log [of ?s1 t a posix_mutex None ck env]] x assms(2)
    by (simp add: posix_spin log_report_def)
  from log_trun_trans [OF r1 r2] show ?thesis by simp
qed

section \<open>Properties\<close>

text \<open>
  C30. Lines are not torn: in every interleaving of threads that log through appenders and change
  their levels and formatters, under the documented behaviour of the spin lock, with working streams
  and no file shared by two appenders, the file of an appender has what it had at first, then the
  whole texts of the calls that were made through the appender, one after the other in the order in
  which they took its lock, and after these at most the beginning of the text of one more call, whose
  thread holds the lock.
\<close>

theorem lines_stay_whole:
  assumes "pthread_mutex api owner" and "log_first api s0" and "disk_ok env"
    and "all_ready (lt_sys s0)" and "own_files (lt_sys s0)"
    and "log_trun api ck env s0 es s" and "file_of (lt_sys s0) a = Some fn"
  shows "\<exists>whole part. begun_calls (outs_of a es) = whole @ part \<and>
    (case part of
       [] \<Rightarrow> ls_files (lt_sys s) fn = ls_files (lt_sys s0) fn @ concat (map (call_text ck) whole)
     | [cf] \<Rightarrow> \<exists>t txts written. lt_at s t = Writes a txts \<and> owner (lt_lock s a) = Some t \<and>
         written @ concat txts = call_text ck cf \<and>
         ls_files (lt_sys s) fn = ls_files (lt_sys s0) fn @ concat (map (call_text ck) whole) @ written
     | _ \<Rightarrow> False)"
proof -
  have "\<not> is_console (lt_sys s0) a"
    using assms(7) by (auto simp: is_console_def file_of_def split: option.splits)
  then have inl: "in_lines ck False (owner (lt_lock s a)) (lt_at s) (outs_of a es)"
    using pthread_mutex.lines_run [OF assms(1,6,2)] by (metis lines_inv_def)
  have fs: "ls_files (lt_sys s) fn = ls_files (lt_sys s0) fn @ out_text (outs_of a es)"
    using pthread_mutex.files_run [OF assms(1,6,2-5)] assms(7) by (simp add: files_inv_def)
  obtain gs r where g: "outs_of a es = concat gs @ r" "\<forall>g \<in> set gs. whole_line ck False g"
      "case owner (lt_lock s a) of None \<Rightarrow> r = [] | Some t \<Rightarrow> begun_line ck False t (lt_at s t) r"
    using inl by (auto simp: in_lines_def)
  have own: "owners_ok owner s" using pthread_mutex.lines_run [OF assms(1,6,2)] by (simp add: lines_inv_def)
  show ?thesis
  proof (cases "r = []")
    case True
    then show ?thesis
      using g fs whole_lines_text [OF g(2)] by (intro exI [of _ "begun_calls (concat gs)"] exI [of _ "[]"]) simp
  next
    case False
    then obtain t where t: "owner (lt_lock s a) = Some t" "begun_line ck False t (lt_at s t) r"
      using g(3) by (auto split: option.splits)
    then obtain txts where pc: "lt_at s t = Writes a txts" "part_line ck False t txts r"
      using own False by (cases "lt_at s t") (auto simp: owners_ok_def)
    obtain c f wrote where l: "begun_calls r = [(c, f)]" "out_text r = concat wrote"
        "wrote @ txts = log_texts ck False c f"
      using part_line_text [OF pc(2)] by blast
    have "concat wrote @ concat txts = call_text ck (c, f)" using l(3) file_texts by (metis concat_append)
    then show ?thesis
      using g(1) fs whole_lines_text [OF g(2)] t(1) pc(1) l(1,2)
      by (intro exI [of _ "begun_calls (concat gs)"] exI [of _ "[(c, f)]"]) auto
  qed
qed

definition one_file :: "tid option log_shared" where
  "one_file =
     \<lparr>lt_sys = (logsys_empty (\<lambda>f. ''old''))\<lparr>ls_appenders :=
        [0 \<mapsto> \<lparr>ap_level = DEBUG, ap_formatter = Some plain_formatter,
            ap_sink = File_sink ''a.log'' \<lparr>os_file = Some ''a.log'', os_fail = False\<rparr> 100\<rparr>]\<rparr>,
      lt_lock = (\<lambda>a. None), lt_at = (\<lambda>t. Out)\<rparr>"

theorem lines_stay_whole_witness:
  "\<exists>s. log_trun posix_mutex some_clock good_disk one_file
      [(1, 0, Begins (''root'', INFO, some_event) plain_formatter), (1, 0, Puts ''x'')] s \<and>
    ls_files (lt_sys s) ''a.log'' = ''oldx''"
proof -
  let ?c = "(''root'', INFO, some_event)" and ?es = "[(1, 0, Begins (''root'', INFO, some_event) plain_formatter), (1, 0, Puts ''x'')]"
  let ?x = "\<lparr>ap_level = DEBUG, ap_formatter = Some plain_formatter,
      ap_sink = File_sink ''a.log'' \<lparr>os_file = Some ''a.log'', os_fail = False\<rparr> 100\<rparr>"
  have sys: "ls_appenders (lt_sys one_file) 0 = Some ?x" "lt_lock one_file = (\<lambda>a. None)" "lt_at one_file = (\<lambda>t. Out)"
      "\<not> is_console (lt_sys one_file) 0" "log_passes 0 ?c (lt_sys one_file)" "\<not> log_due 0 ?c (lt_sys one_file)"
    by (simp_all add: one_file_def is_console_def log_passes_def log_due_def less_eq_LogLevel_def logsys_empty_def
        some_event_def ss_write_def new_LogEvent_def)
  let ?s1 = "one_file\<lparr>lt_at := (\<lambda>t. Out)(1 := Tests 0 ?c)\<rparr>"
  have r1: "log_trun posix_mutex some_clock good_disk one_file [] ?s1"
    using log_trun_one [OF log_tstep.calls [of one_file 1 0 ?c posix_mutex some_clock good_disk]] sys by simp
  let ?s2 = "one_file\<lparr>lt_at := (\<lambda>t. Out)(1 := Wants 0 ?c)\<rparr>"
  have r2: "log_trun posix_mutex some_clock good_disk ?s1 [] ?s2"
    using log_trun_one [OF log_tstep.tests [of ?s1 1 0 ?c posix_mutex some_clock good_disk]] sys by simp
  let ?s3 = "one_file\<lparr>lt_lock := (\<lambda>a. None)(0 := Some 1), lt_at := (\<lambda>t. Out)(1 := Writes 0 [''x''])\<rparr>"
  have "log_texts some_clock False ?c plain_formatter = [''x'']" by (simp add: log_texts_def plain_formatter_def)
  then have r3: "log_trun posix_mutex some_clock good_disk ?s2 [(1, 0, Begins ?c plain_formatter)] ?s3"
    using log_trun_one [OF log_tstep.starts_line [of ?s2 1 0 ?c posix_mutex "Some 1" ?x plain_formatter some_clock good_disk]] sys
    by (simp add: posix_spin)
  let ?s4 = "?s3\<lparr>lt_sys := log_put good_disk 0 ''x'' (lt_sys one_file), lt_at := (\<lambda>t. Out)(1 := Writes 0 [])\<rparr>"
  have r4: "log_trun posix_mutex some_clock good_disk ?s3 [(1, 0, Puts ''x'')] ?s4"
    using log_trun_one [OF log_tstep.puts [of ?s3 1 0 "''x''" "[]" posix_mutex some_clock good_disk]] by simp
  let ?s5 = "\<lparr>lt_sys = log_report 0 (lt_sys ?s4), lt_lock = (lt_lock ?s4)(0 := None), lt_at = (\<lambda>t. Out)(1 := Out)\<rparr>"
  have r5: "log_trun posix_mutex some_clock good_disk ?s4 [] ?s5"
    using log_trun_one [OF log_tstep.leaves_log [of ?s4 1 0 posix_mutex None some_clock good_disk]] by (simp add: posix_spin)
  have run: "log_trun posix_mutex some_clock good_disk one_file ?es ?s5"
    using log_trun_trans [OF r1 log_trun_trans [OF r2 log_trun_trans [OF r3 log_trun_trans [OF r4 r5]]]] by simp
  have first: "log_first posix_mutex one_file"
    by (simp add: log_first_def sys SpinLock_new_def posix_mutex_def check_rc_def)
  have good: "disk_ok good_disk" "all_ready (lt_sys one_file)" "own_files (lt_sys one_file)"
      "file_of (lt_sys one_file) 0 = Some ''a.log''" "ls_files (lt_sys one_file) ''a.log'' = ''old''"
    by (auto simp: disk_ok_def good_disk_def all_ready_def own_files_def file_of_def one_file_def logsys_empty_def
        stream_ready_def split: if_splits option.splits)
  have calls: "begun_calls (outs_of 0 ?es) = [(?c, plain_formatter)]" by (simp add: outs_of_def)
  have "call_text some_clock (?c, plain_formatter) = ''x''"
    by (simp add: call_text_def formatter_string_def plain_formatter_def)
  moreover have at: "lt_at ?s5 t \<noteq> Writes 0 txts" for t txts by simp
  obtain whole part where p: "begun_calls (outs_of 0 ?es) = whole @ part"
      "case part of
         [] \<Rightarrow> ls_files (lt_sys ?s5) ''a.log'' = ls_files (lt_sys one_file) ''a.log'' @ concat (map (call_text some_clock) whole)
       | [cf] \<Rightarrow> \<exists>t txts written. lt_at ?s5 t = Writes 0 txts \<and> lt_lock ?s5 0 = Some t \<and>
           written @ concat txts = call_text some_clock cf \<and>
           ls_files (lt_sys ?s5) ''a.log'' = ls_files (lt_sys one_file) ''a.log'' @ concat (map (call_text some_clock) whole) @ written
       | _ \<Rightarrow> False"
    using lines_stay_whole [OF posix_mx.pthread_mutex_axioms first good(1-3) run good(4)] by blast
  have "part = []" using p(2) at by (cases part) (auto split: list.splits)
  ultimately have "ls_files (lt_sys ?s5) ''a.log'' = ''oldx''" using p calls good(5) by simp
  with run show ?thesis by blast
qed

text \<open>
  C33. Lines of the console can be mixed: every \<open>StdoutLogAppender\<close> has a lock of its own, but all
  of them write to \<open>std::cout\<close>. Two threads that log through two of them can leave both texts on one
  line and an empty line after it.
\<close>

theorem console_lines_mix:
  fixes s0 :: "tid option log_shared" and t u :: tid
  assumes "log_first posix_mutex s0" and "t \<noteq> u" and "a \<noteq> b"
    and "ls_appenders (lt_sys s0) a = Some x" and "ap_sink x = Stdout_sink" and "ap_formatter x = Some f"
    and "ls_appenders (lt_sys s0) b = Some y" and "ap_sink y = Stdout_sink" and "ap_formatter y = Some g"
    and "log_passes a c (lt_sys s0)" and "log_passes b d (lt_sys s0)"
  shows "\<exists>es s. log_trun posix_mutex ck env s0 es s \<and> lt_at s = (\<lambda>_. Out) \<and>
    ls_stdout (lt_sys s) =
      ls_stdout (lt_sys s0) @ call_text ck (c, f) @ call_text ck (d, g) @ newline @ newline"
proof -
  have first: "lt_at s0 = (\<lambda>_. Out)" "lt_lock s0 e = None" for e
    using assms(1) by (auto simp: log_first_def SpinLock_new_def posix_mutex_def check_rc_def)
  let ?s1 = "\<lparr>lt_sys = (lt_sys s0)\<lparr>ls_stdout := ls_stdout (lt_sys s0) @ call_text ck (c, f)\<rparr>,
     lt_lock = (lt_lock s0)(a := Some t), lt_at = (lt_at s0)(t := Writes a [newline])\<rparr>"
  have s1: "log_trun posix_mutex ck env s0 [(t, a, Begins c f), (t, a, Puts (call_text ck (c, f)))] ?s1"
    by (rule console_first_half) (use assms first in simp_all)
  let ?s2 = "\<lparr>lt_sys = (lt_sys ?s1)\<lparr>ls_stdout := ls_stdout (lt_sys ?s1) @ call_text ck (d, g)\<rparr>,
     lt_lock = (lt_lock ?s1)(b := Some u), lt_at = (lt_at ?s1)(u := Writes b [newline])\<rparr>"
  have s2: "log_trun posix_mutex ck env ?s1 [(u, b, Begins d g), (u, b, Puts (call_text ck (d, g)))] ?s2"
    by (rule console_first_half) (use assms first in \<open>simp_all add: log_passes_def\<close>)
  let ?s3 = "\<lparr>lt_sys = (lt_sys ?s2)\<lparr>ls_stdout := ls_stdout (lt_sys ?s2) @ newline\<rparr>,
     lt_lock = (lt_lock ?s2)(a := None), lt_at = (lt_at ?s2)(t := Out)\<rparr>"
  have s3: "log_trun posix_mutex ck env ?s2 [(t, a, Puts newline)] ?s3"
    by (rule console_second_half) (use assms in simp_all)
  let ?s4 = "\<lparr>lt_sys = (lt_sys ?s3)\<lparr>ls_stdout := ls_stdout (lt_sys ?s3) @ newline\<rparr>,
     lt_lock = (lt_lock ?s3)(b := None), lt_at = (lt_at ?s3)(u := Out)\<rparr>"
  have s4: "log_trun posix_mutex ck env ?s3 [(u, b, Puts newline)] ?s4"
    by (rule console_second_half [where x = y]) (use assms in simp_all)
  have "lt_at ?s4 = (\<lambda>_. Out)" using first by auto
  moreover have "ls_stdout (lt_sys ?s4) =
      ls_stdout (lt_sys s0) @ call_text ck (c, f) @ call_text ck (d, g) @ newline @ newline" by simp
  ultimately show ?thesis
    using log_trun_trans [OF s1 log_trun_trans [OF s2 log_trun_trans [OF s3 s4]]] by blast
qed

text \<open>A console, two appenders on it, and a file.\<close>

definition two_consoles :: "tid option log_shared" where
  "two_consoles =
     \<lparr>lt_sys = (logsys_empty (\<lambda>f. []))\<lparr>ls_appenders :=
        [0 \<mapsto> \<lparr>ap_level = DEBUG, ap_formatter = Some plain_formatter, ap_sink = Stdout_sink\<rparr>,
         1 \<mapsto> \<lparr>ap_level = DEBUG, ap_formatter = Some plain_formatter, ap_sink = Stdout_sink\<rparr>]\<rparr>,
      lt_lock = (\<lambda>a. None), lt_at = (\<lambda>t. Out)\<rparr>"

theorem console_lines_mix_witness:
  "\<exists>es s. log_trun posix_mutex some_clock good_disk two_consoles es s \<and> ls_stdout (lt_sys s) = ''xx'' @ newline @ newline"
proof -
  let ?c = "(''root'', INFO, some_event)" and ?x = "\<lparr>ap_level = DEBUG, ap_formatter = Some plain_formatter, ap_sink = Stdout_sink\<rparr>"
  have "log_first posix_mutex two_consoles"
    by (simp add: log_first_def two_consoles_def SpinLock_new_def posix_mutex_def check_rc_def)
  moreover have "ls_appenders (lt_sys two_consoles) 0 = Some ?x" "ls_appenders (lt_sys two_consoles) 1 = Some ?x"
      "log_passes 0 ?c (lt_sys two_consoles)" "log_passes 1 ?c (lt_sys two_consoles)"
      "ls_stdout (lt_sys two_consoles) = []"
    by (simp_all add: two_consoles_def log_passes_def less_eq_LogLevel_def logsys_empty_def)
  moreover have "call_text some_clock (?c, plain_formatter) = ''x''"
    by (simp add: call_text_def formatter_string_def plain_formatter_def)
  ultimately show ?thesis
    using console_lines_mix [of two_consoles 1 2 0 1 ?x plain_formatter ?x plain_formatter ?c ?c some_clock good_disk]
    by auto
qed

end
