(* ===== verification/LoggerThreads.thy ===== *)
theory LoggerThreads
  imports LogThreads
begin

text \<open>
  Loggers among several threads: \<open>Logger::log\<close> (\<open>src/_log/log.cpp\<close>) cut at its tests, which take
  no lock, at its \<open>SpinLock\<close>, and between two appenders, together with the members that change a
  logger under the lock, in every interleaving. A call of an appender is one step here; what happens
  inside it is the subject of \<open>LogThreads\<close>.
\<close>

section \<open>The steps\<close>

text \<open>The members that change a logger, and what they do to its list of appenders.\<close>

datatype logger_change = Adds addr | Deletes addr | Clears | Sets_level LogLevel | Sets_root "addr option"

fun change_logger :: "addr \<Rightarrow> logger_change \<Rightarrow> logsys \<Rightarrow> logsys outcome" where
  "change_logger a (Adds p) s = Logger_addAppender a p s"
| "change_logger a (Deletes p) s = Logger_delAppender a p s"
| "change_logger a Clears s = Logger_clearAppenders a s"
| "change_logger a (Sets_level level) s = Logger_setLevel a level s"
| "change_logger a (Sets_root r) s = Logger_setRoot a r s"

fun changed :: "logger_change \<Rightarrow> addr list \<Rightarrow> addr list" where
  "changed (Adds p) ps = ps @ [p]"
| "changed (Deletes p) ps = erase_first p ps"
| "changed Clears ps = []"
| "changed ch ps = ps"

text \<open>
  Where a thread is in its call of \<open>log\<close>: at its beginning, it has found that the level passes, that there are no
  appenders and looks for the root, or that there are some and goes for the lock, or it holds the lock and has
  given the event to the first \<open>n\<close>.
\<close>

datatype logger_pc =
    Idles
  | Calls addr LogLevel LogEvent
  | Passed addr LogLevel LogEvent
  | Bare addr LogLevel LogEvent
  | Queues addr LogLevel LogEvent
  | Gives addr LogLevel LogEvent nat

text \<open>What is done under the lock: a call takes it and sees these appenders, gives the event to one, or a change.\<close>

datatype logger_action = Took "addr list" | Gave addr | Changed logger_change

record 'm logger_shared =
  gs_sys :: logsys
  gs_lock :: "addr \<Rightarrow> 'm"
  gs_at :: "tid \<Rightarrow> logger_pc"

definition logger_passes :: "addr \<Rightarrow> LogLevel \<Rightarrow> logsys \<Rightarrow> bool" where
  "logger_passes a level s = (case ls_loggers s a of None \<Rightarrow> False | Some lg \<Rightarrow> lg_level lg \<le> level)"

definition appenders_of :: "addr \<Rightarrow> logsys \<Rightarrow> addr list" where
  "appenders_of a s = (case ls_loggers s a of None \<Rightarrow> [] | Some lg \<Rightarrow> lg_appenders lg)"

inductive logger_step ::
  "'m mutex_api \<Rightarrow> 'tm clock \<Rightarrow> os_env \<Rightarrow> 'm logger_shared \<Rightarrow> (tid \<times> addr \<times> logger_action) list \<Rightarrow> 'm logger_shared \<Rightarrow> bool"
  for api :: "'m mutex_api" and ck :: "'tm clock" and env :: os_env where
  calls_log: "gs_at s t = Idles \<Longrightarrow> logger_step api ck env s [] (s\<lparr>gs_at := (gs_at s)(t := Calls a level e)\<rparr>)"
| level_asked: "gs_at s t = Calls a level e \<Longrightarrow> ls_loggers (gs_sys s) a \<noteq> None \<Longrightarrow>
     logger_step api ck env s []
       (s\<lparr>gs_at := (gs_at s)(t := if logger_passes a level (gs_sys s) then Passed a level e else Idles)\<rparr>)"
| finds_appenders: "gs_at s t = Passed a level e \<Longrightarrow> ls_loggers (gs_sys s) a = Some lg \<Longrightarrow> lg_appenders lg \<noteq> [] \<Longrightarrow>
     logger_step api ck env s [] (s\<lparr>gs_at := (gs_at s)(t := Queues a level e)\<rparr>)"
| finds_none: "gs_at s t = Passed a level e \<Longrightarrow> ls_loggers (gs_sys s) a = Some lg \<Longrightarrow> lg_appenders lg = [] \<Longrightarrow>
     logger_step api ck env s [] (s\<lparr>gs_at := (gs_at s)(t := Bare a level e)\<rparr>)"
| asks_root: "gs_at s t = Bare a level e \<Longrightarrow> ls_loggers (gs_sys s) a = Some lg \<Longrightarrow>
     logger_step api ck env s []
       (s\<lparr>gs_at := (gs_at s)(t := (case lg_root lg of None \<Rightarrow> Idles | Some r \<Rightarrow> Calls r level e))\<rparr>)"
| takes_lock: "gs_at s t = Queues a level e \<Longrightarrow> SpinLock_lock api t (gs_lock s a) = Some (Inr m) \<Longrightarrow>
     logger_step api ck env s [(t, a, Took (appenders_of a (gs_sys s)))]
       (s\<lparr>gs_lock := (gs_lock s)(a := m), gs_at := (gs_at s)(t := Gives a level e 0)\<rparr>)"
| gives: "gs_at s t = Gives a level e n \<Longrightarrow> ls_loggers (gs_sys s) a = Some lg \<Longrightarrow> n < length (lg_appenders lg) \<Longrightarrow>
     appender_log ck env (lg_name lg) level e (lg_appenders lg ! n) (gs_sys s) = Inr sys \<Longrightarrow>
     logger_step api ck env s [(t, a, Gave (lg_appenders lg ! n))]
       (s\<lparr>gs_sys := sys, gs_at := (gs_at s)(t := Gives a level e (Suc n))\<rparr>)"
| leaves_logger: "gs_at s t = Gives a level e n \<Longrightarrow> n = length (appenders_of a (gs_sys s)) \<Longrightarrow>
     SpinLock_unlock api t (gs_lock s a) = Inr m \<Longrightarrow>
     logger_step api ck env s [] (s\<lparr>gs_lock := (gs_lock s)(a := m), gs_at := (gs_at s)(t := Idles)\<rparr>)"
| changes: "gs_at s t = Idles \<Longrightarrow> SpinLock_lock api t (gs_lock s a) = Some (Inr m) \<Longrightarrow>
     change_logger a ch (gs_sys s) = Inr sys \<Longrightarrow> SpinLock_unlock api t m = Inr m' \<Longrightarrow>
     logger_step api ck env s [(t, a, Changed ch)] (s\<lparr>gs_sys := sys, gs_lock := (gs_lock s)(a := m')\<rparr>)"

inductive logger_run ::
  "'m mutex_api \<Rightarrow> 'tm clock \<Rightarrow> os_env \<Rightarrow> 'm logger_shared \<Rightarrow> (tid \<times> addr \<times> logger_action) list \<Rightarrow> 'm logger_shared \<Rightarrow> bool"
  for api :: "'m mutex_api" and ck :: "'tm clock" and env :: os_env and s0 :: "'m logger_shared" where
  logger_start: "logger_run api ck env s0 [] s0"
| logger_more: "logger_run api ck env s0 es s \<Longrightarrow> logger_step api ck env s es' s' \<Longrightarrow> logger_run api ck env s0 (es @ es') s'"

text \<open>At first no thread logs and the locks are new.\<close>

definition logger_first :: "'m mutex_api \<Rightarrow> 'm logger_shared \<Rightarrow> bool" where
  "logger_first api s \<longleftrightarrow> gs_at s = (\<lambda>t. Idles) \<and> (\<forall>a. SpinLock_new api = Inr (gs_lock s a))"

section \<open>The specification\<close>

text \<open>
  A logger as an object with two atomic operations: a call of \<open>log\<close> that gives the event to all the appenders
  there are, in their order, and a change of the list.
\<close>

datatype logger_op = Logs tid "addr list" | Changes tid logger_change

fun op_actions :: "logger_op \<Rightarrow> (tid \<times> logger_action) list" where
  "op_actions (Logs t ps) = (t, Took ps) # map (\<lambda>p. (t, Gave p)) ps"
| "op_actions (Changes t ch) = [(t, Changed ch)]"

fun atomic_run :: "addr list \<Rightarrow> logger_op list \<Rightarrow> addr list option" where
  "atomic_run ps [] = Some ps"
| "atomic_run ps (Logs t qs # ops) = (if qs = ps then atomic_run ps ops else None)"
| "atomic_run ps (Changes t ch # ops) = atomic_run (changed ch ps) ops"

lemma atomic_run_append: "atomic_run ps (ops @ ops') = (case atomic_run ps ops of None \<Rightarrow> None | Some qs \<Rightarrow> atomic_run qs ops')"
  by (induction ps ops rule: atomic_run.induct) simp_all

text \<open>What was done with the logger \<open>a\<close>.\<close>

definition acts_of :: "addr \<Rightarrow> (tid \<times> addr \<times> logger_action) list \<Rightarrow> (tid \<times> logger_action) list" where
  "acts_of a es = map (\<lambda>(t, b, e). (t, e)) (filter (\<lambda>(t, b, e). b = a) es)"

lemma acts_of_simps [simp]:
  "acts_of a [] = []" "acts_of a (es @ es') = acts_of a es @ acts_of a es'"
  "acts_of a [(t, b, e)] = (if b = a then [(t, e)] else [])"
  by (simp_all add: acts_of_def)

section \<open>The invariant\<close>

fun gives_for :: "logger_pc \<Rightarrow> addr \<Rightarrow> bool" where
  "gives_for (Gives b level e n) a = (b = a)"
| "gives_for pc a = False"

fun begun_call :: "addr list \<Rightarrow> tid \<Rightarrow> logger_pc \<Rightarrow> (tid \<times> logger_action) list \<Rightarrow> bool" where
  "begun_call ps t (Gives b level e n) r = (n \<le> length ps \<and> r = (t, Took ps) # map (\<lambda>p. (t, Gave p)) (take n ps))"
| "begun_call ps t pc r = (r = [])"

text \<open>The actions of a logger are whole operations, and a call that the owner of the lock has begun.\<close>

definition in_ops ::
  "addr list \<Rightarrow> addr list \<Rightarrow> tid option \<Rightarrow> (tid \<Rightarrow> logger_pc) \<Rightarrow> (tid \<times> logger_action) list \<Rightarrow> bool" where
  "in_ops ps0 ps own pcs tr \<longleftrightarrow> (\<exists>ops r. tr = concat (map op_actions ops) @ r \<and> atomic_run ps0 ops = Some ps \<and>
     (case own of None \<Rightarrow> r = [] | Some t \<Rightarrow> begun_call ps t (pcs t) r))"

definition takers_ok :: "('m \<Rightarrow> tid option) \<Rightarrow> 'm logger_shared \<Rightarrow> bool" where
  "takers_ok owner s \<longleftrightarrow> (\<forall>a t. owner (gs_lock s a) = Some t \<longleftrightarrow> gives_for (gs_at s t) a)"

definition logger_inv ::
  "('m \<Rightarrow> tid option) \<Rightarrow> logsys \<Rightarrow> (tid \<times> addr \<times> logger_action) list \<Rightarrow> 'm logger_shared \<Rightarrow> bool" where
  "logger_inv owner sys0 es s \<longleftrightarrow> takers_ok owner s \<and>
     (\<forall>a. in_ops (appenders_of a sys0) (appenders_of a (gs_sys s)) (owner (gs_lock s a)) (gs_at s) (acts_of a es))"

lemma in_ops_cong:
  "(\<And>t. own = Some t \<Longrightarrow> pcs' t = pcs t) \<Longrightarrow> in_ops ps0 ps own pcs' tr = in_ops ps0 ps own pcs tr"
  by (cases own) (simp_all add: in_ops_def)

lemma in_ops_none: "in_ops ps0 ps None pcs tr \<longleftrightarrow> (\<exists>ops. tr = concat (map op_actions ops) \<and> atomic_run ps0 ops = Some ps)"
  by (simp add: in_ops_def)

lemma in_ops_takes:
  "in_ops ps0 ps None pcs tr \<Longrightarrow> pcs' t = Gives a level e 0 \<Longrightarrow> in_ops ps0 ps (Some t) pcs' (tr @ [(t, Took ps)])"
  by (auto simp: in_ops_def)

lemma in_ops_gives:
  assumes "in_ops ps0 ps (Some t) pcs tr" and "pcs t = Gives a level e n" and "n < length ps" and "pcs' t = Gives a level e (Suc n)"
  shows "in_ops ps0 ps (Some t) pcs' (tr @ [(t, Gave (ps ! n))])"
  using assms by (auto simp: in_ops_def take_Suc_conv_app_nth)

lemma in_ops_leaves:
  assumes "in_ops ps0 ps (Some t) pcs tr" and "pcs t = Gives a level e (length ps)"
  shows "in_ops ps0 ps None pcs' tr"
proof -
  obtain ops where "tr = concat (map op_actions ops) @ op_actions (Logs t ps)" "atomic_run ps0 ops = Some ps"
    using assms by (auto simp: in_ops_def)
  then show ?thesis unfolding in_ops_none by (intro exI [of _ "ops @ [Logs t ps]"]) (simp add: atomic_run_append)
qed

lemma in_ops_changes:
  assumes "in_ops ps0 ps None pcs tr"
  shows "in_ops ps0 (changed ch ps) None pcs' (tr @ [(t, Changed ch)])"
proof -
  obtain ops where "tr = concat (map op_actions ops)" "atomic_run ps0 ops = Some ps" using assms by (auto simp: in_ops_none)
  then show ?thesis unfolding in_ops_none by (intro exI [of _ "ops @ [Changes t ch]"]) (simp add: atomic_run_append)
qed

text \<open>What the pieces do to the lists.\<close>

lemma appender_log_loggers: "appender_log ck env name level e p s = Inr s' \<Longrightarrow> ls_loggers s' = ls_loggers s"
  by (auto simp: appender_log_def stdout_log_def file_log_def cout_line_def Let_def split: option.splits sink.splits if_splits prod.splits)

lemma change_appenders:
  assumes "change_logger a ch s = Inr s'"
  shows "appenders_of b s' = (if b = a then changed ch (appenders_of a s) else appenders_of b s)"
  using assms
  by (cases ch) (auto simp: Logger_addAppender_def Logger_delAppender_def Logger_clearAppenders_def Logger_setLevel_def
      Logger_setRoot_def with_logger_def appenders_of_def split: option.splits)

text \<open>A step of the thread \<open>t\<close> at the logger \<open>a\<close>, and one outside the locks.\<close>

lemma ops_move:
  assumes inv: "logger_inv owner sys0 es s" and own: "takers_ok owner s'"
    and lists: "\<And>b. b \<noteq> a \<Longrightarrow> appenders_of b (gs_sys s') = appenders_of b (gs_sys s)"
    and locks: "\<And>b. b \<noteq> a \<Longrightarrow> gs_lock s' b = gs_lock s b" and at: "\<And>u. u \<noteq> t \<Longrightarrow> gs_at s' u = gs_at s u"
    and es: "\<forall>(u, b, e) \<in> set es'. b = a"
    and here: "in_ops (appenders_of a sys0) (appenders_of a (gs_sys s)) (owner (gs_lock s a)) (gs_at s) (acts_of a es) \<Longrightarrow>
      in_ops (appenders_of a sys0) (appenders_of a (gs_sys s')) (owner (gs_lock s' a)) (gs_at s') (acts_of a es @ acts_of a es')"
    and there: "\<And>b. b \<noteq> a \<Longrightarrow> gives_for (gs_at s t) b \<Longrightarrow> gs_at s' t = gs_at s t"
  shows "logger_inv owner sys0 (es @ es') s'"
proof -
  have "in_ops (appenders_of b sys0) (appenders_of b (gs_sys s')) (owner (gs_lock s' b)) (gs_at s') (acts_of b (es @ es'))" for b
  proof (cases "b = a")
    case True
    then show ?thesis using inv here by (simp add: logger_inv_def)
  next
    case False
    have "acts_of b es' = []" using es False by (auto simp: acts_of_def filter_empty_conv)
    moreover have "gs_at s' u = gs_at s u" if "owner (gs_lock s b) = Some u" for u
      using that inv at there [OF False] by (cases "u = t") (auto simp: logger_inv_def takers_ok_def)
    moreover have "in_ops (appenders_of b sys0) (appenders_of b (gs_sys s)) (owner (gs_lock s b)) (gs_at s) (acts_of b es)"
      using inv by (simp add: logger_inv_def)
    ultimately show ?thesis
      using locks [OF False] lists [OF False] by (simp add: in_ops_cong [of "owner (gs_lock s b)" "gs_at s'" "gs_at s"])
  qed
  then show ?thesis using own by (simp add: logger_inv_def)
qed

lemma takers_same:
  "takers_ok owner s \<Longrightarrow> gs_lock s' = gs_lock s \<Longrightarrow> gs_at s' = (gs_at s)(t := pc) \<Longrightarrow>
   gives_for pc = gives_for (gs_at s t) \<Longrightarrow> takers_ok owner s'"
  by (auto simp: takers_ok_def)

lemma ops_outside:
  assumes inv: "logger_inv owner sys0 es s" and "gives_for (gs_at s t) = (\<lambda>b. False)" and "gives_for pc = (\<lambda>b. False)"
    and "gs_sys s' = gs_sys s" and "gs_lock s' = gs_lock s" and "gs_at s' = (gs_at s)(t := pc)"
  shows "logger_inv owner sys0 es s'"
proof -
  have own: "takers_ok owner s" using inv by (simp add: logger_inv_def)
  have "in_ops ps0 ps (owner (gs_lock s a)) (gs_at s') tr = in_ops ps0 ps (owner (gs_lock s a)) (gs_at s) tr" for ps0 ps a tr
    using own assms(2,6) by (intro in_ops_cong) (auto simp: takers_ok_def)
  moreover have "takers_ok owner s'" using takers_same [OF own assms(5,6)] assms(2,3) by simp
  ultimately show ?thesis using inv assms(4,5) by (simp add: logger_inv_def)
qed

context pthread_mutex
begin

lemma takers_take:
  assumes "takers_ok owner s" and "\<And>b. \<not> gives_for (gs_at s t) b" and "\<And>b. gives_for pc b \<longleftrightarrow> b = a"
    and "SpinLock_lock api t (gs_lock s a) = Some (Inr m)"
    and "gs_lock s' = (gs_lock s)(a := m)" and "gs_at s' = (gs_at s)(t := pc)"
  shows "takers_ok owner s' \<and> owner (gs_lock s a) = None \<and> owner (gs_lock s' a) = Some t"
proof -
  have "owner (gs_lock s a) \<noteq> Some t" using assms(1,2) by (auto simp: takers_ok_def)
  then have o: "owner (gs_lock s a) = None" "owner m = Some t" using spin_got [OF assms(4)] by auto
  moreover have "\<not> gives_for (gs_at s u) a" for u using assms(1) o(1) by (metis option.simps(3) takers_ok_def)
  ultimately show ?thesis using assms by (auto simp: takers_ok_def)
qed

lemma takers_give:
  assumes "takers_ok owner s" and "\<And>b. gives_for (gs_at s t) b \<longleftrightarrow> b = a" and "\<And>b. \<not> gives_for pc b"
    and "SpinLock_unlock api t (gs_lock s a) = Inr m"
    and "gs_lock s' = (gs_lock s)(a := m)" and "gs_at s' = (gs_at s)(t := pc)"
  shows "takers_ok owner s' \<and> owner (gs_lock s a) = Some t \<and> owner (gs_lock s' a) = None"
proof -
  have t: "owner (gs_lock s a) = Some t" using assms(1,2) by (simp add: takers_ok_def)
  moreover have "gives_for (gs_at s u) a \<Longrightarrow> u = t" for u using assms(1) t by (metis option.inject takers_ok_def)
  ultimately show ?thesis using spin_freed [OF assms(4)] assms by (auto simp: takers_ok_def)
qed

lemma takers_brief:
  assumes "takers_ok owner s" and "gs_at s t = Idles" and "SpinLock_lock api t (gs_lock s a) = Some (Inr m)"
    and "SpinLock_unlock api t m = Inr m'" and "gs_lock s' = (gs_lock s)(a := m')" and "gs_at s' = gs_at s"
  shows "takers_ok owner s' \<and> owner (gs_lock s a) = None \<and> owner (gs_lock s' a) = None"
proof -
  have "owner (gs_lock s a) \<noteq> Some t" using assms(1,2) by (auto simp: takers_ok_def)
  then have o: "owner (gs_lock s a) = None" "owner m' = None" using spin_got [OF assms(3)] spin_freed [OF assms(4)] by auto
  moreover have "\<not> gives_for (gs_at s u) a" for u using assms(1) o(1) by (metis option.simps(3) takers_ok_def)
  ultimately show ?thesis using assms by (auto simp: takers_ok_def)
qed

lemma logger_inv_step:
  assumes "logger_step api ck env s es' s'" and "logger_inv owner sys0 es s"
  shows "logger_inv owner sys0 (es @ es') s'"
  using assms
proof (induction rule: logger_step.induct)
  case (calls_log s t a level e)
  show ?case unfolding append_Nil2
    by (rule ops_outside [OF calls_log(2), where t = t and pc = "Calls a level e"]) (use calls_log(1) in \<open>auto simp: fun_eq_iff\<close>)
next
  case (level_asked s t a level e)
  show ?case unfolding append_Nil2
    by (rule ops_outside [OF level_asked(3), where t = t and pc = "if logger_passes a level (gs_sys s) then Passed a level e else Idles"])
      (use level_asked(1) in \<open>auto simp: fun_eq_iff\<close>)
next
  case (finds_appenders s t a level e lg)
  show ?case unfolding append_Nil2
    by (rule ops_outside [OF finds_appenders(4), where t = t and pc = "Queues a level e"]) (use finds_appenders(1) in \<open>auto simp: fun_eq_iff\<close>)
next
  case (finds_none s t a level e lg)
  show ?case unfolding append_Nil2
    by (rule ops_outside [OF finds_none(4), where t = t and pc = "Bare a level e"]) (use finds_none(1) in \<open>auto simp: fun_eq_iff\<close>)
next
  case (asks_root s t a level e lg)
  show ?case unfolding append_Nil2
    by (rule ops_outside [OF asks_root(3), where t = t and pc = "case lg_root lg of None \<Rightarrow> Idles | Some r \<Rightarrow> Calls r level e"])
      (use asks_root(1) in \<open>auto simp: fun_eq_iff split: option.split\<close>)
next
  case (takes_lock s t a level e m)
  let ?s = "s\<lparr>gs_lock := (gs_lock s)(a := m), gs_at := (gs_at s)(t := Gives a level e 0)\<rparr>"
  have own: "takers_ok owner s" using takes_lock(3) by (simp add: logger_inv_def)
  have o: "takers_ok owner ?s \<and> owner (gs_lock s a) = None \<and> owner (gs_lock ?s a) = Some t"
    by (rule takers_take [where s = s and t = t and a = a and m = m and pc = "Gives a level e 0"]) (use own takes_lock(1,2) in auto)
  show ?case
    by (rule ops_move [OF takes_lock(3) conjunct1 [OF o], where a = a and t = t])
      (use o takes_lock(1) in_ops_takes [where pcs = "gs_at s" and pcs' = "gs_at ?s" and a = a and level = level and e = e] in auto)
next
  case (gives s t a level e n lg sys)
  let ?pc = "Gives a level e (Suc n)"
  let ?s = "s\<lparr>gs_sys := sys, gs_at := (gs_at s)(t := ?pc)\<rparr>"
  have own: "takers_ok owner s" using gives(5) by (simp add: logger_inv_def)
  have o: "takers_ok owner ?s" by (rule takers_same [OF own, where t = t and pc = ?pc]) (use gives(1) in \<open>auto simp: fun_eq_iff\<close>)
  have t: "owner (gs_lock s a) = Some t" using own gives(1) by (simp add: takers_ok_def)
  have same: "appenders_of b sys = appenders_of b (gs_sys s)" for b using appender_log_loggers [OF gives(4)] by (simp add: appenders_of_def)
  have aps: "appenders_of a (gs_sys s) = lg_appenders lg" using gives(2) by (simp add: appenders_of_def)
  show ?case
    by (rule ops_move [OF gives(5) o, where a = a and t = t])
      (use t same gives(1,3) in_ops_gives [of _ "lg_appenders lg" t "gs_at s" _ a level e n "gs_at ?s"] in \<open>auto simp: aps\<close>)
next
  case (leaves_logger s t a level e n m)
  let ?s = "s\<lparr>gs_lock := (gs_lock s)(a := m), gs_at := (gs_at s)(t := Idles)\<rparr>"
  have own: "takers_ok owner s" using leaves_logger(4) by (simp add: logger_inv_def)
  have o: "takers_ok owner ?s \<and> owner (gs_lock s a) = Some t \<and> owner (gs_lock ?s a) = None"
    by (rule takers_give [where s = s and t = t and a = a and m = m and pc = Idles]) (use own leaves_logger(1,3) in auto)
  show ?case
    by (rule ops_move [OF leaves_logger(4) conjunct1 [OF o], where a = a and t = t])
      (use o leaves_logger(1,2) in_ops_leaves [of _ _ t "gs_at s"] in auto)
next
  case (changes s t a m ch sys m')
  let ?s = "s\<lparr>gs_sys := sys, gs_lock := (gs_lock s)(a := m')\<rparr>"
  have own: "takers_ok owner s" using changes(5) by (simp add: logger_inv_def)
  have o: "takers_ok owner ?s \<and> owner (gs_lock s a) = None \<and> owner (gs_lock ?s a) = None"
    by (rule takers_brief [where s = s and t = t and a = a and m = m and m' = m']) (use own changes(1,2,4) in auto)
  show ?case
    by (rule ops_move [OF changes(5) conjunct1 [OF o], where a = a and t = t])
      (use o change_appenders [OF changes(3)] in_ops_changes in auto)
qed

lemma logger_inv_run:
  assumes "logger_run api ck env s0 es s" and "logger_first api s0"
  shows "logger_inv owner (gs_sys s0) es s"
  using assms(1)
proof (induction rule: logger_run.induct)
  case logger_start
  have "owner (gs_lock s0 a) = None" for a
    using assms(2) init_ok [of "gs_lock s0 a"]
    by (auto simp: logger_first_def SpinLock_new_def check_rc_def split: prod.splits if_splits)
  then show ?case using assms(2) by (simp add: logger_inv_def takers_ok_def logger_first_def in_ops_none exI [of _ "[]"])
next
  case (logger_more es s es' s')
  show ?case by (rule logger_inv_step [OF logger_more(2,3)])
qed

end

end
