(* ===== verification/LoggerThreadsProps.thy ===== *)
theory LoggerThreadsProps
  imports LoggerThreads LogProps
begin

text \<open>
  Loggers among several threads: each logger behaves like an object with atomic operations, a call on
  a thread that is alone is \<open>Logger_log\<close>, and an event can be lost while a logger is configured anew.
\<close>

section \<open>A call, piece by piece\<close>

lemma logger_run_trans: "logger_run api ck env s es s' \<Longrightarrow> logger_run api ck env s' es' s'' \<Longrightarrow> logger_run api ck env s (es @ es') s''"
proof (rotate_tac, induction rule: logger_run.induct)
  case logger_start
  then show ?case by simp
next
  case (logger_more es1 s1 es2 s2)
  from logger_run.logger_more [OF logger_more(3) [OF logger_more(4)] logger_more(2)] show ?case by simp
qed

lemma logger_run_one: "logger_step api ck env s es s' \<Longrightarrow> logger_run api ck env s es s'"
  using logger_run.logger_more [OF logger_run.logger_start] by fastforce

text \<open>The event is given to the appenders that are left.\<close>

lemma gives_rest:
  assumes "foldM (appender_log ck env (lg_name lg) level e) (drop n (lg_appenders lg)) (gs_sys s) = Inr s'"
    and "gs_at s t = Gives a level e n" and "ls_loggers (gs_sys s) a = Some lg" and "n \<le> length (lg_appenders lg)"
  shows "\<exists>es. logger_run api ck env s es (s\<lparr>gs_sys := s', gs_at := (gs_at s)(t := Gives a level e (length (lg_appenders lg)))\<rparr>) \<and>
    ls_loggers s' = ls_loggers (gs_sys s)"
  using assms
proof (induction "length (lg_appenders lg) - n" arbitrary: n s)
  case 0
  have n: "n = length (lg_appenders lg)" and s': "s' = gs_sys s" using 0 by simp_all
  have eq: "s\<lparr>gs_sys := s', gs_at := (gs_at s)(t := Gives a level e (length (lg_appenders lg)))\<rparr> = s"
    using 0(3) unfolding s' n [symmetric] by (simp add: fun_upd_idem)
  show ?case unfolding eq by (intro exI [of _ "[]"] conjI logger_run.logger_start) (simp add: s')
next
  case (Suc k)
  have n: "n < length (lg_appenders lg)" using Suc(2) by simp
  obtain s1 where s1: "appender_log ck env (lg_name lg) level e (lg_appenders lg ! n) (gs_sys s) = Inr s1"
      "foldM (appender_log ck env (lg_name lg) level e) (drop (Suc n) (lg_appenders lg)) s1 = Inr s'"
    using Suc(3) Cons_nth_drop_Suc [OF n, symmetric] by (auto simp: bind_out_eq_Inr)
  let ?s1 = "s\<lparr>gs_sys := s1, gs_at := (gs_at s)(t := Gives a level e (Suc n))\<rparr>"
  have step: "logger_step api ck env s [(t, a, Gave (lg_appenders lg ! n))] ?s1"
    by (rule logger_step.gives [where lg = lg]) (use Suc n s1 in simp_all)
  have k: "k = length (lg_appenders lg) - Suc n" using Suc(2) by simp
  have l1: "ls_loggers s1 = ls_loggers (gs_sys s)" by (rule appender_log_loggers [OF s1(1)])
  obtain es where es: "logger_run api ck env ?s1 es
      (?s1\<lparr>gs_sys := s', gs_at := (gs_at ?s1)(t := Gives a level e (length (lg_appenders lg)))\<rparr>)" "ls_loggers s' = ls_loggers s1"
    using Suc(1) [of "Suc n" ?s1, OF k] Suc(5) s1(2) l1 n by auto
  then show ?case using logger_run_trans [OF logger_run_one [OF step] es(1)] l1 by auto
qed

context pthread_mutex
begin

lemma call_runs:
  "Logger_log ck env a level e sys = Some r \<Longrightarrow> r = Inr sys' \<Longrightarrow> ls_loggers sys a \<noteq> None \<and>
   (\<forall>s. gs_sys s = sys \<longrightarrow> gs_at s t = Calls a level e \<longrightarrow> (\<forall>b. owner (gs_lock s b) = None) \<longrightarrow>
     (\<exists>es s'. logger_run api ck env s es s' \<and> gs_sys s' = sys' \<and> gs_at s' = (gs_at s)(t := Idles) \<and> (\<forall>b. owner (gs_lock s' b) = None)))"
proof (induction rule: Logger_log.raw_induct [rotated, consumes 1, case_names step])
  case (step f ck env a level e sys r)
  obtain lg where lg: "ls_loggers sys a = Some lg" using step(2,3) by (cases "ls_loggers sys a") auto
  have "\<exists>es s'. logger_run api ck env s es s' \<and> gs_sys s' = sys' \<and> gs_at s' = (gs_at s)(t := Idles) \<and> (\<forall>b. owner (gs_lock s' b) = None)"
    if s: "gs_sys s = sys" "gs_at s t = Calls a level e" "\<forall>b. owner (gs_lock s b) = None" for s
  proof (cases "lg_level lg \<le> level")
    case False
    have "logger_run api ck env s [] (s\<lparr>gs_at := (gs_at s)(t := Idles)\<rparr>)"
      using logger_run_one [OF logger_step.level_asked [OF s(2), of api ck env]] s(1) lg False by (simp add: logger_passes_def)
    moreover have "sys' = sys" using step(2,3) lg False by auto
    ultimately show ?thesis using s(1,3) by (intro exI [of _ "[]"] exI [of _ "s\<lparr>gs_at := (gs_at s)(t := Idles)\<rparr>"]) simp
  next
    case True
    let ?s0 = "s\<lparr>gs_at := (gs_at s)(t := Passed a level e)\<rparr>"
    have s0: "logger_run api ck env s [] ?s0"
      using logger_run_one [OF logger_step.level_asked [OF s(2), of api ck env]] s(1) lg True by (simp add: logger_passes_def)
    have at: "gs_at ?s0 t = Passed a level e" by simp
    show ?thesis
    proof (cases "lg_appenders lg = []")
      case False
      then have fold: "foldM (appender_log ck env (lg_name lg) level e) (lg_appenders lg) sys = Inr sys'" using step(2,3) lg True by simp
      let ?s1 = "s\<lparr>gs_at := (gs_at s)(t := Queues a level e)\<rparr>"
      have s1: "logger_run api ck env s [] ?s1"
        using logger_run_trans [OF s0 logger_run_one [OF logger_step.finds_appenders [OF at, of lg api ck env]]] s(1) lg False by simp
      obtain m where m: "SpinLock_lock api t (gs_lock s a) = Some (Inr m)" "owner m = Some t"
        using lock_free [of "gs_lock s a" t] s(3) by (auto simp: SpinLock_lock_def check_rc_def)
      let ?s2 = "s\<lparr>gs_lock := (gs_lock s)(a := m), gs_at := (gs_at s)(t := Gives a level e 0)\<rparr>"
      have s2: "logger_run api ck env ?s1 [(t, a, Took (appenders_of a sys))] ?s2"
        using logger_run_one [OF logger_step.takes_lock [of ?s1 t a level e api m ck env]] m(1) s(1) by simp
      obtain es where es: "logger_run api ck env ?s2 es (?s2\<lparr>gs_sys := sys', gs_at := (gs_at ?s2)(t := Gives a level e (length (lg_appenders lg)))\<rparr>)"
          "ls_loggers sys' = ls_loggers (gs_sys ?s2)"
        using gives_rest [of ck env lg level e 0 ?s2 sys' t a api] fold lg s(1) by auto
      let ?s3 = "?s2\<lparr>gs_sys := sys', gs_at := (gs_at ?s2)(t := Gives a level e (length (lg_appenders lg)))\<rparr>"
      obtain m' where m': "SpinLock_unlock api t m = Inr m'" "owner m' = None"
        using unlock_owner [OF m(2)] by (auto simp: SpinLock_unlock_def check_rc_def)
      have "appenders_of a sys' = lg_appenders lg" using es(2) lg s(1) by (simp add: appenders_of_def)
      let ?s4 = "?s3\<lparr>gs_lock := (gs_lock ?s3)(a := m'), gs_at := (gs_at ?s3)(t := Idles)\<rparr>"
      have "logger_step api ck env ?s3 [] ?s4"
        by (rule logger_step.leaves_logger [where n = "length (lg_appenders lg)" and level = level and e = e])
          (use m'(1) \<open>appenders_of a sys' = lg_appenders lg\<close> in simp_all)
      then have "logger_run api ck env s ([] @ [(t, a, Took (appenders_of a sys))] @ es @ []) ?s4"
        by (intro logger_run_trans [OF s1 logger_run_trans [OF s2 logger_run_trans [OF es(1) logger_run_one]]])
      moreover have "gs_sys ?s4 = sys' \<and> gs_at ?s4 = (gs_at s)(t := Idles) \<and> (\<forall>b. owner (gs_lock ?s4 b) = None)"
        using m'(2) s(3) by simp
      ultimately show ?thesis by blast
    next
      case none: True
      let ?b = "s\<lparr>gs_at := (gs_at s)(t := Bare a level e)\<rparr>"
      have b: "logger_run api ck env s [] ?b"
        using logger_run_trans [OF s0 logger_run_one [OF logger_step.finds_none [OF at, of lg api ck env]]] s(1) lg none by simp
      have bare: "gs_at ?b t = Bare a level e" "ls_loggers (gs_sys ?b) a = Some lg" using s(1) lg by simp_all
      show ?thesis
      proof (cases "lg_root lg")
        case None
        let ?s1 = "s\<lparr>gs_at := (gs_at s)(t := Idles)\<rparr>"
        have "logger_run api ck env s [] ?s1"
          using logger_run_trans [OF b logger_run_one [OF logger_step.asks_root [OF bare, of api ck env]]] None by simp
        then show ?thesis using step(2,3) s(1,3) lg True none None by (intro exI [of _ "[]"] exI [of _ ?s1]) simp
      next
        case (Some rt)
        then have f: "f ck env rt level e sys = Some r" using step(2) lg True none by simp
        let ?s1 = "s\<lparr>gs_at := (gs_at s)(t := Calls rt level e)\<rparr>"
        obtain es s' where es: "logger_run api ck env ?s1 es s'" "gs_sys s' = sys'" "gs_at s' = (gs_at s)(t := Idles)"
            "\<forall>b. owner (gs_lock s' b) = None"
          using conjunct2 [OF step(1) [OF f step(3)], rule_format, of ?s1] s(1,3) by auto
        have "logger_run api ck env s [] ?s1"
          using logger_run_trans [OF b logger_run_one [OF logger_step.asks_root [OF bare, of api ck env]]] Some by simp
        then show ?thesis using logger_run_trans [OF _ es(1)] es(2-4) by blast
      qed
    qed
  qed
  then show ?case using lg by blast
qed

end

text \<open>
  A call of \<open>log\<close> on a thread that is alone runs to its end, and its pieces do what \<open>Logger_log\<close> does.
\<close>

lemma logger_alone:
  assumes "pthread_mutex api owner" and log: "Logger_log ck env a level e (gs_sys s) = Some (Inr sys')"
    and at: "gs_at s t = Idles" and free: "\<forall>b. owner (gs_lock s b) = None"
  shows "\<exists>es s'. logger_run api ck env s es s' \<and> gs_sys s' = sys' \<and> gs_at s' = gs_at s \<and> (\<forall>b. owner (gs_lock s' b) = None)"
proof -
  let ?s1 = "s\<lparr>gs_at := (gs_at s)(t := Calls a level e)\<rparr>"
  have s1: "gs_sys ?s1 = gs_sys s" "gs_at ?s1 t = Calls a level e"
      "owner (gs_lock ?s1 b) = None" for b
    using at free by simp_all
  have run: "logger_run api ck env s [] ?s1"
    by (rule logger_run_one [OF logger_step.calls_log [OF at]])
  obtain es s' where "logger_run api ck env ?s1 es s'" "gs_sys s' = sys'" "gs_at s' = (gs_at ?s1)(t := Idles)" "\<forall>b. owner (gs_lock s' b) = None"
    using conjunct2 [OF pthread_mutex.call_runs [OF assms(1) log refl], rule_format, OF s1] by blast
  moreover have "(gs_at ?s1)(t := Idles) = gs_at s" using at by (auto simp: fun_eq_iff)
  ultimately show ?thesis using logger_run_trans [OF run] by metis
qed

section \<open>Properties\<close>

text \<open>
  C31. A logger among threads is an object with two atomic operations: in every interleaving of threads
  that log, also through loggers without appenders that pass their events to others, and that change
  loggers, under the documented behaviour of the spin lock, what is done with a logger is a
  sequence of whole operations on its list of appenders, in the order in which they take its lock: a call that takes the
  lock gives its event to exactly the appenders that the list has then, in their order, and a change is not seen in part; and
  after these at most the beginning of one more call, whose thread holds the lock.
\<close>

theorem logger_refines_atomic:
  assumes "pthread_mutex api owner" and "logger_first api s0" and "logger_run api ck env s0 es s"
  shows "\<exists>ops part. acts_of a es = concat (map op_actions ops) @ part \<and>
    atomic_run (appenders_of a (gs_sys s0)) ops = Some (appenders_of a (gs_sys s)) \<and>
    (part \<noteq> [] \<longrightarrow> (\<exists>t level e n. gs_at s t = Gives a level e n \<and> owner (gs_lock s a) = Some t \<and> n \<le> length (appenders_of a (gs_sys s)) \<and>
       part = (t, Took (appenders_of a (gs_sys s))) # map (\<lambda>p. (t, Gave p)) (take n (appenders_of a (gs_sys s)))))"
proof -
  have inv: "logger_inv owner (gs_sys s0) es s" by (rule pthread_mutex.logger_inv_run [OF assms(1,3,2)])
  obtain ops r where o: "acts_of a es = concat (map op_actions ops) @ r"
      "atomic_run (appenders_of a (gs_sys s0)) ops = Some (appenders_of a (gs_sys s))"
      "case owner (gs_lock s a) of None \<Rightarrow> r = [] | Some t \<Rightarrow> begun_call (appenders_of a (gs_sys s)) t (gs_at s t) r"
    using inv unfolding logger_inv_def in_ops_def by blast
  have "\<exists>t level e n. gs_at s t = Gives a level e n \<and> owner (gs_lock s a) = Some t \<and> n \<le> length (appenders_of a (gs_sys s)) \<and>
       r = (t, Took (appenders_of a (gs_sys s))) # map (\<lambda>p. (t, Gave p)) (take n (appenders_of a (gs_sys s)))" if ne: "r \<noteq> []"
  proof -
    obtain t where t: "owner (gs_lock s a) = Some t" "begun_call (appenders_of a (gs_sys s)) t (gs_at s t) r"
      using o(3) ne by (cases "owner (gs_lock s a)") auto
    moreover have "gives_for (gs_at s t) a" using inv t(1) by (simp add: logger_inv_def takers_ok_def)
    ultimately show ?thesis by (cases "gs_at s t") auto
  qed
  then show ?thesis using o(1,2) by blast
qed

text \<open>A root that prints on the console, and a logger with an appender of its own.\<close>

definition two_loggers :: "tid option logger_shared" where
  "two_loggers =
     \<lparr>gs_sys = (logsys_empty (\<lambda>f. []))\<lparr>ls_loggers :=
        [0 \<mapsto> \<lparr>lg_name = ''root'', lg_level = DEBUG, lg_appenders = [0], lg_root = None\<rparr>,
         1 \<mapsto> \<lparr>lg_name = ''net'', lg_level = DEBUG, lg_appenders = [1], lg_root = Some 0\<rparr>],
        ls_appenders :=
        [0 \<mapsto> \<lparr>ap_level = DEBUG, ap_formatter = Some plain_formatter, ap_sink = Stdout_sink\<rparr>,
         1 \<mapsto> \<lparr>ap_level = DEBUG, ap_formatter = Some plain_formatter, ap_sink = Stdout_sink\<rparr>], mgr_root := 0\<rparr>,
      gs_lock = (\<lambda>a. None), gs_at = (\<lambda>t. Idles)\<rparr>"

lemma two_loggers_first: "logger_first posix_mutex two_loggers"
  by (simp add: logger_first_def two_loggers_def SpinLock_new_def posix_mutex_def check_rc_def)

lemma two_loggers_log:
  "\<exists>sys. Logger_log some_clock good_disk 1 INFO some_event (gs_sys two_loggers) = Some (Inr sys) \<and> ls_stdout sys = ''x'' @ newline \<and>
     appenders_of 1 sys = [1]"
  by (subst Logger_log.simps)
    (simp add: two_loggers_def appender_log_def stdout_log_def cout_line_def less_eq_LogLevel_def formatter_string_def plain_formatter_def
      appenders_of_def logsys_empty_def)

theorem logger_refines_atomic_witness:
  "\<exists>es s ops. logger_run posix_mutex some_clock good_disk two_loggers es s \<and> ls_stdout (gs_sys s) = ''x'' @ newline \<and>
     acts_of 1 es = concat (map op_actions ops) \<and> atomic_run [1] ops = Some [1]"
proof -
  obtain sys where sys: "Logger_log some_clock good_disk 1 INFO some_event (gs_sys two_loggers) = Some (Inr sys)" "ls_stdout sys = ''x'' @ newline"
      "appenders_of 1 sys = [1]" using two_loggers_log by blast
  have at: "gs_at two_loggers = (\<lambda>t. Idles)" "\<forall>b. gs_lock two_loggers b = None" "appenders_of 1 (gs_sys two_loggers) = [1]"
    by (simp_all add: two_loggers_def appenders_of_def)
  obtain es s where run: "logger_run posix_mutex some_clock good_disk two_loggers es s" "gs_sys s = sys" "gs_at s = gs_at two_loggers"
    using logger_alone [OF posix_mx.pthread_mutex_axioms sys(1), of 7] at by auto
  have "\<exists>ops. acts_of 1 es = concat (map op_actions ops) \<and> atomic_run [1] ops = Some [1]"
    using logger_refines_atomic [OF posix_mx.pthread_mutex_axioms two_loggers_first run(1), of 1] run(2,3) at sys(3) by auto
  then show ?thesis using run sys(2) by blast
qed

text \<open>
  C32. An event is lost when a logger is configured anew at the wrong moment: \<open>log\<close> asks whether there are
  appenders before it takes the lock. When another thread clears the appenders in between and adds
  a new one after the call, as loading a configuration does, the event goes to no appender and not to the
  root, although in each of the three states the logger was in a call would have had receivers.
\<close>

theorem event_lost_while_reloading:
  fixes s0 :: "tid option logger_shared" and t u :: tid
  assumes first: "logger_first posix_mutex s0" and tu: "t \<noteq> u"
    and a: "ls_loggers (gs_sys s0) a = Some lg" "lg_level lg \<le> level" "lg_appenders lg \<noteq> []" "lg_root lg \<noteq> None" "a \<noteq> mgr_root (gs_sys s0)"
    and r: "ls_loggers (gs_sys s0) (mgr_root (gs_sys s0)) = Some rt" "lg_level rt \<le> level" "lg_appenders rt \<noteq> []"
  shows "\<exists>es s. logger_run posix_mutex ck env s0 es s \<and> gs_at s = (\<lambda>_. Idles) \<and>
    map (\<lambda>(v, b, e). (v, e)) es = [(u, Changed Clears), (t, Took []), (u, Changed (Adds p))] \<and>
    ls_stdout (gs_sys s) = ls_stdout (gs_sys s0) \<and> ls_files (gs_sys s) = ls_files (gs_sys s0) \<and>
    (\<exists>sys1. change_logger a Clears (gs_sys s0) = Inr sys1 \<and> change_logger a (Adds p) sys1 = Inr (gs_sys s) \<and>
      receivers (gs_sys s0) a level \<noteq> [] \<and> receivers sys1 a level \<noteq> [] \<and> receivers (gs_sys s) a level \<noteq> [])"
proof -
  have at: "gs_at s0 = (\<lambda>_. Idles)" and lock: "gs_lock s0 b = None" for b
    using first by (auto simp: logger_first_def SpinLock_new_def posix_mutex_def check_rc_def)
  have idem: "(gs_lock s0)(a := None) = gs_lock s0" using lock by (auto simp: fun_eq_iff)
  let ?sys = "gs_sys s0"
  let ?sys1 = "?sys\<lparr>ls_loggers := (ls_loggers ?sys)(a \<mapsto> lg\<lparr>lg_appenders := []\<rparr>)\<rparr>"
  let ?sys2 = "?sys1\<lparr>ls_loggers := (ls_loggers ?sys1)(a \<mapsto> lg\<lparr>lg_appenders := [p]\<rparr>)\<rparr>"
  have c1: "change_logger a Clears ?sys = Inr ?sys1" using a(1) by (simp add: Logger_clearAppenders_def with_logger_def)
  have c2: "change_logger a (Adds p) ?sys1 = Inr ?sys2" by (simp add: Logger_addAppender_def with_logger_def)
  let ?at = "\<lambda>pc. (gs_at s0)(t := pc)"
  let ?s1 = "s0\<lparr>gs_at := ?at (Passed a level e)\<rparr>" and ?s2 = "s0\<lparr>gs_at := ?at (Queues a level e)\<rparr>"
  let ?s3 = "?s2\<lparr>gs_sys := ?sys1\<rparr>"
  let ?s4 = "?s3\<lparr>gs_lock := (gs_lock s0)(a := Some t), gs_at := ?at (Gives a level e 0)\<rparr>"
  let ?s5 = "s0\<lparr>gs_sys := ?sys1, gs_at := \<lambda>_. Idles\<rparr>"
  let ?s6 = "?s5\<lparr>gs_sys := ?sys2\<rparr>"
  let ?s0 = "s0\<lparr>gs_at := ?at (Calls a level e)\<rparr>"
  have r0: "logger_run posix_mutex ck env s0 [] ?s0"
    by (rule logger_run_one, rule logger_step.calls_log) (simp add: at)
  have r1: "logger_run posix_mutex ck env s0 [] ?s1"
    using logger_run_trans [OF r0 logger_run_one [OF logger_step.level_asked [of ?s0 t a level e posix_mutex ck env]]] a
    by (simp add: logger_passes_def)
  have r2: "logger_run posix_mutex ck env ?s1 [] ?s2"
    using logger_run_one [OF logger_step.finds_appenders [of ?s1 t a level e lg]] a by simp
  have r3: "logger_run posix_mutex ck env ?s2 [(u, a, Changed Clears)] ?s3"
    using logger_run_one [OF logger_step.changes [of ?s2 u posix_mutex a "Some u" Clears ?sys1 None]] c1 at lock tu idem
    by (simp add: posix_spin)
  have none: "appenders_of a ?sys1 = []" by (simp add: appenders_of_def)
  have r4: "logger_run posix_mutex ck env ?s3 [(t, a, Took [])] ?s4"
    using logger_run_one [OF logger_step.takes_lock [of ?s3 t a level e posix_mutex "Some t"]] lock none by (simp add: posix_spin)
  have r5: "logger_run posix_mutex ck env ?s4 [] ?s5"
    using logger_run_one [OF logger_step.leaves_logger [of ?s4 t a level e 0 posix_mutex None]] none at idem by (simp add: posix_spin fun_upd_idem)
  have r6: "logger_run posix_mutex ck env ?s5 [(u, a, Changed (Adds p))] ?s6"
    using logger_run_one [OF logger_step.changes [of ?s5 u posix_mutex a "Some u" "Adds p" ?sys2 None]] c2 lock [of a] idem
    by (simp add: posix_spin)
  have run: "logger_run posix_mutex ck env s0 [(u, a, Changed Clears), (t, a, Took []), (u, a, Changed (Adds p))] ?s6"
    using logger_run_trans [OF r1 logger_run_trans [OF r2 logger_run_trans [OF r3 logger_run_trans [OF r4 logger_run_trans [OF r5 r6]]]]]
    by simp
  have rec: "receivers ?sys a level \<noteq> []" "receivers ?sys1 a level \<noteq> []" "receivers ?sys2 a level \<noteq> []"
    using a r by (simp_all add: receivers_def own_receivers_def)
  show ?thesis
    by (rule exI, rule exI [of _ ?s6], intro conjI, rule run) (use at c1 c2 rec in auto)
qed

theorem event_lost_while_reloading_witness:
  "\<exists>es s. logger_run posix_mutex some_clock good_disk two_loggers es s \<and>
     map (\<lambda>(v, b, e). (v, e)) es = [(2, Changed Clears), (1, Took []), (2, Changed (Adds 0))] \<and> ls_stdout (gs_sys s) = [] \<and>
     receivers (gs_sys s) 1 INFO \<noteq> []"
proof -
  let ?net = "\<lparr>lg_name = ''net'', lg_level = DEBUG, lg_appenders = [1], lg_root = Some 0\<rparr>"
  let ?root = "\<lparr>lg_name = ''root'', lg_level = DEBUG, lg_appenders = [0], lg_root = None\<rparr>"
  have h: "(1 :: tid) \<noteq> 2" "ls_loggers (gs_sys two_loggers) 1 = Some ?net" "lg_level ?net \<le> INFO" "lg_appenders ?net \<noteq> []"
      "lg_root ?net \<noteq> None" "1 \<noteq> mgr_root (gs_sys two_loggers)"
      "ls_loggers (gs_sys two_loggers) (mgr_root (gs_sys two_loggers)) = Some ?root" "lg_level ?root \<le> INFO" "lg_appenders ?root \<noteq> []"
    by (simp_all add: two_loggers_def logsys_empty_def less_eq_LogLevel_def)
  have "ls_stdout (gs_sys two_loggers) = []" by (simp add: two_loggers_def logsys_empty_def)
  then show ?thesis
    using event_lost_while_reloading [OF two_loggers_first h, where ck = some_clock and env = good_disk and p = 0]
    by metis
qed

end
