(* ===== verification/LogPattern.thy ===== *)
theory LogPattern
  imports LogFormatter
begin

text \<open>
  What the pattern parser of \<open>LogFormatter\<close> promises: a grammar of patterns as a list of
  pieces, the text of a list of pieces, and the two directions between the text and the triples
  that \<open>init\<close> collects. Parsing loses no character unless a brace stays open, and a well-formed
  list of pieces is read back exactly. Two lemmas at the end show where the parser departs from
  the comment above it.
\<close>

section \<open>Pieces\<close>

datatype piece = Lit string | Fmt string "string option"

fun braces :: "string option \<Rightarrow> string" where
  "braces None = []"
| "braces (Some f) = ''{'' @ f @ ''}''"

fun render :: "piece \<Rightarrow> string" where
  "render (Lit s) = s"
| "render (Fmt nm f) = ''%'' @ nm @ braces f"

definition render_all :: "piece list \<Rightarrow> string" where
  "render_all ps = concat (map render ps)"

fun triple_of :: "piece \<Rightarrow> string \<times> string \<times> nat" where
  "triple_of (Lit s) = (s, [], 0)"
| "triple_of (Fmt nm f) = (nm, case f of None \<Rightarrow> [] | Some g \<Rightarrow> g, 1)"

lemma render_all_simps [simp]:
  "render_all [] = []"
  "render_all (q # ps) = render q @ render_all ps"
  "render_all (ps @ qs) = render_all ps @ render_all qs"
  by (simp_all add: render_all_def)

section \<open>Parsing loses nothing\<close>

text \<open>
  The inner loop, from \<open>fmt_status\<close> 0: while it is before the brace, \<open>str\<close> is empty unless the
  pattern is used up. After it returns with \<open>fmt_status\<close> 0 the characters it has passed are the
  name and the braced text.
\<close>

lemma take_Suc_drop:
  "k < length xs \<Longrightarrow> take (k - i) (drop i xs) @ [xs ! k] = take (Suc k - i) (drop i xs)" if "i \<le> k"
proof -
  assume k: "k < length xs"
  then have "drop i xs ! (k - i) = xs ! k" using that by simp
  moreover have "k - i < length (drop i xs)" using k that by (simp add: diff_less_mono)
  ultimately show ?thesis
    using that by (simp add: Suc_diff_le take_Suc_conv_app_nth)
qed

lemma scan_braces:
  assumes "scan_item p i n (Suc 0) b str fmt = (n', 0, str', fmt')"
    and "b < n" and "n \<le> length p" and "p ! b = CHR ''{''"
  shows "n < n' \<and> n' \<le> length p \<and>
    (str \<noteq> [] \<longrightarrow> str' = str) \<and> (str = [] \<longrightarrow> str' = []) \<and>
    take (n' - b) (drop b p) = braces (Some fmt')"
  using assms
proof (induction "length p - n" arbitrary: n str rule: less_induct)
  case less
  show ?case
  proof (cases rule: scan_cases [where n = n and p = p and st = "Suc 0"])
    case at_close
    have "take (n + 1 - b) (drop b p) = take (n - b) (drop b p) @ [CHR ''}'']"
      using at_close less.prems(2) take_Suc_drop [of b n p] by simp
    moreover have "take (n - b) (drop b p) = CHR ''{'' # substr p (b + 1) (n - b - 1)"
      using at_close less.prems Cons_nth_drop_Suc [of b p]
      by (auto simp: substr_def take_Cons' dest!: sym [of _ "drop b p"])
    ultimately show ?thesis using less.prems at_close by (simp add: scan_close)
  next
    case going
    let ?str = "if n + 1 = length p \<and> str = [] then drop (i + 1) p else str"
    have r: "scan_item p i (n + 1) (Suc 0) b ?str fmt = (n', 0, str', fmt')"
      using less.prems(1) scan_step [OF going] by simp
    have "n + 1 \<noteq> length p"
      using r by (auto simp: scan_end)
    moreover have "length p - (n + 1) < length p - n" using going by simp
    ultimately show ?thesis
      using less.hyps [of "n + 1" ?str] r going less.prems by (auto dest: Suc_lessD)
  qed (use less.prems in \<open>auto simp: scan_end\<close>)
qed

lemma scan_lossless:
  assumes "scan_item p i n 0 b str [] = (n', 0, str', fmt')"
    and "i < n" and "n \<le> length p" and "str = (if n = length p then drop (i + 1) p else [])"
  shows "n' \<le> length p \<and> n \<le> n' \<and>
    (\<exists>f. take (n' - (i + 1)) (drop (i + 1) p) = str' @ braces f \<and>
      fmt' = (case f of None \<Rightarrow> [] | Some g \<Rightarrow> g))"
  using assms
proof (induction "length p - n" arbitrary: n b str rule: less_induct)
  case less
  show ?case
  proof (cases rule: scan_cases [where n = n and p = p and st = 0])
    case at_end
    with less.prems show ?thesis
      by (auto simp: scan_end intro!: exI [of _ None])
  next
    case at_break
    with less.prems show ?thesis
      by (auto simp: scan_break substr_def intro!: exI [of _ None])
  next
    case at_open
    let ?str = "substr p (i + 1) (n - i - 1)"
    have r: "scan_item p i (n + 1) (Suc 0) n ?str [] = (n', 0, str', fmt')"
      using less.prems(1) at_open by (simp add: scan_open)
    note b = scan_braces [OF r, simplified]
    have s: "str' = ?str" using b at_open by (cases "?str = []") auto
    have "take (n' - (i + 1)) (drop (i + 1) p)
        = take (n - (i + 1)) (drop (i + 1) p) @ take (n' - n) (drop n p)"
      using b at_open less.prems(2) take_add [of "n - (i + 1)" "n' - n" "drop (i + 1) p"] by simp
    then show ?thesis
      using b at_open less.prems s by (auto simp: substr_def intro!: exI [of _ "Some fmt'"])
  next
    case at_close
    then show ?thesis by simp
  next
    case going
    let ?str = "if n + 1 = length p \<and> str = [] then drop (i + 1) p else str"
    have "scan_item p i (n + 1) 0 b ?str [] = (n', 0, str', fmt')"
      using less.prems(1) scan_step [OF going] by simp
    moreover have "length p - (n + 1) < length p - n" using going by simp
    ultimately show ?thesis
      using less.hyps [of "n + 1" b ?str] going less.prems by (auto dest: Suc_leD)
  qed
qed

lemma push_item_fields [simp]:
  "fp_nstr (push_item str fmt s) = []"
  "fp_vec (push_item str fmt s) =
     fp_vec s @ (if fp_nstr s = [] then [] else [(fp_nstr s, [], 0)]) @ [(str, fmt, 1)]"
  "fp_error (push_item str fmt s) = fp_error s"
  "fp_out (push_item str fmt s) = fp_out s"
  by (simp_all add: push_item_def Let_def)

lemma push_error_fields [simp]:
  "fp_nstr (push_error p i fmt s) = fp_nstr s"
  "fp_vec (push_error p i fmt s) = fp_vec s @ [(''<<pattern_error>>'', fmt, 0)]"
  "fp_error (push_error p i fmt s)"
  by (simp_all add: push_error_def)

lemma flush_tail_fields [simp]:
  "fp_vec (flush_tail s) = fp_vec s @ (if fp_nstr s = [] then [] else [(fp_nstr s, [], 0)])"
  "fp_error (flush_tail s) = fp_error s"
  "fp_out (flush_tail s) = fp_out s"
  by (simp_all add: flush_tail_def)

text \<open>An error, once noted, and the triples collected so far are kept.\<close>

lemma loop_keeps:
  "(fp_error s \<longrightarrow> fp_error (parse_loop p i s)) \<and> set (fp_vec s) \<subseteq> set (fp_vec (parse_loop p i s))"
proof (induction "length p - i" arbitrary: i s rule: less_induct)
  case less
  have IH: "(fp_error s' \<longrightarrow> fp_error (parse_loop p k s')) \<and>
      set (fp_vec s') \<subseteq> set (fp_vec (parse_loop p k s'))"
    if "i < length p" "i < k" for k s'
    using that by (intro less.hyps) simp
  show ?case
  proof (cases rule: loop_cases [where p = p and i = i])
    case (item n str fmt)
    then have "i < n" by (auto dest: scan_item_geD)
    with item IH [of n "push_item str fmt s"] show ?thesis by (auto simp: loop_item)
  next
    case (error n str fmt)
    with IH [of "i + 1" "push_error p i fmt s"] show ?thesis by (auto simp: loop_error)
  next
    case char
    with IH [of "i + 1" "s\<lparr>fp_nstr := fp_nstr s @ [p ! i]\<rparr>"] show ?thesis
      by (simp add: loop_char)
  next
    case percent
    with IH [of "i + 1" "s\<lparr>fp_nstr := fp_nstr s @ [p ! i]\<rparr>"] show ?thesis
      by (simp add: loop_percent)
  qed (simp add: loop_end)
qed

lemmas loop_keeps_error = loop_keeps [THEN conjunct1, rule_format]
lemmas loop_keeps_vec = loop_keeps [THEN conjunct2]

text \<open>
  The invariant of the outer loop: the text of the pieces so far and the pending ordinary text
  are the part of the pattern before \<open>i\<close>.
\<close>

definition consumed :: "string \<Rightarrow> nat \<Rightarrow> parse_state \<Rightarrow> bool" where
  "consumed p i s \<longleftrightarrow> i \<le> length p \<and>
     (\<exists>ps. fp_vec s = map triple_of ps \<and> render_all ps @ fp_nstr s = take i p)"

lemma consumed_char:
  "consumed p i s \<Longrightarrow> i < length p \<Longrightarrow>
   consumed p (i + 1) (s\<lparr>fp_nstr := fp_nstr s @ [p ! i]\<rparr>)"
  by (auto simp: consumed_def take_Suc_conv_app_nth)

lemma consumed_item:
  assumes "consumed p i s" and "i < length p" and "p ! i = CHR ''%''"
    and "scan_item p i (i + 1) 0 0 [] [] = (n, 0, str, fmt)"
  shows "consumed p n (push_item str fmt s)"
proof -
  have "\<exists>f. n \<le> length p \<and> i + 1 \<le> n \<and>
      take (n - (i + 1)) (drop (i + 1) p) = str @ braces f \<and>
      fmt = (case f of None \<Rightarrow> [] | Some g \<Rightarrow> g)"
    using scan_lossless [OF assms(4)] assms(2) by auto
  then obtain f where f: "n \<le> length p" "i + 1 \<le> n"
      "take (n - (i + 1)) (drop (i + 1) p) = str @ braces f"
      "fmt = (case f of None \<Rightarrow> [] | Some g \<Rightarrow> g)" by blast
  obtain ps where ps: "fp_vec s = map triple_of ps" "render_all ps @ fp_nstr s = take i p"
    using assms(1) by (auto simp: consumed_def)
  have tp: "take n p = take i p @ CHR ''%'' # str @ braces f"
    using take_add [of "i + 1" "n - (i + 1)" p] f(2,3) assms(2,3)
    by (simp add: take_Suc_conv_app_nth)
  let ?qs = "ps @ (if fp_nstr s = [] then [] else [Lit (fp_nstr s)]) @ [Fmt str f]"
  from ps(2) have "render_all ?qs @ fp_nstr (push_item str fmt s) = take n p"
    using tp by (auto split: if_splits)
  moreover have "fp_vec (push_item str fmt s) = map triple_of ?qs"
    using ps(1) f(4) by simp
  ultimately show ?thesis using f(1) unfolding consumed_def by blast
qed

lemma loop_consumes:
  assumes "consumed p i s" and "\<not> fp_error (parse_loop p i s)"
  shows "consumed p (length p) (parse_loop p i s)"
  using assms
proof (induction "length p - i" arbitrary: i s rule: less_induct)
  case less
  have IH: "consumed p k s' \<Longrightarrow> \<not> fp_error (parse_loop p k s') \<Longrightarrow>
      consumed p (length p) (parse_loop p k s')" if "i < length p" "i < k" for k s'
    using that by (intro less.hyps) simp_all
  show ?case
  proof (cases rule: loop_cases [where p = p and i = i])
    case at_end
    then show ?thesis using less.prems by (simp add: loop_end consumed_def)
  next
    case char
    then show ?thesis using less.prems IH consumed_char by (simp add: loop_char)
  next
    case percent
    then show ?thesis
      using less.prems IH [of "i + 1"] consumed_char [of p i s] by (simp add: loop_percent)
  next
    case (item n str fmt)
    then have "i < n" by (auto dest: scan_item_geD)
    with item less.prems show ?thesis
      using IH consumed_item [of p i s n str fmt] by (simp add: loop_item)
  next
    case (error n str fmt)
    with less.prems show ?thesis using loop_keeps_error by (simp add: loop_error)
  qed
qed

section \<open>Well-formed pieces are read back\<close>

text \<open>
  Ordinary text has no percent sign and is not split; a name is a non-empty word of letters; a
  name without braces is followed by a character that ends it; braced text has no closing brace.
\<close>

fun ends_name :: "string \<Rightarrow> bool" where
  "ends_name [] = True"
| "ends_name (c # s) = (\<not> is_alpha c \<and> c \<noteq> CHR ''{'' \<and> c \<noteq> CHR ''}'')"

fun starts_lit :: "piece list \<Rightarrow> bool" where
  "starts_lit (Lit s # ps) = True"
| "starts_lit _ = False"

fun wf_pieces :: "piece list \<Rightarrow> bool" where
  "wf_pieces [] = True"
| "wf_pieces (Lit s # ps) = (s \<noteq> [] \<and> CHR ''%'' \<notin> set s \<and> \<not> starts_lit ps \<and> wf_pieces ps)"
| "wf_pieces (Fmt nm f # ps) =
     (nm \<noteq> [] \<and> (\<forall>c \<in> set nm. is_alpha c) \<and>
      (case f of None \<Rightarrow> ends_name (render_all ps) | Some g \<Rightarrow> CHR ''}'' \<notin> set g) \<and>
      wf_pieces ps)"

lemma not_alpha [simp]:
  "\<not> is_alpha (CHR ''{'')" "\<not> is_alpha (CHR ''}'')" "\<not> is_alpha (CHR ''%'')"
  by code_simp+

lemma scan_name:
  assumes "\<forall>c \<in> set nm. is_alpha c" and "p = pre @ nm @ rest" and "rest \<noteq> []"
  shows "scan_item p i (length pre) 0 b [] [] = scan_item p i (length (pre @ nm)) 0 b [] []"
  using assms
proof (induction nm arbitrary: pre)
  case Nil
  then show ?case by simp
next
  case (Cons c nm)
  have "p ! length pre = c" and "length pre + 1 < length p" using Cons.prems by simp_all
  then have "scan_item p i (length pre) 0 b [] [] = scan_item p i (length (pre @ [c])) 0 b [] []"
    using Cons.prems(1) by (subst scan_step) auto
  also have "\<dots> = scan_item p i (length ((pre @ [c]) @ nm)) 0 b [] []"
    using Cons.prems by (intro Cons.IH) simp_all
  finally show ?case by simp
qed

lemma scan_last_name:
  assumes "\<forall>c \<in> set nm. is_alpha c" and "nm \<noteq> []" and "p = pre @ nm"
  shows "scan_item p i (length pre) 0 b [] [] = (length p, 0, drop (i + 1) p, [])"
proof -
  obtain nm' c where nm: "nm = nm' @ [c]" using assms(2) by (cases nm rule: rev_cases) auto
  have "scan_item p i (length pre) 0 b [] [] = scan_item p i (length (pre @ nm')) 0 b [] []"
    using assms(1,3) nm by (intro scan_name [where rest = "[c]"]) auto
  also have "\<dots> = scan_item p i (length (pre @ nm') + 1) 0 b (drop (i + 1) p) []"
    using assms(1,3) nm by (subst scan_step) auto
  also have "\<dots> = (length p, 0, drop (i + 1) p, [])"
    using assms(3) nm by (simp add: scan_end)
  finally show ?thesis .
qed

lemma scan_inner:
  assumes "CHR ''}'' \<notin> set g" and "p = pre @ g @ CHR ''}'' # rest"
  shows "scan_item p i (length pre) (Suc 0) b str [] =
    (length pre + length g + 1, 0, str, substr p (b + 1) (length pre + length g - b - 1))"
  using assms
proof (induction g arbitrary: pre)
  case Nil
  then show ?case by (simp add: scan_close)
next
  case (Cons c g)
  have "p ! length pre = c" and "length pre + 1 < length p" using Cons.prems by simp_all
  then have "scan_item p i (length pre) (Suc 0) b str [] =
      scan_item p i (length (pre @ [c])) (Suc 0) b str []"
    using Cons.prems(1) by (subst scan_step) auto
  then show ?case using Cons.prems Cons.IH [of "pre @ [c]"] by simp
qed

lemma scan_fmt:
  assumes "nm \<noteq> []" "\<forall>c \<in> set nm. is_alpha c"
    and "case f of None \<Rightarrow> ends_name rest | Some g \<Rightarrow> CHR ''}'' \<notin> set g"
    and p: "p = pre @ render (Fmt nm f) @ rest"
  shows "scan_item p (length pre) (length pre + 1) 0 0 [] [] =
    (length (pre @ render (Fmt nm f)), 0, nm, case f of None \<Rightarrow> [] | Some g \<Rightarrow> g)"
proof (cases f)
  case (Some g)
  have "scan_item p (length pre) (length (pre @ ''%'')) 0 0 [] [] =
      scan_item p (length pre) (length ((pre @ ''%'') @ nm)) 0 0 [] []"
    using assms Some by (intro scan_name [where rest = "''{'' @ g @ ''}'' @ rest"]) simp_all
  also have "\<dots> = scan_item p (length pre) (length ((pre @ ''%'') @ nm @ ''{'')) (Suc 0)
      (length (pre @ ''%'' @ nm)) nm []"
    using p Some by (simp add: scan_open nth_append substr_def)
  also have "\<dots> = (length (pre @ render (Fmt nm f)), 0, nm, g)"
    using assms Some scan_inner [of g p "(pre @ ''%'') @ nm @ ''{''" rest]
    by (simp add: substr_def)
  finally show ?thesis using Some by simp
next
  case None
  show ?thesis
  proof (cases rest)
    case Nil
    then show ?thesis
      using assms None scan_last_name [of nm p "pre @ ''%''" "length pre" 0] by simp
  next
    case (Cons c r)
    have "scan_item p (length pre) (length (pre @ ''%'')) 0 0 [] [] =
        scan_item p (length pre) (length ((pre @ ''%'') @ nm)) 0 0 [] []"
      using assms None Cons by (intro scan_name [where rest = rest]) simp_all
    also have "\<dots> = (length (pre @ render (Fmt nm f)), 0, nm, [])"
      using assms None Cons by (subst scan_break) (simp_all add: nth_append substr_def)
    finally show ?thesis using None by simp
  qed
qed

lemma loop_lit:
  assumes "CHR ''%'' \<notin> set t"
  shows "parse_loop (pre @ t @ rest) (length pre) s =
    parse_loop (pre @ t @ rest) (length (pre @ t)) (s\<lparr>fp_nstr := fp_nstr s @ t\<rparr>)"
  using assms
proof (induction t arbitrary: pre s)
  case Nil
  then show ?case by simp
next
  case (Cons c t)
  then show ?case
    using Cons.IH [of "pre @ [c]" "s\<lparr>fp_nstr := fp_nstr s @ [c]\<rparr>"] by (subst loop_char) auto
qed

lemma loop_fmt:
  assumes "wf_pieces (Fmt nm f # ps)"
  shows "parse_loop (pre @ render (Fmt nm f) @ render_all ps) (length pre) s =
    parse_loop (pre @ render (Fmt nm f) @ render_all ps) (length (pre @ render (Fmt nm f)))
      (push_item nm (case f of None \<Rightarrow> [] | Some g \<Rightarrow> g) s)"
proof (rule loop_item)
  let ?p = "pre @ render (Fmt nm f) @ render_all ps"
  obtain c nm' where nm: "nm = c # nm'" "is_alpha c" using assms by (cases nm) auto
  then have "?p ! (length pre + 1) = c" by (simp add: nth_append)
  with nm show "\<not> (length pre + 1 < length ?p \<and> ?p ! (length pre + 1) = CHR ''%'')" by auto
  show "scan_item ?p (length pre) (length pre + 1) 0 0 [] [] =
      (length (pre @ render (Fmt nm f)), 0, nm, case f of None \<Rightarrow> [] | Some g \<Rightarrow> g)"
    using assms by (intro scan_fmt) auto
qed simp_all

lemma loop_pieces:
  assumes "wf_pieces ps" and "fp_nstr s \<noteq> [] \<Longrightarrow> \<not> starts_lit ps"
  shows "let r = flush_tail (parse_loop (pre @ render_all ps) (length pre) s)
    in fp_vec r = fp_vec s @ (if fp_nstr s = [] then [] else [(fp_nstr s, [], 0)]) @ map triple_of ps
       \<and> fp_error r = fp_error s \<and> fp_out r = fp_out s"
  using assms
proof (induction ps arbitrary: pre s rule: wf_pieces.induct)
  case 1
  then show ?case by (simp add: loop_end)
next
  case (2 t ps)
  then show ?case
    using "2.IH" [of "s\<lparr>fp_nstr := t\<rparr>" "pre @ t"] loop_lit [of t pre "render_all ps" s]
    by (cases "fp_nstr s") (simp_all add: Let_def)
next
  case (3 nm f ps)
  then show ?case
    using "3.IH" [of "push_item nm (case f of None \<Rightarrow> [] | Some g \<Rightarrow> g) s" "pre @ render (Fmt nm f)"]
      loop_fmt [of nm f ps pre s]
    by (simp add: Let_def)
qed

section \<open>Properties\<close>

lemma parse_start_fields [simp]:
  "fp_nstr parse_start = []" "fp_vec parse_start = []" "\<not> fp_error parse_start" "fp_out parse_start = []"
  by (simp_all add: parse_start_def)

text \<open>A line on the console and the error flag go together.\<close>

lemma loop_reports:
  "fp_error s = (fp_out s \<noteq> []) \<Longrightarrow> fp_error (parse_loop p i s) = (fp_out (parse_loop p i s) \<noteq> [])"
proof (induction "length p - i" arbitrary: i s rule: less_induct)
  case less
  have IH: "fp_error s' = (fp_out s' \<noteq> []) \<Longrightarrow>
      fp_error (parse_loop p k s') = (fp_out (parse_loop p k s') \<noteq> [])" if "i < length p" "i < k" for k s'
    using that by (intro less.hyps) simp_all
  show ?case
  proof (cases rule: loop_cases [where p = p and i = i])
    case (item n str fmt)
    then have "i < n" by (auto dest: scan_item_geD)
    with item less.prems show ?thesis using IH by (simp add: loop_item)
  next
    case (error n str fmt)
    have "fp_error (push_error p i fmt s) = (fp_out (push_error p i fmt s) \<noteq> [])"
      by (simp add: push_error_def)
    with error show ?thesis using IH by (simp add: loop_error)
  qed (use less.prems IH in \<open>simp_all add: loop_end loop_char loop_percent\<close>)
qed

text \<open>
  C4. The round trip of patterns: the constructor of \<open>LogFormatter\<close>, applied to the text of a
  well-formed list of pieces, yields exactly one item per piece, in order, built from the piece's
  name and its braced text; it reports an error exactly when some name is not in the table of
  items, and writes nothing to the console.
\<close>

theorem pattern_roundtrip:
  assumes "wf_pieces ps"
  shows "new_LogFormatter (render_all ps) =
    (\<lparr>fmt_pattern = render_all ps,
      fmt_items = map (item_of_triple \<circ> triple_of) ps,
      fmt_error = (\<exists>nm f. Fmt nm f \<in> set ps \<and> format_items_table nm = None)\<rparr>, [])"
proof -
  have "(\<exists>q \<in> set ps. bad_triple (triple_of q)) =
      (\<exists>nm f. Fmt nm f \<in> set ps \<and> format_items_table nm = None)"
    by (force simp: bad_triple_def elim: triple_of.elims)
  then show ?thesis
    using loop_pieces [OF assms, of parse_start "[]"] by (simp add: new_LogFormatter_eq Let_def)
qed

theorem pattern_roundtrip_witness:
  "new_LogFormatter ''%d{%H}: %m'' =
    (\<lparr>fmt_pattern = ''%d{%H}: %m'',
      fmt_items = [DateTimeFormatItem ''%H'', StringFormatItem '': '', MessageFormatItem],
      fmt_error = False\<rparr>, [])"
  using pattern_roundtrip [of "[Fmt ''d'' (Some ''%H''), Lit '': '', Fmt ''m'' None]"]
  by (auto simp: is_alpha_def is_upper_def is_lower_def item_of_triple_def format_items_table_def
      new_DateTimeFormatItem_def)

text \<open>
  Parsing loses no character: if the constructor reports nothing on the console (no brace
  stays open), the pattern is the text of a list of pieces, and the items are those of these
  pieces in order.
\<close>

theorem pattern_lossless:
  assumes "snd (new_LogFormatter p) = []"
  shows "\<exists>ps. render_all ps = p \<and>
    fmt_items (fst (new_LogFormatter p)) = map (item_of_triple \<circ> triple_of) ps"
proof -
  let ?r = "parse_loop p 0 parse_start"
  have "\<not> fp_error ?r"
    using assms loop_reports [of parse_start p 0] by (simp add: new_LogFormatter_eq Let_def)
  moreover have "consumed p 0 parse_start" by (simp add: consumed_def)
  ultimately have "consumed p (length p) ?r" by (rule loop_consumes [rotated])
  then obtain ps where ps: "fp_vec ?r = map triple_of ps" "render_all ps @ fp_nstr ?r = p"
    by (auto simp: consumed_def)
  let ?qs = "ps @ (if fp_nstr ?r = [] then [] else [Lit (fp_nstr ?r)])"
  have "render_all ?qs = p" and "fp_vec (flush_tail ?r) = map triple_of ?qs"
    using ps by auto
  then show ?thesis by (auto simp: new_LogFormatter_eq Let_def intro!: exI [of _ ?qs])
qed

theorem pattern_lossless_witness:
  "\<exists>ps. render_all ps = ''%%d'' \<and>
    fmt_items (fst (new_LogFormatter ''%%d'')) = map (item_of_triple \<circ> triple_of) ps"
  by (rule pattern_lossless) code_simp

text \<open>The pieces of the default pattern, and what its formatter is.\<close>

definition default_pieces :: "piece list" where
  "default_pieces =
     [Fmt ''d'' (Some ''%Y-%m-%d %H:%M:%S''), Fmt ''T'' None, Fmt ''t'' None, Fmt ''T'' None,
      Fmt ''N'' None, Fmt ''T'' None, Fmt ''F'' None, Fmt ''T'' None, Lit ''['', Fmt ''p'' None,
      Lit '']'', Fmt ''T'' None, Lit ''['', Fmt ''c'' None, Lit '']'', Fmt ''T'' None,
      Fmt ''f'' None, Lit '':'', Fmt ''l'' None, Fmt ''T'' None, Fmt ''m'' None, Fmt ''n'' None]"

lemma default_formatter:
  "new_LogFormatter default_pattern =
    (\<lparr>fmt_pattern = default_pattern,
      fmt_items =
        [DateTimeFormatItem ''%Y-%m-%d %H:%M:%S'', TabFormatItem [], ThreadIdFormatItem,
         TabFormatItem [], ThreadNameFormatItem, TabFormatItem [], FiberIdFormatItem,
         TabFormatItem [], StringFormatItem ''['', LevelFormatItem, StringFormatItem '']'',
         TabFormatItem [], StringFormatItem ''['', NameFormatItem, StringFormatItem '']'',
         TabFormatItem [], FilenameFormatItem, StringFormatItem '':'', LineFormatItem,
         TabFormatItem [], MessageFormatItem, NewLineFormatItem],
      fmt_error = False\<rparr>, [])"
  by code_simp

text \<open>
  Where the last character is a percent sign, the run reaches it outside a braced text or ends
  in an open brace: either way there is an error.
\<close>

lemma scan_before_percent:
  assumes "scan_item p i n st b str fmt = (n', 0, r)" and "st \<le> 1"
    and "n < length p" and "last p = CHR ''%''"
  shows "n' < length p"
  using assms(1-3)
proof (induction "length p - n" arbitrary: n st b str fmt rule: less_induct)
  case less
  have inner: "n + 1 < length p" if "p ! n \<noteq> CHR ''%''"
    using that less.prems(3) assms(4) last_nth [of n p] by (cases "n + 1 = length p") auto
  have IH: "scan_item p i (n + 1) st' b' str' fmt' = (n', 0, r) \<Longrightarrow> st' \<le> 1 \<Longrightarrow>
      n + 1 < length p \<Longrightarrow> n' < length p" for st' b' str' fmt'
    using less.hyps [of "n + 1" st' b' str' fmt'] by simp
  show ?case
  proof (cases rule: scan_cases [where n = n and p = p and st = st])
    case at_open
    then show ?thesis using less.prems(1) IH inner by (simp add: scan_open)
  next
    case going
    show ?thesis
    proof (cases "n + 1 < length p")
      case True
      then show ?thesis using less.prems scan_step [OF going] IH by (simp split: if_splits)
    next
      case False
      then have "p ! n = CHR ''%''" using inner by blast
      then show ?thesis using going less.prems False scan_step [OF going] by (auto simp: scan_end)
    qed
  qed (use less.prems inner in \<open>auto simp: scan_end scan_break scan_close\<close>)
qed

lemma bad_empty_name [simp]: "bad_triple ([], fmt, Suc 0)"
  by (simp add: bad_triple_def format_items_table_def)

lemma loop_trailing_percent:
  assumes "i < length p" and "last p = CHR ''%''"
  shows "fp_error (parse_loop p i s) \<or> (\<exists>fmt. ([], fmt, 1) \<in> set (fp_vec (parse_loop p i s)))"
  using assms
proof (induction "length p - i" arbitrary: i s rule: less_induct)
  case less
  have IH: "i < k \<Longrightarrow> k < length p \<Longrightarrow>
      fp_error (parse_loop p k s') \<or> (\<exists>fmt. ([], fmt, 1) \<in> set (fp_vec (parse_loop p k s')))" for k s'
    using less.hyps [of k s'] less.prems by (simp add: diff_less_mono2)
  show ?case
  proof (cases rule: loop_cases [where p = p and i = i])
    case char
    then have "i + 1 \<noteq> length p" using less.prems last_nth [of i p] by auto
    then show ?thesis using char IH by (simp add: loop_char)
  next
    case (item n str fmt)
    show ?thesis
    proof (cases "i + 1 < length p")
      case True
      then have "n < length p" using scan_before_percent [OF item(4)] less.prems by simp
      moreover have "i < n" using item by (auto dest: scan_item_geD)
      ultimately show ?thesis using item IH by (simp add: loop_item)
    next
      case False
      then have "str = []" using item(4) by (simp add: scan_end)
      then show ?thesis
        using item loop_keeps_vec [of "push_item [] fmt s" p n] by (auto simp: loop_item)
    qed
  next
    case (error n str fmt)
    then show ?thesis using loop_keeps_error [of "push_error p i fmt s"] by (simp add: loop_error)
  qed (use less.prems IH in \<open>simp_all add: loop_percent\<close>)
qed

text \<open>The inner loop on a brace that is not closed.\<close>

lemma scan_unclosed:
  assumes "CHR ''}'' \<notin> set g" and "p = pre @ g"
  shows "\<exists>str'. scan_item p i (length pre) (Suc 0) b str [] = (length p, Suc 0, str', [])"
  using assms
proof (induction g arbitrary: pre str)
  case Nil
  then show ?case by (simp add: scan_end)
next
  case (Cons c g)
  have "p ! length pre = c" and "length pre < length p" using Cons.prems by simp_all
  then have "\<exists>str'. scan_item p i (length pre) (Suc 0) b str [] =
      scan_item p i (length (pre @ [c])) (Suc 0) b str' []"
    using Cons.prems(1) scan_step [of "length pre" p "Suc 0" i b str "[]"] by auto
  then show ?case using Cons.prems Cons.IH [of "pre @ [c]"] by auto
qed

lemma scan_open_brace:
  assumes "\<forall>c \<in> set nm. is_alpha c" and "CHR ''}'' \<notin> set g" and p: "p = t @ ''%'' @ nm @ ''{'' @ g"
  shows "\<exists>n str. scan_item p (length t) (length t + 1) 0 0 [] [] = (n, Suc 0, str, [])"
proof -
  let ?i = "length t"
  have "scan_item p ?i (length (t @ ''%'')) 0 0 [] [] = scan_item p ?i (length ((t @ ''%'') @ nm)) 0 0 [] []"
    using assms by (intro scan_name [where rest = "''{'' @ g"]) simp_all
  moreover have "\<exists>str. scan_item p ?i (length ((t @ ''%'') @ nm)) 0 0 [] [] =
      scan_item p ?i (length ((t @ ''%'') @ nm @ ''{'')) (Suc 0) (length ((t @ ''%'') @ nm)) str []"
    using p by (auto simp: scan_open nth_append)
  moreover have "\<exists>str'. scan_item p ?i (length ((t @ ''%'') @ nm @ ''{'')) (Suc 0) b str [] =
      (length p, Suc 0, str', [])" for b str
    using scan_unclosed [of g p "(t @ ''%'') @ nm @ ''{''" ?i b str] assms by simp
  ultimately show ?thesis by fastforce
qed

text \<open>
  The pattern every appender starts with has no error, and formatting an event with it
  writes, in order: the local time, the thread id, the thread name, the fiber id, the level in
  brackets, the name of the logger in brackets, file and line, and the message, separated by
  tabulators and ended by a newline.
\<close>

theorem default_pattern_output:
  "(case new_LogFormatter default_pattern of (f, out) \<Rightarrow>
      \<not> fmt_error f \<and> out = [] \<and>
      formatter_string ck f name level e =
        (case safe_localtime ck (ev_time e) of
           None \<Rightarrow> [] | Some tm \<Rightarrow> strftime ck 80 ''%Y-%m-%d %H:%M:%S'' tm) @ tabulator @
        nat_str (unat (ev_threadId e)) @ tabulator @ ev_threadName e @ tabulator @
        nat_str (unat (ev_fiberId e)) @ tabulator @
        ''['' @ level_to_string level @ '']'' @ tabulator @ ''['' @ name @ '']'' @ tabulator @
        ev_file e @ '':'' @ int_str (sint (ev_line e)) @ tabulator @ ev_content e @ newline)"
  by (simp add: default_formatter formatter_string_def formatter_format_concat)

text \<open>
  A pattern that ends in a percent sign is always in error, also when the sign before it is
  meant to escape it.
\<close>

theorem trailing_percent_error: "fmt_error (fst (new_LogFormatter (p @ ''%'')))"
  using loop_trailing_percent [of 0 "p @ ''%''" parse_start]
  by (force simp: new_LogFormatter_eq Let_def)

text \<open>
  Two percent signs do not stand for one: after ordinary text, two percent signs followed by
  a character that is no letter, brace or percent sign (or by the end of the pattern) are in
  error, whatever follows.
\<close>

theorem percent_escape_error:
  assumes "CHR ''%'' \<notin> set t" and "ends_name rest" and "rest = [] \<or> hd rest \<noteq> CHR ''%''"
  shows "fmt_error (fst (new_LogFormatter (t @ ''%%'' @ rest)))"
proof -
  let ?p = "t @ ''%%'' @ rest" and ?i = "length t + 1"
  have "scan_item ?p ?i (?i + 1) 0 0 [] [] = (?i + 1, 0, [], [])"
    using assms(2) by (cases rest) (simp_all add: scan_end scan_break nth_append substr_def)
  moreover have "\<not> (?i + 1 < length ?p \<and> ?p ! (?i + 1) = CHR ''%'')"
    using assms(3) by (cases rest) (simp_all add: nth_append)
  ultimately have "parse_loop ?p ?i s = parse_loop ?p (?i + 1) (push_item [] [] s)" for s
    by (intro loop_item) (simp_all add: nth_append)
  moreover obtain s where "parse_loop ?p 0 parse_start = parse_loop ?p ?i s"
    using loop_lit [OF assms(1), of "[]" "''%%'' @ rest" parse_start]
    by (auto simp: loop_percent nth_append)
  ultimately have "([], [], 1) \<in> set (fp_vec (parse_loop ?p 0 parse_start))"
    using loop_keeps_vec [of "push_item [] [] s" ?p "?i + 1"] by auto
  then show ?thesis by (force simp: new_LogFormatter_eq Let_def)
qed

theorem percent_escape_error_witness: "fmt_error (fst (new_LogFormatter ''100%% done''))"
  using percent_escape_error [of "''100''" "'' done''"]
  by (simp add: is_alpha_def is_upper_def is_lower_def)

text \<open>
  An open brace: the error marker is placed before the ordinary text that precedes the item
  in the pattern, and the item's percent sign is dropped while its name and brace become ordinary
  text.
\<close>

theorem unclosed_brace_items:
  assumes "CHR ''%'' \<notin> set (t @ nm @ g)" and "nm \<noteq> []" and "\<forall>c \<in> set nm. is_alpha c"
    and "CHR ''}'' \<notin> set g"
  shows "fmt_items (fst (new_LogFormatter (t @ ''%'' @ nm @ ''{'' @ g))) =
      [StringFormatItem ''<<pattern_error>>'', StringFormatItem (t @ nm @ ''{'' @ g)] \<and>
    fmt_error (fst (new_LogFormatter (t @ ''%'' @ nm @ ''{'' @ g)))"
proof -
  let ?p = "t @ ''%'' @ nm @ ''{'' @ g" and ?i = "length t"
  let ?s = "parse_start\<lparr>fp_nstr := t\<rparr>"
  obtain n str where scan: "scan_item ?p ?i (?i + 1) 0 0 [] [] = (n, Suc 0, str, [])"
    using scan_open_brace [of nm g ?p t] assms by auto
  obtain c nm' where nm: "nm = c # nm'" using assms(2) by (cases nm) auto
  have "parse_loop ?p 0 parse_start = parse_loop ?p ?i ?s"
    using loop_lit [of t "[]" "''%'' @ nm @ ''{'' @ g" parse_start] assms(1) by simp
  also have "\<dots> = parse_loop ?p (?i + 1) (push_error ?p ?i [] ?s)"
    using scan assms(1) nm by (intro loop_error) (auto simp: nth_append)
  also have "\<dots> = (push_error ?p ?i [] ?s)\<lparr>fp_nstr := t @ nm @ ''{'' @ g\<rparr>"
    using loop_lit [of "nm @ ''{'' @ g" "t @ ''%''" "[]" "push_error ?p ?i [] ?s"] assms(1)
    by (simp add: loop_end)
  finally show ?thesis
    by (simp add: new_LogFormatter_eq Let_def item_of_triple_def)
qed

theorem unclosed_brace_items_witness:
  "fmt_items (fst (new_LogFormatter ''at %d{H'')) =
      [StringFormatItem ''<<pattern_error>>'', StringFormatItem ''at d{H''] \<and>
    fmt_error (fst (new_LogFormatter ''at %d{H''))"
  using unclosed_brace_items [of "''at ''" "''d''" "''H''"]
  by (simp add: is_alpha_def is_upper_def is_lower_def)

end
