(* ===== verification/ConfigProps.thy ===== *)
theory ConfigProps
  imports ConfigBehaviour Registry
begin

text \<open>The properties of configuration variables and their registry.\<close>

section \<open>Values after a load\<close>

text \<open>Listeners that never object, the text of a node, and what a variable takes from a text.\<close>

definition never_vetoes :: "'v ConfigVar \<Rightarrow> bool" where
  "never_vetoes v \<longleftrightarrow> (\<forall>(k, cb) \<in> set (cv_cbs v). \<forall>old new s. logsys_ok s \<longrightarrow>
     (\<exists>s'. call_cb cb old new s = (Inr (), s') \<and> logsys_ok s'))"

definition node_text :: "'n yaml \<Rightarrow> 'n \<Rightarrow> string" where
  "node_text y n = (if y_is_scalar y n then projr (y_scalar y n) else y_emit y n)"

definition new_value :: "'v cv_type \<Rightarrow> string \<Rightarrow> 'v \<Rightarrow> 'v" where
  "new_value ty tx old =
     (case ty_from ty tx of Inl _ \<Rightarrow> old | Inr x \<Rightarrow> if ty_eq ty old x then old else x)"

lemma notify_returns:
  assumes "never_vetoes v" and "logsys_ok s"
  shows "\<exists>s'. notify v val s = (Inr (), s') \<and> logsys_ok s'"
  unfolding notify_def
proof (rule forA_returns [where P = logsys_ok])
  fix x t assume x: "x \<in> set (cv_cbs v)" and t: "logsys_ok t"
  obtain k cb where k: "x = (k, cb)" by (cases x)
  then have "\<exists>t'. call_cb cb (cv_val v) val t = (Inr (), t') \<and> logsys_ok t'"
    using assms(1) x t unfolding never_vetoes_def by fast
  then show "\<exists>t'. (case x of (k, cb) \<Rightarrow> call_cb cb (cv_val v) val) t = (Inr (), t') \<and> logsys_ok t'"
    using k by simp
qed (rule assms(2))

lemma accepts_new_value:
  assumes "never_vetoes v" and "logsys_ok s"
  shows "(case accepts v tx s of None \<Rightarrow> cv_val v | Some x \<Rightarrow> x) = new_value (cv_type v) tx (cv_val v)"
proof (cases "ty_from (cv_type v) tx")
  case (Inr x)
  obtain s' where "notify v x (printed (ty_prints (cv_type v) tx) s) = (Inr (), s')"
    using notify_returns [OF assms(1) printed_ok [OF assms(2)]] by blast
  then show ?thesis using Inr by (simp add: accepts_def new_value_def)
qed (simp add: accepts_def new_value_def)

lemma never_vetoes_val [simp]: "never_vetoes (v\<lparr>cv_val := x\<rparr>) = never_vetoes v"
  by (simp add: never_vetoes_def)

lemma load_member_var:
  assumes "config_ok c" and "map_of (cf_datas c) name = Some a" and "cf_vars c a = Some v" and "never_vetoes v"
    and "valid_name p" and "y_is_scalar y n \<Longrightarrow> \<exists>t. y_scalar y n = Inr t" and "name \<noteq> []"
  shows "\<exists>c'. load_member y le (p, n) c = (Inr (), c') \<and> config_ok c' \<and> cf_datas c' = cf_datas c \<and>
    cf_vars c' a = Some (v\<lparr>cv_val := if p = name then new_value (cv_type v) (node_text y n) (cv_val v) else cv_val v\<rparr>)"
proof (cases "p = [] \<or> map_of (cf_datas c) p = None")
  case True
  then show ?thesis
    using assms by (auto simp: load_member_def LookupBase_def name_chars_lower [OF assms(5)])
next
  case False
  then obtain b w where b: "map_of (cf_datas c) p = Some b" "cf_vars c b = Some w" "cv_name w = p"
    using config_okD(4) [OF assms(1), of p] by blast
  have "cv_name v = name" using config_okD(4) [OF assms(1,2)] assms(3) by auto
  then have same: "b = a \<longleftrightarrow> p = name" using b assms(2,3) by auto
  obtain c' where c': "ConfigVar_fromString le b (node_text y n) c = (Inr (accepts w (node_text y n) (cf_log c) \<noteq> None), c')"
      "only_log (put_var b (w\<lparr>cv_val := (case accepts w (node_text y n) (cf_log c) of None \<Rightarrow> cv_val w | Some x \<Rightarrow> x)\<rparr>) c) c'"
    using fromString_result [OF assms(1) b(2), of le "node_text y n"] by blast
  have "load_member y le (p, n) c = (Inr (), c')"
    using False b(1) c'(1) assms(6)
    by (cases "y_is_scalar y n")
      (auto simp: load_member_def LookupBase_def name_chars_lower [OF assms(5)] node_text_def bindA_def returnA_def)
  moreover have "config_ok c'" using fromString_ok [OF assms(1) b(2), of le "node_text y n"] c'(1) by simp
  moreover have "cf_datas c' = cf_datas c" using only_log_same [OF c'(2)] by (simp add: put_var_def)
  moreover have "cf_vars c' a = Some (v\<lparr>cv_val := if p = name then new_value (cv_type v) (node_text y n) (cv_val v) else cv_val v\<rparr>)"
    using only_log_same [OF c'(2)] same b(2) assms(3)
      accepts_new_value [OF assms(4) config_okD(1) [OF assms(1)], of "node_text y n"]
    by (cases "p = name") (auto simp: put_var_def)
  ultimately show ?thesis by blast
qed

definition loaded_value :: "'n yaml \<Rightarrow> string \<Rightarrow> 'v cv_type \<Rightarrow> (string \<times> 'n) list \<Rightarrow> 'v \<Rightarrow> 'v" where
  "loaded_value y name ty ms old =
     fold (\<lambda>(p, n) x. if p = name then new_value ty (node_text y n) x else x) ms old"

lemma load_members_var:
  assumes "config_ok c" and "map_of (cf_datas c) name = Some a" and "cf_vars c a = Some v" and "never_vetoes v"
    and "\<forall>(p, n) \<in> set ms. valid_name p \<and> (y_is_scalar y n \<longrightarrow> (\<exists>t. y_scalar y n = Inr t))" and "name \<noteq> []"
  shows "\<exists>c'. forA (load_member y le) ms c = (Inr (), c') \<and> config_ok c' \<and>
    cf_vars c' a = Some (v\<lparr>cv_val := loaded_value y name (cv_type v) ms (cv_val v)\<rparr>)"
  using assms
proof (induction ms arbitrary: c v)
  case Nil
  then show ?case by (simp add: loaded_value_def)
next
  case (Cons m ms)
  obtain p n where m: "m = (p, n)" by (cases m)
  let ?v = "v\<lparr>cv_val := if p = name then new_value (cv_type v) (node_text y n) (cv_val v) else cv_val v\<rparr>"
  have pn: "valid_name p" "y_is_scalar y n \<Longrightarrow> \<exists>t. y_scalar y n = Inr t" using Cons.prems(5) m by auto
  obtain c1 where c1: "load_member y le (p, n) c = (Inr (), c1)" "config_ok c1" "cf_datas c1 = cf_datas c" "cf_vars c1 a = Some ?v"
    using load_member_var [OF Cons.prems(1-4) pn Cons.prems(6), of le] by blast
  have "\<exists>c'. forA (load_member y le) ms c1 = (Inr (), c') \<and> config_ok c' \<and>
      cf_vars c' a = Some (?v\<lparr>cv_val := loaded_value y name (cv_type ?v) ms (cv_val ?v)\<rparr>)"
    using Cons.prems c1 by (intro Cons.IH) auto
  then show ?case using c1(1) m by (auto simp: bindA_def loaded_value_def)
qed

text \<open>
  C3. Loading a document: for every document of bounded depth \<open>LoadFromYaml\<close> returns normally,
  whatever the texts in it are, and a registered variable whose listeners do not object ends with
  the value that the members of its name, taken in document order, leave one after the other: a
  text that does not convert, or converts to an equal value, leaves the old one.
\<close>

theorem LoadFromYaml_values:
  assumes "config_ok c" and "LookupBase name c = Some a" and "cf_vars c a = Some v" and "never_vetoes v"
    and "document d y root" and "name \<noteq> []"
  shows "\<exists>c'. LoadFromYaml d y le root c = (Inr (), c') \<and> config_ok c' \<and>
    cf_vars c' a = Some (v\<lparr>cv_val := loaded_value y name (cv_type v) (members d y [] root) (cv_val v)\<rparr>)"
proof -
  obtain s where s: "ListAllMember d y le [] root ([], cf_log c) = (Inr (), (members d y [] root, s))" "logsys_ok s"
    using ListAllMember_members [OF assms(5) config_okD(1) [OF assms(1)], of le "[]" "[]"] by auto
  have "\<forall>(p, n) \<in> set (members d y [] root). valid_name p \<and> (y_is_scalar y n \<longrightarrow> (\<exists>t. y_scalar y n = Inr t))"
    using members_valid [of _ _ d y "[]" root] members_document [OF assms(5)] by blast
  then show ?thesis
    using load_members_var [OF config_ok_log [OF assms(1) s(2)], of name a v "members d y [] root" y le] assms s
    by (simp add: LoadFromYaml_def LookupBase_def)
qed

text \<open>A registry with one string variable, to evaluate with.\<close>

definition string_type :: "string cv_type" where
  "string_type = \<lparr>ty_id = ''s'', ty_name = ''string'', ty_from = Inr, ty_prints = (\<lambda>t. []), ty_to = Inr, ty_eq = (=)\<rparr>"

definition some_site :: log_site where
  "some_site = \<lparr>site_file = ''a.cpp'', site_line = 1, site_thread = 1, site_fiber = 0, site_time = 0, site_thread_name = ''main''\<rparr>"

definition some_env :: "unit log_env" where
  "some_env = \<lparr>le_clock = \<lparr>localtime_r = (\<lambda>t. Some ()), strftime = (\<lambda>n f tm. f)\<rparr>,
     le_disk = \<lparr>can_open = (\<lambda>f. True), can_write = (\<lambda>f. True)\<rparr>, le_site = some_site\<rparr>"

definition config_empty :: "logsys \<Rightarrow> 'v config" where
  "config_empty s = \<lparr>cf_vars = Map.empty, cf_next = 0, cf_datas = [], cf_func_id = (\<lambda>t. 0), cf_log = s\<rparr>"

lemma config_empty_ok: "logsys_ok s \<Longrightarrow> config_ok (config_empty s)"
  by (simp add: config_ok_def config_empty_def fresh_in_def)

definition one_var :: "string config" where
  "one_var = (put_var 0 (new_ConfigVar string_type ''x'' ''a.b'' []) (config_empty (projr (logsys_start (\<lambda>f. [])))))
     \<lparr>cf_next := 1, cf_datas := [(''a.b'', 0)]\<rparr>"

lemma string_type_ok: "type_ok string_type"
  by (simp add: type_ok_def string_type_def)

lemma one_var_ok: "config_ok one_var"
proof -
  obtain s where s: "logsys_start (\<lambda>f. []) = Inr s" by (simp add: logsys_start_eq)
  have "valid_name ''a.b''" by (simp add: valid_name_def name_chars_def)
  then show ?thesis
    using config_ok_new [OF config_empty_ok [OF logsys_start_ok [OF s]] _ _ string_type_ok, of "''a.b''" "''x''" "[]"] s
    by (simp add: one_var_def config_empty_def)
qed

definition small_yaml :: "tree yaml" where
  "small_yaml = tree_yaml []"

definition small_doc :: tree where
  "small_doc = Tmap [(Tscalar ''a'', Tmap [(Tscalar ''b'', Tscalar ''y'')])]"

theorem LoadFromYaml_values_witness:
  "\<exists>c'. LoadFromYaml 4 small_yaml some_env small_doc one_var = (Inr (), c') \<and>
    map_option cv_val (cf_vars c' 0) = Some ''y''"
proof -
  let ?v = "new_ConfigVar string_type ''x'' ''a.b'' []"
  have doc: "document 4 small_yaml small_doc"
    by (simp add: eval_nat_numeral small_yaml_def small_doc_def tree_yaml_def)
  have "members 4 small_yaml [] small_doc = [([], small_doc), (''a'', Tmap [(Tscalar ''b'', Tscalar ''y'')]), (''a.b'', Tscalar ''y'')]"
    by (simp add: eval_nat_numeral small_yaml_def small_doc_def tree_yaml_def valid_name_def name_chars_def join_name_def)
  then have val: "loaded_value small_yaml ''a.b'' string_type (members 4 small_yaml [] small_doc) ''x'' = ''y''"
    by (simp add: loaded_value_def new_value_def node_text_def string_type_def small_yaml_def tree_yaml_def)
  have "LookupBase ''a.b'' one_var = Some 0" "cf_vars one_var 0 = Some ?v" "never_vetoes ?v"
    by (simp_all add: one_var_def LookupBase_def put_var_def never_vetoes_def new_ConfigVar_def)
  from LoadFromYaml_values [OF one_var_ok this doc, of some_env] show ?thesis
    using val by (auto simp: new_ConfigVar_def)
qed


text \<open>
  Only members whose whole dotted name consists of lower-case letters, digits, dots and
  underscores are loaded: a member with any other character is left out together with everything
  below it, so the conversion of names to lower case that follows never changes a name, and a key
  written in upper case never reaches its variable.
\<close>

theorem loaded_names_are_lower_case:
  assumes "document d y root" and "logsys_ok s" and "(p, n) \<in> set (members d y [] root)"
  shows "\<exists>s'. ListAllMember d y le [] root ([], s) = (Inr (), (members d y [] root, s')) \<and>
    set p \<subseteq> set name_chars \<and> map to_lower p = p"
  using ListAllMember_members [OF assms(1,2), of le "[]" "[]"] members_valid [OF assms(3)]
  by (auto simp: valid_name_def name_chars_lower [unfolded valid_name_def])

definition upper_doc :: tree where
  "upper_doc = Tmap [(Tscalar ''A'', Tscalar ''y''), (Tscalar ''b'', Tscalar ''z'')]"

theorem loaded_names_are_lower_case_witness:
  "members 3 small_yaml [] upper_doc = [([], upper_doc), (''b'', Tscalar ''z'')] \<and> map to_lower ''b'' = ''b''"
proof -
  have m: "members 3 small_yaml [] upper_doc = [([], upper_doc), (''b'', Tscalar ''z'')]"
    by (simp add: eval_nat_numeral small_yaml_def upper_doc_def tree_yaml_def valid_name_def name_chars_def join_name_def)
  have doc: "document 3 small_yaml upper_doc"
    by (simp add: eval_nat_numeral small_yaml_def upper_doc_def tree_yaml_def)
  obtain s where s: "logsys_start (\<lambda>f. []) = Inr s" by (simp add: logsys_start_eq)
  show ?thesis
    using loaded_names_are_lower_case [OF doc logsys_start_ok [OF s], of "''b''" "Tscalar ''z''" some_env] m by simp
qed

section \<open>Assigning from text\<close>

text \<open>
  C6. \<open>fromString\<close> is all or nothing: it always returns, it answers true exactly when the text
  converts and no listener throws, called after what the conversion prints (or the value is equal to the
  old one, and then no listener is called), in which case the variable holds the new value; otherwise the variable keeps its value.
  No other variable, name or listener changes.
\<close>

theorem fromString_all_or_nothing:
  assumes "config_ok c" and "cf_vars c a = Some v"
  shows "\<exists>b c'. ConfigVar_fromString le a tx c = (Inr b, c') \<and> config_ok c' \<and>
    (b \<longleftrightarrow> (\<exists>x. ty_from (cv_type v) tx = Inr x \<and>
       (ty_eq (cv_type v) (cv_val v) x \<or> (\<exists>s. notify v x (printed (ty_prints (cv_type v) tx) (cf_log c)) = (Inr (), s))))) \<and>
    cf_vars c' = (cf_vars c)(a \<mapsto> v\<lparr>cv_val := if b then new_value (cv_type v) tx (cv_val v) else cv_val v\<rparr>) \<and>
    cf_datas c' = cf_datas c \<and> cf_func_id c' = cf_func_id c"
proof -
  let ?o = "accepts v tx (cf_log c)"
  obtain c' where c': "ConfigVar_fromString le a tx c = (Inr (?o \<noteq> None), c')"
      "only_log (put_var a (v\<lparr>cv_val := (case ?o of None \<Rightarrow> cv_val v | Some x \<Rightarrow> x)\<rparr>) c) c'"
    using fromString_result [OF assms] by blast
  have acc: "(?o \<noteq> None \<longleftrightarrow> (\<exists>x. ty_from (cv_type v) tx = Inr x \<and>
      (ty_eq (cv_type v) (cv_val v) x \<or> (\<exists>s. notify v x (printed (ty_prints (cv_type v) tx) (cf_log c)) = (Inr (), s))))) \<and>
      (case ?o of None \<Rightarrow> cv_val v | Some x \<Rightarrow> x) = (if ?o \<noteq> None then new_value (cv_type v) tx (cv_val v) else cv_val v)"
  proof (cases "ty_from (cv_type v) tx")
    case (Inr x)
    let ?s = "printed (ty_prints (cv_type v) tx) (cf_log c)"
    obtain r s where "notify v x ?s = (r, s)" by (cases "notify v x ?s")
    then show ?thesis using Inr by (cases r) (simp_all add: accepts_def new_value_def)
  qed (simp add: accepts_def)
  have "config_ok c'" using fromString_ok [OF assms, of le tx] c'(1) by simp
  then show ?thesis using c' acc only_log_same [OF c'(2)] by (auto simp: put_var_def)
qed

theorem fromString_all_or_nothing_witness:
  "\<exists>b c'. ConfigVar_fromString some_env 0 ''z'' one_var = (Inr b, c') \<and> b \<and>
    map_option cv_val (cf_vars c' 0) = Some ''z''"
proof -
  let ?v = "new_ConfigVar string_type ''x'' ''a.b'' []"
  have v: "cf_vars one_var 0 = Some ?v" by (simp add: one_var_def put_var_def)
  show ?thesis
    using fromString_all_or_nothing [OF one_var_ok v, of some_env "''z''"]
    by (auto simp: new_ConfigVar_def string_type_def notify_def new_value_def)
qed

section \<open>Listeners\<close>

text \<open>
  Adding a listener: as long as the 64-bit counter of the type does not wrap, the key it
  returns belongs to no listener of the variable, looking the key up gives the listener, the other
  listeners stay, the new one is called last, and deleting the key restores the listeners.
\<close>

theorem listener_keys:
  assumes "config_ok c" and "cf_vars c a = Some v" and "cf_func_id c (ty_id (cv_type v)) \<noteq> - 1" and "cb_ok cb"
  shows "\<exists>k c'. ConfigVar_addListener a cb c = (Inr k, c') \<and> config_ok c' \<and>
    ConfigVar_getListener a k c = Inr None \<and> ConfigVar_getListener a k c' = Inr cb \<and>
    (\<forall>k'. k' \<noteq> k \<longrightarrow> ConfigVar_getListener a k' c' = ConfigVar_getListener a k' c) \<and>
    (\<exists>w. cf_vars c' a = Some w \<and> cv_cbs w = cv_cbs v @ [(k, cb)]) \<and>
    (\<exists>c''. ConfigVar_delListener a k c' = (Inr (), c'') \<and> config_ok c'' \<and> cf_vars c'' = cf_vars c)"
proof -
  let ?k = "cf_func_id c (ty_id (cv_type v)) + 1"
  obtain c' where c': "ConfigVar_addListener a cb c = (Inr ?k, c')" "config_ok c'" "map_of (cv_cbs v) ?k = None"
      "c' = put_var a (v\<lparr>cv_cbs := map_put ?k cb (cv_cbs v)\<rparr>) (c\<lparr>cf_func_id := (cf_func_id c)(ty_id (cv_type v) := ?k)\<rparr>)"
    using addListener_result [OF assms] by (auto simp: Let_def)
  have v: "var_ok (cf_func_id c) v" by (rule config_okD(5) [OF assms(1,2)])
  have "\<forall>k' \<in> fst ` set (cv_cbs v). k' < ?k"
    using v less_inc_word [OF assms(3)] unfolding var_ok_def by fastforce
  then have put: "map_put ?k cb (cv_cbs v) = cv_cbs v @ [(?k, cb)]" by (rule map_put_last)
  have w: "cf_vars c' a = Some (v\<lparr>cv_cbs := cv_cbs v @ [(?k, cb)]\<rparr>)" by (simp add: c'(4) put put_var_def)
  have gone: "map_erase ?k (cv_cbs v @ [(?k, cb)]) = cv_cbs v"
    using c'(3) by (force simp: map_erase_def map_of_eq_None_iff intro!: filter_True)
  have "ConfigVar_delListener a ?k c' = (Inr (), put_var a v c')"
    using w gone by (simp add: ConfigVar_delListener_def on_var_def)
  moreover have "config_ok (put_var a v c')"
    using delListener_ok(1) [OF c'(2) w, of ?k] calculation by simp
  moreover have "cf_vars (put_var a v c') = cf_vars c" using assms(2) by (simp add: c'(4) put_var_def fun_upd_idem)
  ultimately show ?thesis
    using c'(1,2,3) w assms(2)
    by (auto simp: ConfigVar_getListener_def on_var_def returnA_def map_add_def split: option.splits)
qed

theorem listener_keys_witness:
  "\<exists>c'. ConfigVar_addListener 0 None one_var = (Inr 1, c') \<and> ConfigVar_getListener 0 1 c' = Inr None"
proof -
  let ?v = "new_ConfigVar string_type ''x'' ''a.b'' []"
  have v: "cf_vars one_var 0 = Some ?v" by (simp add: one_var_def put_var_def)
  have id: "cf_func_id one_var (ty_id (cv_type ?v)) \<noteq> - 1" by (simp add: one_var_def config_empty_def put_var_def)
  have "fst (ConfigVar_addListener 0 None one_var) = Inr 1"
    by (simp add: ConfigVar_addListener_def on_var_def Let_def one_var_def config_empty_def put_var_def)
  moreover obtain k c' where "ConfigVar_addListener 0 None one_var = (Inr k, c')" "ConfigVar_getListener 0 k c' = Inr None"
    using listener_keys [OF one_var_ok v id cb_ok_empty] by blast
  ultimately show ?thesis by auto
qed


section \<open>The registry\<close>

text \<open>
  C7. \<open>Lookup\<close> in every case: an unknown valid name gets a new variable with the default value and
  no listener, filed under its name; an unknown name with a character outside the allowed ones
  throws \<open>std::invalid_argument\<close> with the name; a known name gives its variable when the type is
  the same, and a null pointer when it is another. In the last three cases nothing changes but
  the log.
\<close>

theorem Lookup_outcomes:
  assumes "config_ok c" and "type_ok ty"
  shows "\<exists>r c'. Lookup le ty dv name ds c = (r, c') \<and> config_ok c' \<and>
    (case LookupBase name c of
       Some a \<Rightarrow> only_log c c' \<and> r = Inr (if Lookup_typed ty name c = None then None else Some a)
     | None \<Rightarrow>
         if set name \<subseteq> set name_chars
         then r = Inr (Some (cf_next c)) \<and> cf_vars c (cf_next c) = None \<and>
           cf_vars c' = (cf_vars c)(cf_next c \<mapsto>
             \<lparr>cv_name = name, cv_description = ds, cv_type = ty, cv_val = dv, cv_cbs = []\<rparr>) \<and>
           (\<forall>n. LookupBase n c' = (if n = name then Some (cf_next c) else LookupBase n c)) \<and> cf_log c' = cf_log c
         else only_log c c' \<and> r = Inl (Throw (Invalid_argument name)))"
proof (cases "map_of (cf_datas c) name")
  case None
  show ?thesis
  proof (cases "valid_name name")
    case True
    have "cf_vars c (cf_next c) = None" using fresh_in_None [OF config_okD(2) [OF assms(1)]] .
    then show ?thesis
      using config_ok_new [OF assms(1) None True assms(2), of dv ds] None True name_chars_lower [OF True]
      unfolding Lookup_new [OF None True]
      by (auto simp: LookupBase_def valid_name_def put_var_def new_ConfigVar_def)
  next
    case False
    then show ?thesis
      using Lookup_invalid [OF assms(1) None False, of le ty dv ds] only_log_ok [OF assms(1)] None
      by (auto simp: LookupBase_def valid_name_def)
  qed
next
  case (Some a)
  then obtain v where v: "cf_vars c a = Some v" using config_okD(4) [OF assms(1)] by blast
  then show ?thesis
    using Lookup_found [OF assms(1) Some v, of le ty dv ds] only_log_ok [OF assms(1)] Some
    by (auto simp: LookupBase_def Lookup_typed_def)
qed

theorem Lookup_outcomes_witness:
  "\<exists>c'. Lookup some_env string_type ''d'' ''Bad'' [] one_var = (Inl (Throw (Invalid_argument ''Bad'')), c') \<and> config_ok c'"
  using Lookup_outcomes [OF one_var_ok string_type_ok, of some_env "''d''" "''Bad''" "[]"]
  by (auto simp: LookupBase_def one_var_def name_chars_def)

definition lookup_ptr ::
  "'tm log_env \<Rightarrow> 'v cv_type \<Rightarrow> 'v \<Rightarrow> string \<Rightarrow> string \<Rightarrow> 'v config \<Rightarrow> (addr option \<times> 'v config) outcome" where
  "lookup_ptr le ty dv ds name c =
     (case Lookup le ty dv name ds c of (Inl e, _) \<Rightarrow> Inl e | (Inr a, c') \<Rightarrow> Inr (a, c'))"

definition types_known :: "'v cv_type \<Rightarrow> 'v config \<Rightarrow> bool" where
  "types_known ty c \<longleftrightarrow> config_ok c \<and> type_ok ty"

lemma only_log_typed: "only_log c c' \<Longrightarrow> (\<lambda>n. Lookup_typed ty n c') = (\<lambda>n. Lookup_typed ty n c)"
  by (auto simp: only_log_def Lookup_typed_def fun_eq_iff split: option.splits)

interpretation variables: get_or_create "lookup_ptr le ty dv ds" "\<lambda>c n. Lookup_typed ty n c" "types_known ty"
  for le :: "'tm log_env" and ty :: "'v cv_type" and dv ds
proof unfold_locales
  fix c name a
  assume ok: "types_known ty c" and found: "Lookup_typed ty name c = Some a"
  then obtain v where v: "map_of (cf_datas c) name = Some a" "cf_vars c a = Some v" "ty_id (cv_type v) = ty_id ty"
    by (auto simp: Lookup_typed_def split: option.splits if_splits)
  obtain c' where c': "Lookup le ty dv name ds c = (Inr (Some a), c')" "only_log c c'"
    using Lookup_found [of c name a v le ty dv ds] v ok by (auto simp: types_known_def)
  then show "\<exists>c'. lookup_ptr le ty dv ds name c = Inr (Some a, c') \<and>
      (\<lambda>n. Lookup_typed ty n c') = (\<lambda>n. Lookup_typed ty n c) \<and> types_known ty c'"
    using ok only_log_typed [OF c'(2), of ty] only_log_ok [OF _ c'(2)] by (auto simp: lookup_ptr_def types_known_def)
next
  fix c name a c'
  assume ok: "types_known ty c" and none: "Lookup_typed ty name c = None"
    and get: "lookup_ptr le ty dv ds name c = Inr (Some a, c')"
  have c: "config_ok c" "type_ok ty" using ok by (auto simp: types_known_def)
  have l: "Lookup le ty dv name ds c = (Inr (Some a), c')"
    using get by (auto simp: lookup_ptr_def split: prod.splits sum.splits)
  have new: "map_of (cf_datas c) name = None"
  proof (rule ccontr)
    assume "map_of (cf_datas c) name \<noteq> None"
    then obtain b where b: "map_of (cf_datas c) name = Some b" by blast
    then obtain v where v: "cf_vars c b = Some v" using config_okD(4) [OF c(1)] by blast
    then show False
      using Lookup_found [OF c(1) b v, of le ty dv ds] l none b by (auto simp: Lookup_typed_def split: if_splits)
  qed
  then have valid: "valid_name name" using Lookup_invalid [OF c(1) new, of le ty dv ds] l by auto
  have free: "cf_vars c (cf_next c) = None" using fresh_in_None [OF config_okD(2) [OF c(1)]] .
  have "b \<noteq> cf_next c" if "map_of (cf_datas c) n = Some b" for n b
    using config_okD(4) [OF c(1) that] free by auto
  moreover have "cf_datas c' = map_put name a (cf_datas c)" "a = cf_next c"
      "cf_vars c' = (cf_vars c)(a \<mapsto> new_ConfigVar ty dv name ds)"
    using l Lookup_new [OF new valid, of le ty dv ds] by (auto simp: put_var_def)
  ultimately have "Lookup_typed ty n c' = (if n = name then Some a else Lookup_typed ty n c)" for n
    by (cases "map_of (cf_datas c) n") (auto simp: Lookup_typed_def new_ConfigVar_def)
  then have "(\<lambda>n. Lookup_typed ty n c') = (\<lambda>n. Lookup_typed ty n c)(name \<mapsto> a)"
    by (auto simp: fun_eq_iff)
  then show "(\<lambda>n. Lookup_typed ty n c') = (\<lambda>n. Lookup_typed ty n c)(name \<mapsto> a) \<and> types_known ty c'"
    using Lookup_keeps [OF c, of le dv name ds] l c(2) by (simp add: types_known_def keeps_def)
next
  fix c name c'
  assume ok: "types_known ty c" and get: "lookup_ptr le ty dv ds name c = Inr (None, c')"
  have c: "config_ok c" "type_ok ty" using ok by (auto simp: types_known_def)
  have l: "Lookup le ty dv name ds c = (Inr None, c')"
    using get by (auto simp: lookup_ptr_def split: prod.splits sum.splits)
  have "only_log c c'"
  proof (cases "map_of (cf_datas c) name")
    case None
    then show ?thesis
      using l Lookup_new [OF None, of le ty dv ds] Lookup_invalid [OF c(1) None, of le ty dv ds]
      by (cases "valid_name name") auto
  next
    case (Some b)
    then obtain v where "cf_vars c b = Some v" using config_okD(4) [OF c(1)] by blast
    then show ?thesis using Lookup_found [OF c(1) Some, of v le ty dv ds] l by auto
  qed
  then show "(\<lambda>n. Lookup_typed ty n c') = (\<lambda>n. Lookup_typed ty n c) \<and> types_known ty c'"
    using only_log_typed [of c c' ty] only_log_ok [OF c(1)] c(2) by (simp add: types_known_def)
qed


section \<open>Reachable registries\<close>

text \<open>
  The calls of the interface, with types and listeners that behave (see \<open>type_ok\<close> and \<open>cb_ok\<close>);
  \<open>step_other\<close> is anything else the program does with the logging system.
\<close>

inductive config_step :: "'n yaml \<Rightarrow> 'tm log_env \<Rightarrow> 'v config \<Rightarrow> 'v config \<Rightarrow> bool" for y :: "'n yaml" and le :: "'tm log_env" where
  step_lookup: "type_ok ty \<Longrightarrow> Lookup le ty dv name ds c = (r, c') \<Longrightarrow> config_step y le c c'"
| step_setValue: "cf_vars c a \<noteq> None \<Longrightarrow> ConfigVar_setValue a x c = (r, c') \<Longrightarrow> config_step y le c c'"
| step_fromString: "cf_vars c a \<noteq> None \<Longrightarrow> ConfigVar_fromString le a tx c = (r, c') \<Longrightarrow> config_step y le c c'"
| step_toString: "cf_vars c a \<noteq> None \<Longrightarrow> ConfigVar_toString le a c = (r, c') \<Longrightarrow> config_step y le c c'"
| step_addListener: "cf_vars c a = Some v \<Longrightarrow> cf_func_id c (ty_id (cv_type v)) \<noteq> - 1 \<Longrightarrow> cb_ok cb \<Longrightarrow>
    ConfigVar_addListener a cb c = (r, c') \<Longrightarrow> config_step y le c c'"
| step_delListener: "cf_vars c a \<noteq> None \<Longrightarrow> ConfigVar_delListener a k c = (r, c') \<Longrightarrow> config_step y le c c'"
| step_clearListener: "cf_vars c a \<noteq> None \<Longrightarrow> ConfigVar_clearListener a c = (r, c') \<Longrightarrow> config_step y le c c'"
| step_load: "LoadFromYaml d y le root c = (r, c') \<Longrightarrow> config_step y le c c'"
| step_other: "logsys_ok s \<Longrightarrow> config_step y le c (c\<lparr>cf_log := s\<rparr>)"

inductive config_reachable :: "'n yaml \<Rightarrow> 'tm log_env \<Rightarrow> 'v config \<Rightarrow> bool" for y :: "'n yaml" and le :: "'tm log_env" where
  start: "logsys_ok s \<Longrightarrow> config_reachable y le (config_empty s)"
| step: "config_reachable y le c \<Longrightarrow> config_step y le c c' \<Longrightarrow> config_reachable y le c'"

lemma addListener_keeps:
  assumes "config_ok c" and "cf_vars c a = Some v" and "cf_func_id c (ty_id (cv_type v)) \<noteq> - 1" and "cb_ok cb"
  shows "keeps c (snd (ConfigVar_addListener a cb c))"
  using addListener_result [OF assms] assms(2)
  by (auto simp: Let_def keeps_def config_grows_def put_var_def)

lemma config_step_keeps:
  assumes "config_step y le c c'" and ok: "config_ok c"
  shows "keeps c c'"
  using assms(1)
proof cases
  case (step_lookup ty dv name ds r)
  then show ?thesis using Lookup_keeps [OF ok, of ty le dv name ds] by simp
next
  case (step_setValue a x r)
  then show ?thesis using setValue_keeps [OF ok, of a _ x] by auto
next
  case (step_fromString a tx r)
  then show ?thesis using fromString_keeps [OF ok, of a _ le tx] by auto
next
  case (step_toString a r)
  then obtain v where v: "cf_vars c a = Some v" by blast
  obtain d where "ConfigVar_toString le a c =
      (Inr (case ty_to (cv_type v) (cv_val v) of Inr t \<Rightarrow> t | Inl _ \<Rightarrow> []), d)" "only_log c d"
    by (rule toString_returns [OF ok v])
  then show ?thesis using step_toString(2) only_log_keeps [OF ok] by simp
next
  case (step_addListener a v cb r)
  then show ?thesis using addListener_keeps [OF ok] by force
next
  case (step_delListener a k r)
  then show ?thesis
    using delListener_ok(1) [OF ok, of a _ k]
    by (auto simp: keeps_def ConfigVar_delListener_def on_var_def intro!: put_grows)
next
  case (step_clearListener a r)
  then show ?thesis
    using delListener_ok(2) [OF ok, of a]
    by (auto simp: keeps_def ConfigVar_clearListener_def on_var_def intro!: put_grows)
next
  case (step_load d root r)
  then show ?thesis using LoadFromYaml_keeps [OF ok, of d y le root] by simp
next
  case (step_other s)
  then show ?thesis using config_ok_log [OF ok] by (auto simp: keeps_def config_grows_def)
qed

lemma config_steps_keep: "(config_step y le)\<^sup>*\<^sup>* c c' \<Longrightarrow> config_ok c \<Longrightarrow> keeps c c'"
proof (induction rule: rtranclp_induct)
  case (step d e)
  then have cd: "keeps c d" by simp
  then have "config_ok d" by (simp add: keeps_def)
  from config_step_keeps [OF step.hyps(2) this] show ?case by (rule keeps_trans [OF cd])
qed (simp add: keeps_def)

lemma config_reachable_ok: "config_reachable y le c \<Longrightarrow> config_ok c"
  by (induction rule: config_reachable.induct) (use config_step_keeps keeps_def config_empty_ok in blast)+

text \<open>
  C25. The identity of variables: in every reachable registry, a variable that \<open>Lookup\<close> has returned
  for a name stays the variable of that name and type through all later calls, a second \<open>Lookup\<close>
  with the same type returns the same pointer whatever its default value, and no other name ever
  refers to it.
\<close>

theorem variable_identity:
  assumes "config_reachable y le c" and "type_ok ty" and "Lookup le ty dv name ds c = (Inr (Some a), c1)"
    and "(config_step y le)\<^sup>*\<^sup>* c1 c2"
  shows "(\<exists>v. cf_vars c2 a = Some v \<and> cv_name v = name \<and> ty_id (cv_type v) = ty_id ty) \<and>
    LookupBase name c2 = Some a \<and> (\<exists>c3. Lookup le ty dv' name ds' c2 = (Inr (Some a), c3)) \<and>
    (\<forall>n. n \<noteq> name \<longrightarrow> LookupBase n c2 \<noteq> Some a)"
proof -
  have ok: "config_ok c" by (rule config_reachable_ok [OF assms(1)])
  have "lookup_ptr le ty dv ds name c = Inr (Some a, c1)" using assms(3) by (simp add: lookup_ptr_def)
  then have "types_known ty c1" "Lookup_typed ty name c1 = Some a"
    using variables.get_result [of ty c le dv ds name a c1] ok assms(2) by (auto simp: types_known_def)
  then obtain v where v: "config_ok c1" "map_of (cf_datas c1) name = Some a" "cf_vars c1 a = Some v" "ty_id (cv_type v) = ty_id ty"
    by (auto simp: types_known_def Lookup_typed_def split: option.splits if_splits)
  have keeps: "config_ok c2" "config_grows c1 c2" using config_steps_keep [OF assms(4) v(1)] by (auto simp: keeps_def)
  then obtain w where w: "map_of (cf_datas c2) name = Some a" "cf_vars c2 a = Some w" "cv_type w = cv_type v"
    using v unfolding config_grows_def by blast
  then have name: "cv_name w = name" using config_okD(4) [OF keeps(1) w(1)] by auto
  have "LookupBase n c2 \<noteq> Some a" if "n \<noteq> name" for n
    using config_okD(4) [OF keeps(1), of n a] w(2) name that by (auto simp: LookupBase_def)
  then show ?thesis
    using w name v(4) Lookup_found [OF keeps(1) w(1,2), of le ty dv' ds'] by (auto simp: LookupBase_def)
qed

theorem variable_identity_witness:
  "\<exists>c1 c3 :: string config. Lookup some_env string_type ''x'' ''a.b'' [] (config_empty (projr (logsys_start (\<lambda>f. [])))) = (Inr (Some 0), c1) \<and>
    Lookup some_env string_type ''other'' ''a.b'' [] c1 = (Inr (Some 0), c3)"
proof -
  obtain s where s: "logsys_start (\<lambda>f. []) = Inr s" by (simp add: logsys_start_eq)
  let ?c = "config_empty s :: string config"
  have r: "config_reachable small_yaml some_env ?c" by (rule config_reachable.start [OF logsys_start_ok [OF s]])
  have "valid_name ''a.b''" by (simp add: valid_name_def name_chars_def)
  then obtain c1 where l: "Lookup some_env string_type ''x'' ''a.b'' [] ?c = (Inr (Some 0), c1)"
    using Lookup_new [of ?c "''a.b''" some_env string_type "''x''" "[]"] by (simp add: config_empty_def)
  then show ?thesis
    using variable_identity [OF r string_type_ok l rtranclp.rtrancl_refl, of "''other''" "[]"] s by auto
qed

end
