(* ===== verification/VarThreads.thy ===== *)
theory VarThreads
  imports ConfigProps LockContracts
begin

text \<open>
  One configuration variable among several threads: the member functions of \<open>ConfigVar\<close>
  (\<open>src/config/config.h\<close>) cut where they take and give back the variable's \<open>RWMutex\<close>, in every
  interleaving. A listener is called in one step; \<open>getValue\<close> takes no lock.
\<close>

section \<open>The pieces of setValue\<close>

text \<open>Under the read lock: the comparison, which gives the listeners to call, then each listener.\<close>

definition setValue_compare :: "addr \<Rightarrow> 'v \<Rightarrow> ('v config, (u64 \<times> 'v on_change_cb option) list option) act" where
  "setValue_compare a val = on_var a (\<lambda>v. returnA (if ty_eq (cv_type v) (cv_val v) val then None else Some (cv_cbs v)))"

definition setValue_notify :: "addr \<Rightarrow> 'v \<Rightarrow> u64 \<times> 'v on_change_cb option \<Rightarrow> ('v config, unit) act" where
  "setValue_notify a val i = on_var a (\<lambda>v. in_log (call_cb (snd i) (cv_val v) val))"

text \<open>Under the write lock.\<close>

definition setValue_assign :: "addr \<Rightarrow> 'v \<Rightarrow> ('v config, unit) act" where
  "setValue_assign a val = on_var a (\<lambda>v c. (Inr (), put_var a (v\<lparr>cv_val := val\<rparr>) c))"

definition setValue_pieces :: "addr \<Rightarrow> 'v \<Rightarrow> ('v config, unit) act" where
  "setValue_pieces a val =
     bindA (setValue_compare a val) (\<lambda>r. case r of
       None \<Rightarrow> returnA ()
     | Some cbs \<Rightarrow> bindA (forA (setValue_notify a val) cbs) (\<lambda>_. setValue_assign a val))"

lemma notify_eq:
  "cf_vars c a = Some v \<Longrightarrow> setValue_notify a val i c = in_log (call_cb (snd i) (cv_val v) val) c"
  by (simp add: setValue_notify_def on_var_def)

lemma in_log_vars: "in_log m c = (r, c') \<Longrightarrow> cf_vars c' = cf_vars c"
  by (auto simp: in_log_def split: prod.splits)

lemma notify_all:
  "cf_vars c a = Some v \<Longrightarrow>
   forA (setValue_notify a val) cbs c = in_log (forA (\<lambda>(k, cb). call_cb cb (cv_val v) val) cbs) c"
proof (induction cbs arbitrary: c)
  case (Cons i cbs)
  obtain r s where rs: "call_cb (snd i) (cv_val v) val (cf_log c) = (r, s)" by fastforce
  have n: "setValue_notify a val i c = (r, c\<lparr>cf_log := s\<rparr>)" using Cons.prems rs by (simp add: notify_eq in_log_def)
  have "forA (setValue_notify a val) cbs (c\<lparr>cf_log := s\<rparr>) =
      in_log (forA (\<lambda>(k, cb). call_cb cb (cv_val v) val) cbs) (c\<lparr>cf_log := s\<rparr>)"
    by (rule Cons.IH) (simp add: Cons.prems)
  then show ?case using n rs
    by (cases r) (simp_all add: in_log_def bindA_def case_prod_unfold split: prod.split sum.split)
qed (simp add: in_log_def)

text \<open>
  A thread that is alone runs the member function as it is: the pieces one after the other are
  \<open>ConfigVar_setValue\<close>, on every state, with the same result also when a listener throws.
\<close>

theorem setValue_alone: "setValue_pieces a val = ConfigVar_setValue a val"
proof
  fix c
  show "setValue_pieces a val c = ConfigVar_setValue a val c"
  proof (cases "cf_vars c a")
    case None
    then show ?thesis by (simp add: setValue_pieces_def setValue_compare_def ConfigVar_setValue_def on_var_def bindA_def)
  next
    case (Some v)
    let ?cbs = "forA (\<lambda>(k, cb). call_cb cb (cv_val v) val) (cv_cbs v)"
    obtain r c1 where c1: "in_log ?cbs c = (r, c1)" by fastforce
    have "cf_vars c1 a = Some v" using in_log_vars [OF c1] Some by simp
    then show ?thesis
      using Some c1 notify_all [OF Some, of val "cv_cbs v"]
      by (cases r) (simp_all add: setValue_pieces_def setValue_compare_def ConfigVar_setValue_def setValue_assign_def
          on_var_def bindA_def returnA_def)
  qed
qed

section \<open>Steps of several threads\<close>

text \<open>Where a thread is, and what the threads do that others can observe.\<close>

datatype 'v var_pc =
    Away
  | Compares 'v
  | Notifies 'v "(u64 \<times> 'v on_change_cb option) list"
  | Between_locks 'v
  | Assigns 'v
  | Converts

datatype 'v var_action =
    Found 'v 'v "u64 list"
  | Told u64 'v 'v
  | Vetoed u64 'v 'v
  | Assigned 'v
  | Got 'v

record ('v, 'm) shared =
  sh_config :: "'v config"
  sh_lock :: 'm
  sh_at :: "tid \<Rightarrow> 'v var_pc"

definition at_var :: "addr \<Rightarrow> 'v config \<Rightarrow> 'v \<Rightarrow> bool" where
  "at_var a c x \<longleftrightarrow> map_option cv_val (cf_vars c a) = Some x"

inductive var_step ::
  "'m rwlock_api \<Rightarrow> addr \<Rightarrow> ('v, 'm) shared \<Rightarrow> (tid \<times> 'v var_action) list \<Rightarrow> ('v, 'm) shared \<Rightarrow> bool"
  for api :: "'m rwlock_api" and a :: addr where
  calls_set: "sh_at s t = Away \<Longrightarrow> RWMutex_rdlock api t (sh_lock s) = Some (Inr m) \<Longrightarrow>
     var_step api a s [] (s\<lparr>sh_lock := m, sh_at := (sh_at s)(t := Compares val)\<rparr>)"
| same: "sh_at s t = Compares val \<Longrightarrow> setValue_compare a val (sh_config s) = (Inr None, c) \<Longrightarrow>
     RWMutex_unlock api t (sh_lock s) = Inr m \<Longrightarrow>
     var_step api a s [] \<lparr>sh_config = c, sh_lock = m, sh_at = (sh_at s)(t := Away)\<rparr>"
| differs: "sh_at s t = Compares val \<Longrightarrow> setValue_compare a val (sh_config s) = (Inr (Some cbs), c) \<Longrightarrow>
     at_var a (sh_config s) old \<Longrightarrow>
     var_step api a s [(t, Found old val (map fst cbs))] (s\<lparr>sh_config := c, sh_at := (sh_at s)(t := Notifies val cbs)\<rparr>)"
| notifies: "sh_at s t = Notifies val (i # cbs) \<Longrightarrow> setValue_notify a val i (sh_config s) = (Inr (), c) \<Longrightarrow>
     at_var a (sh_config s) old \<Longrightarrow>
     var_step api a s [(t, Told (fst i) old val)] (s\<lparr>sh_config := c, sh_at := (sh_at s)(t := Notifies val cbs)\<rparr>)"
| vetoes: "sh_at s t = Notifies val (i # cbs) \<Longrightarrow> setValue_notify a val i (sh_config s) = (Inl (Throw e), c) \<Longrightarrow>
     at_var a (sh_config s) old \<Longrightarrow> RWMutex_unlock api t (sh_lock s) = Inr m \<Longrightarrow>
     var_step api a s [(t, Vetoed (fst i) old val)] \<lparr>sh_config = c, sh_lock = m, sh_at = (sh_at s)(t := Away)\<rparr>"
| notified: "sh_at s t = Notifies val [] \<Longrightarrow> RWMutex_unlock api t (sh_lock s) = Inr m \<Longrightarrow>
     var_step api a s [] (s\<lparr>sh_lock := m, sh_at := (sh_at s)(t := Between_locks val)\<rparr>)"
| locks: "sh_at s t = Between_locks val \<Longrightarrow> RWMutex_wrlock api t (sh_lock s) = Some (Inr m) \<Longrightarrow>
     var_step api a s [] (s\<lparr>sh_lock := m, sh_at := (sh_at s)(t := Assigns val)\<rparr>)"
| assigns: "sh_at s t = Assigns val \<Longrightarrow> setValue_assign a val (sh_config s) = (Inr (), c) \<Longrightarrow>
     RWMutex_unlock api t (sh_lock s) = Inr m \<Longrightarrow>
     var_step api a s [(t, Assigned val)] \<lparr>sh_config = c, sh_lock = m, sh_at = (sh_at s)(t := Away)\<rparr>"
| calls_toString: "sh_at s t = Away \<Longrightarrow> RWMutex_rdlock api t (sh_lock s) = Some (Inr m) \<Longrightarrow>
     var_step api a s [] (s\<lparr>sh_lock := m, sh_at := (sh_at s)(t := Converts)\<rparr>)"
| converted: "sh_at s t = Converts \<Longrightarrow> RWMutex_unlock api t (sh_lock s) = Inr m \<Longrightarrow>
     var_step api a s [] (s\<lparr>sh_lock := m, sh_at := (sh_at s)(t := Away)\<rparr>)"
| gets: "sh_at s t = Away \<Longrightarrow> ConfigVar_getValue a (sh_config s) = Inr x \<Longrightarrow> var_step api a s [(t, Got x)] s"
| adds_listener: "sh_at s t = Away \<Longrightarrow> RWMutex_wrlock api t (sh_lock s) = Some (Inr m) \<Longrightarrow>
     ConfigVar_addListener a cb (sh_config s) = (Inr k, c) \<Longrightarrow> RWMutex_unlock api t m = Inr m' \<Longrightarrow>
     var_step api a s [] (s\<lparr>sh_config := c, sh_lock := m'\<rparr>)"
| deletes_listener: "sh_at s t = Away \<Longrightarrow> RWMutex_wrlock api t (sh_lock s) = Some (Inr m) \<Longrightarrow>
     ConfigVar_delListener a k (sh_config s) = (Inr (), c) \<Longrightarrow> RWMutex_unlock api t m = Inr m' \<Longrightarrow>
     var_step api a s [] (s\<lparr>sh_config := c, sh_lock := m'\<rparr>)"
| clears_listeners: "sh_at s t = Away \<Longrightarrow> RWMutex_wrlock api t (sh_lock s) = Some (Inr m) \<Longrightarrow>
     ConfigVar_clearListener a (sh_config s) = (Inr (), c) \<Longrightarrow> RWMutex_unlock api t m = Inr m' \<Longrightarrow>
     var_step api a s [] (s\<lparr>sh_config := c, sh_lock := m'\<rparr>)"

inductive var_run ::
  "'m rwlock_api \<Rightarrow> addr \<Rightarrow> ('v, 'm) shared \<Rightarrow> (tid \<times> 'v var_action) list \<Rightarrow> ('v, 'm) shared \<Rightarrow> bool"
  for api :: "'m rwlock_api" and a :: addr and s0 :: "('v, 'm) shared" where
  var_start: "var_run api a s0 [] s0"
| var_more: "var_run api a s0 es s \<Longrightarrow> var_step api a s es' s' \<Longrightarrow> var_run api a s0 (es @ es') s'"

text \<open>At first nobody uses the variable, and its lock is new.\<close>

definition var_first :: "'m rwlock_api \<Rightarrow> addr \<Rightarrow> ('v, 'm) shared \<Rightarrow> bool" where
  "var_first api a s \<longleftrightarrow> cf_vars (sh_config s) a \<noteq> None \<and> RWMutex_new api = Inr (sh_lock s) \<and> sh_at s = (\<lambda>t. Away)"

section \<open>The invariant\<close>

text \<open>
  Who holds the lock: the thread that assigns holds it for writing, and the threads that compare,
  notify or convert hold it for reading, once each.
\<close>

fun reading :: "'v var_pc \<Rightarrow> bool" where
  "reading (Compares val) = True"
| "reading (Notifies val cbs) = True"
| "reading Converts = True"
| "reading pc = False"

fun assigning :: "'v var_pc \<Rightarrow> bool" where
  "assigning (Assigns val) = True"
| "assigning pc = False"

definition lock_ok :: "('m \<Rightarrow> tid option) \<Rightarrow> ('m \<Rightarrow> tid multiset) \<Rightarrow> ('v, 'm) shared \<Rightarrow> bool" where
  "lock_ok writer readers s \<longleftrightarrow>
     (\<forall>t. writer (sh_lock s) = Some t \<longleftrightarrow> assigning (sh_at s t)) \<and>
     (\<forall>t. count (readers (sh_lock s)) t = of_bool (reading (sh_at s t))) \<and>
     (writer (sh_lock s) = None \<or> readers (sh_lock s) = {#})"

text \<open>What a thread has done in its calls of \<open>setValue\<close>, complete ones and one that has begun.\<close>

definition calls_of :: "tid \<Rightarrow> (tid \<times> 'v var_action) list \<Rightarrow> 'v var_action list" where
  "calls_of t es = map snd (filter (\<lambda>(u, e). u = t \<and> (\<forall>x. e \<noteq> Got x)) es)"

definition whole_call :: "'v var_action list \<Rightarrow> bool" where
  "whole_call c \<longleftrightarrow> (\<exists>old val ks.
     c = Found old val ks # map (\<lambda>k. Told k old val) ks @ [Assigned val] \<or>
     (\<exists>told k rest. ks = told @ k # rest \<and> c = Found old val ks # map (\<lambda>k. Told k old val) told @ [Vetoed k old val]))"

fun begun :: "'v \<Rightarrow> 'v var_pc \<Rightarrow> 'v var_action list \<Rightarrow> bool" where
  "begun x (Notifies val cbs) r = (\<exists>ks. r = Found x val (ks @ map fst cbs) # map (\<lambda>k. Told k x val) ks)"
| "begun x (Between_locks val) r = (\<exists>old ks. r = Found old val ks # map (\<lambda>k. Told k old val) ks)"
| "begun x (Assigns val) r = (\<exists>old ks. r = Found old val ks # map (\<lambda>k. Told k old val) ks)"
| "begun x pc r = (r = [])"

definition traced :: "'v \<Rightarrow> 'v var_pc \<Rightarrow> 'v var_action list \<Rightarrow> bool" where
  "traced x pc tr \<longleftrightarrow> (\<exists>calls r. tr = concat calls @ r \<and> (\<forall>c \<in> set calls. whole_call c) \<and> begun x pc r)"

definition last_assigned :: "'v \<Rightarrow> (tid \<times> 'v var_action) list \<Rightarrow> 'v" where
  "last_assigned x es = fold (\<lambda>(t, e) y. case e of Assigned z \<Rightarrow> z | _ \<Rightarrow> y) es x"

lemma calls_of_append [simp]: "calls_of t (es @ es') = calls_of t es @ calls_of t es'"
  by (simp add: calls_of_def)

lemma calls_of_simps [simp]:
  "calls_of t [] = []" "u \<noteq> t \<Longrightarrow> calls_of t [(u, e)] = []" "calls_of t [(t, Got x)] = []"
  "calls_of t [(t, Found old val ks)] = [Found old val ks]" "calls_of t [(t, Told k old val)] = [Told k old val]"
  "calls_of t [(t, Vetoed k old val)] = [Vetoed k old val]" "calls_of t [(t, Assigned val)] = [Assigned val]"
  by (simp_all add: calls_of_def)

lemma last_assigned_simps [simp]:
  "last_assigned x (es @ []) = last_assigned x es" "last_assigned x (es @ [(t, Found old val ks)]) = last_assigned x es"
  "last_assigned x (es @ [(t, Told k old val)]) = last_assigned x es" "last_assigned x (es @ [(t, Got y)]) = last_assigned x es"
  "last_assigned x (es @ [(t, Vetoed k old val)]) = last_assigned x es" "last_assigned x (es @ [(t, Assigned y)]) = y"
  by (simp_all add: last_assigned_def)

lemma begun_other: "\<not> reading pc \<Longrightarrow> begun x pc r = begun y pc r"
  by (cases pc) auto

lemma traced_other: "\<not> reading pc \<Longrightarrow> traced x pc tr = traced y pc tr"
  unfolding traced_def using begun_other by metis

lemma traced_idle: "begun x pc = begun x pc' \<Longrightarrow> traced x pc tr = traced x pc' tr"
  by (simp add: traced_def)

lemma traced_begins: "traced x (Compares val) tr \<Longrightarrow> traced x (Notifies val cbs) (tr @ [Found x val (map fst cbs)])"
  by (auto simp: traced_def)

lemma traced_tells:
  assumes "traced x (Notifies val (i # cbs)) tr"
  shows "traced x (Notifies val cbs) (tr @ [Told (fst i) x val])"
proof -
  obtain calls ks where "\<forall>c \<in> set calls. whole_call c"
      "tr = concat calls @ Found x val (ks @ map fst (i # cbs)) # map (\<lambda>k. Told k x val) ks"
    using assms by (auto simp: traced_def)
  then show ?thesis unfolding traced_def
    by (intro exI [of _ calls] exI [of _ "Found x val ((ks @ [fst i]) @ map fst cbs) # map (\<lambda>k. Told k x val) (ks @ [fst i])"])
      (auto intro!: exI [of _ "ks @ [fst i]"])
qed

lemma traced_ends:
  assumes "\<And>r. begun x pc r \<Longrightarrow> whole_call (r @ [e])" and "traced x pc tr"
  shows "traced y Away (tr @ [e])"
proof -
  obtain calls r where "tr = concat calls @ r" "\<forall>c \<in> set calls. whole_call c" "whole_call (r @ [e])"
    using assms by (auto simp: traced_def)
  then show ?thesis unfolding traced_def by (intro exI [of _ "calls @ [r @ [e]]"] exI [of _ "[]"]) auto
qed

lemma traced_nothing: "traced x Away []"
  unfolding traced_def by (intro exI [of _ "[]"]) simp

lemma begun_partly:
  assumes "begun x pc r"
  shows "r = [] \<or> (\<exists>old val ks told. r = Found old val (told @ ks) # map (\<lambda>k. Told k old val) told)"
  using assms
proof (cases pc)
  case (Between_locks val)
  then show ?thesis using assms by (metis append_Nil2 begun.simps(2))
next
  case (Assigns val)
  then show ?thesis using assms by (metis append_Nil2 begun.simps(3))
qed auto

lemma traced_notified: "traced x (Notifies val []) tr \<Longrightarrow> traced x (Between_locks val) tr"
  by (auto simp: traced_def)

definition var_inv ::
  "('m \<Rightarrow> tid option) \<Rightarrow> ('m \<Rightarrow> tid multiset) \<Rightarrow> addr \<Rightarrow> 'v \<Rightarrow> (tid \<times> 'v var_action) list \<Rightarrow> ('v, 'm) shared \<Rightarrow> bool" where
  "var_inv writer readers a x0 es s \<longleftrightarrow> lock_ok writer readers s \<and> at_var a (sh_config s) (last_assigned x0 es) \<and>
     (\<forall>t. traced (last_assigned x0 es) (sh_at s t) (calls_of t es))"

text \<open>A step of the thread \<open>t\<close> that leaves the value alone.\<close>

lemma var_inv_move:
  assumes inv: "var_inv writer readers a x0 es s" and l: "lock_ok writer readers s'"
    and at: "sh_at s' = (sh_at s)(t := pc)" and c: "\<And>x. at_var a (sh_config s) x \<Longrightarrow> at_var a (sh_config s') x"
    and e: "es' = [] \<or> (\<exists>e. es' = [(t, e)] \<and> (\<forall>x. e \<noteq> Assigned x))"
    and tr: "\<And>x. at_var a (sh_config s) x \<Longrightarrow> traced x (sh_at s t) (calls_of t es) \<Longrightarrow> traced x pc (calls_of t es @ calls_of t es')"
  shows "var_inv writer readers a x0 (es @ es') s'"
proof -
  have last: "last_assigned x0 (es @ es') = last_assigned x0 es"
    using e by (auto simp: last_assigned_def split: var_action.split)
  have others: "calls_of u es' = []" if "u \<noteq> t" for u using e that by auto
  show ?thesis
    using inv l c tr others unfolding var_inv_def at last by auto
qed

text \<open>What the pieces do to the variable.\<close>

lemma compare_result:
  "setValue_compare a val c = (Inr r, c') \<Longrightarrow> c' = c"
  by (auto simp: setValue_compare_def on_var_def returnA_def split: option.splits)

lemma notify_keeps: "setValue_notify a val i c = (r, c') \<Longrightarrow> at_var a c x \<Longrightarrow> at_var a c' x"
  by (auto simp: setValue_notify_def on_var_def at_var_def in_log_def split: option.splits prod.splits)

lemma assign_result: "setValue_assign a val c = (Inr (), c') \<Longrightarrow> at_var a c' val"
  by (auto simp: setValue_assign_def on_var_def at_var_def put_var_def split: option.splits)

lemma listeners_keep:
  "ConfigVar_addListener a cb c = (Inr k, c') \<Longrightarrow> at_var a c x \<Longrightarrow> at_var a c' x"
  "ConfigVar_delListener a k c = (Inr (), c') \<Longrightarrow> at_var a c x \<Longrightarrow> at_var a c' x"
  "ConfigVar_clearListener a c = (Inr (), c') \<Longrightarrow> at_var a c x \<Longrightarrow> at_var a c' x"
  by (auto simp: ConfigVar_addListener_def ConfigVar_delListener_def ConfigVar_clearListener_def on_var_def at_var_def
      put_var_def Let_def split: option.splits)

lemma at_var_unique: "at_var a c x \<Longrightarrow> at_var a c y \<longleftrightarrow> x = y"
  by (auto simp: at_var_def)

text \<open>The lock of the variable, in the steps of a thread.\<close>

context pthread_rwlock
begin

lemma rdlock_got:
  assumes "RWMutex_rdlock api t m = Some (Inr m')" and "writer m \<noteq> Some t"
  shows "writer m = None \<and> writer m' = None \<and> readers m' = add_mset t (readers m)"
proof -
  have "writer m = None"
    using assms rd_taken [of m _ t] by (cases "writer m") (auto simp: RWMutex_rdlock_def)
  then show ?thesis using rd_free [of m t] assms(1) by (auto simp: RWMutex_rdlock_def check_rc_def)
qed

lemma wrlock_got:
  assumes "RWMutex_wrlock api t m = Some (Inr m')" and "writer m \<noteq> Some t" and "t \<notin># readers m"
  shows "writer m = None \<and> readers m = {#} \<and> writer m' = Some t \<and> readers m' = {#}"
proof -
  have "\<not> (writer m = Some u \<or> u \<in># readers m)" if "u \<noteq> t" for u
    using assms(1) wr_taken [of m u t] that by (auto simp: RWMutex_wrlock_def)
  then have free: "writer m = None" "readers m = {#}" using assms(2,3) by (metis option.exhaust, metis multiset_nonemptyE)
  then show ?thesis using wr_free [of m t] assms(1) by (auto simp: RWMutex_wrlock_def check_rc_def)
qed

lemma unlock_read: "RWMutex_unlock api t m = Inr m' \<Longrightarrow> writer m = None \<Longrightarrow> t \<in># readers m \<Longrightarrow>
    writer m' = None \<and> readers m' = readers m - {#t#}"
  using unlock_reader [of m t] by (auto simp: RWMutex_unlock_def check_rc_def)

lemma unlock_write: "RWMutex_unlock api t m = Inr m' \<Longrightarrow> writer m = Some t \<Longrightarrow> writer m' = None \<and> readers m' = readers m"
  using unlock_writer [of m t] by (auto simp: RWMutex_unlock_def check_rc_def)

lemma lock_ok_read:
  assumes "lock_ok writer readers s" and "\<not> reading (sh_at s t)" "\<not> assigning (sh_at s t)" and "reading pc" "\<not> assigning pc"
    and "RWMutex_rdlock api t (sh_lock s) = Some (Inr m)" and "sh_lock s' = m" and "sh_at s' = (sh_at s)(t := pc)"
  shows "lock_ok writer readers s'"
proof -
  have "writer (sh_lock s) \<noteq> Some t" using assms(1,3) by (auto simp: lock_ok_def)
  from rdlock_got [OF assms(6) this] show ?thesis using assms by (auto simp: lock_ok_def)
qed

lemma lock_ok_unread:
  assumes "lock_ok writer readers s" and "reading (sh_at s t)" and "\<not> reading pc" "\<not> assigning pc"
    and "RWMutex_unlock api t (sh_lock s) = Inr m" and "sh_lock s' = m" and "sh_at s' = (sh_at s)(t := pc)"
  shows "lock_ok writer readers s'"
proof -
  have c: "count (readers (sh_lock s)) t = 1" using assms(1,2) by (simp add: lock_ok_def)
  then have r: "t \<in># readers (sh_lock s)" by (simp flip: count_greater_zero_iff)
  then have w: "writer (sh_lock s) = None" using assms(1) by (auto simp: lock_ok_def)
  from unlock_read [OF assms(5) w r] show ?thesis using assms c w by (auto simp: lock_ok_def)
qed

lemma lock_ok_write:
  assumes "lock_ok writer readers s" and "\<not> reading (sh_at s t)" "\<not> assigning (sh_at s t)" and "assigning pc" "\<not> reading pc"
    and "RWMutex_wrlock api t (sh_lock s) = Some (Inr m)" and "sh_lock s' = m" and "sh_at s' = (sh_at s)(t := pc)"
  shows "lock_ok writer readers s'"
proof -
  have "writer (sh_lock s) \<noteq> Some t" using assms(1,3) by (auto simp: lock_ok_def)
  moreover have "t \<notin># readers (sh_lock s)" using assms(1,2) by (simp add: lock_ok_def not_in_iff)
  ultimately show ?thesis using wrlock_got [OF assms(6)] assms by (auto simp: lock_ok_def)
qed

lemma lock_ok_unwrite:
  assumes "lock_ok writer readers s" and "assigning (sh_at s t)" and "\<not> reading pc" "\<not> assigning pc"
    and "RWMutex_unlock api t (sh_lock s) = Inr m" and "sh_lock s' = m" and "sh_at s' = (sh_at s)(t := pc)"
  shows "lock_ok writer readers s'" and "\<forall>u. \<not> reading (sh_at s u)"
proof -
  have w: "writer (sh_lock s) = Some t" using assms(1,2) by (simp add: lock_ok_def)
  then have r: "readers (sh_lock s) = {#}" using assms(1) by (auto simp: lock_ok_def)
  have one: "assigning (sh_at s u) \<longleftrightarrow> u = t" for u using assms(1) w by (auto simp: lock_ok_def)
  show none: "\<forall>u. \<not> reading (sh_at s u)" using assms(1) r by (fastforce simp: lock_ok_def)
  from unlock_write [OF assms(5) w] show "lock_ok writer readers s'" using assms r none one by (auto simp: lock_ok_def)
qed

lemma lock_ok_same:
  "lock_ok writer readers s \<Longrightarrow> reading pc = reading (sh_at s t) \<Longrightarrow> assigning pc = assigning (sh_at s t) \<Longrightarrow>
   sh_lock s' = sh_lock s \<Longrightarrow> sh_at s' = (sh_at s)(t := pc) \<Longrightarrow> lock_ok writer readers s'"
  by (auto simp: lock_ok_def)

text \<open>A change of the listeners: the write lock is taken and given back.\<close>

lemma lock_ok_change:
  assumes "lock_ok writer readers s" and "sh_at s t = Away" and "RWMutex_wrlock api t (sh_lock s) = Some (Inr m)"
    and "RWMutex_unlock api t m = Inr m'" and "sh_lock s' = m'" and "sh_at s' = sh_at s"
  shows "lock_ok writer readers s'"
proof -
  have "writer (sh_lock s) \<noteq> Some t" using assms(1,2) by (auto simp: lock_ok_def)
  moreover have "t \<notin># readers (sh_lock s)" using assms(1,2) by (simp add: lock_ok_def not_in_iff)
  ultimately have m: "writer (sh_lock s) = None" "readers (sh_lock s) = {#}" "writer m = Some t" "readers m = {#}"
    using wrlock_got [OF assms(3)] by auto
  then show ?thesis using unlock_write [OF assms(4) m(3)] assms by (simp add: lock_ok_def)
qed

lemma var_inv_step:
  assumes "var_step api a s es' s'" and "var_inv writer readers a x0 es s"
  shows "var_inv writer readers a x0 (es @ es') s'"
  using assms
proof (induction rule: var_step.induct)
  case (calls_set s t m val)
  have l: "lock_ok writer readers s" using calls_set by (simp add: var_inv_def)
  show ?case by (rule var_inv_move [where t = t and pc = "Compares val", OF calls_set(3) lock_ok_read [where t = t and pc = "Compares val", OF l _ _ _ _ calls_set(2)]])
      (use calls_set(1) in \<open>auto simp: traced_def\<close>)
next
  case (same s t val c m)
  have l: "lock_ok writer readers s" using same by (simp add: var_inv_def)
  show ?case by (rule var_inv_move [where t = t and pc = "Away", OF same(4) lock_ok_unread [where t = t and pc = "Away", OF l _ _ _ same(3)]])
      (use same(1) compare_result [OF same(2)] in \<open>auto simp: traced_def\<close>)
next
  case (differs s t val cbs c old)
  have l: "lock_ok writer readers s" using differs by (simp add: var_inv_def)
  show ?case
    by (rule var_inv_move [where t = t and pc = "Notifies val cbs", OF differs(4) lock_ok_same [OF l, where t = t and pc = "Notifies val cbs"]])
      (use differs(1) compare_result [OF differs(2)] traced_begins at_var_unique [OF differs(3)] in auto)
next
  case (notifies s t val i cbs c old)
  have l: "lock_ok writer readers s" using notifies by (simp add: var_inv_def)
  show ?case
    by (rule var_inv_move [where t = t and pc = "Notifies val cbs", OF notifies(4) lock_ok_same [OF l, where t = t and pc = "Notifies val cbs"]])
      (use notifies(1) notify_keeps [OF notifies(2)] traced_tells [of _ val i cbs] at_var_unique [OF notifies(3)] in auto)
next
  case (vetoes s t val i cbs e c old m)
  have l: "lock_ok writer readers s" using vetoes by (simp add: var_inv_def)
  have whole: "whole_call (r @ [Vetoed (fst i) old val])" if "begun old (Notifies val (i # cbs)) r" for r
    using that by (fastforce simp: whole_call_def)
  have ends: "traced old Away (tr @ [Vetoed (fst i) old val])" if "traced old (Notifies val (i # cbs)) tr" for tr
    using whole that by (rule traced_ends)
  show ?case by (rule var_inv_move [where t = t and pc = "Away", OF vetoes(5) lock_ok_unread [where t = t and pc = "Away", OF l _ _ _ vetoes(4)]])
      (use vetoes(1) notify_keeps [OF vetoes(2)] ends at_var_unique [OF vetoes(3)] in auto)
next
  case (notified s t val m)
  have l: "lock_ok writer readers s" using notified by (simp add: var_inv_def)
  show ?case by (rule var_inv_move [where t = t and pc = "Between_locks val", OF notified(3) lock_ok_unread [where t = t and pc = "Between_locks val", OF l _ _ _ notified(2)]])
      (use notified(1) traced_notified in auto)
next
  case (locks s t val m)
  have l: "lock_ok writer readers s" using locks by (simp add: var_inv_def)
  show ?case by (rule var_inv_move [where t = t and pc = "Assigns val", OF locks(3) lock_ok_write [where t = t and pc = "Assigns val", OF l _ _ _ _ locks(2)]])
      (use locks(1) in \<open>auto simp: traced_def\<close>)
next
  case (assigns s t val c m)
  let ?s' = "\<lparr>sh_config = c, sh_lock = m, sh_at = (sh_at s)(t := Away)\<rparr>"
  have l: "lock_ok writer readers s" using assigns by (simp add: var_inv_def)
  have l': "lock_ok writer readers ?s'" "\<forall>u. \<not> reading (sh_at s u)"
    using lock_ok_unwrite [OF l, of t Away m ?s'] assigns(1,3) by simp_all
  have whole: "whole_call (r @ [Assigned val])" if "begun x (Assigns val) r" for x r
    using that by (auto simp: whole_call_def)
  have "traced (last_assigned x0 es) (Assigns val) (calls_of t es)" using assigns(1,4) unfolding var_inv_def by metis
  with whole have "traced val Away (calls_of t es @ [Assigned val])" by (rule traced_ends)
  moreover have "traced val (sh_at s u) (calls_of u es)" for u
    using assigns(4) traced_other l'(2) by (metis var_inv_def)
  ultimately show ?case using l' assign_result [OF assigns(2)] by (auto simp: var_inv_def)
next
  case (calls_toString s t m)
  have l: "lock_ok writer readers s" using calls_toString by (simp add: var_inv_def)
  show ?case by (rule var_inv_move [where t = t and pc = "Converts", OF calls_toString(3) lock_ok_read [where t = t and pc = "Converts", OF l _ _ _ _ calls_toString(2)]])
      (use calls_toString(1) in \<open>auto simp: traced_def\<close>)
next
  case (converted s t m)
  have l: "lock_ok writer readers s" using converted by (simp add: var_inv_def)
  show ?case by (rule var_inv_move [where t = t and pc = "Away", OF converted(3) lock_ok_unread [where t = t and pc = "Away", OF l _ _ _ converted(2)]])
      (use converted(1) in \<open>auto simp: traced_def\<close>)
next
  case (gets s t x)
  then show ?case by (auto simp: var_inv_def calls_of_def)
next
  case (adds_listener s t m cb k c m')
  then show ?case using lock_ok_change [of s t m m' "s\<lparr>sh_config := c, sh_lock := m'\<rparr>"] listeners_keep(1) [OF adds_listener(3)]
    by (simp add: var_inv_def)
next
  case (deletes_listener s t m k c m')
  then show ?case using lock_ok_change [of s t m m' "s\<lparr>sh_config := c, sh_lock := m'\<rparr>"] listeners_keep(2) [OF deletes_listener(3)]
    by (simp add: var_inv_def)
next
  case (clears_listeners s t m c m')
  then show ?case using lock_ok_change [of s t m m' "s\<lparr>sh_config := c, sh_lock := m'\<rparr>"] listeners_keep(3) [OF clears_listeners(3)]
    by (simp add: var_inv_def)
qed

lemma var_inv_run:
  assumes "var_run api a s0 es s" and "var_first api a s0" and "at_var a (sh_config s0) x0"
  shows "var_inv writer readers a x0 es s"
  using assms(1)
proof (induction rule: var_run.induct)
  case var_start
  have "writer (sh_lock s0) = None \<and> readers (sh_lock s0) = {#}"
    using assms(2) rw_init [of "sh_lock s0"] by (auto simp: var_first_def RWMutex_new_def check_rc_def split: prod.splits if_splits)
  then show ?case using assms(2,3) by (simp add: var_inv_def var_first_def lock_ok_def last_assigned_def traced_nothing)
next
  case (var_more es s es' s')
  show ?case by (rule var_inv_step [OF var_more(2,3)])
qed

end

section \<open>Two calls that overlap\<close>

lemma var_run_trans: "var_run api a s es s' \<Longrightarrow> var_run api a s' es' s'' \<Longrightarrow> var_run api a s (es @ es') s''"
proof (rotate_tac, induction rule: var_run.induct)
  case var_start
  then show ?case by simp
next
  case (var_more es1 s1 es2 s2)
  from var_run.var_more [OF var_more(3) [OF var_more(4)] var_more(2)] show ?case by simp
qed

lemma var_run_one: "var_step api a s es s' \<Longrightarrow> var_run api a s es s'"
  using var_run.var_more [OF var_run.var_start] by fastforce

lemma posix_free:
  "RWMutex_rdlock posix_rwlock t (None, {#}) = Some (Inr (None, {#t#}))"
  "RWMutex_unlock posix_rwlock t (None, {#t#}) = Inr (None, {#})"
  "RWMutex_wrlock posix_rwlock t (None, {#}) = Some (Inr (Some t, {#}))"
  "RWMutex_unlock posix_rwlock t (Some t, {#}) = Inr (None, {#})"
  by (simp_all add: RWMutex_rdlock_def RWMutex_unlock_def RWMutex_wrlock_def posix_rwlock_def check_rc_def)

definition obliging :: "(u64 \<times> 'v on_change_cb option) list \<Rightarrow> bool" where
  "obliging cbs \<longleftrightarrow> (\<forall>i \<in> set cbs. \<forall>old new s. \<exists>s'. call_cb (snd i) old new s = (Inr (), s'))"

lemma tells_all:
  "obliging cbs \<Longrightarrow> sh_at s t = Notifies val cbs \<Longrightarrow> cf_vars (sh_config s) a = Some v \<Longrightarrow>
   \<exists>s'. var_run api a s (map (\<lambda>k. (t, Told k (cv_val v) val)) (map fst cbs)) s' \<and> sh_at s' = (sh_at s)(t := Notifies val []) \<and>
     sh_lock s' = sh_lock s \<and> cf_vars (sh_config s') = cf_vars (sh_config s)"
proof (induction cbs arbitrary: s)
  case Nil
  then show ?case by (intro exI [of _ s]) (auto simp: var_run.var_start)
next
  case (Cons i cbs)
  obtain l where "call_cb (snd i) (cv_val v) val (cf_log (sh_config s)) = (Inr (), l)"
    using Cons.prems(1) by (fastforce simp: obliging_def)
  then have n: "setValue_notify a val i (sh_config s) = (Inr (), (sh_config s)\<lparr>cf_log := l\<rparr>)"
    using Cons.prems(3) by (simp add: notify_eq in_log_def)
  let ?s = "s\<lparr>sh_config := (sh_config s)\<lparr>cf_log := l\<rparr>, sh_at := (sh_at s)(t := Notifies val cbs)\<rparr>"
  have "var_run api a s [(t, Told (fst i) (cv_val v) val)] ?s"
    by (rule var_run_one [OF var_step.notifies [OF Cons.prems(2) n]]) (simp add: at_var_def Cons.prems(3))
  moreover have ob: "obliging cbs" using Cons.prems(1) by (simp add: obliging_def)
  have p: "sh_at ?s t = Notifies val cbs" "cf_vars (sh_config ?s) a = Some v" using Cons.prems(3) by simp_all
  obtain s' where s': "var_run api a ?s (map (\<lambda>k. (t, Told k (cv_val v) val)) (map fst cbs)) s'"
      "sh_at s' = (sh_at ?s)(t := Notifies val [])" "sh_lock s' = sh_lock ?s" "cf_vars (sh_config s') = cf_vars (sh_config ?s)"
    using Cons.IH [OF ob p] by blast
  ultimately have "var_run api a s ([(t, Told (fst i) (cv_val v) val)] @ map (\<lambda>k. (t, Told k (cv_val v) val)) (map fst cbs)) s'"
    using var_run_trans by blast
  then show ?case using s'(2-4) by (intro exI [of _ s']) simp
qed

text \<open>A thread that finds the lock free gets through the first half of \<open>setValue\<close>, or the second.\<close>

lemma first_half:
  assumes "sh_at s t = Away" and "sh_lock s = (None, {#})" and v: "cf_vars (sh_config s) a = Some v"
    and "\<not> ty_eq (cv_type v) (cv_val v) val" and "obliging (cv_cbs v)"
  shows "\<exists>s'. var_run posix_rwlock a s
      ((t, Found (cv_val v) val (map fst (cv_cbs v))) # map (\<lambda>k. (t, Told k (cv_val v) val)) (map fst (cv_cbs v))) s' \<and>
    sh_at s' = (sh_at s)(t := Between_locks val) \<and> sh_lock s' = (None, {#}) \<and> cf_vars (sh_config s') = cf_vars (sh_config s)"
proof -
  let ?s1 = "s\<lparr>sh_lock := (None, {#t#}), sh_at := (sh_at s)(t := Compares val)\<rparr>"
  have s1: "var_run posix_rwlock a s [] ?s1"
    by (rule var_run_one [OF var_step.calls_set]) (simp_all add: assms posix_free)
  have cmp: "setValue_compare a val (sh_config ?s1) = (Inr (Some (cv_cbs v)), sh_config s)"
    using v assms(4) by (simp add: setValue_compare_def on_var_def returnA_def)
  let ?s2 = "?s1\<lparr>sh_config := sh_config s, sh_at := (sh_at ?s1)(t := Notifies val (cv_cbs v))\<rparr>"
  have s2: "var_run posix_rwlock a ?s1 [(t, Found (cv_val v) val (map fst (cv_cbs v)))] ?s2"
    by (rule var_run_one [OF var_step.differs [OF _ cmp]]) (simp_all add: at_var_def v)
  obtain s3 where s3: "var_run posix_rwlock a ?s2 (map (\<lambda>k. (t, Told k (cv_val v) val)) (map fst (cv_cbs v))) s3"
      "sh_at s3 = (sh_at s)(t := Notifies val [])" "sh_lock s3 = (None, {#t#})" "cf_vars (sh_config s3) = cf_vars (sh_config s)"
    using tells_all [OF assms(5), of ?s2 t val a v posix_rwlock] v by auto
  let ?s4 = "s3\<lparr>sh_lock := (None, {#}), sh_at := (sh_at s3)(t := Between_locks val)\<rparr>"
  have "var_run posix_rwlock a s3 [] ?s4"
    by (rule var_run_one [OF var_step.notified]) (simp_all add: s3 posix_free)
  from var_run_trans [OF s1 var_run_trans [OF s2 var_run_trans [OF s3(1) this]]] show ?thesis
    using s3 by (intro exI [of _ ?s4]) auto
qed

lemma second_half:
  assumes "sh_at s t = Between_locks val" and "sh_lock s = (None, {#})" and v: "cf_vars (sh_config s) a = Some v"
  shows "\<exists>s'. var_run posix_rwlock a s [(t, Assigned val)] s' \<and> sh_at s' = (sh_at s)(t := Away) \<and>
    sh_lock s' = (None, {#}) \<and> cf_vars (sh_config s') a = Some (v\<lparr>cv_val := val\<rparr>)"
proof -
  let ?s1 = "s\<lparr>sh_lock := (Some t, {#}), sh_at := (sh_at s)(t := Assigns val)\<rparr>"
  have s1: "var_run posix_rwlock a s [] ?s1"
    by (rule var_run_one [OF var_step.locks]) (simp_all add: assms posix_free)
  let ?c = "put_var a (v\<lparr>cv_val := val\<rparr>) (sh_config s)"
  let ?s2 = "\<lparr>sh_config = ?c, sh_lock = (None, {#}), sh_at = (sh_at ?s1)(t := Away)\<rparr>"
  have "var_run posix_rwlock a ?s1 [(t, Assigned val)] ?s2"
    by (rule var_run_one [OF var_step.assigns]) (simp_all add: posix_free setValue_assign_def on_var_def v)
  from var_run_trans [OF s1 this] show ?thesis by (intro exI [of _ ?s2]) (auto simp: put_var_def)
qed

text \<open>A variable with one listener, and one thread in the middle of \<open>setValue\<close>.\<close>

definition heard_var :: "string ConfigVar" where
  "heard_var = (new_ConfigVar string_type ''x'' ''a.b'' [])\<lparr>cv_cbs := [(1, Some (\<lambda>old new s. (Inr (), s)))]\<rparr>"

definition heard :: "(string, tid option \<times> tid multiset) shared" where
  "heard = \<lparr>sh_config = put_var 0 heard_var one_var, sh_lock = (None, {#}), sh_at = (\<lambda>_. Away)\<rparr>"

lemma heard_simps [simp]:
  "cf_vars (sh_config heard) 0 = Some heard_var" "sh_lock heard = (None, {#})" "sh_at heard = (\<lambda>_. Away)"
  "cv_val heard_var = ''x''" "map fst (cv_cbs heard_var) = [1]" "ty_eq (cv_type heard_var) y z = (y = z)"
  by (simp_all add: heard_def put_var_def heard_var_def string_type_def new_ConfigVar_def)

lemma heard_first: "var_first posix_rwlock 0 heard" "at_var 0 (sh_config heard) ''x''" "obliging (cv_cbs heard_var)"
  by (simp_all add: var_first_def at_var_def RWMutex_new_def posix_rwlock_def check_rc_def)
    (simp add: obliging_def heard_var_def call_cb_def)

lemma heard_halfway:
  "\<exists>s. var_run posix_rwlock 0 heard [(4, Found ''x'' ''y'' [1]), (4, Told 1 ''x'' ''y'')] s \<and> sh_at s 4 = Assigns ''y''"
proof -
  obtain s where s: "var_run posix_rwlock 0 heard [(4, Found ''x'' ''y'' [1]), (4, Told 1 ''x'' ''y'')] s"
      "sh_at s = (sh_at heard)(4 := Between_locks ''y'')" "sh_lock s = (None, {#})"
    using first_half [of heard 4 0 heard_var "''y''"] heard_first(3) by auto
  have "var_run posix_rwlock 0 s [] (s\<lparr>sh_lock := (Some 4, {#}), sh_at := (sh_at s)(4 := Assigns ''y'')\<rparr>)"
    by (rule var_run_one [OF var_step.locks]) (simp_all add: s posix_free)
  from var_run_trans [OF s(1) this] show ?thesis by auto
qed

section \<open>Properties\<close>

text \<open>
  C15. In every interleaving of threads that set, convert and read a variable and change its listeners,
  under the documented behaviour of the lock: what a thread did in its calls of \<open>setValue\<close> is a
  sequence of complete calls and at most one that has begun; a complete call found a value and
  told it and the new value, the same two each time, to every listener there was, in their order,
  and then assigned, or stopped at a listener that threw and assigned nothing. The variable
  has the value that was assigned last, by whatever thread.
\<close>

theorem told_before_assigned:
  assumes "pthread_rwlock api writer readers" and "var_first api a s0" and "at_var a (sh_config s0) x0"
    and "var_run api a s0 es s"
  shows "at_var a (sh_config s) (last_assigned x0 es) \<and>
    (\<forall>t. \<exists>calls r. calls_of t es = concat calls @ r \<and> (\<forall>c \<in> set calls. whole_call c) \<and>
       (sh_at s t = Away \<longrightarrow> r = []) \<and>
       (r = [] \<or> (\<exists>old val ks told. r = Found old val (told @ ks) # map (\<lambda>k. Told k old val) told)))"
proof -
  have inv: "var_inv writer readers a x0 es s" by (rule pthread_rwlock.var_inv_run [OF assms(1,4,2,3)])
  have "\<exists>calls r. calls_of t es = concat calls @ r \<and> (\<forall>c \<in> set calls. whole_call c) \<and>
      (sh_at s t = Away \<longrightarrow> r = []) \<and> (r = [] \<or> (\<exists>old val ks told. r = Found old val (told @ ks) # map (\<lambda>k. Told k old val) told))" for t
  proof -
    obtain calls r where "calls_of t es = concat calls @ r" "\<forall>c \<in> set calls. whole_call c" "begun (last_assigned x0 es) (sh_at s t) r"
      using inv unfolding var_inv_def traced_def by blast
    then show ?thesis using begun_partly [of _ _ r] by (intro exI [of _ calls] exI [of _ r]) auto
  qed
  then show ?thesis using inv by (simp add: var_inv_def)
qed

theorem told_before_assigned_witness:
  "\<exists>s calls r. var_run posix_rwlock 0 heard [(4, Found ''x'' ''y'' [1]), (4, Told 1 ''x'' ''y'')] s \<and> at_var 0 (sh_config s) ''x'' \<and>
     [Found ''x'' ''y'' [1], Told 1 ''x'' ''y''] = concat calls @ r \<and> (\<forall>c \<in> set calls. whole_call c)"
proof -
  let ?es = "[(4, Found ''x'' ''y'' [1]), (4, Told 1 ''x'' ''y'')]"
  obtain s where s: "var_run posix_rwlock 0 heard ?es s" using heard_halfway by blast
  have "calls_of 4 ?es = [Found ''x'' ''y'' [1], Told 1 ''x'' ''y'']" by (simp add: calls_of_def)
  moreover have "last_assigned ''x'' ?es = ''x''" by (simp add: last_assigned_def)
  ultimately show ?thesis
    using told_before_assigned [OF posix_rw.pthread_rwlock_axioms heard_first(1,2) s] s by metis
qed

text \<open>
  The lock keeps the assignments apart from everything else: in every interleaving at most one
  thread assigns, and then no thread compares, calls listeners or converts; while a thread calls
  listeners the value is the one it found.
\<close>

theorem assignments_exclusive:
  assumes "pthread_rwlock api writer readers" and "var_first api a s0" and "var_run api a s0 es s"
    and "sh_at s t = Assigns val" and "u \<noteq> t"
  shows "(\<forall>x. sh_at s u \<noteq> Assigns x) \<and> (\<forall>x. sh_at s u \<noteq> Compares x) \<and> (\<forall>x cbs. sh_at s u \<noteq> Notifies x cbs) \<and>
    sh_at s u \<noteq> Converts \<and> RWMutex_rdlock api u (sh_lock s) = None \<and> RWMutex_wrlock api u (sh_lock s) = None"
proof -
  obtain x0 where x0: "at_var a (sh_config s0) x0" using assms(2) by (auto simp: var_first_def at_var_def)
  have l: "lock_ok writer readers s"
    using pthread_rwlock.var_inv_run [OF assms(1,3,2) x0] by (simp add: var_inv_def)
  then have w: "writer (sh_lock s) = Some t" using assms(4) by (simp add: lock_ok_def)
  then have r: "readers (sh_lock s) = {#}" using l by (auto simp: lock_ok_def)
  have "\<not> assigning (sh_at s u)" using l w assms(5) by (auto simp: lock_ok_def)
  moreover have "\<not> reading (sh_at s u)" using l r by (fastforce simp: lock_ok_def)
  moreover have "RWMutex_rdlock api u (sh_lock s) = None \<and> RWMutex_wrlock api u (sh_lock s) = None"
    using pthread_rwlock.rd_taken [OF assms(1) w] pthread_rwlock.wr_taken [OF assms(1) disjI1 [OF w]] assms(5)
    by (simp add: RWMutex_rdlock_def RWMutex_wrlock_def)
  ultimately show ?thesis by auto
qed

theorem assignments_exclusive_witness:
  "\<exists>s. var_run posix_rwlock 0 heard [(4, Found ''x'' ''y'' [1]), (4, Told 1 ''x'' ''y'')] s \<and> sh_at s 4 = Assigns ''y'' \<and>
     RWMutex_rdlock posix_rwlock 5 (sh_lock s) = None"
proof -
  obtain s where s: "var_run posix_rwlock 0 heard [(4, Found ''x'' ''y'' [1]), (4, Told 1 ''x'' ''y'')] s" "sh_at s 4 = Assigns ''y''"
    using heard_halfway by blast
  then show ?thesis
    using assignments_exclusive [OF posix_rw.pthread_rwlock_axioms heard_first(1) s, of 5] by auto
qed

text \<open>
  C27. The lock is given up between the listeners and the assignment, so two calls can overlap: two
  threads set different values of which neither equals the present one; the listeners are told
  the value of the first thread and then that of the second, both from the same old value,
  and when both calls have returned the variable has the value of the first. The value that the
  listeners were told last is lost.
\<close>

theorem told_value_is_lost:
  fixes s0 :: "('v, tid option \<times> tid multiset) shared"
  assumes "var_first posix_rwlock a s0" and "cf_vars (sh_config s0) a = Some v" and "obliging (cv_cbs v)" and "t \<noteq> u"
    and "\<not> ty_eq (cv_type v) (cv_val v) x" and "\<not> ty_eq (cv_type v) (cv_val v) y"
  shows "\<exists>s es ks. var_run posix_rwlock a s0 es s \<and> sh_at s = (\<lambda>_. Away) \<and> at_var a (sh_config s) x \<and> ks = map fst (cv_cbs v) \<and>
    es = (t, Found (cv_val v) x ks) # map (\<lambda>k. (t, Told k (cv_val v) x)) ks @
         (u, Found (cv_val v) y ks) # map (\<lambda>k. (u, Told k (cv_val v) y)) ks @ [(u, Assigned y), (t, Assigned x)]"
proof -
  have away: "sh_at s0 = (\<lambda>_. Away)" "sh_lock s0 = (None, {#})"
    using assms(1) by (auto simp: var_first_def RWMutex_new_def posix_rwlock_def check_rc_def)
  obtain s1 where s1: "var_run posix_rwlock a s0
        ((t, Found (cv_val v) x (map fst (cv_cbs v))) # map (\<lambda>k. (t, Told k (cv_val v) x)) (map fst (cv_cbs v))) s1"
      "sh_at s1 = (sh_at s0)(t := Between_locks x)" "sh_lock s1 = (None, {#})" "cf_vars (sh_config s1) = cf_vars (sh_config s0)"
    using first_half [of s0 t a v x] away assms(2,3,5) by auto
  obtain s2 where s2: "var_run posix_rwlock a s1
        ((u, Found (cv_val v) y (map fst (cv_cbs v))) # map (\<lambda>k. (u, Told k (cv_val v) y)) (map fst (cv_cbs v))) s2"
      "sh_at s2 = (sh_at s1)(u := Between_locks y)" "sh_lock s2 = (None, {#})" "cf_vars (sh_config s2) = cf_vars (sh_config s1)"
    using first_half [of s1 u a v y] s1 away assms(2,3,4,6) by auto
  obtain s3 where s3: "var_run posix_rwlock a s2 [(u, Assigned y)] s3" "sh_at s3 = (sh_at s2)(u := Away)" "sh_lock s3 = (None, {#})"
      "cf_vars (sh_config s3) a = Some (v\<lparr>cv_val := y\<rparr>)"
    using second_half [of s2 u y a v] s2 s1(4) assms(2) by auto
  obtain s4 where s4: "var_run posix_rwlock a s3 [(t, Assigned x)] s4" "sh_at s4 = (sh_at s3)(t := Away)"
      "cf_vars (sh_config s4) a = Some (v\<lparr>cv_val := y, cv_val := x\<rparr>)"
    using second_half [of s3 t x a "v\<lparr>cv_val := y\<rparr>"] s3 s2(2) s1(2) assms(4) by auto
  have "sh_at s4 = (\<lambda>_. Away)" using s4(2) s3(2) s2(2) s1(2) away(1) by auto
  moreover have "at_var a (sh_config s4) x" using s4(3) by (simp add: at_var_def)
  ultimately show ?thesis
    using var_run_trans [OF s1(1) var_run_trans [OF s2(1) var_run_trans [OF s3(1) s4(1)]]] by (intro exI [of _ s4]) simp
qed

theorem told_value_is_lost_witness:
  "\<exists>s. var_run posix_rwlock 0 heard
     [(4, Found ''x'' ''y'' [1]), (4, Told 1 ''x'' ''y''), (5, Found ''x'' ''z'' [1]), (5, Told 1 ''x'' ''z''),
      (5, Assigned ''z''), (4, Assigned ''y'')] s \<and> at_var 0 (sh_config s) ''y''"
  using told_value_is_lost [OF heard_first(1) heard_simps(1) heard_first(3), of 4 5 "''y''" "''z''"] by auto

end
