(* ===== verification/OldLog.thy ===== *)
theory OldLog
  imports LogPattern LogSystem
begin

text \<open>
  The copy of the logging system under \<open>backup\<close> (\<open>log.h\<close>, \<open>log.cpp\<close>), from before loggers had a
  root and appenders a lock. Levels, events and format items have the members of today's classes,
  so their types are shared; loggers, appenders, the parser and every operation are those of the
  copy. It names \<open>LogLevel::ERROR_\<close>, which its enumeration does not have, and uses classes before
  their declaration, so it does not compile; the model reads \<open>ERROR_\<close> as \<open>ERROR\<close> and the classes in
  an order that declares them.
\<close>

section \<open>Levels and events\<close>

text \<open>
  The types shared with today's classes: the enumeration, the event, the formatter with its
  pattern, items and error flag.
\<close>

type_synonym OldLogLevel = LogLevel

type_synonym OldLogEvent = LogEvent

type_synonym OldLogFormatter = LogFormatter

fun old_level_to_string :: "OldLogLevel \<Rightarrow> string" where
  "old_level_to_string UNKNOW = ''UNKNOW''"
| "old_level_to_string DEBUG = ''DEBUG''"
| "old_level_to_string INFO = ''INFO''"
| "old_level_to_string WARN = ''WARN''"
| "old_level_to_string ERROR = ''ERROR''"
| "old_level_to_string FATAL = ''FATAL''"

definition old_level_from_string :: "string \<Rightarrow> OldLogLevel outcome" where
  "old_level_from_string str =
     (if str = ''UNKNOW'' then Inr UNKNOW
      else if str = ''DEBUG'' then Inr DEBUG
      else if str = ''INFO'' then Inr INFO
      else if str = ''WARN'' then Inr WARN
      else if str = ''ERROR'' then Inr ERROR
      else if str = ''FATAL'' then Inr FATAL
      else Inl (Throw (Invalid_argument ''Invalid log level string'')))"

definition old_new_LogEvent ::
  "addr \<Rightarrow> OldLogLevel \<Rightarrow> string \<Rightarrow> i32 \<Rightarrow> u32 \<Rightarrow> u32 \<Rightarrow> u32 \<Rightarrow> u64 \<Rightarrow> string \<Rightarrow> OldLogEvent" where
  "old_new_LogEvent logger level file line elapse thread_id fiber_id time thread_name =
     \<lparr>ev_file = file, ev_line = line, ev_elapse = elapse, ev_threadId = thread_id,
      ev_fiberId = fiber_id, ev_time = time, ev_threadName = thread_name, ev_content = [],
      ev_logger = logger, ev_level = level\<rparr>"

section \<open>The formatter\<close>

text \<open>
  What one item writes. The item of a date keeps its format string, but writes the number that
  the event has as its time.
\<close>

fun old_format_item :: "string \<Rightarrow> OldLogLevel \<Rightarrow> OldLogEvent \<Rightarrow> FormatItem \<Rightarrow> string" where
  "old_format_item name level e MessageFormatItem = ev_content e"
| "old_format_item name level e LevelFormatItem = old_level_to_string level"
| "old_format_item name level e ElapseFormatItem = nat_str (unat (ev_elapse e))"
| "old_format_item name level e NameFormatItem = name"
| "old_format_item name level e ThreadIdFormatItem = nat_str (unat (ev_threadId e))"
| "old_format_item name level e FiberIdFormatItem = nat_str (unat (ev_fiberId e))"
| "old_format_item name level e ThreadNameFormatItem = ev_threadName e"
| "old_format_item name level e (DateTimeFormatItem fmt) = nat_str (unat (ev_time e))"
| "old_format_item name level e FilenameFormatItem = ev_file e"
| "old_format_item name level e LineFormatItem = int_str (sint (ev_line e))"
| "old_format_item name level e NewLineFormatItem = newline"
| "old_format_item name level e (StringFormatItem s) = s"
| "old_format_item name level e (TabFormatItem s) = tabulator"

text \<open>
  \<open>str = m_pattern.substr(i+1, n-i-i)\<close> where the name of an item ends at an opening brace: the
  count is a \<open>size_t\<close>, and wraps around when \<open>n\<close> is less than twice \<open>i\<close>.
\<close>

definition old_braced_name :: "string \<Rightarrow> nat \<Rightarrow> nat \<Rightarrow> string" where
  "old_braced_name p i n = substr p (i + 1) (unat ((of_nat n :: u64) - of_nat i - of_nat i))"

text \<open>The inner loop of \<open>init\<close>, with the variables of \<open>scan_item\<close>.\<close>

function old_scan_item ::
  "string \<Rightarrow> nat \<Rightarrow> nat \<Rightarrow> nat \<Rightarrow> nat \<Rightarrow> string \<Rightarrow> string \<Rightarrow> nat \<times> nat \<times> string \<times> string" where
  "old_scan_item p i n st b str fmt =
     (if n < length p then
        if st = 0 \<and> \<not> is_alpha (p ! n) \<and> p ! n \<noteq> CHR ''{'' \<and> p ! n \<noteq> CHR ''}''
        then (n, st, substr p (i + 1) (n - i - 1), fmt)
        else if st = 0 \<and> p ! n = CHR ''{''
        then old_scan_item p i (n + 1) 1 n (old_braced_name p i n) fmt
        else if st = 1 \<and> p ! n = CHR ''}''
        then (n + 1, 0, str, substr p (b + 1) (n - b - 1))
        else let n' = n + 1;
                 str' = (if n' = length p \<and> str = [] then drop (i + 1) p else str)
             in old_scan_item p i n' st b str' fmt
      else (n, st, str, fmt))"
  by pat_completeness auto
termination
  by (relation "measure (\<lambda>(p, i, n, st, b, str, fmt). length p - n)") auto

declare old_scan_item.simps [simp del]

text \<open>The loop, one branch at a time.\<close>

lemma old_scan_end: "\<not> n < length p \<Longrightarrow> old_scan_item p i n st b str fmt = (n, st, str, fmt)"
  by (subst old_scan_item.simps) simp

lemma old_scan_break:
  "n < length p \<Longrightarrow> \<not> is_alpha (p ! n) \<Longrightarrow> p ! n \<noteq> CHR ''{'' \<Longrightarrow> p ! n \<noteq> CHR ''}'' \<Longrightarrow>
   old_scan_item p i n 0 b str fmt = (n, 0, substr p (i + 1) (n - i - 1), fmt)"
  by (subst old_scan_item.simps) simp

lemma old_scan_open:
  "n < length p \<Longrightarrow> p ! n = CHR ''{'' \<Longrightarrow>
   old_scan_item p i n 0 b str fmt = old_scan_item p i (n + 1) (Suc 0) n (old_braced_name p i n) fmt"
  by (subst old_scan_item.simps) simp

lemma old_scan_close:
  "n < length p \<Longrightarrow> p ! n = CHR ''}'' \<Longrightarrow>
   old_scan_item p i n (Suc 0) b str fmt = (n + 1, 0, str, substr p (b + 1) (n - b - 1))"
  by (subst old_scan_item.simps) simp

lemma old_scan_step:
  "n < length p \<Longrightarrow>
   st = 0 \<and> (is_alpha (p ! n) \<or> p ! n = CHR ''}'') \<and> p ! n \<noteq> CHR ''{'' \<or>
   st \<noteq> 0 \<and> (st = 1 \<longrightarrow> p ! n \<noteq> CHR ''}'') \<Longrightarrow>
   old_scan_item p i n st b str fmt =
     old_scan_item p i (n + 1) st b (if n + 1 = length p \<and> str = [] then drop (i + 1) p else str) fmt"
  by (subst old_scan_item.simps) (auto simp: Let_def)

lemma old_scan_item_ge: "n \<le> fst (old_scan_item p i n st b str fmt)"
proof (induction "length p - n" arbitrary: n st b str fmt rule: less_induct)
  case less
  have IH: "n + 1 \<le> fst (old_scan_item p i (n + 1) st' b' str' fmt)" if "n < length p" for st' b' str'
    using that by (intro less.hyps) simp
  show ?case
  proof (cases rule: scan_cases [where n = n and p = p and st = st])
    case at_open
    then show ?thesis using IH by (auto simp: old_scan_open intro: Suc_leD)
  next
    case going
    then show ?thesis using IH by (auto simp: old_scan_step [OF going] intro: Suc_leD)
  qed (simp_all add: old_scan_end old_scan_break old_scan_close)
qed

lemma old_scan_item_geD: "old_scan_item p i n st b str fmt = (n', r) \<Longrightarrow> n \<le> n'"
  using old_scan_item_ge [of n p i st b str fmt] by simp

text \<open>The outer loop, with the state and the pushes of today's parser.\<close>

function old_parse_loop :: "string \<Rightarrow> nat \<Rightarrow> parse_state \<Rightarrow> parse_state" where
  "old_parse_loop p i s =
     (if i < length p then
        if p ! i \<noteq> CHR ''%'' then old_parse_loop p (i + 1) (s\<lparr>fp_nstr := fp_nstr s @ [p ! i]\<rparr>)
        else if i + 1 < length p \<and> p ! (i + 1) = CHR ''%''
        then old_parse_loop p (i + 1) (s\<lparr>fp_nstr := fp_nstr s @ ''%''\<rparr>)
        else case old_scan_item p i (i + 1) 0 0 [] [] of (n, st, str, fmt) \<Rightarrow>
               if st = 0 then old_parse_loop p (n - 1 + 1) (push_item str fmt s)
               else if st = 1 then old_parse_loop p (i + 1) (push_error p i fmt s)
               else old_parse_loop p (i + 1) s
      else s)"
  by pat_completeness auto
termination
  by (relation "measure (\<lambda>(p, i, s). length p - i)") (auto dest!: old_scan_item_geD [OF sym])

declare old_parse_loop.simps [simp del]

definition old_format_items_table :: "string \<Rightarrow> (string \<Rightarrow> FormatItem) option" where
  "old_format_items_table = map_of
     [(''m'', \<lambda>fmt. MessageFormatItem),
      (''p'', \<lambda>fmt. LevelFormatItem),
      (''r'', \<lambda>fmt. ElapseFormatItem),
      (''c'', \<lambda>fmt. NameFormatItem),
      (''t'', \<lambda>fmt. ThreadIdFormatItem),
      (''n'', \<lambda>fmt. NewLineFormatItem),
      (''d'', \<lambda>fmt. new_DateTimeFormatItem fmt),
      (''f'', \<lambda>fmt. FilenameFormatItem),
      (''l'', \<lambda>fmt. LineFormatItem),
      (''T'', \<lambda>fmt. TabFormatItem fmt),
      (''F'', \<lambda>fmt. FiberIdFormatItem),
      (''N'', \<lambda>fmt. ThreadNameFormatItem)]"

fun old_push_built :: "string \<times> string \<times> nat \<Rightarrow> FormatItem list \<times> bool \<Rightarrow> FormatItem list \<times> bool" where
  "old_push_built (str, fmt, ty) (items, err) =
     (if ty = 0 then (items @ [StringFormatItem str], err)
      else case old_format_items_table str of
             None \<Rightarrow> (items @ [StringFormatItem (''<<error_format %'' @ str @ ''>>'')], True)
           | Some mk \<Rightarrow> (items @ [mk fmt], err))"

text \<open>The constructor, with what \<open>init\<close> writes to \<open>std::cout\<close>.\<close>

definition old_new_LogFormatter :: "string \<Rightarrow> OldLogFormatter \<times> string list" where
  "old_new_LogFormatter pattern =
     (let s = flush_tail (old_parse_loop pattern 0 parse_start);
          (items, err) = fold old_push_built (fp_vec s) ([], fp_error s)
      in (\<lparr>fmt_pattern = pattern, fmt_items = items, fmt_error = err\<rparr>, fp_out s))"

text \<open>\<open>LogFormatter::format\<close>, onto the text of a stream and into a string.\<close>

fun old_formatter_format :: "FormatItem list \<Rightarrow> string \<Rightarrow> OldLogLevel \<Rightarrow> OldLogEvent \<Rightarrow> string \<Rightarrow> string" where
  "old_formatter_format [] name level e ss = ss"
| "old_formatter_format (i # is) name level e ss =
     old_formatter_format is name level e (ss @ old_format_item name level e i)"

definition old_formatter_string :: "OldLogFormatter \<Rightarrow> string \<Rightarrow> OldLogLevel \<Rightarrow> OldLogEvent \<Rightarrow> string" where
  "old_formatter_string f name level e = old_formatter_format (fmt_items f) name level e []"

section \<open>Loggers and appenders\<close>

text \<open>
  The sink of a \<open>FileLogAppender\<close> is \<open>m_filename\<close> and \<open>m_filestream\<close>. A logger has no root.
\<close>

datatype old_sink = Old_stdout | Old_file string ofstream

record OldAppender =
  oa_level :: OldLogLevel
  oa_formatter :: "OldLogFormatter option"
  oa_sink :: old_sink

record OldLogger =
  ol_name :: string
  ol_level :: OldLogLevel
  ol_appenders :: "addr list"

record oldsys =
  old_loggers :: "addr \<Rightarrow> OldLogger option"
  old_next_logger :: addr
  old_appenders :: "addr \<Rightarrow> OldAppender option"
  old_next_appender :: addr
  old_stdout :: string
  old_files :: files

text \<open>
  \<open>new Logger(name)\<close>: the constructor leaves \<open>m_level\<close> as it finds it, so what the memory holds
  is an argument.
\<close>

definition old_new_Logger :: "OldLogLevel \<Rightarrow> string \<Rightarrow> oldsys \<Rightarrow> addr \<times> oldsys" where
  "old_new_Logger garbage name s =
     (let a = old_next_logger s;
          lg = \<lparr>ol_name = name, ol_level = garbage, ol_appenders = []\<rparr>
      in (a, s\<lparr>old_loggers := (old_loggers s)(a \<mapsto> lg), old_next_logger := Suc a\<rparr>))"

text \<open>
  The constructor of \<open>LogAppender\<close> with its default arguments, which both derived classes use:
  level DEBUG and no formatter. The stream of a \<open>FileLogAppender\<close> is not opened.
\<close>

definition old_new_LogAppender :: "old_sink \<Rightarrow> OldAppender" where
  "old_new_LogAppender k = \<lparr>oa_level = DEBUG, oa_formatter = None, oa_sink = k\<rparr>"

definition old_alloc_appender :: "OldAppender \<Rightarrow> oldsys \<Rightarrow> addr \<times> oldsys" where
  "old_alloc_appender x s =
     (let a = old_next_appender s
      in (a, s\<lparr>old_appenders := (old_appenders s)(a \<mapsto> x), old_next_appender := Suc a\<rparr>))"

definition old_new_StdoutLogAppender :: "oldsys \<Rightarrow> addr \<times> oldsys" where
  "old_new_StdoutLogAppender s = old_alloc_appender (old_new_LogAppender Old_stdout) s"

definition old_new_FileLogAppender :: "string \<Rightarrow> oldsys \<Rightarrow> addr \<times> oldsys" where
  "old_new_FileLogAppender filename s =
     old_alloc_appender (old_new_LogAppender (Old_file filename new_ofstream)) s"

text \<open>Setters through a pointer; an address without an object is a null pointer.\<close>

definition old_with_logger :: "addr \<Rightarrow> (OldLogger \<Rightarrow> OldLogger) \<Rightarrow> oldsys \<Rightarrow> oldsys outcome" where
  "old_with_logger a f s =
     (case old_loggers s a of
        None \<Rightarrow> Inl (Null_deref ''Logger'')
      | Some lg \<Rightarrow> Inr (s\<lparr>old_loggers := (old_loggers s)(a \<mapsto> f lg)\<rparr>))"

definition old_with_appender :: "addr \<Rightarrow> (OldAppender \<Rightarrow> OldAppender) \<Rightarrow> oldsys \<Rightarrow> oldsys outcome" where
  "old_with_appender a f s =
     (case old_appenders s a of
        None \<Rightarrow> Inl (Null_deref ''LogAppender'')
      | Some x \<Rightarrow> Inr (s\<lparr>old_appenders := (old_appenders s)(a \<mapsto> f x)\<rparr>))"

definition old_Logger_setLevel :: "addr \<Rightarrow> OldLogLevel \<Rightarrow> oldsys \<Rightarrow> oldsys outcome" where
  "old_Logger_setLevel a level = old_with_logger a (\<lambda>lg. lg\<lparr>ol_level := level\<rparr>)"

definition old_addAppender :: "addr \<Rightarrow> addr \<Rightarrow> oldsys \<Rightarrow> oldsys outcome" where
  "old_addAppender a ap = old_with_logger a (\<lambda>lg. lg\<lparr>ol_appenders := ol_appenders lg @ [ap]\<rparr>)"

text \<open>The loop over the iterators: erases the first pointer that is equal and stops.\<close>

fun old_erase :: "addr \<Rightarrow> addr list \<Rightarrow> addr list" where
  "old_erase ap [] = []"
| "old_erase ap (x # xs) = (if x = ap then xs else x # old_erase ap xs)"

definition old_delAppender :: "addr \<Rightarrow> addr \<Rightarrow> oldsys \<Rightarrow> oldsys outcome" where
  "old_delAppender a ap = old_with_logger a (\<lambda>lg. lg\<lparr>ol_appenders := old_erase ap (ol_appenders lg)\<rparr>)"

definition old_setFormatter :: "addr \<Rightarrow> OldLogFormatter option \<Rightarrow> oldsys \<Rightarrow> oldsys outcome" where
  "old_setFormatter a f = old_with_appender a (\<lambda>x. x\<lparr>oa_formatter := f\<rparr>)"

definition old_LogAppender_setLevel :: "addr \<Rightarrow> OldLogLevel \<Rightarrow> oldsys \<Rightarrow> oldsys outcome" where
  "old_LogAppender_setLevel a level = old_with_appender a (\<lambda>x. x\<lparr>oa_level := level\<rparr>)"

text \<open>
  \<open>FileLogAppender::reopen\<close>: it closes a stream that is not in a failed state and opens the file
  without a mode, which empties the file.
\<close>

definition old_ofstream_open :: "os_env \<Rightarrow> string \<Rightarrow> ofstream \<times> files \<Rightarrow> ofstream \<times> files" where
  "old_ofstream_open env name st = (case st of (os, fs) \<Rightarrow>
     if os_file os = None \<and> can_open env name
     then (os\<lparr>os_file := Some name, os_fail := False\<rparr>, fs(name := []))
     else (os\<lparr>os_fail := True\<rparr>, fs))"

definition old_reopen :: "os_env \<Rightarrow> string \<Rightarrow> ofstream \<Rightarrow> files \<Rightarrow> (ofstream \<times> files) \<times> bool" where
  "old_reopen env filename os fs =
     (let os1 = (if \<not> os_fail os then ofstream_close os else os);
          (os2, fs2) = old_ofstream_open env filename (os1, fs)
      in ((os2, fs2), \<not> os_fail os2))"

text \<open>\<open>appender->reopen()\<close>, on an appender to a file; there is no such member on the others.\<close>

definition old_appender_reopen :: "os_env \<Rightarrow> addr \<Rightarrow> oldsys \<Rightarrow> (bool \<times> oldsys) outcome" where
  "old_appender_reopen env a s =
     (case old_appenders s a of
        None \<Rightarrow> Inl (Null_deref ''FileLogAppender'')
      | Some x \<Rightarrow>
          (case oa_sink x of
             Old_stdout \<Rightarrow> Inl (Null_deref ''FileLogAppender'')
           | Old_file fn os \<Rightarrow>
               (let ((os', fs'), ok) = old_reopen env fn os (old_files s)
                in Inr (ok, s\<lparr>old_files := fs',
                     old_appenders := (old_appenders s)(a \<mapsto> x\<lparr>oa_sink := Old_file fn os'\<rparr>)\<rparr>))))"

section \<open>Logging\<close>

definition old_stdout_log ::
  "string \<Rightarrow> OldLogLevel \<Rightarrow> OldLogEvent \<Rightarrow> OldAppender \<Rightarrow> oldsys \<Rightarrow> oldsys outcome" where
  "old_stdout_log name level e x s =
     (if oa_level x \<le> level
      then (case oa_formatter x of
              None \<Rightarrow> Inl (Null_deref ''m_formatter'')
            | Some f \<Rightarrow>
                Inr (s\<lparr>old_stdout := old_stdout s @ old_formatter_string f name level e @ newline\<rparr>))
      else Inr s)"

text \<open>\<open>m_filestream << m_formatter->format(...) << std::endl\<close>: two outputs, the text and the newline.\<close>

definition old_file_log ::
  "os_env \<Rightarrow> string \<Rightarrow> OldLogLevel \<Rightarrow> OldLogEvent \<Rightarrow> addr \<Rightarrow> OldAppender \<Rightarrow> string \<Rightarrow> ofstream \<Rightarrow>
   oldsys \<Rightarrow> oldsys outcome" where
  "old_file_log env name level e a x fn os s =
     (if oa_level x \<le> level
      then (case oa_formatter x of
              None \<Rightarrow> Inl (Null_deref ''m_formatter'')
            | Some f \<Rightarrow>
                (let st1 = ofstream_write env (old_formatter_string f name level e) (os, old_files s);
                     (os2, fs2) = ofstream_write env newline st1
                 in Inr (s\<lparr>old_files := fs2,
                      old_appenders := (old_appenders s)(a \<mapsto> x\<lparr>oa_sink := Old_file fn os2\<rparr>)\<rparr>)))
      else Inr s)"

definition old_appender_log ::
  "os_env \<Rightarrow> string \<Rightarrow> OldLogLevel \<Rightarrow> OldLogEvent \<Rightarrow> addr \<Rightarrow> oldsys \<Rightarrow> oldsys outcome" where
  "old_appender_log env name level e a s =
     (case old_appenders s a of
        None \<Rightarrow> Inl (Null_deref ''LogAppender'')
      | Some x \<Rightarrow>
          (case oa_sink x of
             Old_stdout \<Rightarrow> old_stdout_log name level e x s
           | Old_file fn os \<Rightarrow> old_file_log env name level e a x fn os s))"

definition old_Logger_log ::
  "os_env \<Rightarrow> addr \<Rightarrow> OldLogLevel \<Rightarrow> OldLogEvent \<Rightarrow> oldsys \<Rightarrow> oldsys outcome" where
  "old_Logger_log env a level e s =
     (case old_loggers s a of
        None \<Rightarrow> Inl (Null_deref ''Logger'')
      | Some lg \<Rightarrow>
          (if ol_level lg \<le> level
           then foldM (old_appender_log env (ol_name lg) level e) (ol_appenders lg) s
           else Inr s))"

definition old_Logger_debug :: "os_env \<Rightarrow> addr \<Rightarrow> OldLogEvent \<Rightarrow> oldsys \<Rightarrow> oldsys outcome" where
  "old_Logger_debug env a e = old_Logger_log env a DEBUG e"

definition old_Logger_info :: "os_env \<Rightarrow> addr \<Rightarrow> OldLogEvent \<Rightarrow> oldsys \<Rightarrow> oldsys outcome" where
  "old_Logger_info env a e = old_Logger_log env a INFO e"

definition old_Logger_warn :: "os_env \<Rightarrow> addr \<Rightarrow> OldLogEvent \<Rightarrow> oldsys \<Rightarrow> oldsys outcome" where
  "old_Logger_warn env a e = old_Logger_log env a WARN e"

definition old_Logger_error :: "os_env \<Rightarrow> addr \<Rightarrow> OldLogEvent \<Rightarrow> oldsys \<Rightarrow> oldsys outcome" where
  "old_Logger_error env a e = old_Logger_log env a ERROR e"

definition old_Logger_fatal :: "os_env \<Rightarrow> addr \<Rightarrow> OldLogEvent \<Rightarrow> oldsys \<Rightarrow> oldsys outcome" where
  "old_Logger_fatal env a e = old_Logger_log env a FATAL e"

end
