(* ===== verification/OldPattern.thy ===== *)
theory OldPattern
  imports OldLog
begin

text \<open>
  The pattern parser of the old copy against today's: on which patterns they agree, and what the old
  one makes of the others.
\<close>

section \<open>The two inner loops\<close>

text \<open>Inside braces the loops are the same.\<close>

lemma old_scan_inside: "old_scan_item p i n (Suc 0) b str fmt = scan_item p i n (Suc 0) b str fmt"
proof (induction "length p - n" arbitrary: n str rule: less_induct)
  case less
  show ?case
  proof (cases rule: scan_cases [where n = n and p = p and st = "Suc 0"])
    case going
    then have "length p - (n + 1) < length p - n" by simp
    then show ?thesis using less by (simp add: scan_step [OF going] old_scan_step [OF going])
  qed (simp_all add: scan_end old_scan_end scan_close old_scan_close)
qed

text \<open>\<open>k\<close> is the place of the brace that the loop reaches from \<open>n\<close>, with \<open>fmt_status\<close> 0.\<close>

definition opens_at :: "string \<Rightarrow> nat \<Rightarrow> nat \<Rightarrow> bool" where
  "opens_at p n k \<longleftrightarrow> n \<le> k \<and> k < length p \<and> p ! k = CHR ''{'' \<and>
     (\<forall>j \<in> {n..<k}. is_alpha (p ! j) \<or> p ! j = CHR ''}'')"

lemma opens_at_Suc:
  "opens_at p (n + 1) k \<Longrightarrow> is_alpha (p ! n) \<or> p ! n = CHR ''}'' \<Longrightarrow> opens_at p n k"
  by (auto simp: opens_at_def Suc_le_eq le_less)

lemma old_scan_without:
  assumes "\<nexists>k. opens_at p n k"
  shows "old_scan_item p i n 0 b str fmt = scan_item p i n 0 b str fmt"
  using assms
proof (induction "length p - n" arbitrary: n str rule: less_induct)
  case less
  show ?case
  proof (cases rule: scan_cases [where n = n and p = p and st = 0])
    case at_open
    then have "opens_at p n n" by (simp add: opens_at_def)
    then show ?thesis using less.prems by blast
  next
    case going
    then have "length p - (n + 1) < length p - n" by simp
    moreover have "\<nexists>k. opens_at p (n + 1) k" using going less.prems opens_at_Suc by auto
    ultimately show ?thesis
      using less.hyps by (simp add: scan_step [OF going] old_scan_step [OF going])
  qed (simp_all add: scan_end old_scan_end scan_break old_scan_break)
qed

lemma scans_open:
  assumes "opens_at p n k"
  shows "scan_item p i n 0 b str fmt = scan_item p i (k + 1) (Suc 0) k (substr p (i + 1) (k - i - 1)) fmt \<and>
    old_scan_item p i n 0 b str fmt = scan_item p i (k + 1) (Suc 0) k (old_braced_name p i k) fmt"
  using assms
proof (induction "k - n" arbitrary: n str)
  case 0
  then have "n = k" by (simp add: opens_at_def)
  then show ?case using 0 by (simp add: opens_at_def scan_open old_scan_open old_scan_inside)
next
  case (Suc d)
  have n: "n < k" "k < length p" "is_alpha (p ! n) \<or> p ! n = CHR ''}''"
    using Suc by (auto simp: opens_at_def)
  have "opens_at p (n + 1) k" using Suc.prems n by (auto simp: opens_at_def)
  moreover have "d = k - (n + 1)" using Suc.hyps(2) by simp
  moreover have "n < length p" "n + 1 \<noteq> length p" "p ! n \<noteq> CHR ''{''" using n by auto
  ultimately show ?case using Suc.hyps(1) [of "n + 1" str] n(3)
    by (auto simp: scan_step [of n p 0] old_scan_step [of n p 0])
qed

section \<open>Patterns without braces\<close>

lemma old_loop_end: "\<not> i < length p \<Longrightarrow> old_parse_loop p i s = s"
  by (subst old_parse_loop.simps) simp

lemma old_loop_char:
  "i < length p \<Longrightarrow> p ! i \<noteq> CHR ''%'' \<Longrightarrow>
   old_parse_loop p i s = old_parse_loop p (i + 1) (s\<lparr>fp_nstr := fp_nstr s @ [p ! i]\<rparr>)"
  by (subst old_parse_loop.simps) simp

lemma old_loop_percent:
  "i + 1 < length p \<Longrightarrow> p ! i = CHR ''%'' \<Longrightarrow> p ! (i + 1) = CHR ''%'' \<Longrightarrow>
   old_parse_loop p i s = old_parse_loop p (i + 1) (s\<lparr>fp_nstr := fp_nstr s @ [p ! i]\<rparr>)"
  by (subst old_parse_loop.simps) simp

lemma old_loop_item:
  "i < length p \<Longrightarrow> p ! i = CHR ''%'' \<Longrightarrow> \<not> (i + 1 < length p \<and> p ! (i + 1) = CHR ''%'') \<Longrightarrow>
   old_scan_item p i (i + 1) 0 0 [] [] = (n, 0, str, fmt) \<Longrightarrow>
   old_parse_loop p i s = old_parse_loop p n (push_item str fmt s)"
  by (subst old_parse_loop.simps) (auto dest: old_scan_item_geD)

lemma old_loop_error:
  "i < length p \<Longrightarrow> p ! i = CHR ''%'' \<Longrightarrow> \<not> (i + 1 < length p \<and> p ! (i + 1) = CHR ''%'') \<Longrightarrow>
   old_scan_item p i (i + 1) 0 0 [] [] = (n, Suc 0, str, fmt) \<Longrightarrow>
   old_parse_loop p i s = old_parse_loop p (i + 1) (push_error p i fmt s)"
  by (subst old_parse_loop.simps) auto

lemma old_loop_plain:
  assumes "CHR ''{'' \<notin> set p"
  shows "old_parse_loop p i s = parse_loop p i s"
proof (induction "length p - i" arbitrary: i s rule: less_induct)
  case less
  have IH: "old_parse_loop p k s' = parse_loop p k s'" if "i < length p" "i < k" for k s'
    using that by (intro less.hyps) simp
  have scan: "old_scan_item p i (i + 1) 0 0 [] [] = scan_item p i (i + 1) 0 0 [] []"
    using assms nth_mem by (intro old_scan_without) (force simp: opens_at_def)
  show ?case
  proof (cases rule: loop_cases [where p = p and i = i])
    case (item n str fmt)
    then have "i < n" by (auto dest: scan_item_geD)
    then show ?thesis using item scan IH by (simp add: loop_item old_loop_item)
  next
    case (error n str fmt)
    then show ?thesis using scan IH by (simp add: loop_error old_loop_error)
  qed (use IH in \<open>simp_all add: loop_end loop_char loop_percent old_loop_end old_loop_char old_loop_percent\<close>)
qed

lemma old_push_built_eq: "old_push_built = push_built"
proof (intro ext)
  fix t r
  show "old_push_built t r = push_built t r"
    by (cases t; cases r) (simp add: old_format_items_table_def format_items_table_def)
qed

lemma old_new_LogFormatter_eq:
  "old_new_LogFormatter p =
     (let s = flush_tail (old_parse_loop p 0 parse_start)
      in (\<lparr>fmt_pattern = p, fmt_items = map item_of_triple (fp_vec s),
           fmt_error = (fp_error s \<or> (\<exists>t \<in> set (fp_vec s). bad_triple t))\<rparr>, fp_out s))"
  by (simp add: old_new_LogFormatter_def old_push_built_eq fold_push_built Let_def)

text \<open>On a pattern without an opening brace the two constructors give the same formatter.\<close>

lemma old_formatter_plain: "CHR ''{'' \<notin> set p \<Longrightarrow> old_new_LogFormatter p = new_LogFormatter p"
  by (simp add: old_new_LogFormatter_eq new_LogFormatter_eq old_loop_plain)

section \<open>Patterns of well-formed pieces\<close>

text \<open>The name that the old parser reads for a braced piece at \<open>i\<close>.\<close>

lemma old_name_taken:
  assumes "p = pre @ ''%'' @ nm @ rest"
  shows "old_braced_name p (length pre) (length pre + 1 + length nm) =
    take (unat ((of_nat (length nm) :: u64) + 1 - of_nat (length pre))) (nm @ rest)"
  using assms by (simp add: old_braced_name_def substr_def algebra_simps)

lemma take_prefix_eq: "rest \<noteq> [] \<Longrightarrow> take c (nm @ rest) = nm \<longleftrightarrow> c = length nm"
  by (cases "c \<le> length nm") (auto dest: arg_cong [of _ _ length])

lemma unat_of_nat_u64: "n < 2 ^ 64 \<Longrightarrow> unat (of_nat n :: u64) = n"
  by (simp add: unat_of_nat)

lemma of_nat_u64_eq: "m < 2 ^ 64 \<Longrightarrow> n < 2 ^ 64 \<Longrightarrow> (of_nat m :: u64) = of_nat n \<longleftrightarrow> m = n"
  using unat_of_nat_u64 [of m] unat_of_nat_u64 [of n] by metis

lemma unat_u64_eq: "n < 2 ^ 64 \<Longrightarrow> unat (w :: u64) = n \<longleftrightarrow> w = of_nat n"
  using unat_of_nat_u64 [of n] by auto

lemma add_one_diff_eq: "(a :: u64) + 1 - b = a \<longleftrightarrow> b = of_nat 1"
  unfolding diff_eq_eq add_left_cancel of_nat_1 by (rule eq_commute)

lemma old_count_eq:
  assumes "L < 2 ^ 64" and "i < 2 ^ 64"
  shows "unat ((of_nat L :: u64) + 1 - of_nat i) = L \<longleftrightarrow> i = 1"
  unfolding unat_u64_eq [OF assms(1)] add_one_diff_eq
  using assms(2) by (intro of_nat_u64_eq) simp_all

lemma old_name_right:
  assumes "p = pre @ ''%'' @ nm @ rest" and "rest \<noteq> []" and "length p < 2 ^ 64"
  shows "old_braced_name p (length pre) (length pre + 1 + length nm) = nm \<longleftrightarrow> length pre = 1"
  unfolding old_name_taken [OF assms(1)]
  using assms by (subst take_prefix_eq, simp) (rule old_count_eq; simp)

lemma opens_at_braced:
  assumes "\<forall>c \<in> set nm. is_alpha c" and "p = pre @ ''%'' @ nm @ ''{'' @ rest"
  shows "opens_at p (length pre + 1) (length pre + 1 + length nm)"
proof -
  have "is_alpha (p ! j)" if "j \<in> {length pre + 1..<length pre + 1 + length nm}" for j
  proof -
    have "p ! j = nm ! (j - (length pre + 1))" using that assms(2) by (auto simp: nth_append nth_Cons')
    then show ?thesis using that assms(1) nth_mem [of "j - (length pre + 1)" nm] by auto
  qed
  then show ?thesis using assms(2) by (auto simp: opens_at_def nth_append)
qed

lemma old_scan_braced:
  assumes "\<forall>c \<in> set nm. is_alpha c" and "CHR ''}'' \<notin> set g"
    and p: "p = pre @ render (Fmt nm (Some g)) @ rest"
  shows "old_scan_item p (length pre) (length pre + 1) 0 0 [] [] =
    (length (pre @ render (Fmt nm (Some g))), 0,
     old_braced_name p (length pre) (length pre + 1 + length nm), g)"
proof -
  let ?k = "length pre + 1 + length nm"
  have p': "p = (pre @ ''%'' @ nm @ ''{'') @ g @ CHR ''}'' # rest" using p by simp
  have "opens_at p (length pre + 1) ?k" using assms by (intro opens_at_braced) simp_all
  then show ?thesis
    using scans_open [of p "length pre + 1" ?k "length pre" 0 "[]" "[]"]
      scan_inner [OF assms(2) p', of "length pre" ?k] p
    by (simp add: substr_def)
qed

lemma no_open_unbraced:
  assumes "nm \<noteq> []" and "\<forall>c \<in> set nm. is_alpha c" and "ends_name rest" and "p = pre @ ''%'' @ nm @ rest"
  shows "\<not> opens_at p (length pre + 1) k"
proof
  assume k: "opens_at p (length pre + 1) k"
  let ?e = "length pre + 1 + length nm"
  have alpha: "is_alpha (p ! j)" if "length pre + 1 \<le> j" "j < ?e" for j
    using that assms(2,4) nth_mem [of "j - (length pre + 1)" nm] by (auto simp: nth_append nth_Cons')
  have "\<not> k < ?e" using k alpha [of k] by (auto simp: opens_at_def)
  then have "rest \<noteq> []" "?e \<le> k" using k assms(4) by (auto simp: opens_at_def)
  then obtain c r where r: "rest = c # r" by (cases rest) auto
  then have "p ! ?e = c" using assms(4) by (simp add: nth_append)
  then show False using k \<open>?e \<le> k\<close> assms(3) r by (cases "k = ?e") (auto simp: opens_at_def)
qed

text \<open>The triples that the old parser collects for pieces that begin at \<open>i\<close> of the pattern \<open>p\<close>.\<close>

fun old_triples :: "string \<Rightarrow> nat \<Rightarrow> piece list \<Rightarrow> (string \<times> string \<times> nat) list" where
  "old_triples p i [] = []"
| "old_triples p i (Lit s # ps) = (s, [], 0) # old_triples p (i + length s) ps"
| "old_triples p i (Fmt nm None # ps) = (nm, [], 1) # old_triples p (i + 1 + length nm) ps"
| "old_triples p i (Fmt nm (Some g) # ps) =
     (old_braced_name p i (i + 1 + length nm), g, 1) #
     old_triples p (i + length (render (Fmt nm (Some g)))) ps"

lemma old_loop_lit:
  assumes "CHR ''%'' \<notin> set t"
  shows "old_parse_loop (pre @ t @ rest) (length pre) s =
    old_parse_loop (pre @ t @ rest) (length (pre @ t)) (s\<lparr>fp_nstr := fp_nstr s @ t\<rparr>)"
  using assms
proof (induction t arbitrary: pre s)
  case Nil
  then show ?case by simp
next
  case (Cons c t)
  then show ?case
    using Cons.IH [of "pre @ [c]" "s\<lparr>fp_nstr := fp_nstr s @ [c]\<rparr>"] by (subst old_loop_char) auto
qed

lemma no_escape:
  assumes "nm \<noteq> []" and "\<forall>c \<in> set nm. is_alpha c" and "p = pre @ ''%'' @ nm @ rest"
  shows "\<not> (length pre + 1 < length p \<and> p ! (length pre + 1) = CHR ''%'')"
proof -
  obtain c nm' where nm: "nm = c # nm'" "is_alpha c" using assms by (cases nm) auto
  then have "p ! (length pre + 1) = c" using assms(3) by (simp add: nth_append)
  with nm show ?thesis by auto
qed

lemma old_loop_pieces:
  assumes "wf_pieces ps" and "fp_nstr s \<noteq> [] \<Longrightarrow> \<not> starts_lit ps" and "p = pre @ render_all ps"
  shows "let r = flush_tail (old_parse_loop p (length pre) s)
    in fp_vec r = fp_vec s @ (if fp_nstr s = [] then [] else [(fp_nstr s, [], 0)]) @
         old_triples p (length pre) ps
       \<and> fp_error r = fp_error s \<and> fp_out r = fp_out s"
  using assms
proof (induction p "length pre" ps arbitrary: pre s rule: old_triples.induct)
  case (1 p)
  then show ?case by (simp add: old_loop_end)
next
  case (2 p t ps)
  then show ?case
    using "2.hyps" [of "pre @ t" "s\<lparr>fp_nstr := t\<rparr>"] old_loop_lit [of t pre "render_all ps" s]
    by (cases "fp_nstr s") (simp_all add: Let_def)
next
  case (3 p nm ps)
  have p: "p = pre @ ''%'' @ nm @ render_all ps" using "3.prems" by simp
  have "old_scan_item p (length pre) (length pre + 1) 0 0 [] [] =
      (length (pre @ ''%'' @ nm), 0, nm, [])"
    using "3.prems" scan_fmt [of nm "render_all ps" None p pre] no_open_unbraced [OF _ _ _ p]
    by (subst old_scan_without) auto
  then have "old_parse_loop p (length pre) s = old_parse_loop p (length (pre @ ''%'' @ nm)) (push_item nm [] s)"
    using "3.prems" no_escape [OF _ _ p] p by (intro old_loop_item) (auto simp: nth_append)
  then show ?case
    using "3.hyps" [of "pre @ ''%'' @ nm" "push_item nm [] s"] "3.prems" by (simp add: Let_def)
next
  case (4 p nm g ps)
  let ?q = "render (Fmt nm (Some g))" and ?nm = "old_braced_name p (length pre) (length pre + 1 + length nm)"
  have p: "p = pre @ ?q @ render_all ps" "p = pre @ ''%'' @ nm @ (''{'' @ g @ ''}'' @ render_all ps)"
    using "4.prems" by simp_all
  have "old_scan_item p (length pre) (length pre + 1) 0 0 [] [] = (length (pre @ ?q), 0, ?nm, g)"
    using "4.prems" by (intro old_scan_braced [OF _ _ p(1)]) auto
  then have "old_parse_loop p (length pre) s = old_parse_loop p (length (pre @ ?q)) (push_item ?nm g s)"
    using "4.prems" no_escape [OF _ _ p(2)] p(2) by (intro old_loop_item) (auto simp: nth_append)
  then show ?case
    using "4.hyps" [of "pre @ ?q" "push_item ?nm g s"] "4.prems" by (simp add: Let_def)
qed

text \<open>The items of two names with the same braced text are the same only for the same name.\<close>

lemma item_of_name_inject:
  "item_of_triple (a, g, Suc 0) = item_of_triple (b, g, Suc 0) \<longleftrightarrow> a = b"
  by (auto simp: item_of_triple_def format_items_table_def new_DateTimeFormatItem_def split: if_splits)

text \<open>Where the braced pieces of a list begin.\<close>

fun braced_at :: "nat \<Rightarrow> piece list \<Rightarrow> nat list" where
  "braced_at i [] = []"
| "braced_at i (Fmt nm (Some g) # ps) = i # braced_at (i + length (render (Fmt nm (Some g)))) ps"
| "braced_at i (q # ps) = braced_at (i + length (render q)) ps"

lemma old_triples_eq:
  assumes "p = pre @ render_all ps" and "length p < 2 ^ 64"
  shows "(map item_of_triple (old_triples p (length pre) ps) = map (item_of_triple \<circ> triple_of) ps \<longleftrightarrow>
      set (braced_at (length pre) ps) \<subseteq> {1}) \<and>
    (set (braced_at (length pre) ps) \<subseteq> {1} \<longrightarrow> old_triples p (length pre) ps = map triple_of ps)"
  using assms
proof (induction p "length pre" ps arbitrary: pre rule: old_triples.induct)
  case (2 p t ps)
  then show ?case using "2.hyps" [of "pre @ t"] by simp
next
  case (3 p nm ps)
  then show ?case using "3.hyps" [of "pre @ ''%'' @ nm"] by simp
next
  case (4 p nm g ps)
  have "old_braced_name p (length pre) (length pre + 1 + length nm) = nm \<longleftrightarrow> length pre = 1"
    using "4.prems" by (intro old_name_right [where rest = "''{'' @ g @ ''}'' @ render_all ps"]) simp_all
  then show ?case
    using "4.hyps" [of "pre @ render (Fmt nm (Some g))"] "4.prems" item_of_name_inject by auto
qed simp

lemma old_parsed:
  assumes "wf_pieces ps" and "p = render_all ps"
  shows "old_new_LogFormatter p =
    (\<lparr>fmt_pattern = p, fmt_items = map item_of_triple (old_triples p 0 ps),
      fmt_error = (\<exists>t \<in> set (old_triples p 0 ps). bad_triple t)\<rparr>, [])"
  using old_loop_pieces [OF assms(1), of parse_start p "[]"] assms(2)
  by (simp add: old_new_LogFormatter_eq Let_def)

lemma new_parsed:
  assumes "wf_pieces ps" and "p = render_all ps"
  shows "new_LogFormatter p =
    (\<lparr>fmt_pattern = p, fmt_items = map (item_of_triple \<circ> triple_of) ps,
      fmt_error = (\<exists>t \<in> set (map triple_of ps). bad_triple t)\<rparr>, [])"
  using loop_pieces [OF assms(1), of parse_start "[]"] assms(2)
  by (simp add: new_LogFormatter_eq Let_def)

text \<open>
  C39. The parser of the old copy and today's parser, on the text of a well-formed list of
  pieces: they build the same formatter exactly when no piece with braces begins anywhere but at
  the second character of the pattern. The old parser takes \<open>n - i - i\<close> characters for a name whose
  percent sign is at \<open>i\<close> and whose brace is at \<open>n\<close>, today's takes \<open>n - i - 1\<close>.
\<close>

theorem old_parser_agrees:
  assumes "wf_pieces ps" and "length (render_all ps) < 2 ^ 64"
  shows "old_new_LogFormatter (render_all ps) = new_LogFormatter (render_all ps) \<longleftrightarrow>
    set (braced_at 0 ps) \<subseteq> {1}"
  using old_triples_eq [of "render_all ps" "[]" ps] assms(2)
  by (cases "set (braced_at 0 ps) \<subseteq> {1}") (simp_all add: old_parsed [OF assms(1)] new_parsed [OF assms(1)])

theorem old_parser_agrees_witness:
  "old_new_LogFormatter '' %d{%H}'' = new_LogFormatter '' %d{%H}'' \<and>
   old_new_LogFormatter ''%d{%H}'' \<noteq> new_LogFormatter ''%d{%H}''"
  using old_parser_agrees [of "[Lit '' '', Fmt ''d'' (Some ''%H'')]"]
    old_parser_agrees [of "[Fmt ''d'' (Some ''%H'')]"]
  by (simp add: is_alpha_def is_upper_def is_lower_def)

text \<open>
  A known item with braces anywhere else puts the old formatter in error: its name is read with the
  brace at the beginning of the pattern, as empty at the third character, and as the whole rest of
  the pattern after that, because the count wraps around.
\<close>

lemma old_name_elsewhere:
  assumes "p = pre @ ''%'' @ [c] @ ''{'' @ rest" and "length p < 2 ^ 63" and "length pre \<noteq> 1"
  shows "length (old_braced_name p (length pre) (length pre + 1 + 1)) \<noteq> 1"
proof -
  let ?w = "(of_nat 1 :: u64) + 1 - of_nat (length pre)"
  have n: "old_braced_name p (length pre) (length pre + 1 + 1) = take (unat ?w) (c # CHR ''{'' # rest)"
    using old_name_taken [of p pre "[c]" "''{'' @ rest"] assms(1) by simp
  have "unat ?w \<noteq> 1"
    using old_count_eq [of 1 "length pre"] assms by simp
  then show ?thesis unfolding n by (simp add: min_def)
qed

lemma table_letter: "format_items_table nm \<noteq> None \<Longrightarrow> length nm = 1"
  by (auto simp: format_items_table_def split: if_splits)

lemma old_triples_bad:
  assumes "p = pre @ render_all ps" and "length p < 2 ^ 63"
    and "\<forall>nm f. Fmt nm f \<in> set ps \<longrightarrow> format_items_table nm \<noteq> None"
    and "\<not> set (braced_at (length pre) ps) \<subseteq> {1}"
  shows "\<exists>t \<in> set (old_triples p (length pre) ps). bad_triple t"
  using assms
proof (induction p "length pre" ps arbitrary: pre rule: old_triples.induct)
  case (2 p t ps)
  then show ?case using "2.hyps" [of "pre @ t"] by simp
next
  case (3 p nm ps)
  then show ?case using "3.hyps" [of "pre @ ''%'' @ nm"] by auto
next
  case (4 p nm g ps)
  have "length nm = 1" using "4.prems"(3) table_letter by auto
  then obtain c where nm: "nm = [c]" by (cases nm) auto
  have p: "p = pre @ ''%'' @ [c] @ ''{'' @ (g @ ''}'' @ render_all ps)" using "4.prems" nm by simp
  show ?case
  proof (cases "length pre = 1")
    case True
    then show ?thesis
      using "4.hyps" [of "pre @ render (Fmt nm (Some g))"] "4.prems" by (auto split: if_splits)
  next
    case False
    then have "format_items_table (old_braced_name p (length pre) (length pre + 1 + length nm)) = None"
      using old_name_elsewhere [OF p "4.prems"(2)] table_letter nm by fastforce
    then show ?thesis by (simp add: bad_triple_def)
  qed
qed simp

lemma old_braced_items_fail:
  assumes "wf_pieces ps" and "length (render_all ps) < 2 ^ 63"
    and "\<forall>nm f. Fmt nm f \<in> set ps \<longrightarrow> format_items_table nm \<noteq> None"
    and "\<not> set (braced_at 0 ps) \<subseteq> {1}"
  shows "fmt_error (fst (old_new_LogFormatter (render_all ps))) \<and>
    \<not> fmt_error (fst (new_LogFormatter (render_all ps)))"
proof -
  have "\<not> bad_triple (triple_of q)" if "q \<in> set ps" for q
    using assms(3) that by (cases q) (auto simp: bad_triple_def)
  then show ?thesis
    using old_triples_bad [of "render_all ps" "[]" ps] assms(2-4)
    by (simp add: old_parsed [OF assms(1)] new_parsed [OF assms(1)])
qed

text \<open>So the pattern that the header documents as the default is in error.\<close>

lemma old_default_pattern_error: "fmt_error (fst (old_new_LogFormatter default_pattern))"
proof -
  have d: "render_all default_pieces = default_pattern" and w: "wf_pieces default_pieces"
    by code_simp+
  have "format_items_table nm \<noteq> None" if "Fmt nm f \<in> set default_pieces" for nm f
    using that by (auto simp: default_pieces_def format_items_table_def)
  moreover have "length (render_all default_pieces) < 2 ^ 63" unfolding d by (simp add: default_pattern_def)
  ultimately have "fmt_error (fst (old_new_LogFormatter (render_all default_pieces)))"
    using old_braced_items_fail [OF w] by (simp add: default_pieces_def)
  then show ?thesis unfolding d .
qed

end
