(* ===== verification/OldLogProps.thy ===== *)
theory OldLogProps
  imports OldLog LogProps
begin

text \<open>
  The old copy of the logging system besides its parser: the names of levels, what a call of the
  old \<open>Logger::log\<close> does, and the files, which need a call of \<open>reopen\<close> before the first event and
  lose their content by it.
\<close>

section \<open>Levels\<close>

text \<open>
  The names of levels: reading what was written gives the level back; every other text, also a
  name in lower case, throws.
\<close>

lemma old_level_roundtrip:
  "old_level_from_string (old_level_to_string l) = Inr l \<and>
   (old_level_from_string str = Inr l \<longleftrightarrow> str = old_level_to_string l) \<and>
   ((\<nexists>k. str = old_level_to_string k) \<longrightarrow>
     old_level_from_string str = Inl (Throw (Invalid_argument ''Invalid log level string'')))"
proof -
  have a: "old_level_from_string (old_level_to_string k) = Inr k" for k
    by (cases k) (simp_all add: old_level_from_string_def)
  have b: "str = old_level_to_string k" if "old_level_from_string str = Inr k" for k
    using that by (cases k) (auto simp: old_level_from_string_def split: if_splits)
  have "old_level_from_string str = Inl (Throw (Invalid_argument ''Invalid log level string''))"
    if "\<And>k. str \<noteq> old_level_to_string k"
    using that [of UNKNOW] that [of DEBUG] that [of INFO] that [of WARN] that [of ERROR] that [of FATAL]
    by (simp add: old_level_from_string_def)
  with a b show ?thesis by blast
qed

text \<open>Today's reader accepts every text that the old one accepts, with the same level.\<close>

lemma old_level_today: "old_level_from_string str = Inr l \<Longrightarrow> level_from_string str = l"
  using old_level_roundtrip [of l str] level_from_to_string [of l] by (cases l) auto

section \<open>Logging\<close>

text \<open>What a call of an appender does, when the appender exists.\<close>

definition old_text :: "string \<Rightarrow> LogLevel \<Rightarrow> LogEvent \<Rightarrow> OldAppender \<Rightarrow> string" where
  "old_text name level e x =
     (case oa_formatter x of
        Some f \<Rightarrow> (if oa_level x \<le> level then old_formatter_string f name level e @ newline else [])
      | None \<Rightarrow> [])"

definition old_console_text :: "oldsys \<Rightarrow> string \<Rightarrow> LogLevel \<Rightarrow> LogEvent \<Rightarrow> addr \<Rightarrow> string" where
  "old_console_text s name level e a =
     (case old_appenders s a of
        Some x \<Rightarrow> (if oa_sink x = Old_stdout then old_text name level e x else [])
      | None \<Rightarrow> [])"

text \<open>An appender without a formatter whose level the event passes.\<close>

definition old_bare :: "oldsys \<Rightarrow> LogLevel \<Rightarrow> addr \<Rightarrow> bool" where
  "old_bare s level a \<longleftrightarrow>
     (case old_appenders s a of
        Some x \<Rightarrow> oa_formatter x = None \<and> oa_level x \<le> level
      | None \<Rightarrow> False)"

text \<open>
  What logging keeps: the loggers, and of every appender everything but the stream; the files that
  the stream of no appender has open.
\<close>

fun same_sink :: "old_sink \<Rightarrow> old_sink \<Rightarrow> bool" where
  "same_sink Old_stdout Old_stdout = True"
| "same_sink (Old_file fn os) (Old_file fn' os') = (fn = fn' \<and> os_file os = os_file os')"
| "same_sink _ _ = False"

definition old_same_appender :: "OldAppender \<Rightarrow> OldAppender \<Rightarrow> bool" where
  "old_same_appender x y \<longleftrightarrow> oa_level y = oa_level x \<and> oa_formatter y = oa_formatter x \<and>
     same_sink (oa_sink x) (oa_sink y)"

definition old_frame :: "oldsys \<Rightarrow> oldsys \<Rightarrow> bool" where
  "old_frame s s' \<longleftrightarrow> old_loggers s' = old_loggers s \<and>
     (\<forall>a. rel_option old_same_appender (old_appenders s a) (old_appenders s' a))"

lemma same_sink_refl [simp]: "same_sink k k"
  by (cases k) simp_all

lemma same_sink_trans: "same_sink k l \<Longrightarrow> same_sink l m \<Longrightarrow> same_sink k m"
  by (cases k; cases l; cases m) simp_all

lemma same_sink_stdout [simp]: "same_sink k Old_stdout \<longleftrightarrow> k = Old_stdout" "same_sink Old_stdout k \<longleftrightarrow> k = Old_stdout"
  by (cases k; simp)+

lemma old_same_appender_refl [simp]: "old_same_appender x x"
  by (simp add: old_same_appender_def)

lemma old_same_appender_trans: "old_same_appender x y \<Longrightarrow> old_same_appender y z \<Longrightarrow> old_same_appender x z"
  unfolding old_same_appender_def by (auto intro: same_sink_trans)

lemma old_frame_refl [simp]: "old_frame s s"
  by (simp add: old_frame_def option.rel_refl)

lemma old_frame_appender:
  assumes "old_frame s s'" and "old_appenders s a = Some x"
  obtains y where "old_appenders s' a = Some y" "old_same_appender x y"
  using assms unfolding old_frame_def by (metis option_rel_Some1)

lemma old_frame_none: "old_frame s s' \<Longrightarrow> old_appenders s a = None \<Longrightarrow> old_appenders s' a = None"
  unfolding old_frame_def by (metis rel_option_None1)

lemma old_frame_trans:
  assumes "old_frame s t" and "old_frame t u"
  shows "old_frame s u"
proof -
  have "rel_option old_same_appender (old_appenders s a) (old_appenders u a)" for a
    using assms unfolding old_frame_def by (metis option.rel_transp old_same_appender_trans transp_def)
  then show ?thesis using assms by (simp add: old_frame_def)
qed

lemma old_frame_console:
  assumes "old_frame s s'"
  shows "old_console_text s' name level e a = old_console_text s name level e a"
proof (cases "old_appenders s a")
  case None
  then show ?thesis using old_frame_none [OF assms None] by (simp add: old_console_text_def)
next
  case (Some x)
  obtain y where y: "old_appenders s' a = Some y" "old_same_appender x y"
    by (rule old_frame_appender [OF assms Some])
  then show ?thesis
    using Some by (cases "oa_sink x") (auto simp: old_console_text_def old_text_def old_same_appender_def
        split: option.split)
qed

lemma old_frame_bare:
  assumes "old_frame s s'"
  shows "old_bare s' level a = old_bare s level a"
proof (cases "old_appenders s a")
  case None
  then show ?thesis using old_frame_none [OF assms None] by (simp add: old_bare_def)
next
  case (Some x)
  obtain y where y: "old_appenders s' a = Some y" "old_same_appender x y"
    by (rule old_frame_appender [OF assms Some])
  then show ?thesis using Some by (simp add: old_bare_def old_same_appender_def)
qed

lemma write_same_file: "ofstream_write env txt (os, fs) = (os', fs') \<Longrightarrow> os_file os' = os_file os"
  by (auto simp: ofstream_write_def split: if_splits option.splits)

lemma write_other_file:
  "ofstream_write env txt (os, fs) = (os', fs') \<Longrightarrow> os_file os \<noteq> Some g \<Longrightarrow> fs' g = fs g"
  by (auto simp: ofstream_write_def split: if_splits option.splits)

text \<open>The files that the call of an appender can touch.\<close>

definition old_open_on :: "oldsys \<Rightarrow> string \<Rightarrow> addr \<Rightarrow> bool" where
  "old_open_on s g a \<longleftrightarrow> (\<exists>x fn os. old_appenders s a = Some x \<and> oa_sink x = Old_file fn os \<and> os_file os = Some g)"

lemma old_frame_open: "old_frame s s' \<Longrightarrow> old_open_on s' g a \<Longrightarrow> old_open_on s g a"
proof -
  assume f: "old_frame s s'" and o: "old_open_on s' g a"
  then obtain x where x: "old_appenders s a = Some x"
    using old_frame_none [OF f, of a] by (cases "old_appenders s a") (auto simp: old_open_on_def)
  obtain y where "old_appenders s' a = Some y" "old_same_appender x y"
    by (rule old_frame_appender [OF f x])
  then show ?thesis using o x by (cases "oa_sink x") (auto simp: old_open_on_def old_same_appender_def)
qed

lemma old_appender_log_cases:
  assumes "old_appenders s a = Some x"
  shows "if old_bare s level a
    then old_appender_log env name level e a s = Inl (Null_deref ''m_formatter'')
    else \<exists>s'. old_appender_log env name level e a s = Inr s' \<and> old_frame s s' \<and>
      old_stdout s' = old_stdout s @ old_console_text s name level e a \<and>
      (\<forall>g. \<not> old_open_on s g a \<longrightarrow> old_files s' g = old_files s g)"
proof (cases "oa_sink x")
  case Old_stdout
  then show ?thesis
    using assms
    by (auto simp: old_bare_def old_appender_log_def old_stdout_log_def old_console_text_def old_text_def
        old_frame_def option.rel_refl split: option.split)
next
  case (Old_file fn os)
  show ?thesis
  proof (cases "oa_level x \<le> level")
    case False
    then show ?thesis
      using assms Old_file
      by (auto simp: old_bare_def old_appender_log_def old_file_log_def old_console_text_def)
  next
    case True
    show ?thesis
    proof (cases "oa_formatter x")
      case None
      then show ?thesis
        using assms Old_file True by (simp add: old_bare_def old_appender_log_def old_file_log_def)
    next
      case (Some f)
      obtain os1 fs1 where w1: "ofstream_write env (old_formatter_string f name level e) (os, old_files s) = (os1, fs1)"
        by fastforce
      obtain os2 fs2 where w2: "ofstream_write env newline (os1, fs1) = (os2, fs2)" by fastforce
      have os: "os_file os2 = os_file os" using write_same_file w1 w2 by metis
      have fs: "fs2 g = old_files s g" if "os_file os \<noteq> Some g" for g
        using write_other_file [OF w1, of g] write_other_file [OF w2, of g] write_same_file [OF w1] that by simp
      have "old_frame s (s\<lparr>old_files := fs2, old_appenders := (old_appenders s)(a \<mapsto> x\<lparr>oa_sink := Old_file fn os2\<rparr>)\<rparr>)"
        using assms Old_file os by (simp add: old_frame_def old_same_appender_def option.rel_refl)
      then show ?thesis
        using assms Old_file True Some w1 w2 fs
        by (auto simp: old_bare_def old_appender_log_def old_file_log_def old_console_text_def old_open_on_def)
    qed
  qed
qed

lemma old_appenders_log:
  assumes "\<forall>a \<in> set as. old_appenders s a \<noteq> None"
  shows "if \<exists>a \<in> set as. old_bare s level a
    then foldM (old_appender_log env name level e) as s = Inl (Null_deref ''m_formatter'')
    else \<exists>s'. foldM (old_appender_log env name level e) as s = Inr s' \<and> old_frame s s' \<and>
      old_stdout s' = old_stdout s @ concat (map (old_console_text s name level e) as) \<and>
      (\<forall>g. (\<forall>a \<in> set as. \<not> old_open_on s g a) \<longrightarrow> old_files s' g = old_files s g)"
  using assms
proof (induction as arbitrary: s)
  case Nil
  then show ?case by simp
next
  case (Cons a as)
  obtain x where x: "old_appenders s a = Some x" using Cons.prems by auto
  show ?case
  proof (cases "old_bare s level a")
    case True
    then show ?thesis using old_appender_log_cases [OF x, of level env name e] by simp
  next
    case False
    obtain t where t: "old_appender_log env name level e a s = Inr t" "old_frame s t"
        "old_stdout t = old_stdout s @ old_console_text s name level e a"
        "\<forall>g. \<not> old_open_on s g a \<longrightarrow> old_files t g = old_files s g"
      using old_appender_log_cases [OF x, of level env name e] False by auto
    have live: "\<forall>b \<in> set as. old_appenders t b \<noteq> None"
      using Cons.prems old_frame_appender [OF t(2)] by (metis list.set_intros(2) not_None_eq)
    have texts: "map (old_console_text t name level e) as = map (old_console_text s name level e) as"
      using old_frame_console [OF t(2)] by simp
    show ?thesis
    proof (cases "\<exists>b \<in> set as. old_bare s level b")
      case True
      then show ?thesis using Cons.IH [OF live] t(1) old_frame_bare [OF t(2)] by auto
    next
      case clear: False
      then obtain s' where s': "foldM (old_appender_log env name level e) as t = Inr s'" "old_frame t s'"
          "old_stdout s' = old_stdout t @ concat (map (old_console_text s name level e) as)"
          "\<forall>g. (\<forall>a \<in> set as. \<not> old_open_on t g a) \<longrightarrow> old_files s' g = old_files t g"
        using Cons.IH [OF live] old_frame_bare [OF t(2)] texts by auto
      have "old_files s' g = old_files s g" if "\<forall>b \<in> set (a # as). \<not> old_open_on s g b" for g
      proof -
        have "\<forall>b \<in> set as. \<not> old_open_on t g b" using that old_frame_open [OF t(2)] by auto
        then show ?thesis using that s'(4) t(4) by simp
      qed
      then show ?thesis
        using False clear t s' old_frame_trans [OF t(2) s'(2)] by simp
    qed
  qed
qed

text \<open>
  A call of the old \<open>Logger::log\<close> on a logger whose appenders exist, completely: it does
  nothing below the level of the logger; it dereferences a null pointer exactly when an appender
  whose level the event passes has no formatter (none has, from its constructor on); and otherwise
  it returns, the console has got the line of every console appender that the event passes, in
  order, and only files that a stream of the appenders has open have changed. There is no root to
  fall back to.
\<close>

theorem old_log_outcomes:
  assumes "old_loggers s a = Some lg" and "\<forall>b \<in> set (ol_appenders lg). old_appenders s b \<noteq> None"
  shows "if \<not> ol_level lg \<le> level then old_Logger_log env a level e s = Inr s
    else if \<exists>b \<in> set (ol_appenders lg). old_bare s level b
    then old_Logger_log env a level e s = Inl (Null_deref ''m_formatter'')
    else \<exists>s'. old_Logger_log env a level e s = Inr s' \<and> old_frame s s' \<and>
      old_stdout s' = old_stdout s @
        concat (map (old_console_text s (ol_name lg) level e) (ol_appenders lg)) \<and>
      (\<forall>g. (\<forall>b \<in> set (ol_appenders lg). \<not> old_open_on s g b) \<longrightarrow> old_files s' g = old_files s g)"
  using old_appenders_log [OF assms(2), of level env "ol_name lg" e] assms(1)
  by (auto simp: old_Logger_log_def)

definition old_sys_example :: oldsys where
  "old_sys_example =
     \<lparr>old_loggers = [0 \<mapsto> \<lparr>ol_name = ''root'', ol_level = INFO, ol_appenders = [0, 1]\<rparr>],
      old_next_logger = 1,
      old_appenders =
        [0 \<mapsto> \<lparr>oa_level = DEBUG, oa_formatter = Some (fst (old_new_LogFormatter ''%c: %m'')), oa_sink = Old_stdout\<rparr>,
         1 \<mapsto> \<lparr>oa_level = ERROR, oa_formatter = None, oa_sink = Old_stdout\<rparr>],
      old_next_appender = 2, old_stdout = [], old_files = (\<lambda>f. [])\<rparr>"

definition old_event_example :: LogEvent where
  "old_event_example = (old_new_LogEvent 0 INFO ''a.cc'' 1 0 0 0 0 ''main'')\<lparr>ev_content := ''hi''\<rparr>"

lemma old_example_formatter:
  "fst (old_new_LogFormatter ''%c: %m'') =
    \<lparr>fmt_pattern = ''%c: %m'', fmt_items = [NameFormatItem, StringFormatItem '': '', MessageFormatItem],
     fmt_error = False\<rparr>"
  by code_simp

theorem old_log_outcomes_witness:
  "(\<exists>s'. old_Logger_log good_disk 0 INFO old_event_example old_sys_example = Inr s' \<and>
      old_stdout s' = ''root: hi'' @ newline) \<and>
   old_Logger_log good_disk 0 ERROR old_event_example old_sys_example = Inl (Null_deref ''m_formatter'')"
  using old_log_outcomes [of old_sys_example 0 _ INFO good_disk old_event_example]
    old_log_outcomes [of old_sys_example 0 _ ERROR good_disk old_event_example]
  by (auto simp: old_sys_example_def old_bare_def old_console_text_def old_text_def less_eq_LogLevel_def
      old_example_formatter old_formatter_string_def old_event_example_def)

section \<open>Files\<close>

text \<open>
  A logger with one appender, to a file: what a sequence of calls does while the stream is closed,
  and while it works.
\<close>

definition old_calls :: "os_env \<Rightarrow> addr \<Rightarrow> (LogLevel \<times> LogEvent) list \<Rightarrow> oldsys \<Rightarrow> oldsys outcome" where
  "old_calls env b = foldM (\<lambda>(level, e). old_Logger_log env b level e)"

definition old_call_text :: "OldLogger \<Rightarrow> OldAppender \<Rightarrow> LogLevel \<times> LogEvent \<Rightarrow> string" where
  "old_call_text lg x c =
     (if ol_level lg \<le> fst c then old_text (ol_name lg) (fst c) (snd c) x else [])"

definition old_file_logger :: "oldsys \<Rightarrow> addr \<Rightarrow> OldLogger \<Rightarrow> addr \<Rightarrow> OldAppender \<Rightarrow> string \<Rightarrow> bool" where
  "old_file_logger s b lg a x fn \<longleftrightarrow> old_loggers s b = Some lg \<and> ol_appenders lg = [a] \<and>
     old_appenders s a = Some x \<and> oa_formatter x \<noteq> None \<and> (\<exists>os. oa_sink x = Old_file fn os)"

lemma write_closed:
  "os_file os = None \<Longrightarrow> \<exists>os'. ofstream_write env txt (os, fs) = (os', fs) \<and> os_file os' = None"
  by (simp add: ofstream_write_def)

lemma write_working:
  "os_file os = Some f \<Longrightarrow> \<not> os_fail os \<Longrightarrow> can_write env f \<Longrightarrow>
   ofstream_write env txt (os, fs) = (os, fs(f := fs f @ txt))"
  by (simp add: ofstream_write_def)

lemma old_call_closed:
  assumes "old_file_logger s b lg a x fn" and "oa_sink x = Old_file fn os" and "os_file os = None"
  shows "\<exists>s' os'. old_Logger_log env b level e s = Inr s' \<and> old_files s' = old_files s \<and>
    os_file os' = None \<and> old_file_logger s' b lg a (x\<lparr>oa_sink := Old_file fn os'\<rparr>) fn"
proof -
  obtain f where f: "oa_formatter x = Some f" using assms(1) by (auto simp: old_file_logger_def)
  obtain os1 where w1: "ofstream_write env (old_formatter_string f (ol_name lg) level e) (os, old_files s) =
      (os1, old_files s)" "os_file os1 = None"
    using write_closed [OF assms(3)] by blast
  obtain os2 where w2: "ofstream_write env newline (os1, old_files s) = (os2, old_files s)" "os_file os2 = None"
    using write_closed [OF w1(2)] by blast
  show ?thesis
  proof (cases "ol_level lg \<le> level \<and> oa_level x \<le> level")
    case True
    then show ?thesis
      using assms f w1 w2
      by (auto simp: old_Logger_log_def old_appender_log_def old_file_log_def old_file_logger_def)
  next
    case False
    have "old_Logger_log env b level e s = Inr s"
      using False assms f
      by (auto simp: old_Logger_log_def old_appender_log_def old_file_log_def old_file_logger_def)
    moreover have "x\<lparr>oa_sink := Old_file fn os\<rparr> = x" using assms(2) by simp
    ultimately show ?thesis using assms by metis
  qed
qed

lemma old_calls_closed:
  assumes "old_file_logger s b lg a x fn" and "oa_sink x = Old_file fn os" and "os_file os = None"
  shows "\<exists>s' os'. old_calls env b cs s = Inr s' \<and> old_files s' = old_files s \<and>
    os_file os' = None \<and> old_file_logger s' b lg a (x\<lparr>oa_sink := Old_file fn os'\<rparr>) fn"
  using assms
proof (induction cs arbitrary: s x os)
  case Nil
  have "x\<lparr>oa_sink := Old_file fn os\<rparr> = x" using Nil by simp
  then show ?case using Nil by (metis foldM.simps(1) old_calls_def)
next
  case (Cons c cs)
  obtain level e where c: "c = (level, e)" by (cases c)
  obtain s1 os1 where s1: "old_Logger_log env b level e s = Inr s1" "old_files s1 = old_files s"
      "os_file os1 = None" "old_file_logger s1 b lg a (x\<lparr>oa_sink := Old_file fn os1\<rparr>) fn"
    using old_call_closed [OF Cons.prems] by blast
  show ?case using Cons.IH [OF s1(4) _ s1(3)] s1 c by (simp add: old_calls_def)
qed

lemma old_call_working:
  assumes "old_file_logger s b lg a x fn" and "oa_sink x = Old_file fn os"
    and "stream_ready fn os" and "can_write env fn"
  shows "old_Logger_log env b level e s =
    Inr (s\<lparr>old_files := (old_files s)(fn := old_files s fn @ old_call_text lg x (level, e))\<rparr>)"
proof -
  obtain f where f: "oa_formatter x = Some f" using assms(1) by (auto simp: old_file_logger_def)
  have id: "(old_appenders s)(a \<mapsto> x\<lparr>oa_sink := Old_file fn os\<rparr>) = old_appenders s"
    using assms(1,2) by (auto simp: old_file_logger_def fun_upd_idem)
  show ?thesis
    using assms f id
    by (auto simp: old_Logger_log_def old_appender_log_def old_file_log_def old_file_logger_def
        old_call_text_def old_text_def stream_ready_def write_working)
qed

lemma old_calls_working:
  assumes "old_file_logger s b lg a x fn" and "oa_sink x = Old_file fn os"
    and "stream_ready fn os" and "can_write env fn"
  shows "old_calls env b cs s =
    Inr (s\<lparr>old_files := (old_files s)(fn := old_files s fn @ concat (map (old_call_text lg x) cs))\<rparr>)"
  using assms(1)
proof (induction cs arbitrary: s)
  case Nil
  then show ?case by (simp add: old_calls_def)
next
  case (Cons c cs)
  let ?s = "s\<lparr>old_files := (old_files s)(fn := old_files s fn @ old_call_text lg x c)\<rparr>"
  have "old_file_logger ?s b lg a x fn" using Cons.prems by (simp add: old_file_logger_def)
  then show ?case
    using Cons.IH [of ?s] old_call_working [OF Cons.prems assms(2-4), of "fst c" "snd c"]
    by (simp add: old_calls_def case_prod_unfold fun_upd_def cong: if_cong)
qed

text \<open>
  C40. The life of a file in the old copy: events logged through a new appender before
  \<open>reopen\<close> is called are lost, whatever the disk does, and the calls return normally; \<open>reopen\<close>, once
  the file can be opened, succeeds and empties the file, also of what earlier runs had written; from
  then on, every event that passes the levels is written, in order, with a newline after each.
\<close>

theorem old_file_life:
  assumes "old_file_logger s b lg a x fn" and "oa_sink x = Old_file fn new_ofstream"
    and "can_open disk fn" and "can_write disk fn"
  shows "\<exists>s1 s2. old_calls env b lost s = Inr s1 \<and> old_files s1 = old_files s \<and>
    old_appender_reopen disk a s1 = Inr (True, s2) \<and> old_files s2 = (old_files s)(fn := []) \<and>
    (\<exists>s3. old_calls disk b cs s2 = Inr s3 \<and>
      old_files s3 = (old_files s)(fn := concat (map (old_call_text lg x) cs)))"
proof -
  have "os_file new_ofstream = None" by (simp add: new_ofstream_def)
  then obtain s1 os1 where s1: "old_calls env b lost s = Inr s1" "old_files s1 = old_files s"
      "os_file os1 = None" "old_file_logger s1 b lg a (x\<lparr>oa_sink := Old_file fn os1\<rparr>) fn"
    using old_calls_closed [OF assms(1,2)] by blast
  let ?os = "\<lparr>os_file = Some fn, os_fail = False\<rparr>"
  let ?x = "x\<lparr>oa_sink := Old_file fn ?os\<rparr>"
  let ?s2 = "s1\<lparr>old_files := (old_files s1)(fn := []), old_appenders := (old_appenders s1)(a \<mapsto> ?x)\<rparr>"
  have "old_reopen disk fn os1 (old_files s1) = ((?os, (old_files s1)(fn := [])), True)"
    using s1(3) assms(3)
    by (auto simp: old_reopen_def old_ofstream_open_def ofstream_close_def Let_def)
  then have s2: "old_appender_reopen disk a s1 = Inr (True, ?s2)"
    using s1(4) by (auto simp: old_appender_reopen_def old_file_logger_def)
  have "old_file_logger ?s2 b lg a ?x fn" using s1(4) by (auto simp: old_file_logger_def)
  moreover have "old_call_text lg ?x = old_call_text lg x"
    by (rule ext) (simp add: old_call_text_def old_text_def split: option.split)
  ultimately have "old_calls disk b cs ?s2 =
      Inr (?s2\<lparr>old_files := (old_files ?s2)(fn := concat (map (old_call_text lg x) cs))\<rparr>)"
    using old_calls_working [of ?s2 b lg a ?x fn ?os disk cs] assms(4) by (simp add: stream_ready_def)
  then show ?thesis using s1(1,2) s2 by auto
qed

definition old_file_example :: oldsys where
  "old_file_example =
     \<lparr>old_loggers = [0 \<mapsto> \<lparr>ol_name = ''root'', ol_level = DEBUG, ol_appenders = [0]\<rparr>],
      old_next_logger = 1,
      old_appenders =
        [0 \<mapsto> \<lparr>oa_level = DEBUG, oa_formatter = Some (fst (old_new_LogFormatter ''%c: %m'')),
           oa_sink = Old_file ''log.txt'' new_ofstream\<rparr>],
      old_next_appender = 1, old_stdout = [], old_files = (\<lambda>f. ''yesterday'')\<rparr>"

theorem old_file_life_witness:
  "\<exists>s1 s2 s3. old_calls bad_disk 0 [(FATAL, old_event_example)] old_file_example = Inr s1 \<and>
    old_files s1 ''log.txt'' = ''yesterday'' \<and>
    old_appender_reopen good_disk 0 s1 = Inr (True, s2) \<and> old_files s2 ''log.txt'' = [] \<and>
    old_calls good_disk 0 [(INFO, old_event_example)] s2 = Inr s3 \<and>
    old_files s3 ''log.txt'' = ''root: hi'' @ newline"
proof -
  let ?lg = "\<lparr>ol_name = ''root'', ol_level = DEBUG, ol_appenders = [0]\<rparr>"
  let ?x = "\<lparr>oa_level = DEBUG, oa_formatter = Some (fst (old_new_LogFormatter ''%c: %m'')),
      oa_sink = Old_file ''log.txt'' new_ofstream\<rparr>"
  have "old_file_logger old_file_example 0 ?lg 0 ?x ''log.txt''"
    by (simp add: old_file_logger_def old_file_example_def)
  moreover have "can_open good_disk ''log.txt''" "can_write good_disk ''log.txt''"
    by (simp_all add: good_disk_def)
  moreover have "old_call_text ?lg ?x (INFO, old_event_example) = ''root: hi'' @ newline"
    by (simp add: old_call_text_def old_text_def less_eq_LogLevel_def old_example_formatter
        old_formatter_string_def old_event_example_def)
  moreover have "old_files old_file_example f = ''yesterday''" for f by (simp add: old_file_example_def)
  ultimately show ?thesis
    using old_file_life [of old_file_example 0 ?lg 0 ?x "''log.txt''" good_disk bad_disk
        "[(FATAL, old_event_example)]" "[(INFO, old_event_example)]"] by auto
qed

end
