(* ===== verification/Fiber.thy ===== *)
theory Fiber
  imports Prelude
begin

text \<open>
  Fibers (\<open>src/fiber/fiber.h\<close>, \<open>fiber.cpp\<close>).

  Fibers are shared through pointers and live in a store. The thread-local variables are indexed
  by the thread. Switching is the \<open>ucontext\<close> library's: a context is where a fiber goes on, so the
  functions that switch take, as their last argument but one, what the calling code does after
  the call (a value of type \<open>'k\<close>), save it in the context of the fiber that is left, and return
  the context that runs next. A callback is a value of type \<open>'c\<close>; None is the empty function. What
  is written to the logger \<open>system\<close> is kept as a sequence of texts.
\<close>

section \<open>The state\<close>

text \<open>The states of a fiber; the prefix is that of the constructors here.\<close>

datatype State = ST_INIT | ST_HOLD | ST_EXEC | ST_TERM | ST_READY | ST_EXCEPT

datatype fiber_entry = MainFunc | CallerMainFunc

text \<open>
  A context as \<open>getcontext\<close> leaves it in the constructor of the main fiber, as \<open>makecontext\<close> leaves
  it, and as \<open>swapcontext\<close> saves it.
\<close>

datatype 'k ctx = Ctx_here | Ctx_start fiber_entry | Ctx_saved 'k

text \<open>
  The result codes of \<open>getcontext\<close> and \<open>swapcontext\<close>, whether \<open>malloc\<close> finds memory of a size, and the
  default stack size.
\<close>

record fiber_env =
  rc_getcontext :: int
  rc_swapcontext :: int
  malloc_finds :: "u64 \<Rightarrow> bool"
  stack_size_default :: u32

record ('c, 'k) fiber =
  fb_id :: u64
  fb_stack_size :: u32
  fb_state :: State
  fb_ctx :: "'k ctx"
  fb_stack :: bool
  fb_cb :: "'c option"

record fiber_tls =
  t_fiber :: "addr option"
  t_threadFiber :: "addr option"
  t_scheduler_fiber :: "addr option"

record ('c, 'k) fibers =
  fs_fibers :: "addr \<Rightarrow> ('c, 'k) fiber option"
  fs_next :: addr
  fs_id :: u64
  fs_count :: u64
  fs_tls :: "thread_id \<Rightarrow> fiber_tls"
  fs_log :: "string list"

definition set_fiber :: "addr \<Rightarrow> ('c, 'k) fiber \<Rightarrow> ('c, 'k) fibers \<Rightarrow> ('c, 'k) fibers" where
  "set_fiber f b s = s\<lparr>fs_fibers := (fs_fibers s)(f \<mapsto> b)\<rparr>"

definition fiber_log :: "string \<Rightarrow> ('c, 'k) fibers \<Rightarrow> ('c, 'k) fibers" where
  "fiber_log line s = s\<lparr>fs_log := fs_log s @ [line]\<rparr>"

text \<open>Reading through a pointer, and \<open>SHS_ASSERT\<close>.\<close>

definition deref :: "addr \<Rightarrow> ('c, 'k) fibers \<Rightarrow> ('c, 'k) fiber outcome" where
  "deref f s = (case fs_fibers s f of None \<Rightarrow> Inl (Null_deref ''Fiber'') | Some b \<Rightarrow> Inr b)"

definition assert_that :: "bool \<Rightarrow> string \<Rightarrow> 'a outcome \<Rightarrow> 'a outcome" where
  "assert_that b what k = (if b then k else Inl (Assert_failed what))"

section \<open>The current fiber\<close>

definition SetThis :: "thread_id \<Rightarrow> addr option \<Rightarrow> ('c, 'k) fibers \<Rightarrow> ('c, 'k) fibers" where
  "SetThis t f s = s\<lparr>fs_tls := (fs_tls s)(t := (fs_tls s t)\<lparr>t_fiber := f\<rparr>)\<rparr>"

text \<open>The constructor without arguments: the main fiber of a thread.\<close>

definition new_main_Fiber :: "fiber_env \<Rightarrow> thread_id \<Rightarrow> ('c, 'k) fibers \<Rightarrow> (addr \<times> ('c, 'k) fibers) outcome" where
  "new_main_Fiber env t s =
     (let f = fs_next s;
          b = \<lparr>fb_id = 0, fb_stack_size = 0, fb_state = ST_EXEC, fb_ctx = Ctx_here, fb_stack = False, fb_cb = None\<rparr>;
          s1 = SetThis t (Some f) (set_fiber f b (s\<lparr>fs_next := Suc f\<rparr>))
      in assert_that (rc_getcontext env = 0) ''getcontext''
           (Inr (f, fiber_log ''Fiber::Fiber main'' (s1\<lparr>fs_count := fs_count s1 + 1\<rparr>))))"

definition Fiber_GetThis :: "fiber_env \<Rightarrow> thread_id \<Rightarrow> ('c, 'k) fibers \<Rightarrow> (addr \<times> ('c, 'k) fibers) outcome" where
  "Fiber_GetThis env t s =
     (case t_fiber (fs_tls s t) of
        Some f \<Rightarrow> Inr (f, s)
      | None \<Rightarrow>
          bind_out (new_main_Fiber env t s) (\<lambda>(f, s1).
            assert_that (t_fiber (fs_tls s1 t) = Some f) ''t_fiber == main_fiber.get()''
              (Inr (f, s1\<lparr>fs_tls := (fs_tls s1)(t := (fs_tls s1 t)\<lparr>t_threadFiber := Some f\<rparr>)\<rparr>))))"

definition Fiber_getId :: "addr \<Rightarrow> ('c, 'k) fibers \<Rightarrow> u64 outcome" where
  "Fiber_getId f s = bind_out (deref f s) (\<lambda>b. Inr (fb_id b))"

definition Fiber_getState :: "addr \<Rightarrow> ('c, 'k) fibers \<Rightarrow> State outcome" where
  "Fiber_getState f s = bind_out (deref f s) (\<lambda>b. Inr (fb_state b))"

definition Fiber_GetFiberId :: "thread_id \<Rightarrow> ('c, 'k) fibers \<Rightarrow> u64 outcome" where
  "Fiber_GetFiberId t s =
     (case t_fiber (fs_tls s t) of
        None \<Rightarrow> Inr 0
      | Some f \<Rightarrow> Fiber_getId f s)"

definition TotalFibers :: "('c, 'k) fibers \<Rightarrow> u64" where
  "TotalFibers s = fs_count s"

section \<open>Construction, destruction and reset\<close>

text \<open>
  \<open>MallocStackAllocator::Alloc\<close>, of its result only whether it is not null.
\<close>

definition MallocStackAllocator_Alloc :: "fiber_env \<Rightarrow> u64 \<Rightarrow> bool" where
  "MallocStackAllocator_Alloc env sz = malloc_finds env sz"

text \<open>
  \<open>stack_size\<close> is a \<open>size_t\<close>, and it is stored, and allocated, as a 32-bit integer. The result of the
  allocation is not looked at: \<open>makecontext\<close> writes to the stack.
\<close>

definition new_Fiber ::
  "fiber_env \<Rightarrow> 'c option \<Rightarrow> u64 \<Rightarrow> bool \<Rightarrow> ('c, 'k) fibers \<Rightarrow> (addr \<times> ('c, 'k) fibers) outcome" where
  "new_Fiber env cb stack_size use_caller s =
     (let f = fs_next s; i = fs_id s + 1;
          sz = (if stack_size \<noteq> 0 then ucast stack_size else stack_size_default env);
          b = \<lparr>fb_id = i,
               fb_stack_size = sz,
               fb_state = ST_INIT,
               fb_ctx = Ctx_start (if use_caller then CallerMainFunc else MainFunc),
               fb_stack = True, fb_cb = cb\<rparr>;
          s1 = set_fiber f b (s\<lparr>fs_next := Suc f, fs_id := i, fs_count := fs_count s + 1\<rparr>)
      in assert_that (rc_getcontext env = 0) ''getcontext''
           (if MallocStackAllocator_Alloc env (ucast sz)
            then Inr (f, fiber_log (''Fiber::Fiber id='' @ nat_str (unat i)) s1)
            else Inl (Null_deref ''m_stack'')))"

definition terminal :: "State \<Rightarrow> bool" where
  "terminal st \<longleftrightarrow> st = ST_TERM \<or> st = ST_EXCEPT \<or> st = ST_INIT"

text \<open>The destructor, run by thread \<open>t\<close>.\<close>

definition Fiber_delete :: "thread_id \<Rightarrow> addr \<Rightarrow> ('c, 'k) fibers \<Rightarrow> ('c, 'k) fibers outcome" where
  "Fiber_delete t f s =
     bind_out (deref f s) (\<lambda>b.
       let s1 = s\<lparr>fs_count := fs_count s - 1\<rparr>
       in bind_out
            (if fb_stack b
             then assert_that (terminal (fb_state b)) ''m_state == TERM || EXCEPT || INIT'' (Inr s1)
             else assert_that (fb_cb b = None) ''!m_cb''
                    (assert_that (fb_state b = ST_EXEC) ''m_state == EXEC''
                      (Inr (if t_fiber (fs_tls s1 t) = Some f then SetThis t None s1 else s1))))
            (\<lambda>s2. Inr (fiber_log (''Fiber::~Fiber id='' @ nat_str (unat (fb_id b)) @ '' total='' @ nat_str (unat (fs_count s2)))
                   (s2\<lparr>fs_fibers := (fs_fibers s2)(f := None)\<rparr>))))"

definition Fiber_reset :: "fiber_env \<Rightarrow> addr \<Rightarrow> 'c option \<Rightarrow> ('c, 'k) fibers \<Rightarrow> ('c, 'k) fibers outcome" where
  "Fiber_reset env f cb s =
     bind_out (deref f s) (\<lambda>b.
       assert_that (fb_stack b) ''m_stack''
         (assert_that (terminal (fb_state b)) ''m_state == TERM || EXCEPT || INIT''
           (assert_that (rc_getcontext env = 0) ''getcontext''
             (Inr (set_fiber f (b\<lparr>fb_cb := cb, fb_ctx := Ctx_start MainFunc, fb_state := ST_INIT\<rparr>) s)))))"

section \<open>Switching\<close>

text \<open>\<open>swapcontext(&from->m_ctx, &to->m_ctx)\<close> with its result checked.\<close>

definition swapcontext ::
  "fiber_env \<Rightarrow> addr \<Rightarrow> addr \<Rightarrow> 'k \<Rightarrow> ('c, 'k) fibers \<Rightarrow> ('k ctx \<times> ('c, 'k) fibers) outcome" where
  "swapcontext env source target k s =
     bind_out (deref source s) (\<lambda>b.
     bind_out (deref target s) (\<lambda>_.
       if rc_swapcontext env \<noteq> 0 then Inl (Assert_failed ''swapcontext'')
       else let s1 = set_fiber source (b\<lparr>fb_ctx := Ctx_saved k\<rparr>) s
            in bind_out (deref target s1) (\<lambda>b'. Inr (fb_ctx b', s1))))"

text \<open>\<open>call\<close> and \<open>back\<close> switch with the main fiber of the thread.\<close>

definition Fiber_call ::
  "fiber_env \<Rightarrow> thread_id \<Rightarrow> addr \<Rightarrow> 'k \<Rightarrow> ('c, 'k) fibers \<Rightarrow> ('k ctx \<times> ('c, 'k) fibers) outcome" where
  "Fiber_call env t f k s =
     bind_out (deref f s) (\<lambda>b.
       let s1 = set_fiber f (b\<lparr>fb_state := ST_EXEC\<rparr>) (SetThis t (Some f) s)
       in (case t_threadFiber (fs_tls s1 t) of
             None \<Rightarrow> Inl (Null_deref ''t_threadFiber'')
           | Some m \<Rightarrow> swapcontext env m f k s1))"

definition Fiber_back ::
  "fiber_env \<Rightarrow> thread_id \<Rightarrow> addr \<Rightarrow> 'k \<Rightarrow> ('c, 'k) fibers \<Rightarrow> ('k ctx \<times> ('c, 'k) fibers) outcome" where
  "Fiber_back env t f k s =
     (let s1 = SetThis t (t_threadFiber (fs_tls s t)) s
      in (case t_threadFiber (fs_tls s1 t) of
            None \<Rightarrow> Inl (Null_deref ''t_threadFiber'')
          | Some m \<Rightarrow> swapcontext env f m k s1))"

text \<open>
  \<open>swapIn\<close> and \<open>swapOut\<close> switch with the fiber that \<open>Scheduler::GetMainFiber\<close> gives.
\<close>

definition Fiber_swapIn ::
  "fiber_env \<Rightarrow> thread_id \<Rightarrow> addr \<Rightarrow> 'k \<Rightarrow> ('c, 'k) fibers \<Rightarrow> ('k ctx \<times> ('c, 'k) fibers) outcome" where
  "Fiber_swapIn env t f k s =
     bind_out (deref f s) (\<lambda>b.
       let s1 = SetThis t (Some f) s
       in assert_that (fb_state b \<noteq> ST_EXEC) ''m_state != EXEC''
            (let s2 = set_fiber f (b\<lparr>fb_state := ST_EXEC\<rparr>) s1
             in (case t_scheduler_fiber (fs_tls s2 t) of
                   None \<Rightarrow> Inl (Null_deref ''Scheduler::GetMainFiber()'')
                 | Some m \<Rightarrow> swapcontext env m f k s2)))"

definition Fiber_swapOut ::
  "fiber_env \<Rightarrow> thread_id \<Rightarrow> addr \<Rightarrow> 'k \<Rightarrow> ('c, 'k) fibers \<Rightarrow> ('k ctx \<times> ('c, 'k) fibers) outcome" where
  "Fiber_swapOut env t f k s =
     (let s1 = SetThis t (t_scheduler_fiber (fs_tls s t)) s
      in (case t_scheduler_fiber (fs_tls s1 t) of
            None \<Rightarrow> Inl (Null_deref ''Scheduler::GetMainFiber()'')
          | Some m \<Rightarrow> swapcontext env f m k s1))"

definition YieldToReady ::
  "fiber_env \<Rightarrow> thread_id \<Rightarrow> 'k \<Rightarrow> ('c, 'k) fibers \<Rightarrow> ('k ctx \<times> ('c, 'k) fibers) outcome" where
  "YieldToReady env t k s =
     bind_out (Fiber_GetThis env t s) (\<lambda>(cur, s1).
     bind_out (deref cur s1) (\<lambda>b.
       assert_that (fb_state b = ST_EXEC) ''cur->m_state == EXEC''
         (Fiber_swapOut env t cur k (set_fiber cur (b\<lparr>fb_state := ST_READY\<rparr>) s1))))"

text \<open>The assignment of the state HOLD is commented out in the source.\<close>

definition YieldToHold ::
  "fiber_env \<Rightarrow> thread_id \<Rightarrow> 'k \<Rightarrow> ('c, 'k) fibers \<Rightarrow> ('k ctx \<times> ('c, 'k) fibers) outcome" where
  "YieldToHold env t k s =
     bind_out (Fiber_GetThis env t s) (\<lambda>(cur, s1).
     bind_out (deref cur s1) (\<lambda>b.
       assert_that (fb_state b = ST_EXEC) ''cur->m_state == EXEC'' (Fiber_swapOut env t cur k s1)))"

section \<open>The entry functions\<close>

text \<open>
  Both begin by calling the callback of the current fiber (None: the empty function, whose call
  throws). They end, after the callback has returned or thrown, by recording it and switching
  away; \<open>backtrace\<close> is the text of the call stack, and \<open>k\<close> the code after the switch, an assertion
  that fails.
\<close>

definition MainFunc_enter :: "fiber_env \<Rightarrow> thread_id \<Rightarrow> ('c, 'k) fibers \<Rightarrow> ((addr \<times> 'c option) \<times> ('c, 'k) fibers) outcome" where
  "MainFunc_enter env t s =
     bind_out (Fiber_GetThis env t s) (\<lambda>(cur, s1).
     bind_out (deref cur s1) (\<lambda>b. Inr ((cur, fb_cb b), s1)))"

definition CallerMainFunc_enter ::
  "fiber_env \<Rightarrow> thread_id \<Rightarrow> ('c, 'k) fibers \<Rightarrow> ((addr \<times> 'c option) \<times> ('c, 'k) fibers) outcome" where
  "CallerMainFunc_enter env t s =
     bind_out (Fiber_GetThis env t s) (\<lambda>(cur, s1).
     bind_out (deref cur s1) (\<lambda>b. Inr ((cur, fb_cb b), s1)))"

definition record_end :: "addr \<Rightarrow> cpp_exn option \<Rightarrow> string \<Rightarrow> ('c, 'k) fibers \<Rightarrow> ('c, 'k) fibers outcome" where
  "record_end cur ended backtrace s =
     bind_out (deref cur s) (\<lambda>b.
       case ended of
         None \<Rightarrow> Inr (set_fiber cur (b\<lparr>fb_cb := None, fb_state := ST_TERM\<rparr>) s)
       | Some e \<Rightarrow>
           Inr (fiber_log ((if is_std_exn e then ''Fiber Except: '' @ exn_what e else ''Fiber Except'') @
                  '' fiber_id='' @ nat_str (unat (fb_id b)) @ newline @ backtrace)
                (set_fiber cur (b\<lparr>fb_state := ST_EXCEPT\<rparr>) s)))"

definition MainFunc_finish ::
  "fiber_env \<Rightarrow> thread_id \<Rightarrow> addr \<Rightarrow> cpp_exn option \<Rightarrow> string \<Rightarrow> 'k \<Rightarrow> ('c, 'k) fibers \<Rightarrow>
   ('k ctx \<times> ('c, 'k) fibers) outcome" where
  "MainFunc_finish env t cur ended backtrace k s =
     bind_out (record_end cur ended backtrace s) (Fiber_swapOut env t cur k)"

definition CallerMainFunc_finish ::
  "fiber_env \<Rightarrow> thread_id \<Rightarrow> addr \<Rightarrow> cpp_exn option \<Rightarrow> string \<Rightarrow> 'k \<Rightarrow> ('c, 'k) fibers \<Rightarrow>
   ('k ctx \<times> ('c, 'k) fibers) outcome" where
  "CallerMainFunc_finish env t cur ended backtrace k s =
     bind_out (record_end cur ended backtrace s) (Fiber_back env t cur k)"

end
