(* ===== verification/FiberProps.thy ===== *)
theory FiberProps
  imports Fiber
begin

text \<open>
  What switching between fibers does, the bookkeeping of fibers, and two ways in which a fiber
  cannot be entered again.
\<close>

lemmas fiber_op_defs =
  Fiber_swapIn_def Fiber_swapOut_def Fiber_call_def Fiber_back_def YieldToReady_def YieldToHold_def
  Fiber_reset_def MainFunc_finish_def CallerMainFunc_finish_def

lemmas fiber_basics = deref_def assert_that_def SetThis_def set_fiber_def fiber_log_def Let_def

definition fiber_env_ok :: "fiber_env \<Rightarrow> bool" where
  "fiber_env_ok env \<longleftrightarrow> rc_getcontext env = 0 \<and> rc_swapcontext env = 0 \<and> malloc_finds env = (\<lambda>sz. True)"

text \<open>Fiber \<open>f\<close> is ready to be entered on thread \<open>t\<close>, whose scheduling fiber is another one.\<close>

definition enterable :: "thread_id \<Rightarrow> addr \<Rightarrow> addr \<Rightarrow> ('c, 'k) fiber \<Rightarrow> ('c, 'k) fibers \<Rightarrow> bool" where
  "enterable t m f b s \<longleftrightarrow> fs_fibers s f = Some b \<and> fb_state b \<noteq> ST_EXEC \<and> m \<noteq> f \<and>
     t_scheduler_fiber (fs_tls s t) = Some m \<and> fs_fibers s m \<noteq> None"

lemma swapIn_enters:
  assumes "fiber_env_ok env" and "enterable t m f b s"
  shows "\<exists>s1. Fiber_swapIn env t f k s = Inr (fb_ctx b, s1) \<and> t_fiber (fs_tls s1 t) = Some f \<and>
    t_scheduler_fiber (fs_tls s1 t) = Some m \<and> fs_fibers s1 f = Some (b\<lparr>fb_state := ST_EXEC\<rparr>) \<and>
    map_option fb_ctx (fs_fibers s1 m) = Some (Ctx_saved k) \<and>
    (\<forall>g. g \<noteq> f \<longrightarrow> g \<noteq> m \<longrightarrow> fs_fibers s1 g = fs_fibers s g)"
  using assms
  by (auto simp: fiber_env_ok_def enterable_def Fiber_swapIn_def swapcontext_def fiber_basics)

lemma swapOut_leaves:
  assumes "fiber_env_ok env" and "fs_fibers s f = Some b" and "t_scheduler_fiber (fs_tls s t) = Some m" and "m \<noteq> f"
    and "map_option fb_ctx (fs_fibers s m) = Some c"
  shows "\<exists>s1. Fiber_swapOut env t f k s = Inr (c, s1) \<and> t_fiber (fs_tls s1 t) = Some m \<and>
    t_scheduler_fiber (fs_tls s1 t) = Some m \<and> fs_fibers s1 = (fs_fibers s)(f \<mapsto> b\<lparr>fb_ctx := Ctx_saved k\<rparr>)"
  using assms
  by (auto simp: fiber_env_ok_def Fiber_swapOut_def swapcontext_def fiber_basics)

lemma YieldToReady_leaves:
  assumes env: "fiber_env_ok env" and f: "fs_fibers s f = Some b" "fb_state b = ST_EXEC" "t_fiber (fs_tls s t) = Some f"
    and m: "t_scheduler_fiber (fs_tls s t) = Some m" "m \<noteq> f" "map_option fb_ctx (fs_fibers s m) = Some c"
  shows "\<exists>s1. YieldToReady env t k s = Inr (c, s1) \<and> t_fiber (fs_tls s1 t) = Some m \<and>
    t_scheduler_fiber (fs_tls s1 t) = Some m \<and>
    fs_fibers s1 = (fs_fibers s)(f \<mapsto> b\<lparr>fb_state := ST_READY, fb_ctx := Ctx_saved k\<rparr>)"
proof -
  let ?s = "set_fiber f (b\<lparr>fb_state := ST_READY\<rparr>) s"
  obtain s1 where "Fiber_swapOut env t f k ?s = Inr (c, s1)" "t_fiber (fs_tls s1 t) = Some m"
      "t_scheduler_fiber (fs_tls s1 t) = Some m"
      "fs_fibers s1 = (fs_fibers ?s)(f \<mapsto> b\<lparr>fb_state := ST_READY, fb_ctx := Ctx_saved k\<rparr>)"
    using swapOut_leaves [OF env, of ?s f "b\<lparr>fb_state := ST_READY\<rparr>" t m c k] m by (auto simp: set_fiber_def)
  then show ?thesis using f by (simp add: YieldToReady_def Fiber_GetThis_def deref_def assert_that_def set_fiber_def)
qed

lemma YieldToHold_leaves:
  assumes env: "fiber_env_ok env" and f: "fs_fibers s f = Some b" "fb_state b = ST_EXEC" "t_fiber (fs_tls s t) = Some f"
    and m: "t_scheduler_fiber (fs_tls s t) = Some m" "m \<noteq> f" "map_option fb_ctx (fs_fibers s m) = Some c"
  shows "\<exists>s1. YieldToHold env t k s = Inr (c, s1) \<and> t_fiber (fs_tls s1 t) = Some m \<and>
    t_scheduler_fiber (fs_tls s1 t) = Some m \<and> fs_fibers s1 = (fs_fibers s)(f \<mapsto> b\<lparr>fb_ctx := Ctx_saved k\<rparr>)"
  using swapOut_leaves [OF env f(1) m, of k] f
  by (auto simp: YieldToHold_def Fiber_GetThis_def deref_def assert_that_def)

lemma MainFunc_finish_leaves:
  assumes env: "fiber_env_ok env" and f: "fs_fibers s f = Some b"
    and m: "t_scheduler_fiber (fs_tls s t) = Some m" "m \<noteq> f" "map_option fb_ctx (fs_fibers s m) = Some c"
  shows "\<exists>s1. MainFunc_finish env t f ended bt k s = Inr (c, s1) \<and> t_fiber (fs_tls s1 t) = Some m \<and>
    t_scheduler_fiber (fs_tls s1 t) = Some m \<and>
    fs_fibers s1 = (fs_fibers s)(f \<mapsto> b\<lparr>fb_cb := (if ended = None then None else fb_cb b),
       fb_state := (if ended = None then ST_TERM else ST_EXCEPT), fb_ctx := Ctx_saved k\<rparr>)"
proof -
  define b1 where "b1 = b\<lparr>fb_cb := (if ended = None then None else fb_cb b), fb_state := (if ended = None then ST_TERM else ST_EXCEPT)\<rparr>"
  obtain s0 where s0: "record_end f ended bt s = Inr s0" "fs_fibers s0 = (fs_fibers s)(f \<mapsto> b1)" "fs_tls s0 = fs_tls s"
    using f by (cases ended) (auto simp: record_end_def deref_def set_fiber_def fiber_log_def b1_def)
  obtain s1 where "Fiber_swapOut env t f k s0 = Inr (c, s1)" "t_fiber (fs_tls s1 t) = Some m"
      "t_scheduler_fiber (fs_tls s1 t) = Some m" "fs_fibers s1 = (fs_fibers s0)(f \<mapsto> b1\<lparr>fb_ctx := Ctx_saved k\<rparr>)"
    using swapOut_leaves [OF env, of s0 f b1 t m c k] m s0 by auto
  then show ?thesis using s0 by (simp add: MainFunc_finish_def b1_def)
qed

text \<open>
  C37. Switching is a round trip: entering a fiber runs its context and makes it the current fiber
  of the thread; when its code yields to ready, the thread goes on exactly after the call that
  entered it, with the scheduling fiber current and the fiber READY; and entering the fiber again
  goes on exactly after its yield. No third fiber changes.
\<close>

theorem switch_roundtrip:
  assumes "fiber_env_ok env" and "enterable t m f b s"
  shows "\<exists>s1 s2 s3. Fiber_swapIn env t f k s = Inr (fb_ctx b, s1) \<and> Fiber_GetThis env t s1 = Inr (f, s1) \<and>
    YieldToReady env t k' s1 = Inr (Ctx_saved k, s2) \<and> Fiber_GetThis env t s2 = Inr (m, s2) \<and>
    fs_fibers s2 f = Some (b\<lparr>fb_state := ST_READY, fb_ctx := Ctx_saved k'\<rparr>) \<and>
    Fiber_swapIn env t f k'' s2 = Inr (Ctx_saved k', s3) \<and>
    (\<forall>g. g \<noteq> f \<longrightarrow> g \<noteq> m \<longrightarrow> fs_fibers s3 g = fs_fibers s g)"
proof -
  obtain s1 where s1: "Fiber_swapIn env t f k s = Inr (fb_ctx b, s1)" "t_fiber (fs_tls s1 t) = Some f"
      "t_scheduler_fiber (fs_tls s1 t) = Some m" "fs_fibers s1 f = Some (b\<lparr>fb_state := ST_EXEC\<rparr>)"
      "map_option fb_ctx (fs_fibers s1 m) = Some (Ctx_saved k)"
      "\<forall>g. g \<noteq> f \<longrightarrow> g \<noteq> m \<longrightarrow> fs_fibers s1 g = fs_fibers s g"
    using swapIn_enters [OF assms] by blast
  have mf: "m \<noteq> f" using assms(2) by (simp add: enterable_def)
  obtain s2 where s2: "YieldToReady env t k' s1 = Inr (Ctx_saved k, s2)" "t_fiber (fs_tls s2 t) = Some m"
      "t_scheduler_fiber (fs_tls s2 t) = Some m"
      "fs_fibers s2 = (fs_fibers s1)(f \<mapsto> b\<lparr>fb_state := ST_READY, fb_ctx := Ctx_saved k'\<rparr>)"
    using YieldToReady_leaves [OF assms(1) s1(4) _ s1(2,3) mf s1(5), of k'] by auto
  have e2: "enterable t m f (b\<lparr>fb_state := ST_READY, fb_ctx := Ctx_saved k'\<rparr>) s2"
    using s1(5) s2 mf by (auto simp: enterable_def set_fiber_def)
  obtain s3 where s3: "Fiber_swapIn env t f k'' s2 = Inr (Ctx_saved k', s3)"
      "\<forall>g. g \<noteq> f \<longrightarrow> g \<noteq> m \<longrightarrow> fs_fibers s3 g = fs_fibers s2 g"
    using swapIn_enters [OF assms(1) e2, of k''] by auto
  have "\<forall>g. g \<noteq> f \<longrightarrow> g \<noteq> m \<longrightarrow> fs_fibers s2 g = fs_fibers s g" using s1(6) s2(4) by simp
  then show ?thesis using s1 s2 s3 by (intro exI [of _ s1] exI [of _ s2] exI [of _ s3]) (simp add: Fiber_GetThis_def)
qed

definition good_env :: fiber_env where
  "good_env = \<lparr>rc_getcontext = 0, rc_swapcontext = 0, malloc_finds = (\<lambda>sz. True), stack_size_default = 131072\<rparr>"

definition two_fibers :: "(unit, nat) fibers" where
  "two_fibers = \<lparr>fs_fibers = [0 \<mapsto> \<lparr>fb_id = 0, fb_stack_size = 0, fb_state = ST_EXEC, fb_ctx = Ctx_here, fb_stack = False, fb_cb = None\<rparr>,
       1 \<mapsto> \<lparr>fb_id = 1, fb_stack_size = 131072, fb_state = ST_INIT, fb_ctx = Ctx_start MainFunc, fb_stack = True, fb_cb = Some ()\<rparr>],
     fs_next = 2, fs_id = 1, fs_count = 2,
     fs_tls = (\<lambda>t. \<lparr>t_fiber = Some 0, t_threadFiber = Some 0, t_scheduler_fiber = Some 0\<rparr>), fs_log = []\<rparr>"

lemma two_fibers_enterable: "enterable 7 0 1 (the (fs_fibers two_fibers 1)) two_fibers"
  by (simp add: enterable_def two_fibers_def)

theorem switch_roundtrip_witness:
  "\<exists>s1 s2 s3. Fiber_swapIn good_env 7 1 10 two_fibers = Inr (Ctx_start MainFunc, s1) \<and>
    YieldToReady good_env 7 20 s1 = Inr (Ctx_saved 10, s2) \<and> Fiber_swapIn good_env 7 1 30 s2 = Inr (Ctx_saved 20, s3)"
proof -
  have "fiber_env_ok good_env" by (simp add: fiber_env_ok_def good_env_def)
  moreover have "fb_ctx (the (fs_fibers two_fibers 1)) = Ctx_start MainFunc" by (simp add: two_fibers_def)
  ultimately show ?thesis
    using switch_roundtrip [OF _ two_fibers_enterable, of good_env 10 20 30] by auto
qed

text \<open>
  A fiber that yields to hold cannot simply be entered again: \<open>YieldToHold\<close> gives control back
  but leaves the fiber in the state EXEC, so the next \<open>swapIn\<close> fails its assertion, unless the
  scheduler has changed the state in between.
\<close>

theorem hold_then_swapIn_fails:
  assumes "fiber_env_ok env" and "enterable t m f b s"
  shows "\<exists>s1 s2. Fiber_swapIn env t f k s = Inr (fb_ctx b, s1) \<and> YieldToHold env t k' s1 = Inr (Ctx_saved k, s2) \<and>
    map_option fb_state (fs_fibers s2 f) = Some ST_EXEC \<and>
    Fiber_swapIn env t f k'' s2 = Inl (Assert_failed ''m_state != EXEC'') \<and>
    (\<exists>s3. Fiber_swapIn env t f k'' (set_fiber f (b\<lparr>fb_state := ST_HOLD, fb_ctx := Ctx_saved k'\<rparr>) s2) = Inr (Ctx_saved k', s3))"
proof -
  obtain s1 where s1: "Fiber_swapIn env t f k s = Inr (fb_ctx b, s1)" "t_fiber (fs_tls s1 t) = Some f"
      "t_scheduler_fiber (fs_tls s1 t) = Some m" "fs_fibers s1 f = Some (b\<lparr>fb_state := ST_EXEC\<rparr>)"
      "map_option fb_ctx (fs_fibers s1 m) = Some (Ctx_saved k)"
    using swapIn_enters [OF assms] by blast
  have mf: "m \<noteq> f" using assms(2) by (simp add: enterable_def)
  obtain s2 where s2: "YieldToHold env t k' s1 = Inr (Ctx_saved k, s2)" "t_scheduler_fiber (fs_tls s2 t) = Some m"
      "fs_fibers s2 = (fs_fibers s1)(f \<mapsto> b\<lparr>fb_state := ST_EXEC, fb_ctx := Ctx_saved k'\<rparr>)"
    using YieldToHold_leaves [OF assms(1) s1(4) _ s1(2,3) mf s1(5), of k'] by auto
  moreover note s2(1)
  moreover have "Fiber_swapIn env t f k'' s2 = Inl (Assert_failed ''m_state != EXEC'')"
    using s2(3) by (simp add: Fiber_swapIn_def deref_def assert_that_def Let_def)
  moreover have "enterable t m f (b\<lparr>fb_state := ST_HOLD, fb_ctx := Ctx_saved k'\<rparr>)
      (set_fiber f (b\<lparr>fb_state := ST_HOLD, fb_ctx := Ctx_saved k'\<rparr>) s2)"
    using s1(5) s2 mf by (auto simp: enterable_def set_fiber_def)
  then have "\<exists>s3. Fiber_swapIn env t f k'' (set_fiber f (b\<lparr>fb_state := ST_HOLD, fb_ctx := Ctx_saved k'\<rparr>) s2) = Inr (Ctx_saved k', s3)"
    using swapIn_enters [OF assms(1)] by fastforce
  ultimately show ?thesis using s1(1) s2(3) by auto
qed

theorem hold_then_swapIn_fails_witness:
  "\<exists>s1 s2. Fiber_swapIn good_env 7 1 10 two_fibers = Inr (Ctx_start MainFunc, s1) \<and>
    YieldToHold good_env 7 20 s1 = Inr (Ctx_saved 10, s2) \<and>
    Fiber_swapIn good_env 7 1 30 s2 = Inl (Assert_failed ''m_state != EXEC'')"
proof -
  have "fiber_env_ok good_env" by (simp add: fiber_env_ok_def good_env_def)
  moreover have "fb_ctx (the (fs_fibers two_fibers 1)) = Ctx_start MainFunc" by (simp add: two_fibers_def)
  ultimately show ?thesis
    using hold_then_swapIn_fails [OF _ two_fibers_enterable, of good_env 10 20 30] by auto
qed

text \<open>
  A root fiber that was reset never returns: \<open>reset\<close> gives every fiber the entry function
  \<open>MainFunc\<close>, also one made for \<open>call\<close>; when such a fiber is itself the scheduling fiber of its
  thread, the switch at the end of \<open>MainFunc\<close> is to itself and control reaches the assertion after
  it, whereas \<open>CallerMainFunc\<close> goes back to where the thread called the fiber.
\<close>

theorem reset_root_fiber_never_returns:
  assumes "fiber_env_ok env" and "fs_fibers s f = Some b" and "fb_stack b" and "terminal (fb_state b)"
    and "t_scheduler_fiber (fs_tls s t) = Some f" and "t_threadFiber (fs_tls s t) = Some m" and "m \<noteq> f"
    and "map_option fb_ctx (fs_fibers s m) = Some c"
  shows "\<exists>s1 s2 s3. Fiber_reset env f cb s = Inr s1 \<and> map_option fb_ctx (fs_fibers s1 f) = Some (Ctx_start MainFunc) \<and>
    MainFunc_finish env t f ended bt never s1 = Inr (Ctx_saved never, s2) \<and>
    CallerMainFunc_finish env t f ended bt never s1 = Inr (c, s3)"
  using assms
  by (cases ended)
    (auto simp: fiber_env_ok_def Fiber_reset_def MainFunc_finish_def CallerMainFunc_finish_def record_end_def
      Fiber_swapOut_def Fiber_back_def swapcontext_def fiber_basics)

theorem reset_root_fiber_never_returns_witness:
  "\<exists>s1 s2. Fiber_reset good_env 1 (Some ()) (two_fibers\<lparr>fs_tls := (\<lambda>t. \<lparr>t_fiber = Some 0, t_threadFiber = Some 0, t_scheduler_fiber = Some 1\<rparr>)\<rparr>) = Inr s1 \<and>
    MainFunc_finish good_env 7 1 None [] 99 s1 = Inr (Ctx_saved 99, s2)"
proof -
  let ?s = "two_fibers\<lparr>fs_tls := (\<lambda>t. \<lparr>t_fiber = Some 0, t_threadFiber = Some 0, t_scheduler_fiber = Some 1\<rparr>)\<rparr>"
  have env: "fiber_env_ok good_env" by (simp add: fiber_env_ok_def good_env_def)
  obtain b where b: "fs_fibers ?s 1 = Some b" "fb_stack b" "terminal (fb_state b)"
    by (simp add: two_fibers_def terminal_def)
  have "t_scheduler_fiber (fs_tls ?s 7) = Some 1" "t_threadFiber (fs_tls ?s 7) = Some 0" "(0::addr) \<noteq> 1"
      "map_option fb_ctx (fs_fibers ?s 0) = Some Ctx_here"
    by (simp_all add: two_fibers_def)
  from reset_root_fiber_never_returns [OF env b this, of "Some ()" None "[]" 99] show ?thesis by blast
qed

section \<open>Counting fibers\<close>

text \<open>The operations on fibers, on objects that exist, as long as the counter of ids does not wrap.\<close>

inductive fiber_step :: "fiber_env \<Rightarrow> ('c, 'k) fibers \<Rightarrow> ('c, 'k) fibers \<Rightarrow> bool" for env :: fiber_env where
  step_GetThis: "Fiber_GetThis env t s = Inr (f, s') \<Longrightarrow> fiber_step env s s'"
| step_new: "fs_id s \<noteq> - 1 \<Longrightarrow> new_Fiber env cb sz use_caller s = Inr (f, s') \<Longrightarrow> fiber_step env s s'"
| step_delete: "Fiber_delete t f s = Inr s' \<Longrightarrow> fiber_step env s s'"
| step_reset: "Fiber_reset env f cb s = Inr s' \<Longrightarrow> fiber_step env s s'"
| step_call: "Fiber_call env t f k s = Inr (c, s') \<Longrightarrow> fiber_step env s s'"
| step_back: "Fiber_back env t f k s = Inr (c, s') \<Longrightarrow> fiber_step env s s'"
| step_swapIn: "Fiber_swapIn env t f k s = Inr (c, s') \<Longrightarrow> fiber_step env s s'"
| step_swapOut: "Fiber_swapOut env t f k s = Inr (c, s') \<Longrightarrow> fiber_step env s s'"
| step_ready: "YieldToReady env t k s = Inr (c, s') \<Longrightarrow> fiber_step env s s'"
| step_hold: "YieldToHold env t k s = Inr (c, s') \<Longrightarrow> fiber_step env s s'"
| step_main: "MainFunc_finish env t f ended bt k s = Inr (c, s') \<Longrightarrow> fiber_step env s s'"
| step_caller: "CallerMainFunc_finish env t f ended bt k s = Inr (c, s') \<Longrightarrow> fiber_step env s s'"

definition no_fibers :: "('c, 'k) fibers" where
  "no_fibers = \<lparr>fs_fibers = Map.empty, fs_next = 0, fs_id = 0, fs_count = 0,
     fs_tls = (\<lambda>t. \<lparr>t_fiber = None, t_threadFiber = None, t_scheduler_fiber = None\<rparr>), fs_log = []\<rparr>"

inductive fiber_reachable :: "fiber_env \<Rightarrow> ('c, 'k) fibers \<Rightarrow> bool" for env :: fiber_env where
  "fiber_reachable env no_fibers"
| "fiber_reachable env s \<Longrightarrow> fiber_step env s s' \<Longrightarrow> fiber_reachable env s'"

definition fibers_ok :: "('c, 'k) fibers \<Rightarrow> bool" where
  "fibers_ok s \<longleftrightarrow> finite (dom (fs_fibers s)) \<and> fresh_in (fs_fibers s) (fs_next s) \<and>
     fs_count s = of_nat (card (dom (fs_fibers s))) \<and>
     (\<forall>f b. fs_fibers s f = Some b \<longrightarrow> fb_id b \<le> fs_id s \<and> (fb_stack b \<longleftrightarrow> fb_id b \<noteq> 0)) \<and>
     (\<forall>f g b c. fs_fibers s f = Some b \<longrightarrow> fs_fibers s g = Some c \<longrightarrow> fb_stack b \<longrightarrow> fb_id b = fb_id c \<longrightarrow> f = g)"

lemma fibers_okD:
  assumes "fibers_ok s"
  shows "fs_fibers s f = Some b \<Longrightarrow> fb_id b \<le> fs_id s \<and> (fb_stack b \<longleftrightarrow> fb_id b \<noteq> 0)"
    and "fs_fibers s f = Some b \<Longrightarrow> fs_fibers s g = Some c \<Longrightarrow> fb_stack b \<Longrightarrow> fb_id b = fb_id c \<Longrightarrow> f = g"
  using assms unfolding fibers_ok_def by blast+

text \<open>An operation that only changes existing fibers, and none of their ids and stacks.\<close>

definition same_fibers :: "('c, 'k) fibers \<Rightarrow> ('c, 'k) fibers \<Rightarrow> bool" where
  "same_fibers s s' \<longleftrightarrow> fs_next s' = fs_next s \<and> fs_id s' = fs_id s \<and> fs_count s' = fs_count s \<and>
     (\<forall>f. map_option (\<lambda>b. (fb_id b, fb_stack b)) (fs_fibers s' f) = map_option (\<lambda>b. (fb_id b, fb_stack b)) (fs_fibers s f))"

lemma same_fibers_refl [simp]: "same_fibers s s"
  by (simp add: same_fibers_def)

lemma same_fibers_trans: "same_fibers s t \<Longrightarrow> same_fibers t u \<Longrightarrow> same_fibers s u"
  by (simp add: same_fibers_def)

lemma same_fibers_sym: "same_fibers s t \<Longrightarrow> same_fibers t s"
  by (simp add: same_fibers_def)

lemma same_fibers_set: "fs_fibers s f = Some b \<Longrightarrow> fb_id b' = fb_id b \<Longrightarrow> fb_stack b' = fb_stack b \<Longrightarrow> same_fibers s (set_fiber f b' s)"
  by (simp add: same_fibers_def set_fiber_def)

lemma same_fibers_this [simp]:
  "same_fibers (SetThis t f s) s' = same_fibers s s'"
  "same_fibers s (fiber_log l s') = same_fibers s s'"
  "fs_fibers (SetThis t f s) = fs_fibers s"
  by (simp_all add: same_fibers_def SetThis_def fiber_log_def)

lemma same_fibers_state [simp]:
  "fs_fibers s f = Some b \<Longrightarrow> same_fibers (set_fiber f (b\<lparr>fb_state := x\<rparr>) s) s' = same_fibers s s'"
proof -
  assume "fs_fibers s f = Some b"
  then have "same_fibers s (set_fiber f (b\<lparr>fb_state := x\<rparr>) s)" by (rule same_fibers_set) simp_all
  then show ?thesis by (blast intro: same_fibers_trans same_fibers_sym)
qed

lemma same_fibers_view:
  "same_fibers s s' \<Longrightarrow>
   map_option (\<lambda>b. (fb_id b, fb_stack b)) (fs_fibers s' f) = map_option (\<lambda>b. (fb_id b, fb_stack b)) (fs_fibers s f)"
  unfolding same_fibers_def by blast

lemma same_fibers_ok: "same_fibers s s' \<Longrightarrow> fibers_ok s \<Longrightarrow> fibers_ok s'"
proof -
  assume same: "same_fibers s s'" and ok: "fibers_ok s"
  have some: "\<exists>b. fs_fibers s f = Some b \<and> fb_id b = fb_id c \<and> fb_stack b = fb_stack c" if "fs_fibers s' f = Some c" for f c
    using same_fibers_view [OF same, of f] that by (cases "fs_fibers s f") simp_all
  have none: "fs_fibers s' f = None \<longleftrightarrow> fs_fibers s f = None" for f
  proof -
    have "(map_option (\<lambda>b. (fb_id b, fb_stack b)) (fs_fibers s' f) = None) = (map_option (\<lambda>b. (fb_id b, fb_stack b)) (fs_fibers s f) = None)"
      by (rule arg_cong [OF same_fibers_view [OF same]])
    then show ?thesis by simp
  qed
  have dom: "dom (fs_fibers s') = dom (fs_fibers s)" unfolding dom_def none ..
  have same': "fs_next s' = fs_next s" "fs_id s' = fs_id s" "fs_count s' = fs_count s"
    using same unfolding same_fibers_def by blast+
  show "fibers_ok s'"
    unfolding fibers_ok_def
  proof (intro conjI allI impI)
    show "finite (dom (fs_fibers s'))" "fresh_in (fs_fibers s') (fs_next s')" "fs_count s' = of_nat (card (dom (fs_fibers s')))"
      using ok unfolding dom same' fibers_ok_def fresh_in_def none by blast+
    fix f c assume c: "fs_fibers s' f = Some c"
    obtain b where b: "fs_fibers s f = Some b" "fb_id b = fb_id c" "fb_stack b = fb_stack c" using some [OF c] by blast
    show "fb_id c \<le> fs_id s'" "fb_stack c = (fb_id c \<noteq> 0)" using fibers_okD(1) [OF ok b(1)] b(2,3) same' by simp_all
    fix g d assume d: "fs_fibers s' g = Some d" "fb_stack c" "fb_id c = fb_id d"
    obtain b' where b': "fs_fibers s g = Some b'" "fb_id b' = fb_id d" using some [OF d(1)] by blast
    show "f = g" using fibers_okD(2) [OF ok b(1) b'(1)] b b' d by simp
  qed
qed


lemma deref_eq: "deref f s = Inr b \<longleftrightarrow> fs_fibers s f = Some b"
  by (simp add: deref_def split: option.split)

lemma assert_that_eq: "assert_that b w k = Inr x \<longleftrightarrow> b \<and> k = Inr x"
  by (simp add: assert_that_def)

lemma swapcontext_same:
  assumes "swapcontext env g h k s = Inr (c, s')"
  shows "same_fibers s s'"
proof -
  obtain b where "fs_fibers s g = Some b" "s' = set_fiber g (b\<lparr>fb_ctx := Ctx_saved k\<rparr>) s"
    using assms by (auto simp: swapcontext_def bind_out_eq_Inr deref_eq Let_def split: if_splits)
  then show ?thesis using same_fibers_set [of s g b] by simp
qed

lemma swapOut_same: "Fiber_swapOut env t f k s = Inr (c, s') \<Longrightarrow> same_fibers s s'"
  by (auto simp: Fiber_swapOut_def Let_def split: option.splits dest!: swapcontext_same)

lemma back_same: "Fiber_back env t f k s = Inr (c, s') \<Longrightarrow> same_fibers s s'"
  by (auto simp: Fiber_back_def Let_def split: option.splits dest!: swapcontext_same)

lemma swapIn_same: "Fiber_swapIn env t f k s = Inr (c, s') \<Longrightarrow> same_fibers s s'"
  by (auto simp: Fiber_swapIn_def Let_def bind_out_eq_Inr deref_eq assert_that_eq split: option.splits
      dest!: swapcontext_same)

lemma call_same: "Fiber_call env t f k s = Inr (c, s') \<Longrightarrow> same_fibers s s'"
  by (auto simp: Fiber_call_def Let_def bind_out_eq_Inr deref_eq split: option.splits
      dest!: swapcontext_same)

lemma reset_same: "Fiber_reset env f cb s = Inr s' \<Longrightarrow> same_fibers s s'"
  by (auto simp: Fiber_reset_def bind_out_eq_Inr deref_eq assert_that_eq intro: same_fibers_set)

lemma record_end_same:
  assumes "record_end f ended bt s = Inr s'"
  shows "same_fibers s s'"
proof -
  obtain b where b: "fs_fibers s f = Some b" using assms by (auto simp: record_end_def bind_out_eq_Inr deref_eq)
  have set: "same_fibers s (set_fiber f b' s)" if "fb_id b' = fb_id b" "fb_stack b' = fb_stack b" for b'
    using same_fibers_set [of s f b b'] b that by simp
  show ?thesis
  proof (cases ended)
    case None
    then show ?thesis using assms b set by (auto simp: record_end_def deref_def)
  next
    case (Some e)
    then obtain l where "s' = fiber_log l (set_fiber f (b\<lparr>fb_state := ST_EXCEPT\<rparr>) s)"
      using assms b by (auto simp: record_end_def deref_def)
    then show ?thesis using set by simp
  qed
qed

lemma finish_same:
  "MainFunc_finish env t f ended bt k s = Inr (c, s') \<Longrightarrow> same_fibers s s'"
  "CallerMainFunc_finish env t f ended bt k s = Inr (c, s') \<Longrightarrow> same_fibers s s'"
  unfolding MainFunc_finish_def CallerMainFunc_finish_def
  by (auto simp: bind_out_eq_Inr dest!: record_end_same swapOut_same back_same intro: same_fibers_trans)

text \<open>The operations that make and destroy fibers.\<close>

lemma fibers_ok_main:
  assumes "fibers_ok s"
    and "fs_fibers s' = (fs_fibers s)(fs_next s \<mapsto> b)" and "fb_id b = 0" and "\<not> fb_stack b"
    and "fs_next s' = Suc (fs_next s)" and "fs_id s' = fs_id s" and "fs_count s' = fs_count s + 1"
  shows "fibers_ok s'"
proof -
  have none: "fs_fibers s (fs_next s) = None" using assms(1) by (simp add: fibers_ok_def fresh_in_None)
  then have "card (dom (fs_fibers s')) = Suc (card (dom (fs_fibers s)))"
    using assms(1,2) by (simp add: fibers_ok_def card_insert_if domIff)
  then show ?thesis using assms none unfolding fibers_ok_def
    by (auto simp: fresh_in_def less_Suc_eq split: if_splits)
qed

lemma fibers_ok_new:
  assumes "fibers_ok s" and "fs_id s \<noteq> - 1"
    and "fs_fibers s' = (fs_fibers s)(fs_next s \<mapsto> b)" and "fb_id b = fs_id s + 1" and "fb_stack b"
    and "fs_next s' = Suc (fs_next s)" and "fs_id s' = fs_id s + 1" and "fs_count s' = fs_count s + 1"
  shows "fibers_ok s'"
proof -
  have less: "fs_id s < fs_id s + 1" using assms(2) by (rule less_inc_word)
  then have pos: "fs_id s + 1 \<noteq> 0" by (metis word_not_simps(1))
  have none: "fs_fibers s (fs_next s) = None" using assms(1) by (simp add: fibers_ok_def fresh_in_None)
  have card: "card (dom (fs_fibers s')) = Suc (card (dom (fs_fibers s)))"
    using assms(1,3) none by (simp add: fibers_ok_def card_insert_if domIff)
  have old: "fb_id c < fs_id s + 1" if "fs_fibers s f = Some c" for f c
    using assms(1) that less unfolding fibers_ok_def by (meson le_less_trans)
  show ?thesis
    unfolding fibers_ok_def
  proof (intro conjI allI impI)
    show "fs_count s' = of_nat (card (dom (fs_fibers s')))"
      using assms(1,8) card by (simp add: fibers_ok_def)
    fix f c assume c: "fs_fibers s' f = Some c"
    show "fb_id c \<le> fs_id s'" using c old less assms(3,4,7) by (fastforce split: if_splits)
    show "fb_stack c = (fb_id c \<noteq> 0)" using c assms(1,3,4,5) pos by (auto simp: fibers_ok_def split: if_splits)
    fix g d assume "fs_fibers s' g = Some d" "fb_stack c" "fb_id c = fb_id d"
    then show "f = g"
      using c assms(1,3,4) old unfolding fibers_ok_def by (auto split: if_splits) (metis less_irrefl)+
  qed (use assms in \<open>auto simp: fibers_ok_def fresh_in_def less_Suc_eq\<close>)
qed

lemma fibers_ok_delete:
  assumes "fibers_ok s" and "fs_fibers s f = Some b"
    and "fs_fibers s' = (fs_fibers s)(f := None)"
    and "fs_next s' = fs_next s" and "fs_id s' = fs_id s" and "fs_count s' = fs_count s - 1"
  shows "fibers_ok s'"
proof -
  have f: "f \<in> dom (fs_fibers s)" using assms(2) by blast
  have fin: "finite (dom (fs_fibers s))" using assms(1) by (simp add: fibers_ok_def)
  have "of_nat (card (dom (fs_fibers s))) - 1 = (of_nat (card (dom (fs_fibers s) - {f})) :: u64)"
    using card.remove [OF fin f] by simp
  then show ?thesis
    using assms unfolding fibers_ok_def fresh_in_def by (auto split: if_splits)
qed

lemma GetThis_ok:
  assumes ok: "fibers_ok s" and run: "Fiber_GetThis env t s = Inr (f, s')"
  shows "fibers_ok s'"
proof (cases "t_fiber (fs_tls s t)")
  case None
  then have "fs_fibers s' = (fs_fibers s)(fs_next s \<mapsto> \<lparr>fb_id = 0, fb_stack_size = 0, fb_state = ST_EXEC,
        fb_ctx = Ctx_here, fb_stack = False, fb_cb = None\<rparr>)"
      "fs_next s' = Suc (fs_next s)" "fs_id s' = fs_id s" "fs_count s' = fs_count s + 1"
    using run by (auto simp: Fiber_GetThis_def new_main_Fiber_def Let_def bind_out_eq_Inr assert_that_eq
        fiber_log_def SetThis_def set_fiber_def)
  then show ?thesis by (intro fibers_ok_main [OF ok, where b = "\<lparr>fb_id = 0, fb_stack_size = 0, fb_state = ST_EXEC,
        fb_ctx = Ctx_here, fb_stack = False, fb_cb = None\<rparr>"]) simp_all
qed (use run ok in \<open>simp add: Fiber_GetThis_def\<close>)

lemma new_ok:
  assumes ok: "fibers_ok s" and id: "fs_id s \<noteq> - 1" and run: "new_Fiber env cb sz uc s = Inr (f, s')"
  shows "fibers_ok s'"
proof -
  define b :: "('a, 'b) fiber" where "b = \<lparr>fb_id = fs_id s + 1,
      fb_stack_size = (if sz \<noteq> 0 then ucast sz else stack_size_default env), fb_state = ST_INIT,
      fb_ctx = Ctx_start (if uc then CallerMainFunc else MainFunc), fb_stack = True, fb_cb = cb\<rparr>"
  have "fs_fibers s' = (fs_fibers s)(fs_next s \<mapsto> b)"
      "fs_next s' = Suc (fs_next s)" "fs_id s' = fs_id s + 1" "fs_count s' = fs_count s + 1"
    using run unfolding b_def by (auto simp: new_Fiber_def Let_def assert_that_eq fiber_log_def set_fiber_def split: if_splits)
  then show ?thesis by (intro fibers_ok_new [OF ok id, where b = b]) (simp_all add: b_def)
qed

text \<open>Without memory for the stack the constructor writes through a null pointer.\<close>

lemma new_Fiber_without_memory:
  assumes "rc_getcontext env = 0" and "malloc_finds env = (\<lambda>sz. False)"
  shows "new_Fiber env cb sz uc s = Inl (Null_deref ''m_stack'')"
  using assms by (simp add: new_Fiber_def assert_that_def MallocStackAllocator_Alloc_def Let_def)

lemma delete_ok:
  assumes ok: "fibers_ok s" and run: "Fiber_delete t f s = Inr s'"
  shows "fibers_ok s'"
proof -
  obtain b where b: "fs_fibers s f = Some b" using run by (auto simp: Fiber_delete_def bind_out_eq_Inr deref_eq)
  have "fs_fibers s' = (fs_fibers s)(f := None) \<and> fs_next s' = fs_next s \<and> fs_id s' = fs_id s \<and> fs_count s' = fs_count s - 1"
    using run b by (cases "fb_stack b"; cases "t_fiber (fs_tls s t) = Some f")
      (auto simp: Fiber_delete_def bind_out_eq_Inr deref_eq assert_that_eq Let_def SetThis_def fiber_log_def)
  then show ?thesis by (intro fibers_ok_delete [OF ok b]) blast+
qed

lemma YieldToReady_ok:
  assumes "fibers_ok s" and "YieldToReady env t k s = Inr (c, s')"
  shows "fibers_ok s'"
proof -
  obtain cur s1 b where run: "Fiber_GetThis env t s = Inr (cur, s1)" "fs_fibers s1 cur = Some b"
      "Fiber_swapOut env t cur k (set_fiber cur (b\<lparr>fb_state := ST_READY\<rparr>) s1) = Inr (c, s')"
    using assms(2) by (auto simp: YieldToReady_def bind_out_eq_Inr deref_eq assert_that_eq)
  then have "same_fibers s1 s'" using swapOut_same [OF run(3)] by simp
  then show ?thesis using GetThis_ok [OF assms(1) run(1)] by (rule same_fibers_ok)
qed

lemma YieldToHold_ok:
  assumes "fibers_ok s" and "YieldToHold env t k s = Inr (c, s')"
  shows "fibers_ok s'"
proof -
  obtain cur s1 where run: "Fiber_GetThis env t s = Inr (cur, s1)" "Fiber_swapOut env t cur k s1 = Inr (c, s')"
    using assms(2) by (auto simp: YieldToHold_def bind_out_eq_Inr deref_eq assert_that_eq)
  then show ?thesis using same_fibers_ok [OF swapOut_same [OF run(2)]] GetThis_ok [OF assms(1)] by blast
qed

lemmas keeps_fibers =
  reset_same [THEN same_fibers_ok] call_same [THEN same_fibers_ok] back_same [THEN same_fibers_ok]
  swapIn_same [THEN same_fibers_ok] swapOut_same [THEN same_fibers_ok] finish_same [THEN same_fibers_ok]

lemma fiber_step_ok: "fiber_step env s s' \<Longrightarrow> fibers_ok s \<Longrightarrow> fibers_ok s'"
  by (induction rule: fiber_step.induct)
    (blast intro: keeps_fibers GetThis_ok new_ok delete_ok YieldToReady_ok YieldToHold_ok)+

lemma fiber_reachable_ok: "fiber_reachable env s \<Longrightarrow> fibers_ok s"
proof (induction rule: fiber_reachable.induct)
  case 1
  show ?case by (simp add: fibers_ok_def no_fibers_def fresh_in_def)
qed (blast intro: fiber_step_ok)

text \<open>
  C38. \<open>TotalFibers\<close> is the number of fibers that exist, at every moment of every run of the
  operations; a fiber has the id 0 exactly when it is a main fiber, and no two others have the
  same id (as long as no more than 2^64 - 1 fibers are made).
\<close>

theorem TotalFibers_counts:
  assumes "fiber_reachable env s"
  shows "finite (dom (fs_fibers s)) \<and> TotalFibers s = of_nat (card (dom (fs_fibers s))) \<and>
    (\<forall>f b. fs_fibers s f = Some b \<longrightarrow> (fb_stack b \<longleftrightarrow> fb_id b \<noteq> 0)) \<and>
    (\<forall>f g b c. fs_fibers s f = Some b \<longrightarrow> fs_fibers s g = Some c \<longrightarrow> fb_stack b \<longrightarrow> fb_id b = fb_id c \<longrightarrow> f = g)"
  using fiber_reachable_ok [OF assms] unfolding fibers_ok_def TotalFibers_def by blast

definition three_fibers :: "(unit, nat) fibers" where
  "three_fibers = (case bind_out (Fiber_GetThis good_env 7 no_fibers) (\<lambda>(_, s1).
     bind_out (new_Fiber good_env (Some ()) 0 False s1) (\<lambda>(_, s2).
     bind_out (new_Fiber good_env (Some ()) 64 False s2) (\<lambda>(f, s3). Fiber_delete 7 f s3))) of
       Inl _ \<Rightarrow> no_fibers | Inr s \<Rightarrow> s)"

lemma three_fibers_reachable: "fiber_reachable good_env three_fibers"
proof -
  let ?e = good_env
  obtain m s1 where 1: "Fiber_GetThis ?e 7 (no_fibers :: (unit, nat) fibers) = Inr (m, s1)" "fs_id s1 = 0" "fs_next s1 = 1"
    by (simp add: Fiber_GetThis_def new_main_Fiber_def no_fibers_def good_env_def assert_that_def fiber_log_def SetThis_def set_fiber_def Let_def)
  obtain g s2 where 2: "new_Fiber ?e (Some ()) 0 False s1 = Inr (g, s2)" "fs_id s2 = 1" "fs_next s2 = 2"
    by (simp add: new_Fiber_def MallocStackAllocator_Alloc_def 1 good_env_def assert_that_def fiber_log_def set_fiber_def Let_def)
  obtain f s3 where 3: "new_Fiber ?e (Some ()) 64 False s2 = Inr (f, s3)"
      "\<exists>b. fs_fibers s3 f = Some b \<and> fb_stack b \<and> fb_state b = ST_INIT"
    by (simp add: new_Fiber_def MallocStackAllocator_Alloc_def 2 good_env_def assert_that_def fiber_log_def set_fiber_def Let_def)
  then obtain s4 where 4: "Fiber_delete 7 f s3 = Inr s4"
    by (auto simp: Fiber_delete_def deref_def assert_that_def terminal_def Let_def)
  have "fiber_reachable ?e s1" by (rule fiber_reachable.intros(2) [OF fiber_reachable.intros(1) step_GetThis [OF 1(1)]])
  then have "fiber_reachable ?e s2" by (rule fiber_reachable.intros(2) [OF _ step_new [OF _ 2(1)]]) (simp add: 1)
  then have "fiber_reachable ?e s3" by (rule fiber_reachable.intros(2) [OF _ step_new [OF _ 3(1)]]) (simp add: 2)
  then have "fiber_reachable ?e s4" by (rule fiber_reachable.intros(2) [OF _ step_delete [OF 4]])
  then show ?thesis by (simp add: three_fibers_def 1 2 3 4)
qed

theorem TotalFibers_counts_witness:
  "TotalFibers three_fibers = of_nat (card (dom (fs_fibers three_fibers))) \<and> TotalFibers three_fibers = 2"
proof -
  have "TotalFibers three_fibers = 2" by code_simp
  then show ?thesis using TotalFibers_counts [OF three_fibers_reachable] by simp
qed

end
