(* ===== verification/Thread.thy ===== *)
theory Thread
  imports Prelude
begin

text \<open>
  Threads: \<open>src/thread_posix/thread_posix.h\<close>, \<open>thread_posix.cpp\<close> (the class that is built) and
  \<open>src/thread/thread.h\<close>, \<open>thread.cpp\<close> (the same class with a Windows branch).

  Thread objects live in a store, the thread-local variables are indexed by the thread. What a
  call of the operating system returns is an argument of the operation that makes the call; the
  calls that create, join, detach and close threads are kept in the order in which they are made.
  \<open>join\<close> is modelled at the moment when the call returns. A callback is a value of type \<open>'c\<close>, None
  is the empty function.
\<close>

section \<open>The state\<close>

text \<open>The calls of the library, with the handle and whether they succeeded.\<close>

datatype thread_call =
    Created u64 | Create_failed
  | Joined u64 | Join_failed u64 | Detached u64
  | Waited u64 | Closed u64

record 'c thread =
  th_id :: u64
  th_handle :: u64
  th_cb :: "'c option"
  th_name :: string

record thread_tls =
  t_thread :: "addr option"
  t_thread_name :: string

record 'c threads =
  ts_objs :: "addr \<Rightarrow> 'c thread option"
  ts_next :: addr
  ts_tls :: "thread_id \<Rightarrow> thread_tls"
  ts_calls :: "thread_call list"
  ts_log :: "string list"

definition no_threads :: "'c threads" where
  "no_threads = \<lparr>ts_objs = Map.empty, ts_next = 0,
     ts_tls = (\<lambda>t. \<lparr>t_thread = None, t_thread_name = ''UNKNOW''\<rparr>), ts_calls = [], ts_log = []\<rparr>"

definition thread_at :: "addr \<Rightarrow> 'c threads \<Rightarrow> 'c thread outcome" where
  "thread_at a s = (case ts_objs s a of None \<Rightarrow> Inl (Null_deref ''Thread'') | Some th \<Rightarrow> Inr th)"

definition set_thread :: "addr \<Rightarrow> 'c thread \<Rightarrow> 'c threads \<Rightarrow> 'c threads" where
  "set_thread a th s = s\<lparr>ts_objs := (ts_objs s)(a \<mapsto> th)\<rparr>"

definition thread_calls :: "thread_call list \<Rightarrow> 'c threads \<Rightarrow> 'c threads" where
  "thread_calls cs s = s\<lparr>ts_calls := ts_calls s @ cs\<rparr>"

definition thread_log :: "string \<Rightarrow> 'c threads \<Rightarrow> 'c threads" where
  "thread_log line s = s\<lparr>ts_log := ts_log s @ [line]\<rparr>"

definition set_tls :: "thread_id \<Rightarrow> thread_tls \<Rightarrow> 'c threads \<Rightarrow> 'c threads" where
  "set_tls t x s = s\<lparr>ts_tls := (ts_tls s)(t := x)\<rparr>"

section \<open>Thread_posix\<close>

text \<open>Its members are those of \<open>Thread\<close>.\<close>

type_synonym 'c Thread_posix = "'c thread"

definition Thread_posix_getId :: "addr \<Rightarrow> 'c threads \<Rightarrow> u64 outcome" where
  "Thread_posix_getId a s = bind_out (thread_at a s) (\<lambda>th :: 'c Thread_posix. Inr (th_id th))"

definition Thread_posix_getName :: "addr \<Rightarrow> 'c threads \<Rightarrow> string outcome" where
  "Thread_posix_getName a s = bind_out (thread_at a s) (\<lambda>th :: 'c Thread_posix. Inr (th_name th))"

definition Thread_posix_GetThis :: "thread_id \<Rightarrow> 'c threads \<Rightarrow> addr option" where
  "Thread_posix_GetThis t s = t_thread (ts_tls s t)"

definition Thread_posix_GetName :: "thread_id \<Rightarrow> 'c threads \<Rightarrow> string" where
  "Thread_posix_GetName t s = t_thread_name (ts_tls s t)"

definition Thread_posix_SetName :: "thread_id \<Rightarrow> string \<Rightarrow> 'c threads \<Rightarrow> 'c threads outcome" where
  "Thread_posix_SetName t name s =
     (if name = [] then Inr s
      else bind_out
             (case t_thread (ts_tls s t) of
                None \<Rightarrow> Inr s
              | Some a \<Rightarrow> bind_out (thread_at a s) (\<lambda>th. Inr (set_thread a (th\<lparr>th_name := name\<rparr>) s)))
             (\<lambda>s1. Inr (set_tls t ((ts_tls s1 t)\<lparr>t_thread_name := name\<rparr>) s1)))"

text \<open>
  The constructor: \<open>rt\<close> and \<open>h\<close> are the result and the handle of \<open>pthread_create\<close>. When it throws
  there is no object. The log line has the name as it was given, not the one that is stored.
\<close>

definition new_Thread_posix ::
  "int \<Rightarrow> u64 \<Rightarrow> 'c option \<Rightarrow> string \<Rightarrow> ('c threads, addr) act" where
  "new_Thread_posix rt h cb name s =
     (let a = ts_next s;
          th = \<lparr>th_id = - 1, th_handle = 0, th_cb = cb, th_name = name\<rparr>;
          th1 = (if name = [] then th\<lparr>th_name := ''UNKNOW''\<rparr> else th)
      in if rt \<noteq> 0
         then (Inl (Throw (Logic_error ''pthread_create error'')),
               thread_log (''pthread_create thread fail, rt='' @ int_str rt @ '' name='' @ name)
                 (thread_calls [Create_failed] s))
         else (Inr a, thread_calls [Created h]
                 (set_thread a (th1\<lparr>th_handle := h\<rparr>) (s\<lparr>ts_next := Suc a\<rparr>))))"

definition Thread_posix_delete :: "addr \<Rightarrow> 'c threads \<Rightarrow> 'c threads outcome" where
  "Thread_posix_delete a s =
     bind_out (thread_at a s) (\<lambda>th.
       let s1 = (if th_handle th \<noteq> 0 then thread_calls [Detached (th_handle th)] s else s)
       in Inr (s1\<lparr>ts_objs := (ts_objs s1)(a := None)\<rparr>))"

text \<open>\<open>rt\<close> is the result of \<open>pthread_join\<close>.\<close>

definition Thread_posix_join :: "int \<Rightarrow> addr \<Rightarrow> ('c threads, unit) act" where
  "Thread_posix_join rt a s =
     (case thread_at a s of
        Inl e \<Rightarrow> (Inl e, s)
      | Inr th \<Rightarrow>
          if th_handle th = 0 then (Inr (), s)
          else if rt \<noteq> 0
          then (Inl (Throw (Logic_error ''pthread_join error'')),
                thread_log (''pthread_join thread fail, rt='' @ int_str rt @ '' name='' @ th_name th)
                  (thread_calls [Join_failed (th_handle th)] s))
          else (Inr (), set_thread a (th\<lparr>th_handle := 0\<rparr>) (thread_calls [Joined (th_handle th)] s)))"

text \<open>
  What the new thread \<open>t\<close> does before it calls the callback, which is the result: \<open>tid\<close> is what
  \<open>gettid\<close> gives. The second component of the result is the name given to \<open>pthread_setname_np\<close>.
\<close>

definition Thread_posix_run ::
  "thread_id \<Rightarrow> u64 \<Rightarrow> addr \<Rightarrow> 'c threads \<Rightarrow> (('c option \<times> string) \<times> 'c threads) outcome" where
  "Thread_posix_run t tid a s =
     bind_out (thread_at a s) (\<lambda>th.
       let s1 = set_tls t \<lparr>t_thread = Some a, t_thread_name = th_name th\<rparr> s;
           s2 = set_thread a (th\<lparr>th_id := tid\<rparr>) s1
       in bind_out (thread_at a s2) (\<lambda>th2.
            Inr ((th_cb th2, take 15 (th_name th2)), set_thread a (th2\<lparr>th_cb := None\<rparr>) s2)))"

section \<open>Thread\<close>

text \<open>
  The class of \<open>src/thread\<close>, compiled for POSIX or for Windows. On Windows the handle is null when
  the thread could not be created; \<open>code\<close> is what \<open>GetLastError\<close> gives, \<open>exit_ok\<close> and \<open>exit_code\<close> what
  \<open>GetExitCodeThread\<close> gives, \<open>named\<close> whether \<open>SetThreadDescription\<close> succeeds.
\<close>

datatype platform = Windows | Posix

definition Thread_GetThis :: "thread_id \<Rightarrow> 'c threads \<Rightarrow> addr option" where
  "Thread_GetThis t s = t_thread (ts_tls s t)"

definition Thread_GetName :: "thread_id \<Rightarrow> 'c threads \<Rightarrow> string" where
  "Thread_GetName t s = t_thread_name (ts_tls s t)"

definition Thread_SetName :: "thread_id \<Rightarrow> string \<Rightarrow> 'c threads \<Rightarrow> 'c threads outcome" where
  "Thread_SetName t name s =
     (if name = [] then Inr s
      else bind_out
             (case t_thread (ts_tls s t) of
                None \<Rightarrow> Inr s
              | Some a \<Rightarrow> bind_out (thread_at a s) (\<lambda>th. Inr (set_thread a (th\<lparr>th_name := name\<rparr>) s)))
             (\<lambda>s1. Inr (set_tls t ((ts_tls s1 t)\<lparr>t_thread_name := name\<rparr>) s1)))"

definition new_Thread ::
  "platform \<Rightarrow> int \<Rightarrow> u64 \<Rightarrow> u32 \<Rightarrow> 'c option \<Rightarrow> string \<Rightarrow> ('c threads, addr) act" where
  "new_Thread p rt h code cb name s =
     (let a = ts_next s;
          th = \<lparr>th_id = - 1, th_handle = 0, th_cb = cb, th_name = (if name = [] then ''UNKNOW'' else name)\<rparr>;
          fail = (Inl (Throw (Logic_error ''pthread_create error'')) :: addr outcome);
          made = (Inr a, thread_calls [Created h] (set_thread a (th\<lparr>th_handle := h\<rparr>) (s\<lparr>ts_next := Suc a\<rparr>)))
      in case p of
           Windows \<Rightarrow>
             if h = 0 then (fail, thread_log (''pthread_create thread fail, error='' @ nat_str (unat code) @ '' name='' @ name)
                                    (thread_calls [Create_failed] s))
             else made
         | Posix \<Rightarrow>
             if rt \<noteq> 0 then (fail, thread_log (''pthread_create thread fail, rt='' @ int_str rt @ '' name='' @ name)
                                     (thread_calls [Create_failed] s))
             else made)"

definition Thread_delete :: "platform \<Rightarrow> addr \<Rightarrow> 'c threads \<Rightarrow> 'c threads outcome" where
  "Thread_delete p a s =
     bind_out (thread_at a s) (\<lambda>th.
       let s1 = (if th_handle th = 0 then s
                 else thread_calls [case p of Windows \<Rightarrow> Closed (th_handle th) | Posix \<Rightarrow> Detached (th_handle th)] s)
       in Inr (s1\<lparr>ts_objs := (ts_objs s1)(a := None)\<rparr>))"

definition Thread_join :: "platform \<Rightarrow> int \<Rightarrow> bool \<Rightarrow> u32 \<Rightarrow> addr \<Rightarrow> ('c threads, unit) act" where
  "Thread_join p rt exit_ok exit_code a s =
     (case thread_at a s of
        Inl e \<Rightarrow> (Inl e, s)
      | Inr th \<Rightarrow>
          let h = th_handle th; joined = set_thread a (th\<lparr>th_handle := 0\<rparr>)
          in if h = 0 then (Inr (), s)
             else (case p of
                 Windows \<Rightarrow>
                   if \<not> exit_ok
                   then (Inl (Throw (Logic_error ''WaitForSingleObject error'')),
                         thread_log (''WaitForSingleObject thread fail, exitCode='' @ nat_str (unat exit_code) @ '' name='' @ th_name th)
                           (thread_calls [Waited h] s))
                   else (Inr (), joined (thread_calls [Waited h, Closed h] s))
               | Posix \<Rightarrow>
                   if rt \<noteq> 0
                   then (Inl (Throw (Logic_error ''pthread_join error'')),
                         thread_log (''pthread_join thread fail, rt='' @ int_str rt @ '' name='' @ th_name th)
                           (thread_calls [Join_failed h] s))
                   else (Inr (), joined (thread_calls [Joined h] s))))"

text \<open>
  On Windows a thread that cannot be named ends at once, without running its callback: the
  result is None.
\<close>

definition Thread_run ::
  "platform \<Rightarrow> bool \<Rightarrow> thread_id \<Rightarrow> u64 \<Rightarrow> addr \<Rightarrow> 'c threads \<Rightarrow> (('c option \<times> string) option \<times> 'c threads) outcome" where
  "Thread_run p named t tid a s =
     bind_out (thread_at a s) (\<lambda>th.
       let s1 = set_tls t \<lparr>t_thread = Some a, t_thread_name = th_name th\<rparr> s;
           s2 = set_thread a (th\<lparr>th_id := tid\<rparr>) s1
       in bind_out (thread_at a s2) (\<lambda>th2.
            let shown = (case p of Windows \<Rightarrow> th_name th2 | Posix \<Rightarrow> take 15 (th_name th2))
            in if p = Windows \<and> \<not> named
               then Inr (None, thread_log (''SetThreadDescription thread fail name='' @ th_name th2) s2)
               else Inr (Some (th_cb th2, shown), set_thread a (th2\<lparr>th_cb := None\<rparr>) s2)))"

text \<open>\<open>getId\<close> and \<open>getName\<close>.\<close>

definition Thread_getId :: "addr \<Rightarrow> 'c threads \<Rightarrow> u64 outcome" where
  "Thread_getId a s = bind_out (thread_at a s) (\<lambda>th. Inr (th_id th))"

definition Thread_getName :: "addr \<Rightarrow> 'c threads \<Rightarrow> string outcome" where
  "Thread_getName a s = bind_out (thread_at a s) (\<lambda>th. Inr (th_name th))"

end
