(* ===== verification/ThreadProps.thy ===== *)
theory ThreadProps
  imports Thread
begin

text \<open>
  The two thread classes are the same on POSIX; a thread takes its identity and its callback
  when it starts; every handle is given back exactly once.
\<close>

lemma thread_at_eq: "thread_at a s = Inr th \<longleftrightarrow> ts_objs s a = Some th"
  by (simp add: thread_at_def split: option.split)

lemma thread_state_simps [simp]:
  "ts_objs (set_thread a th s) = (ts_objs s)(a \<mapsto> th)"
  "ts_objs (thread_calls cs s) = ts_objs s" "ts_objs (thread_log l s) = ts_objs s" "ts_objs (set_tls t x s) = ts_objs s"
  "ts_next (set_thread a th s) = ts_next s"
  "ts_next (thread_calls cs s) = ts_next s" "ts_next (thread_log l s) = ts_next s" "ts_next (set_tls t x s) = ts_next s"
  "ts_calls (set_thread a th s) = ts_calls s"
  "ts_calls (thread_calls cs s) = ts_calls s @ cs" "ts_calls (thread_log l s) = ts_calls s" "ts_calls (set_tls t x s) = ts_calls s"
  "ts_tls (set_thread a th s) = ts_tls s"
  "ts_tls (thread_calls cs s) = ts_tls s" "ts_tls (thread_log l s) = ts_tls s" "ts_tls (set_tls t x s) = (ts_tls s)(t := x)"
  by (simp_all add: set_thread_def thread_calls_def thread_log_def set_tls_def)

text \<open>
  The class \<open>Thread_posix\<close> that is built and the class \<open>Thread\<close> compiled for POSIX behave the
  same in every state, operation by operation, errors included.
\<close>

theorem Thread_posix_is_Thread:
  "new_Thread_posix rt h cb name s = new_Thread Posix rt h code cb name s \<and>
   Thread_posix_delete a s = Thread_delete Posix a s \<and>
   Thread_posix_join rt a s = Thread_join Posix rt ok ec a s \<and>
   Thread_posix_SetName t name s = Thread_SetName t name s \<and>
   Thread_posix_GetName t s = Thread_GetName t s \<and> Thread_posix_GetThis t s = Thread_GetThis t s \<and>
   Thread_run Posix named t tid a s =
     bind_out (Thread_posix_run t tid a s) (\<lambda>(r, s'). Inr (Some r, s'))"
proof -
  have "new_Thread_posix rt h cb name s = new_Thread Posix rt h code cb name s"
    by (simp add: new_Thread_posix_def new_Thread_def Let_def)
  moreover have "Thread_posix_delete a s = Thread_delete Posix a s"
    by (cases "thread_at a s") (simp_all add: Thread_posix_delete_def Thread_delete_def)
  moreover have "Thread_posix_join rt a s = Thread_join Posix rt ok ec a s"
    by (simp add: Thread_posix_join_def Thread_join_def Let_def split: sum.split)
  moreover have "Thread_run Posix named t tid a s = bind_out (Thread_posix_run t tid a s) (\<lambda>(r, s'). Inr (Some r, s'))"
    by (cases "thread_at a s") (simp_all add: Thread_run_def Thread_posix_run_def Let_def thread_at_def)
  ultimately show ?thesis
    by (simp add: Thread_posix_SetName_def Thread_SetName_def Thread_posix_GetName_def Thread_GetName_def
        Thread_posix_GetThis_def Thread_GetThis_def)
qed

text \<open>
  A thread takes its identity when it starts, not when it is made: after the constructor the
  id is -1 (all ones) whatever thread the library has made; when the new thread runs it has the
  id, the name and the object of its own, and gets the callback, which is gone afterwards; a name
  it then gives itself is the name of both the thread and the object, unless it is empty.
\<close>

theorem thread_starts:
  assumes made: "new_Thread p rt h code cb name s = (Inr a, s1)" and "named \<or> p = Posix"
  shows "Thread_getId a s1 = Inr (- 1) \<and>
    (\<exists>shown s2. Thread_run p named t tid a s1 = Inr (Some (cb, shown), s2) \<and> Thread_getId a s2 = Inr tid \<and>
       Thread_GetThis t s2 = Some a \<and> Thread_GetName t s2 = (if name = [] then ''UNKNOW'' else name) \<and>
       (p = Posix \<longrightarrow> length shown \<le> 15) \<and> map_option th_cb (ts_objs s2 a) = Some None \<and>
       Thread_SetName t [] s2 = Inr s2 \<and>
       (name' \<noteq> [] \<longrightarrow> (\<exists>s3. Thread_SetName t name' s2 = Inr s3 \<and> Thread_GetName t s3 = name' \<and> Thread_getName a s3 = Inr name')))"
proof -
  obtain th where th: "ts_objs s1 a = Some th" "th_id th = - 1" "th_cb th = cb"
      "th_name th = (if name = [] then ''UNKNOW'' else name)"
    using made by (cases p) (auto simp: new_Thread_def Let_def split: if_splits)
  then show ?thesis
    using assms(2)
    by (cases p) (auto simp: Thread_run_def Thread_getId_def Thread_getName_def Thread_GetThis_def Thread_GetName_def
        Thread_SetName_def thread_at_def Let_def)
qed

theorem thread_starts_witness:
  "\<exists>s1 shown s2. new_Thread Posix 0 5 0 (Some ''work'') ''net'' no_threads = (Inr 0, s1) \<and> Thread_getId 0 s1 = Inr (- 1) \<and>
     Thread_run Posix True 42 42 0 s1 = Inr (Some (Some ''work'', shown), s2) \<and> Thread_GetName 42 s2 = ''net''"
proof -
  obtain s1 where s1: "new_Thread Posix 0 5 0 (Some ''work'') ''net'' no_threads = (Inr 0, s1)"
    by (simp add: new_Thread_def no_threads_def Let_def)
  show ?thesis using thread_starts [OF s1, of True 42 42 "''x''"] s1 by auto
qed

section \<open>Handles\<close>

inductive thread_step :: "platform \<Rightarrow> 'c threads \<Rightarrow> 'c threads \<Rightarrow> bool" for p :: platform where
  "new_Thread p rt h code cb name s = (r, s') \<Longrightarrow> thread_step p s s'"
| "Thread_delete p a s = Inr s' \<Longrightarrow> thread_step p s s'"
| "Thread_join p rt ok ec a s = (r, s') \<Longrightarrow> thread_step p s s'"
| "Thread_run p named t tid a s = Inr (r, s') \<Longrightarrow> thread_step p s s'"
| "Thread_SetName t name s = Inr s' \<Longrightarrow> thread_step p s s'"

inductive thread_reachable :: "platform \<Rightarrow> 'c threads \<Rightarrow> bool" for p :: platform where
  start: "thread_reachable p no_threads"
| step: "thread_reachable p s \<Longrightarrow> thread_step p s s' \<Longrightarrow> thread_reachable p s'"

definition holders :: "u64 \<Rightarrow> 'c threads \<Rightarrow> addr set" where
  "holders h s = {a. \<exists>th. ts_objs s a = Some th \<and> th_handle th = h}"

definition given_back :: "u64 \<Rightarrow> thread_call list \<Rightarrow> nat" where
  "given_back h cs = count_list cs (Joined h) + count_list cs (Detached h) + count_list cs (Closed h)"

definition threads_ok :: "u64 \<Rightarrow> 'c threads \<Rightarrow> bool" where
  "threads_ok h s \<longleftrightarrow> finite (dom (ts_objs s)) \<and> fresh_in (ts_objs s) (ts_next s) \<and>
     count_list (ts_calls s) (Created h) = given_back h (ts_calls s) + card (holders h s)"

lemma finite_holders: "finite (dom (ts_objs s)) \<Longrightarrow> finite (holders h s)"
  by (rule finite_subset [of _ "dom (ts_objs s)"]) (auto simp: holders_def)

lemma given_back_append [simp]: "given_back h (cs @ ds) = given_back h cs + given_back h ds"
  by (simp add: given_back_def)

text \<open>The three ways in which an operation changes the objects.\<close>

lemma holders_set: "holders h (set_thread a th s) = (if th_handle th = h then insert a (holders h s) else holders h s - {a})"
  by (auto simp: holders_def)

lemma holders_calls [simp]: "holders h (thread_calls cs s) = holders h s" "holders h (thread_log l s) = holders h s"
    "holders h (set_tls t x s) = holders h s"
  by (simp_all add: holders_def)

lemma threads_ok_same_handle:
  "threads_ok h s \<Longrightarrow> ts_objs s a = Some th \<Longrightarrow> th_handle th' = th_handle th \<Longrightarrow> threads_ok h (set_thread a th' s)"
proof -
  assume ok: "threads_ok h s" and th: "ts_objs s a = Some th" "th_handle th' = th_handle th"
  have "holders h (set_thread a th' s) = holders h s" using th by (auto simp: holders_def)
  then show ?thesis using ok th unfolding threads_ok_def by auto
qed

lemma threads_ok_new: "threads_ok h s \<Longrightarrow>
  threads_ok h (thread_calls [Created g] (set_thread (ts_next s) (th\<lparr>th_handle := g\<rparr>) (s\<lparr>ts_next := Suc (ts_next s)\<rparr>)))"
proof -
  assume ok: "threads_ok h s"
  have none: "ts_objs s (ts_next s) = None" using ok by (simp add: threads_ok_def fresh_in_None)
  then have "ts_next s \<notin> holders h s" by (simp add: holders_def)
  moreover have "holders h (s\<lparr>ts_next := n\<rparr>) = holders h s" for n by (simp add: holders_def)
  ultimately show ?thesis
    using ok by (auto simp: threads_ok_def holders_set given_back_def finite_holders fresh_in_alloc)
qed

lemma threads_ok_release:
  assumes ok: "threads_ok h s" and th: "ts_objs s a = Some th" "th_handle th \<noteq> 0" and h: "h \<noteq> 0"
    and other: "ts_calls s' = ts_calls s @ cs" "given_back h cs = (if th_handle th = h then 1 else 0)"
      "count_list cs (Created h) = 0"
    and objs: "holders h s' = holders h s - {a}" "finite (dom (ts_objs s'))" "fresh_in (ts_objs s') (ts_next s')"
  shows "threads_ok h s'"
proof -
  have fin: "finite (holders h s)" using ok by (simp add: threads_ok_def finite_holders)
  have mem: "a \<in> holders h s \<longleftrightarrow> th_handle th = h" using th by (auto simp: holders_def)
  have "card (holders h s) = card (holders h s') + (if th_handle th = h then 1 else 0)"
    using card.remove [OF fin, of a] mem objs(1) by auto
  then show ?thesis using ok other objs(2,3) by (simp add: threads_ok_def)
qed

lemma new_Thread_ok:
  assumes ok: "threads_ok h s" and run: "new_Thread p rt g code cb name s = (r, s')"
  shows "threads_ok h s'"
proof -
  have fail: "threads_ok h (thread_log l (thread_calls [Create_failed] s))" for l
    using ok by (simp add: threads_ok_def given_back_def)
  define th where "th = \<lparr>th_id = - 1, th_handle = 0, th_cb = cb, th_name = (if name = [] then ''UNKNOW'' else name)\<rparr>"
  have "s' = thread_calls [Created g] (set_thread (ts_next s) (th\<lparr>th_handle := g\<rparr>) (s\<lparr>ts_next := Suc (ts_next s)\<rparr>)) \<or>
      (\<exists>l. s' = thread_log l (thread_calls [Create_failed] s))"
    using run unfolding th_def by (cases p) (auto simp: new_Thread_def Let_def split: if_splits)
  then show ?thesis using fail threads_ok_new [OF ok, of g th] by auto
qed

lemma fresh_in_delete: "fresh_in m n \<Longrightarrow> fresh_in (m(a := None)) n"
  by (simp add: fresh_in_def)

lemma Thread_delete_ok:
  assumes ok: "threads_ok h s" and h: "h \<noteq> 0" and run: "Thread_delete p a s = Inr s'"
  shows "threads_ok h s'"
proof -
  obtain th where th: "ts_objs s a = Some th" using run by (auto simp: Thread_delete_def bind_out_eq_Inr thread_at_eq)
  have objs: "ts_objs s' = (ts_objs s)(a := None)" "ts_next s' = ts_next s"
    using run th by (auto simp: Thread_delete_def thread_at_def Let_def split: if_splits)
  then have holders: "holders h s' = holders h s - {a}" by (auto simp: holders_def)
  have keep: "finite (dom (ts_objs s'))" "fresh_in (ts_objs s') (ts_next s')"
    using ok objs by (simp_all add: threads_ok_def fresh_in_delete)
  show ?thesis
  proof (cases "th_handle th = 0")
    case True
    then have "a \<notin> holders h s" using th h by (auto simp: holders_def)
    moreover have "ts_calls s' = ts_calls s" using run th True by (auto simp: Thread_delete_def thread_at_def)
    ultimately show ?thesis using ok holders keep by (simp add: threads_ok_def)
  next
    case False
    show ?thesis
      by (rule threads_ok_release [OF ok th False h _ _ _ holders keep, of "[case p of Windows \<Rightarrow> Closed (th_handle th) | Posix \<Rightarrow> Detached (th_handle th)]"])
        (use run th False in \<open>auto simp: Thread_delete_def thread_at_def given_back_def split: platform.split\<close>)
  qed
qed

lemma Thread_join_ok:
  assumes ok: "threads_ok h s" and h: "h \<noteq> 0" and run: "Thread_join p rt good ec a s = (r, s')"
  shows "threads_ok h s'"
proof (cases "\<exists>th. ts_objs s a = Some th \<and> th_handle th \<noteq> 0")
  case True
  then obtain th where th: "ts_objs s a = Some th" "th_handle th \<noteq> 0" by blast
  define cs where "cs = (case p of Windows \<Rightarrow> [Waited (th_handle th), Closed (th_handle th)] | Posix \<Rightarrow> [Joined (th_handle th)])"
  have "(\<exists>l c. s' = thread_log l (thread_calls [c] s) \<and> given_back h [c] = 0 \<and> c \<noteq> Created h) \<or>
      s' = set_thread a (th\<lparr>th_handle := 0\<rparr>) (thread_calls cs s)"
    using run th unfolding cs_def
    by (cases p) (auto simp: Thread_join_def thread_at_def Let_def given_back_def split: if_splits)
  then show ?thesis
  proof (elim disjE exE conjE)
    fix l c assume "s' = thread_log l (thread_calls [c] s)" "given_back h [c] = 0" "c \<noteq> Created h"
    then show ?thesis using ok by (simp add: threads_ok_def)
  next
    assume s': "s' = set_thread a (th\<lparr>th_handle := 0\<rparr>) (thread_calls cs s)"
    have "holders h s' = holders h s - {a}" "finite (dom (ts_objs s'))" "fresh_in (ts_objs s') (ts_next s')"
      using ok h th by (auto simp: s' holders_set threads_ok_def fresh_in_update)
    then show ?thesis
      by (intro threads_ok_release [OF ok th h, of s' cs]) (auto simp: s' cs_def given_back_def split: platform.split)
  qed
next
  case False
  then have "s' = s" using run by (auto simp: Thread_join_def thread_at_def split: option.splits)
  then show ?thesis using ok by simp
qed

lemma Thread_run_ok:
  assumes ok: "threads_ok h s" and run: "Thread_run p named t tid a s = Inr (r, s')"
  shows "threads_ok h s'"
proof -
  obtain th where th: "ts_objs s a = Some th" using run by (auto simp: Thread_run_def bind_out_eq_Inr thread_at_eq)
  have tls: "threads_ok h (set_tls t x s)" "threads_ok h (thread_log l s2) = threads_ok h s2" for x l and s2 :: "'a threads"
    using ok by (simp_all add: threads_ok_def)
  define s2 where "s2 = set_thread a (th\<lparr>th_id := tid\<rparr>) (set_tls t \<lparr>t_thread = Some a, t_thread_name = th_name th\<rparr> s)"
  have "threads_ok h s2" unfolding s2_def by (rule threads_ok_same_handle [OF tls(1)]) (use th in simp_all)
  moreover have "threads_ok h (set_thread a (th\<lparr>th_id := tid, th_cb := None\<rparr>) s2)"
    by (rule threads_ok_same_handle [OF \<open>threads_ok h s2\<close>, of _ "th\<lparr>th_id := tid\<rparr>"]) (simp_all add: s2_def)
  moreover have "(\<exists>l. s' = thread_log l s2) \<or> s' = set_thread a (th\<lparr>th_id := tid, th_cb := None\<rparr>) s2"
    using run th unfolding s2_def by (auto simp: Thread_run_def thread_at_def Let_def split: if_splits)
  ultimately show ?thesis using tls(2) by auto
qed

lemma Thread_SetName_ok:
  assumes ok: "threads_ok h s" and run: "Thread_SetName t name s = Inr s'"
  shows "threads_ok h s'"
proof -
  have tls: "threads_ok h (set_tls t x s2) = threads_ok h s2" for x and s2 :: "'a threads"
    by (simp add: threads_ok_def)
  have "threads_ok h (set_thread a (th\<lparr>th_name := name\<rparr>) s)" if "ts_objs s a = Some th" for a th
    using threads_ok_same_handle [OF ok that] by simp
  then show ?thesis
    using run ok
    by (auto simp: Thread_SetName_def bind_out_eq_Inr thread_at_eq tls split: if_splits option.splits)
qed

lemma thread_step_ok: "thread_step p s s' \<Longrightarrow> h \<noteq> 0 \<Longrightarrow> threads_ok h s \<Longrightarrow> threads_ok h s'"
  by (induction rule: thread_step.induct)
    (blast intro: new_Thread_ok Thread_delete_ok Thread_join_ok Thread_run_ok Thread_SetName_ok)+

lemma thread_reachable_ok: "thread_reachable p s \<Longrightarrow> h \<noteq> 0 \<Longrightarrow> threads_ok h s"
proof (induction rule: thread_reachable.induct)
  case start
  show ?case by (simp add: threads_ok_def no_threads_def fresh_in_def given_back_def holders_def)
qed (blast intro: thread_step_ok)

text \<open>
  C23. Every handle the library has given out is given back once: at every moment of every run of
  the operations, a handle other than 0 has been made as many times as it has been joined,
  detached or closed and is still held by an object. So none is leaked by an object that is gone,
  and none is joined and detached as well.
\<close>

theorem handles_given_back_once:
  assumes "thread_reachable p s" and "h \<noteq> 0"
  shows "count_list (ts_calls s) (Created h) =
    count_list (ts_calls s) (Joined h) + count_list (ts_calls s) (Detached h) + count_list (ts_calls s) (Closed h) +
    card {a. \<exists>th. ts_objs s a = Some th \<and> th_handle th = h}"
  using thread_reachable_ok [OF assms] by (simp add: threads_ok_def given_back_def holders_def)

theorem handles_given_back_once_witness:
  "\<exists>s :: string threads. thread_reachable Posix s \<and> count_list (ts_calls s) (Created 5) = 1 \<and> count_list (ts_calls s) (Joined 5) = 1 \<and>
     {a. \<exists>th. ts_objs s a = Some th \<and> th_handle th = 5} = {}"
proof -
  obtain s1 where 1: "new_Thread Posix 0 5 0 (Some ''work'') ''net'' no_threads = (Inr 0, s1)" "ts_calls s1 = [Created 5]"
      "ts_objs s1 = [0 \<mapsto> \<lparr>th_id = - 1, th_handle = 5, th_cb = Some ''work'', th_name = ''net''\<rparr>]"
    by (simp add: new_Thread_def no_threads_def Let_def)
  obtain s2 where 2: "Thread_join Posix 0 True 0 0 s1 = (Inr (), s2)" "ts_calls s2 = [Created 5, Joined 5]"
      "finite (dom (ts_objs s2))"
    using 1 by (simp add: Thread_join_def thread_at_def Let_def)
  have r: "thread_reachable Posix s2"
    by (rule thread_reachable.step [OF thread_reachable.step [OF thread_reachable.start]])
      (rule thread_step.intros(1) [OF 1(1)], rule thread_step.intros(3) [OF 2(1)])
  have "finite {a. \<exists>th. ts_objs s2 a = Some th \<and> th_handle th = 5}"
    by (rule finite_subset [OF _ 2(3)]) auto
  moreover have "card {a. \<exists>th. ts_objs s2 a = Some th \<and> th_handle th = 5} = 0"
    using handles_given_back_once [OF r, of 5] 2(2) by simp
  ultimately have "{a. \<exists>th. ts_objs s2 a = Some th \<and> th_handle th = 5} = {}" by simp
  then show ?thesis using 2(2) r by (intro exI [of _ s2]) simp
qed

end
