(* ===== verification/Scheduler.thy ===== *)
theory Scheduler
  imports Fiber Thread
begin

text \<open>
  The scheduler of fibers (\<open>src/scheduler/scheduler.h\<close>, \<open>scheduler.cpp\<close>).

  Schedulers are objects in a store, beside the fibers and the threads. What is done under
  \<open>m_mutex\<close>, and each operation on the atomic counters, is one step. A function that switches to
  another fiber is cut there: it saves where it goes on, a value of type \<open>resume\<close>, in the context
  of the fiber it leaves, and returns the context that runs next; the code after the switch is a
  definition of its own (\<open>after_fiber\<close>, \<open>after_cb\<close>, \<open>after_idle\<close>, \<open>idle_loop\<close>, \<open>stop_finish\<close>).
  \<open>tickle\<close>, \<open>idle\<close> and \<open>stopping\<close> are virtual; they are those of \<open>Scheduler\<close> itself.
\<close>

section \<open>The state\<close>

text \<open>A callback: a user's, or \<open>run\<close> or \<open>idle\<close> bound to a scheduler.\<close>

datatype 'u task = User_task 'u | Run_task addr | Idle_task addr

record run_locals =
  rl_idle :: addr
  rl_cb :: "addr option"

datatype 'v resume =
    After_fiber addr run_locals addr
  | After_cb addr run_locals
  | After_idle addr run_locals
  | Idle_yielded addr
  | Stop_called addr
  | User_code 'v
  | Never

record 'u fiber_and_thread =
  ft_fiber :: "addr option"
  ft_cb :: "'u task option"
  ft_thread :: int

record 'u scheduler =
  sc_threads :: "addr option list"
  sc_fibers :: "'u fiber_and_thread list"
  sc_rootFiber :: "addr option"
  sc_name :: string
  sc_threadIds :: "int list"
  sc_threadCount :: u64
  sc_active :: u64
  sc_idle :: u64
  sc_stopping :: bool
  sc_autoStop :: bool
  sc_rootThread :: int

text \<open>
  The whole state; \<open>w_sched\<close> is \<open>t_scheduler\<close> of each thread, and \<open>w_hooks\<close> the calls of
  \<open>set_hook_enable\<close>, which is not in the repository.
\<close>

record ('u, 'v) world =
  w_fibers :: "('u task, 'v resume) fibers"
  w_scheds :: "addr \<Rightarrow> 'u scheduler option"
  w_sched :: "thread_id \<Rightarrow> addr option"
  w_threads :: "'u task threads"
  w_hooks :: "(thread_id \<times> bool) list"

definition sched_at :: "addr \<Rightarrow> ('u, 'v) world \<Rightarrow> 'u scheduler outcome" where
  "sched_at this w = (case w_scheds w this of None \<Rightarrow> Inl (Null_deref ''Scheduler'') | Some sc \<Rightarrow> Inr sc)"

definition set_sched :: "addr \<Rightarrow> 'u scheduler \<Rightarrow> ('u, 'v) world \<Rightarrow> ('u, 'v) world" where
  "set_sched this sc w = w\<lparr>w_scheds := (w_scheds w)(this \<mapsto> sc)\<rparr>"

text \<open>A change of one scheduler, and an operation on the fibers.\<close>

definition on_sched :: "addr \<Rightarrow> ('u scheduler \<Rightarrow> 'u scheduler) \<Rightarrow> ('u, 'v) world \<Rightarrow> ('u, 'v) world outcome" where
  "on_sched this f w = bind_out (sched_at this w) (\<lambda>sc. Inr (set_sched this (f sc) w))"

definition on_fibers ::
  "(('u task, 'v resume) fibers \<Rightarrow> ('a \<times> ('u task, 'v resume) fibers) outcome) \<Rightarrow> ('u, 'v) world \<Rightarrow> ('a \<times> ('u, 'v) world) outcome" where
  "on_fibers f w = bind_out (f (w_fibers w)) (\<lambda>(x, fs). Inr (x, w\<lparr>w_fibers := fs\<rparr>))"

definition sched_log :: "string \<Rightarrow> ('u, 'v) world \<Rightarrow> ('u, 'v) world" where
  "sched_log line w = w\<lparr>w_fibers := fiber_log line (w_fibers w)\<rparr>"

definition fiber_state :: "addr \<Rightarrow> ('u, 'v) world \<Rightarrow> State outcome" where
  "fiber_state f w = bind_out (deref f (w_fibers w)) (\<lambda>b. Inr (fb_state b))"

definition set_state :: "addr \<Rightarrow> State \<Rightarrow> ('u, 'v) world \<Rightarrow> ('u, 'v) world outcome" where
  "set_state f st w =
     bind_out (deref f (w_fibers w)) (\<lambda>b. Inr (w\<lparr>w_fibers := set_fiber f (b\<lparr>fb_state := st\<rparr>) (w_fibers w)\<rparr>))"

section \<open>Scheduling\<close>

text \<open>
  The constructors of \<open>FiberAndThread\<close> from a fiber and from a function; those that take a
  pointer swap the value out, and leave the source empty.
\<close>

datatype 'u scheduled = Fiber_arg "addr option" | Cb_arg "'u task option"

fun new_FiberAndThread :: "'u scheduled \<Rightarrow> int \<Rightarrow> 'u fiber_and_thread" where
  "new_FiberAndThread (Fiber_arg f) thr = \<lparr>ft_fiber = f, ft_cb = None, ft_thread = thr\<rparr>"
| "new_FiberAndThread (Cb_arg c) thr = \<lparr>ft_fiber = None, ft_cb = c, ft_thread = thr\<rparr>"

fun swap_FiberAndThread :: "'u scheduled \<Rightarrow> int \<Rightarrow> 'u fiber_and_thread \<times> 'u scheduled" where
  "swap_FiberAndThread (Fiber_arg f) thr = (\<lparr>ft_fiber = f, ft_cb = None, ft_thread = thr\<rparr>, Fiber_arg None)"
| "swap_FiberAndThread (Cb_arg c) thr = (\<lparr>ft_fiber = None, ft_cb = c, ft_thread = thr\<rparr>, Cb_arg None)"

definition no_task :: "'u fiber_and_thread" where
  "no_task = \<lparr>ft_fiber = None, ft_cb = None, ft_thread = - 1\<rparr>"

definition has_task :: "'u fiber_and_thread \<Rightarrow> bool" where
  "has_task ft \<longleftrightarrow> ft_fiber ft \<noteq> None \<or> ft_cb ft \<noteq> None"

definition scheduleNoLock :: "'u fiber_and_thread \<Rightarrow> 'u scheduler \<Rightarrow> bool \<times> 'u scheduler" where
  "scheduleNoLock ft sc =
     (sc_fibers sc = [], if has_task ft then sc\<lparr>sc_fibers := sc_fibers sc @ [ft]\<rparr> else sc)"

definition tickle :: "('u, 'v) world \<Rightarrow> ('u, 'v) world" where
  "tickle w = sched_log ''tickle'' w"

definition schedule :: "addr \<Rightarrow> 'u scheduled \<Rightarrow> int \<Rightarrow> ('u, 'v) world \<Rightarrow> ('u, 'v) world outcome" where
  "schedule this fc thr w =
     bind_out (sched_at this w) (\<lambda>sc.
       let (need_tickle, sc') = scheduleNoLock (new_FiberAndThread fc thr) sc;
           w1 = set_sched this sc' w
       in Inr (if need_tickle then tickle w1 else w1))"

text \<open>The loop over a range under the lock; the second result is what the range holds afterwards.\<close>

fun schedule_loop :: "'u scheduled list \<Rightarrow> bool \<Rightarrow> 'u scheduler \<Rightarrow> bool \<times> 'u scheduled list \<times> 'u scheduler" where
  "schedule_loop [] need_tickle sc = (need_tickle, [], sc)"
| "schedule_loop (x # xs) need_tickle sc =
     (let (ft, x') = swap_FiberAndThread x (- 1);
          (n, sc1) = scheduleNoLock ft sc;
          (n', xs', sc2) = schedule_loop xs (n \<or> need_tickle) sc1
      in (n', x' # xs', sc2))"

definition schedule_range :: "addr \<Rightarrow> 'u scheduled list \<Rightarrow> ('u, 'v) world \<Rightarrow> ('u scheduled list \<times> ('u, 'v) world) outcome" where
  "schedule_range this xs w =
     bind_out (sched_at this w) (\<lambda>sc.
       let (need_tickle, xs', sc') = schedule_loop xs False sc;
           w1 = set_sched this sc' w
       in Inr (xs', if need_tickle then tickle w1 else w1))"

section \<open>Construction\<close>

definition new_Scheduler ::
  "fiber_env \<Rightarrow> thread_id \<Rightarrow> addr \<Rightarrow> u64 \<Rightarrow> bool \<Rightarrow> string \<Rightarrow> ('u, 'v) world \<Rightarrow> ('u, 'v) world outcome" where
  "new_Scheduler env t this threads use_caller name w =
     assert_that (threads > 0) ''threads > 0''
       (let sc = \<lparr>sc_threads = [], sc_fibers = [], sc_rootFiber = None, sc_name = name, sc_threadIds = [],
              sc_threadCount = 0, sc_active = 0, sc_idle = 0, sc_stopping = True, sc_autoStop = False, sc_rootThread = 0\<rparr>
        in if use_caller
           then bind_out (on_fibers (Fiber_GetThis env t) w) (\<lambda>(_, w1).
                assert_that (w_sched w1 t = None) ''GetThis() == nullptr''
                  (let w2 = w1\<lparr>w_sched := (w_sched w1)(t := Some this)\<rparr>
                   in bind_out (on_fibers (new_Fiber env (Some (Run_task this)) 0 True) w2) (\<lambda>(root, w3).
                      bind_out (Thread_SetName t name (w_threads w3)) (\<lambda>ths.
                        let fs = w_fibers w3;
                            fs1 = fs\<lparr>fs_tls := (fs_tls fs)(t := (fs_tls fs t)\<lparr>t_scheduler_fiber := Some root\<rparr>)\<rparr>
                        in Inr (set_sched this
                             (sc\<lparr>sc_rootFiber := Some root, sc_rootThread := t, sc_threadIds := [t], sc_threadCount := threads - 1\<rparr>)
                             (w3\<lparr>w_threads := ths, w_fibers := fs1\<rparr>))))))
           else Inr (set_sched this (sc\<lparr>sc_rootThread := - 1, sc_threadCount := threads\<rparr>) w))"

definition Scheduler_delete :: "thread_id \<Rightarrow> addr \<Rightarrow> ('u, 'v) world \<Rightarrow> ('u, 'v) world outcome" where
  "Scheduler_delete t this w =
     bind_out (sched_at this w) (\<lambda>sc.
       assert_that (sc_stopping sc) ''m_stopping''
         (let w1 = (if w_sched w t = Some this then w\<lparr>w_sched := (w_sched w)(t := None)\<rparr> else w)
          in Inr (w1\<lparr>w_scheds := (w_scheds w1)(this := None)\<rparr>)))"

definition Scheduler_GetThis :: "thread_id \<Rightarrow> ('u, 'v) world \<Rightarrow> addr option" where
  "Scheduler_GetThis t w = w_sched w t"

definition GetMainFiber :: "thread_id \<Rightarrow> ('u, 'v) world \<Rightarrow> addr option" where
  "GetMainFiber t w = t_scheduler_fiber (fs_tls (w_fibers w) t)"

definition setThis :: "thread_id \<Rightarrow> addr \<Rightarrow> ('u, 'v) world \<Rightarrow> ('u, 'v) world" where
  "setThis t this w = w\<lparr>w_sched := (w_sched w)(t := Some this)\<rparr>"

definition hasIdleThreads :: "'u scheduler \<Rightarrow> bool" where
  "hasIdleThreads sc \<longleftrightarrow> sc_idle sc > 0"

definition stopping :: "addr \<Rightarrow> ('u, 'v) world \<Rightarrow> bool outcome" where
  "stopping this w =
     bind_out (sched_at this w) (\<lambda>sc.
       Inr (sc_autoStop sc \<and> sc_stopping sc \<and> sc_fibers sc = [] \<and> sc_active sc = 0))"

section \<open>The scheduling loop\<close>

text \<open>\<open>run\<close> up to its loop, on thread \<open>t\<close>.\<close>

definition run_start :: "fiber_env \<Rightarrow> thread_id \<Rightarrow> addr \<Rightarrow> ('u, 'v) world \<Rightarrow> (run_locals \<times> ('u, 'v) world) outcome" where
  "run_start env t this w =
     bind_out (sched_at this w) (\<lambda>sc.
       let w1 = setThis t this ((sched_log (sc_name sc @ '' run'') w)\<lparr>w_hooks := w_hooks w @ [(t, True)]\<rparr>)
       in bind_out
            (if t \<noteq> sc_rootThread sc
             then bind_out (on_fibers (Fiber_GetThis env t) w1) (\<lambda>(m, w2).
                    let fs = w_fibers w2
                    in Inr (w2\<lparr>w_fibers := fs\<lparr>fs_tls := (fs_tls fs)(t := (fs_tls fs t)\<lparr>t_scheduler_fiber := Some m\<rparr>)\<rparr>\<rparr>))
             else Inr w1)
            (\<lambda>w3. bind_out (on_fibers (new_Fiber env (Some (Idle_task this)) 0 False) w3) (\<lambda>(idle, w4).
               Inr (\<lparr>rl_idle = idle, rl_cb = None\<rparr>, w4))))"

text \<open>
  The search for a task, under the lock: the result says whether to tickle, and the task with the
  queue that is left, if there is one.
\<close>

fun pick_loop ::
  "(addr \<Rightarrow> State outcome) \<Rightarrow> thread_id \<Rightarrow> bool \<Rightarrow> 'u fiber_and_thread list \<Rightarrow> 'u fiber_and_thread list \<Rightarrow>
   (bool \<times> ('u fiber_and_thread \<times> 'u fiber_and_thread list) option) outcome" where
  "pick_loop st t tickle_me seen [] = Inr (tickle_me, None)"
| "pick_loop st t tickle_me seen (it # rest) =
     (if ft_thread it \<noteq> - 1 \<and> ft_thread it \<noteq> t then pick_loop st t True (seen @ [it]) rest
      else assert_that (has_task it) ''it->fiber || it->cb''
             (bind_out (case ft_fiber it of None \<Rightarrow> Inr False | Some f \<Rightarrow> bind_out (st f) (\<lambda>s. Inr (s = ST_EXEC)))
               (\<lambda>busy. if busy then pick_loop st t tickle_me (seen @ [it]) rest
                        else Inr (tickle_me \<or> rest \<noteq> [], Some (it, seen @ rest)))))"

definition run_pick ::
  "thread_id \<Rightarrow> addr \<Rightarrow> ('u, 'v) world \<Rightarrow> ((bool \<times> bool \<times> 'u fiber_and_thread) \<times> ('u, 'v) world) outcome" where
  "run_pick t this w =
     bind_out (sched_at this w) (\<lambda>sc.
     bind_out (pick_loop (\<lambda>f. fiber_state f w) t False [] (sc_fibers sc)) (\<lambda>(tickle_me, found).
       case found of
         None \<Rightarrow> Inr ((tickle_me, False, no_task), w)
       | Some (ft, left) \<Rightarrow>
           Inr ((tickle_me, True, ft), set_sched this (sc\<lparr>sc_fibers := left, sc_active := sc_active sc + 1\<rparr>) w)))"

text \<open>What happens with the task: a switch, the next round, or the end of the loop.\<close>

datatype 'v run_next = Switch_to "'v resume ctx" | Next_round run_locals | End_of_run run_locals

definition ended_state :: "State \<Rightarrow> bool" where
  "ended_state st \<longleftrightarrow> st = ST_TERM \<or> st = ST_EXCEPT"

definition dispatch_fiber ::
  "fiber_env \<Rightarrow> thread_id \<Rightarrow> addr \<Rightarrow> run_locals \<Rightarrow> addr \<Rightarrow> ('u, 'v) world \<Rightarrow> ('v run_next \<times> ('u, 'v) world) outcome" where
  "dispatch_fiber env t this l f w =
     bind_out (on_fibers (Fiber_swapIn env t f (After_fiber this l f)) w) (\<lambda>(c, w1). Inr (Switch_to c, w1))"

definition dispatch_cb ::
  "fiber_env \<Rightarrow> thread_id \<Rightarrow> addr \<Rightarrow> run_locals \<Rightarrow> 'u task \<Rightarrow> ('u, 'v) world \<Rightarrow> ('v run_next \<times> ('u, 'v) world) outcome" where
  "dispatch_cb env t this l cb w =
     bind_out
       (case rl_cb l of
          Some g \<Rightarrow> bind_out (Fiber_reset env g (Some cb) (w_fibers w)) (\<lambda>fs. Inr (g, w\<lparr>w_fibers := fs\<rparr>))
        | None \<Rightarrow> on_fibers (new_Fiber env (Some cb) 0 False) w)
       (\<lambda>(g, w1).
          bind_out (on_fibers (Fiber_swapIn env t g (After_cb this (l\<lparr>rl_cb := Some g\<rparr>))) w1)
            (\<lambda>(c, w2). Inr (Switch_to c, w2)))"

definition dispatch_idle ::
  "fiber_env \<Rightarrow> thread_id \<Rightarrow> addr \<Rightarrow> run_locals \<Rightarrow> bool \<Rightarrow> ('u, 'v) world \<Rightarrow> ('v run_next \<times> ('u, 'v) world) outcome" where
  "dispatch_idle env t this l is_active w =
     (if is_active
      then bind_out (on_sched this (\<lambda>sc. sc\<lparr>sc_active := sc_active sc - 1\<rparr>) w) (\<lambda>w1. Inr (Next_round l, w1))
      else bind_out (fiber_state (rl_idle l) w) (\<lambda>st.
             if st = ST_TERM then Inr (End_of_run l, sched_log ''idle fiber term'' w)
             else bind_out (on_sched this (\<lambda>sc. sc\<lparr>sc_idle := sc_idle sc + 1\<rparr>) w) (\<lambda>w1.
                  bind_out (on_fibers (Fiber_swapIn env t (rl_idle l) (After_idle this l)) w1) (\<lambda>(c, w2).
                    Inr (Switch_to c, w2)))))"

definition run_dispatch ::
  "fiber_env \<Rightarrow> thread_id \<Rightarrow> addr \<Rightarrow> run_locals \<Rightarrow> bool \<times> bool \<times> 'u fiber_and_thread \<Rightarrow> ('u, 'v) world \<Rightarrow>
   ('v run_next \<times> ('u, 'v) world) outcome" where
  "run_dispatch env t this l picked w =
     (case picked of (tickle_me, is_active, ft) \<Rightarrow>
        let w1 = (if tickle_me then tickle w else w)
        in bind_out (case ft_fiber ft of None \<Rightarrow> Inr None
             | Some f \<Rightarrow> bind_out (fiber_state f w1) (\<lambda>st. Inr (if ended_state st then None else Some f)))
           (\<lambda>runnable. case runnable of
               Some f \<Rightarrow> dispatch_fiber env t this l f w1
             | None \<Rightarrow> (case ft_cb ft of
                   Some cb \<Rightarrow> dispatch_cb env t this l cb w1
                 | None \<Rightarrow> dispatch_idle env t this l is_active w1)))"

text \<open>
  After a fiber has given the thread back, the task is no longer counted, and then what becomes of
  the fiber is settled; \<open>schedule\<close> without a thread means any thread.
\<close>

definition leave_task :: "addr \<Rightarrow> ('u, 'v) world \<Rightarrow> ('u, 'v) world outcome" where
  "leave_task this w = on_sched this (\<lambda>sc. sc\<lparr>sc_active := sc_active sc - 1\<rparr>) w"

definition settle_fiber :: "addr \<Rightarrow> run_locals \<Rightarrow> addr \<Rightarrow> ('u, 'v) world \<Rightarrow> (run_locals \<times> ('u, 'v) world) outcome" where
  "settle_fiber this l f w1 =
     bind_out (fiber_state f w1) (\<lambda>st.
     bind_out
       (if st = ST_READY then schedule this (Fiber_arg (Some f)) (- 1) w1
        else if \<not> ended_state st then set_state f ST_HOLD w1
        else Inr w1)
       (\<lambda>w2. Inr (l, w2)))"

definition after_fiber :: "addr \<Rightarrow> run_locals \<Rightarrow> addr \<Rightarrow> ('u, 'v) world \<Rightarrow> (run_locals \<times> ('u, 'v) world) outcome" where
  "after_fiber this l f w = bind_out (leave_task this w) (settle_fiber this l f)"

text \<open>After a callback has given the thread back: its fiber is used again when it has ended.\<close>

definition settle_cb :: "fiber_env \<Rightarrow> addr \<Rightarrow> run_locals \<Rightarrow> ('u, 'v) world \<Rightarrow> (run_locals \<times> ('u, 'v) world) outcome" where
  "settle_cb env this l w1 =
     (case rl_cb l of
        None \<Rightarrow> Inl (Null_deref ''cb_fiber'')
      | Some g \<Rightarrow>
          bind_out (fiber_state g w1) (\<lambda>st.
            if st = ST_READY
            then bind_out (schedule this (Fiber_arg (Some g)) (- 1) w1) (\<lambda>w2. Inr (l\<lparr>rl_cb := None\<rparr>, w2))
            else if ended_state st
            then bind_out (Fiber_reset env g None (w_fibers w1)) (\<lambda>fs. Inr (l, w1\<lparr>w_fibers := fs\<rparr>))
            else bind_out (set_state g ST_HOLD w1) (\<lambda>w2. Inr (l\<lparr>rl_cb := None\<rparr>, w2))))"

definition after_cb :: "fiber_env \<Rightarrow> addr \<Rightarrow> run_locals \<Rightarrow> ('u, 'v) world \<Rightarrow> (run_locals \<times> ('u, 'v) world) outcome" where
  "after_cb env this l w = bind_out (leave_task this w) (settle_cb env this l)"

definition after_idle :: "addr \<Rightarrow> run_locals \<Rightarrow> ('u, 'v) world \<Rightarrow> (run_locals \<times> ('u, 'v) world) outcome" where
  "after_idle this l w =
     bind_out (on_sched this (\<lambda>sc. sc\<lparr>sc_idle := sc_idle sc - 1\<rparr>) w) (\<lambda>w1.
     bind_out (fiber_state (rl_idle l) w1) (\<lambda>st.
     bind_out (if \<not> ended_state st then set_state (rl_idle l) ST_HOLD w1 else Inr w1) (\<lambda>w2. Inr (l, w2))))"

section \<open>The idle fiber, and moving to a scheduler\<close>

text \<open>
  One round of the loop of \<open>idle\<close>: None when \<open>idle\<close> returns, otherwise the context switched to.
\<close>

definition idle_loop ::
  "fiber_env \<Rightarrow> thread_id \<Rightarrow> addr \<Rightarrow> ('u, 'v) world \<Rightarrow> ('v resume ctx option \<times> ('u, 'v) world) outcome" where
  "idle_loop env t this w =
     bind_out (stopping this w) (\<lambda>stop.
       if stop then Inr (None, w)
       else bind_out (on_fibers (YieldToHold env t (Idle_yielded this)) w) (\<lambda>(c, w1). Inr (Some c, w1)))"

definition idle ::
  "fiber_env \<Rightarrow> thread_id \<Rightarrow> addr \<Rightarrow> ('u, 'v) world \<Rightarrow> ('v resume ctx option \<times> ('u, 'v) world) outcome" where
  "idle env t this w = idle_loop env t this (sched_log ''idle'' w)"

text \<open>\<open>k\<close> is what the caller does after \<open>switchTo\<close>; None when it returns without a switch.\<close>

definition switchTo ::
  "fiber_env \<Rightarrow> thread_id \<Rightarrow> addr \<Rightarrow> int \<Rightarrow> 'v resume \<Rightarrow> ('u, 'v) world \<Rightarrow> ('v resume ctx option \<times> ('u, 'v) world) outcome" where
  "switchTo env t this thr k w =
     assert_that (Scheduler_GetThis t w \<noteq> None) ''Scheduler::GetThis() != nullptr''
       (if Scheduler_GetThis t w = Some this \<and> (thr = - 1 \<or> thr = t) then Inr (None, w)
        else bind_out (on_fibers (Fiber_GetThis env t) w) (\<lambda>(f, w1).
             bind_out (schedule this (Fiber_arg (Some f)) thr w1) (\<lambda>w2.
             bind_out (on_fibers (YieldToHold env t k) w2) (\<lambda>(c, w3). Inr (Some c, w3)))))"

text \<open>\<open>SchedulerSwitcher\<close>: the constructor gives the scheduler to go back to, which the destructor takes.\<close>

definition new_SchedulerSwitcher ::
  "fiber_env \<Rightarrow> thread_id \<Rightarrow> addr option \<Rightarrow> 'v resume \<Rightarrow> ('u, 'v) world \<Rightarrow>
   (addr option \<times> ('v resume ctx option \<times> ('u, 'v) world)) outcome" where
  "new_SchedulerSwitcher env t target k w =
     (case target of
        None \<Rightarrow> Inr (Scheduler_GetThis t w, (None, w))
      | Some a \<Rightarrow> bind_out (switchTo env t a (- 1) k w) (\<lambda>r. Inr (Scheduler_GetThis t w, r)))"

definition SchedulerSwitcher_delete ::
  "fiber_env \<Rightarrow> thread_id \<Rightarrow> addr option \<Rightarrow> 'v resume \<Rightarrow> ('u, 'v) world \<Rightarrow> ('v resume ctx option \<times> ('u, 'v) world) outcome" where
  "SchedulerSwitcher_delete env t caller k w =
     (case caller of None \<Rightarrow> Inr (None, w) | Some a \<Rightarrow> switchTo env t a (- 1) k w)"

section \<open>Starting and stopping\<close>

text \<open>
  What the operating system does for one new thread: the result and the handle of
  \<open>pthread_create\<close>, and, when the thread has started before its id is read, its number and its id.
\<close>

record thread_birth =
  tb_rt :: int
  tb_handle :: u64
  tb_started :: "(thread_id \<times> u64) option"

definition to_int :: "u64 \<Rightarrow> int" where
  "to_int x = sint (ucast x :: i32)"

text \<open>The callbacks of threads that have started are the first result, with their threads.\<close>

fun start_loop ::
  "addr \<Rightarrow> nat \<Rightarrow> thread_birth list \<Rightarrow> (thread_id \<times> 'u task option) list \<Rightarrow> (('u, 'v) world, (thread_id \<times> 'u task option) list) act" where
  "start_loop this i [] started w = (Inr started, w)"
| "start_loop this i (tb # tbs) started w =
     (case sched_at this w of
        Inl e \<Rightarrow> (Inl e, w)
      | Inr sc \<Rightarrow>
          (case new_Thread Posix (tb_rt tb) (tb_handle tb) 0 (Some (Run_task this)) (sc_name sc @ ''_'' @ nat_str i) (w_threads w) of
             (Inl e, ths) \<Rightarrow> (Inl e, w\<lparr>w_threads := ths\<rparr>)
           | (Inr a, ths) \<Rightarrow>
               (case (case tb_started tb of
                        None \<Rightarrow> Inr (started, ths)
                      | Some (t, tid) \<Rightarrow>
                          bind_out (Thread_run Posix True t tid a ths) (\<lambda>(r, ths1).
                            Inr (started @ [(t, case r of None \<Rightarrow> None | Some (cb, _) \<Rightarrow> cb)], ths1))) of
                  Inl e \<Rightarrow> (Inl e, w\<lparr>w_threads := ths\<rparr>)
                | Inr (started1, ths1) \<Rightarrow>
                    (case Thread_getId a ths1 of
                       Inl e \<Rightarrow> (Inl e, w\<lparr>w_threads := ths1\<rparr>)
                     | Inr tid \<Rightarrow>
                         start_loop this (Suc i) tbs started1
                           (set_sched this
                             (sc\<lparr>sc_threads := (sc_threads sc)[i := Some a], sc_threadIds := sc_threadIds sc @ [to_int tid]\<rparr>)
                             (w\<lparr>w_threads := ths1\<rparr>))))))"

text \<open>\<open>tbs\<close> has one entry for each thread.\<close>

definition start :: "addr \<Rightarrow> thread_birth list \<Rightarrow> (('u, 'v) world, (thread_id \<times> 'u task option) list) act" where
  "start this tbs w =
     (case sched_at this w of
        Inl e \<Rightarrow> (Inl e, w)
      | Inr sc \<Rightarrow>
          if \<not> sc_stopping sc then (Inr [], w)
          else
            (let w1 = set_sched this (sc\<lparr>sc_stopping := False\<rparr>) w
             in if sc_threads sc \<noteq> [] then (Inl (Assert_failed ''m_threads.empty()''), w1)
                else start_loop this 0 tbs []
                       (set_sched this (sc\<lparr>sc_stopping := False, sc_threads := replicate (unat (sc_threadCount sc)) None\<rparr>) w)))"

text \<open>
  \<open>stop\<close> up to the joining of the threads: it returns, it switches to the root fiber (and goes on
  with \<open>stop_finish\<close> when that fiber gives the thread back), or it goes on at once. An address is
  printed as its number.
\<close>

datatype 'v stop_next = Stop_returns | Stop_calls "'v resume ctx" | Stop_joins

definition stop_begin :: "fiber_env \<Rightarrow> thread_id \<Rightarrow> addr \<Rightarrow> ('u, 'v) world \<Rightarrow> ('v stop_next \<times> ('u, 'v) world) outcome" where
  "stop_begin env t this w =
     bind_out (on_sched this (\<lambda>sc. sc\<lparr>sc_autoStop := True\<rparr>) w) (\<lambda>w1.
     bind_out (sched_at this w1) (\<lambda>sc.
     bind_out
       (case sc_rootFiber sc of
          None \<Rightarrow> Inr False
        | Some r \<Rightarrow>
            if sc_threadCount sc \<noteq> 0 then Inr False
            else bind_out (fiber_state r w1) (\<lambda>st. Inr (st = ST_TERM \<or> st = ST_INIT))) (\<lambda>early.
     bind_out
       (if early
        then bind_out (on_sched this (\<lambda>sc. sc\<lparr>sc_stopping := True\<rparr>) (sched_log (nat_str this @ '' stopped'') w1)) (\<lambda>w2.
             bind_out (stopping this w2) (\<lambda>b. Inr (b, w2)))
        else Inr (False, w1)) (\<lambda>(returns, w2).
     if returns then Inr (Stop_returns, w2)
     else assert_that (if sc_rootThread sc \<noteq> - 1 then Scheduler_GetThis t w2 = Some this else Scheduler_GetThis t w2 \<noteq> Some this)
            ''GetThis() == this''
       (bind_out (on_sched this (\<lambda>sc. sc\<lparr>sc_stopping := True\<rparr>) w2) (\<lambda>w3.
          let w4 = (tickle ^^ (unat (sc_threadCount sc) + (if sc_rootFiber sc = None then 0 else 1))) w3
          in (case sc_rootFiber sc of
                None \<Rightarrow> Inr (Stop_joins, w4)
              | Some r \<Rightarrow> bind_out (stopping this w4) (\<lambda>stop.
                  if stop then Inr (Stop_joins, w4)
                  else bind_out (on_fibers (Fiber_call env t r (Stop_called this)) w4) (\<lambda>(c, w5). Inr (Stop_calls c, w5))))))))))"

text \<open>\<open>rts\<close> are the results of joining the threads, which are taken out of the scheduler first.\<close>

definition join_thread :: "int \<times> addr option \<Rightarrow> ('c threads, unit) act" where
  "join_thread x = (case x of (rt, None) \<Rightarrow> (\<lambda>s. (Inl (Null_deref ''Thread''), s)) | (rt, Some a) \<Rightarrow> Thread_join Posix rt True 0 a)"

definition stop_finish :: "int list \<Rightarrow> addr \<Rightarrow> (('u, 'v) world, unit) act" where
  "stop_finish rts this w =
     (case sched_at this w of
        Inl e \<Rightarrow> (Inl e, w)
      | Inr sc \<Rightarrow>
          (let w1 = set_sched this (sc\<lparr>sc_threads := []\<rparr>) w
           in (case forA join_thread (zip rts (sc_threads sc)) (w_threads w1) of
                 (r, ths) \<Rightarrow> (r, w1\<lparr>w_threads := ths\<rparr>))))"

section \<open>Printing\<close>

definition bool_str :: "bool \<Rightarrow> string" where
  "bool_str b = (if b then ''1'' else ''0'')"

fun join_ids :: "int list \<Rightarrow> string" where
  "join_ids [] = []"
| "join_ids [x] = int_str x"
| "join_ids (x # y # xs) = int_str x @ '', '' @ join_ids (y # xs)"

definition dump :: "'u scheduler \<Rightarrow> string" where
  "dump sc =
     ''[Scheduler name='' @ sc_name sc @ '' size='' @ nat_str (unat (sc_threadCount sc)) @
     '' active_count='' @ nat_str (unat (sc_active sc)) @ '' idle_count='' @ nat_str (unat (sc_idle sc)) @
     '' stopping='' @ bool_str (sc_stopping sc) @ '' ]'' @ newline @ ''    '' @ join_ids (sc_threadIds sc)"

end
