(* ===== verification/SchedulerProps.thy ===== *)
theory SchedulerProps
  imports Scheduler FiberProps
begin

text \<open>
  What the operations of the scheduler do: which task a thread takes, what becomes of a task
  afterwards, a whole callback from the queue to its end, and what happens to a fiber that is
  scheduled twice.
\<close>

section \<open>What operations on fibers leave alone\<close>

definition same_loops :: "('c, 'k) fibers \<Rightarrow> ('c, 'k) fibers \<Rightarrow> bool" where
  "same_loops s s' \<longleftrightarrow> (\<forall>u. t_threadFiber (fs_tls s' u) = t_threadFiber (fs_tls s u) \<and>
     t_scheduler_fiber (fs_tls s' u) = t_scheduler_fiber (fs_tls s u))"

lemma same_loops_trans: "same_loops s s' \<Longrightarrow> same_loops s' s'' \<Longrightarrow> same_loops s s''"
  by (simp add: same_loops_def)

lemma same_loops_same: "fs_tls s' = fs_tls s \<Longrightarrow> same_loops s s'"
  by (simp add: same_loops_def)

lemma swapcontext_tls: "swapcontext env a b k s = Inr (c, s') \<Longrightarrow> fs_tls s' = fs_tls s"
  by (auto simp: swapcontext_def bind_out_eq_Inr Let_def set_fiber_def split: if_splits)

lemma swapIn_same_loops: "Fiber_swapIn env t f k s = Inr (c, s') \<Longrightarrow> same_loops s s'"
  by (auto simp: Fiber_swapIn_def bind_out_eq_Inr Let_def assert_that_def SetThis_def set_fiber_def same_loops_def
      dest!: swapcontext_tls split: if_splits option.splits)

lemma swapOut_same_loops: "Fiber_swapOut env t f k s = Inr (c, s') \<Longrightarrow> same_loops s s'"
  by (auto simp: Fiber_swapOut_def Let_def SetThis_def same_loops_def dest!: swapcontext_tls split: option.splits)

lemma finish_same_loops: "MainFunc_finish env t f ended bt k s = Inr (c, s') \<Longrightarrow> same_loops s s'"
  by (auto simp: MainFunc_finish_def record_end_def bind_out_eq_Inr same_loops_def set_fiber_def fiber_log_def
      dest!: swapOut_same_loops split: option.splits)

section \<open>Looking at a changed world\<close>

lemma sched_simps [simp]:
  "sched_at this (set_sched this sc w) = Inr sc"
  "w_fibers (set_sched this sc w) = w_fibers w" "w_sched (set_sched this sc w) = w_sched w"
  "w_threads (set_sched this sc w) = w_threads w"
  "w_scheds (set_sched this sc w) = (w_scheds w)(this \<mapsto> sc)"
  "w_scheds (sched_log l w) = w_scheds w" "w_sched (sched_log l w) = w_sched w"
  "sched_at this (sched_log l w) = sched_at this w"
  "fs_fibers (w_fibers (sched_log l w)) = fs_fibers (w_fibers w)"
  "fs_tls (w_fibers (sched_log l w)) = fs_tls (w_fibers w)"
  by (simp_all add: sched_at_def set_sched_def sched_log_def fiber_log_def)

lemma sched_at_eq: "sched_at this w = Inr sc \<longleftrightarrow> w_scheds w this = Some sc"
  by (simp add: sched_at_def split: option.split)

lemma tickle_simps [simp]:
  "w_scheds (tickle w) = w_scheds w" "w_sched (tickle w) = w_sched w" "sched_at this (tickle w) = sched_at this w"
  "fs_fibers (w_fibers (tickle w)) = fs_fibers (w_fibers w)" "fs_tls (w_fibers (tickle w)) = fs_tls (w_fibers w)"
  by (simp_all add: tickle_def)

lemma fiber_state_eq: "fiber_state f w = Inr st \<longleftrightarrow> (\<exists>b. fs_fibers (w_fibers w) f = Some b \<and> fb_state b = st)"
  by (auto simp: fiber_state_def bind_out_eq_Inr deref_eq)

lemma fiber_state_simps [simp]:
  "fiber_state f (set_sched this sc w) = fiber_state f w" "fiber_state f (sched_log l w) = fiber_state f w"
  "fiber_state f (tickle w) = fiber_state f w"
  by (simp_all add: fiber_state_def deref_def)

text \<open>An operation leaves fibers and thread-local variables alone.\<close>

definition same_run :: "('u, 'v) world \<Rightarrow> ('u, 'v) world \<Rightarrow> bool" where
  "same_run w w' \<longleftrightarrow> fs_fibers (w_fibers w') = fs_fibers (w_fibers w) \<and> fs_tls (w_fibers w') = fs_tls (w_fibers w) \<and>
     fs_next (w_fibers w') = fs_next (w_fibers w) \<and> w_sched w' = w_sched w"

lemma same_run_state: "same_run w w' \<Longrightarrow> fiber_state f w' = fiber_state f w"
  by (simp add: same_run_def fiber_state_def deref_def)

lemma same_run_simps [simp]: "same_run w (set_sched this sc w') = same_run w w'" "same_run w (tickle w') = same_run w w'"
    "same_run w (sched_log l w') = same_run w w'" "same_run w w"
  by (simp_all add: same_run_def tickle_def sched_log_def fiber_log_def)

lemma on_sched_run: "w_scheds w this = Some sc \<Longrightarrow> on_sched this f w = Inr (set_sched this (f sc) w)"
  by (simp add: on_sched_def sched_at_def)

lemma schedule_run:
  assumes "w_scheds w this = Some sc"
  shows "\<exists>w'. schedule this fc thr w = Inr w' \<and> same_run w w' \<and>
    w_scheds w' = (w_scheds w)(this \<mapsto> sc\<lparr>sc_fibers := sc_fibers sc @ [ft \<leftarrow> [new_FiberAndThread fc thr]. has_task ft]\<rparr>)"
  using assms by (cases sc) (auto simp: schedule_def scheduleNoLock_def sched_at_def Let_def)

lemma leave_task_run:
  "w_scheds w this = Some sc \<Longrightarrow> leave_task this w = Inr (set_sched this (sc\<lparr>sc_active := sc_active sc - 1\<rparr>) w)"
  by (simp add: leave_task_def on_sched_run)

lemma settle_fiber_run:
  assumes sc: "w_scheds w this = Some sc" and b: "fs_fibers (w_fibers w) f = Some b"
  shows "\<exists>w'. settle_fiber this l f w = Inr (l, w') \<and> fs_tls (w_fibers w') = fs_tls (w_fibers w) \<and>
    (\<exists>st. fs_fibers (w_fibers w') = (fs_fibers (w_fibers w))(f \<mapsto> b\<lparr>fb_state := st\<rparr>) \<and>
       st = (if fb_state b = ST_READY \<or> ended_state (fb_state b) then fb_state b else ST_HOLD)) \<and>
    fs_next (w_fibers w') = fs_next (w_fibers w) \<and>
    w_scheds w' = (w_scheds w)(this \<mapsto> sc\<lparr>
      sc_fibers := sc_fibers sc @ (if fb_state b = ST_READY then [\<lparr>ft_fiber = Some f, ft_cb = None, ft_thread = - 1\<rparr>] else [])\<rparr>)"
proof -
  have st: "fiber_state f w = Inr (fb_state b)" using b by (simp add: fiber_state_eq)
  have same: "b\<lparr>fb_state := fb_state b\<rparr> = b" by simp
  consider "fb_state b = ST_READY" | "fb_state b \<noteq> ST_READY" "ended_state (fb_state b)"
    | "fb_state b \<noteq> ST_READY" "\<not> ended_state (fb_state b)" by blast
  then show ?thesis
  proof cases
    case 1
    obtain w2 where "schedule this (Fiber_arg (Some f)) (- 1) w = Inr w2" "same_run w w2"
        "w_scheds w2 = (w_scheds w)(this \<mapsto> sc\<lparr>sc_fibers := sc_fibers sc @ [\<lparr>ft_fiber = Some f, ft_cb = None, ft_thread = - 1\<rparr>]\<rparr>)"
      using schedule_run [OF sc, of "Fiber_arg (Some f)" "- 1"] by (auto simp: has_task_def)
    then show ?thesis using 1 st b same by (auto simp: settle_fiber_def same_run_def fun_upd_idem)
  next
    case 2
    then show ?thesis using st sc b same by (simp add: settle_fiber_def fun_upd_idem)
  next
    case 3
    then show ?thesis using st sc b by (simp add: settle_fiber_def set_state_def deref_def set_fiber_def fun_upd_idem)
  qed
qed

lemma after_fiber_run:
  assumes "w_scheds w this = Some sc" and "fs_fibers (w_fibers w) f = Some b"
  shows "\<exists>w'. after_fiber this l f w = Inr (l, w') \<and> fs_tls (w_fibers w') = fs_tls (w_fibers w) \<and>
    (\<exists>st. fs_fibers (w_fibers w') = (fs_fibers (w_fibers w))(f \<mapsto> b\<lparr>fb_state := st\<rparr>) \<and>
       st = (if fb_state b = ST_READY \<or> ended_state (fb_state b) then fb_state b else ST_HOLD)) \<and>
    fs_next (w_fibers w') = fs_next (w_fibers w) \<and>
    w_scheds w' = (w_scheds w)(this \<mapsto> sc\<lparr>sc_active := sc_active sc - 1,
      sc_fibers := sc_fibers sc @ (if fb_state b = ST_READY then [\<lparr>ft_fiber = Some f, ft_cb = None, ft_thread = - 1\<rparr>] else [])\<rparr>)"
  using settle_fiber_run [of "set_sched this (sc\<lparr>sc_active := sc_active sc - 1\<rparr>) w" this "sc\<lparr>sc_active := sc_active sc - 1\<rparr>" f b l] assms
  by (auto simp: after_fiber_def leave_task_run)

section \<open>Taking a task\<close>

text \<open>
  A task is for another thread when it is bound to one that is not \<open>t\<close>; \<open>t\<close> may take a task that
  is not, unless its fiber is running.
\<close>

definition for_another :: "thread_id \<Rightarrow> 'u fiber_and_thread \<Rightarrow> bool" where
  "for_another t it \<longleftrightarrow> ft_thread it \<noteq> - 1 \<and> ft_thread it \<noteq> t"

definition may_take :: "(addr \<Rightarrow> State outcome) \<Rightarrow> thread_id \<Rightarrow> 'u fiber_and_thread \<Rightarrow> bool" where
  "may_take st t it \<longleftrightarrow> \<not> for_another t it \<and> (\<forall>f. ft_fiber it = Some f \<longrightarrow> st f \<noteq> Inr ST_EXEC)"

definition sound_task :: "(addr \<Rightarrow> State outcome) \<Rightarrow> 'u fiber_and_thread \<Rightarrow> bool" where
  "sound_task st it \<longleftrightarrow> has_task it \<and> (\<forall>f. ft_fiber it = Some f \<longrightarrow> (\<exists>s. st f = Inr s))"

lemma pick_loop_skip:
  assumes "sound_task st it" and "\<not> may_take st t it"
  shows "pick_loop st t b seen (it # q) = pick_loop st t (b \<or> for_another t it) (seen @ [it]) q"
  using assms by (cases "ft_fiber it") (auto simp: sound_task_def may_take_def for_another_def assert_that_def)

lemma pick_loop_take:
  assumes "sound_task st it" and "may_take st t it"
  shows "pick_loop st t b seen (it # q) = Inr (b \<or> q \<noteq> [], Some (it, seen @ q))"
  using assms by (cases "ft_fiber it") (auto simp: sound_task_def may_take_def for_another_def assert_that_def)

lemma pick_loop_none:
  "\<forall>it \<in> set q. sound_task st it \<and> \<not> may_take st t it \<Longrightarrow>
   pick_loop st t b seen q = Inr (b \<or> (\<exists>it \<in> set q. for_another t it), None)"
  by (induction q arbitrary: b seen) (auto simp: pick_loop_skip simp del: pick_loop.simps(2))

lemma pick_loop_first:
  "\<forall>x \<in> set pre. sound_task st x \<and> \<not> may_take st t x \<Longrightarrow> sound_task st it \<Longrightarrow> may_take st t it \<Longrightarrow>
   pick_loop st t b seen (pre @ it # post) =
     Inr (b \<or> (\<exists>x \<in> set pre. for_another t x) \<or> post \<noteq> [], Some (it, seen @ pre @ post))"
  by (induction pre arbitrary: b seen) (auto simp: pick_loop_skip pick_loop_take simp del: pick_loop.simps(2))

text \<open>
  C17. A thread takes the first task of the queue that it may take, and leaves the others in their
  order: the task is counted as active, and others are told to look when a task was passed over
  for another thread or when tasks are left. When there is none it may take, nothing changes.
\<close>

theorem run_pick_first:
  assumes "w_scheds w this = Some sc" and "\<forall>it \<in> set (sc_fibers sc). sound_task (\<lambda>f. fiber_state f w) it"
  shows "(if \<exists>it \<in> set (sc_fibers sc). may_take (\<lambda>f. fiber_state f w) t it
     then \<exists>pre it post. sc_fibers sc = pre @ it # post \<and> may_take (\<lambda>f. fiber_state f w) t it \<and>
        (\<forall>x \<in> set pre. \<not> may_take (\<lambda>f. fiber_state f w) t x) \<and>
        run_pick t this w = Inr (((\<exists>x \<in> set pre. for_another t x) \<or> post \<noteq> [], True, it),
          set_sched this (sc\<lparr>sc_fibers := pre @ post, sc_active := sc_active sc + 1\<rparr>) w)
     else run_pick t this w = Inr ((\<exists>it \<in> set (sc_fibers sc). for_another t it, False, no_task), w))"
proof (cases "\<exists>it \<in> set (sc_fibers sc). may_take (\<lambda>f. fiber_state f w) t it")
  case True
  then obtain pre it post where q: "sc_fibers sc = pre @ it # post" "may_take (\<lambda>f. fiber_state f w) t it"
      "\<forall>x \<in> set pre. \<not> may_take (\<lambda>f. fiber_state f w) t x"
    using split_list_first_prop [OF True] by blast
  have "pick_loop (\<lambda>f. fiber_state f w) t False [] (sc_fibers sc) =
      Inr ((\<exists>x \<in> set pre. for_another t x) \<or> post \<noteq> [], Some (it, pre @ post))"
    unfolding q(1) using assms(2) q(2,3)
    by (subst pick_loop_first) (simp_all add: q(1))
  then have "run_pick t this w = Inr (((\<exists>x \<in> set pre. for_another t x) \<or> post \<noteq> [], True, it),
      set_sched this (sc\<lparr>sc_fibers := pre @ post, sc_active := sc_active sc + 1\<rparr>) w)"
    by (simp add: run_pick_def sched_at_def assms(1))
  with q show ?thesis unfolding if_P [OF True] by blast
next
  case False
  then show ?thesis
    using assms pick_loop_none [of "sc_fibers sc" "\<lambda>f. fiber_state f w" t False "[]"]
    by (auto simp: run_pick_def sched_at_def)
qed

definition one_task :: "int \<Rightarrow> (nat, nat) world" where
  "one_task thr = \<lparr>w_fibers = \<lparr>fs_fibers = [0 \<mapsto> \<lparr>fb_id = 0, fb_stack_size = 0, fb_state = ST_EXEC, fb_ctx = Ctx_here, fb_stack = False, fb_cb = None\<rparr>,
       1 \<mapsto> \<lparr>fb_id = 1, fb_stack_size = 131072, fb_state = ST_INIT, fb_ctx = Ctx_start MainFunc, fb_stack = True, fb_cb = Some (User_task 5)\<rparr>,
       2 \<mapsto> \<lparr>fb_id = 0, fb_stack_size = 0, fb_state = ST_EXEC, fb_ctx = Ctx_here, fb_stack = False, fb_cb = None\<rparr>],
     fs_next = 3, fs_id = 1, fs_count = 3,
     fs_tls = (\<lambda>t. let m = if t = 7 then 0 else 2 in \<lparr>t_fiber = Some m, t_threadFiber = Some m, t_scheduler_fiber = Some m\<rparr>), fs_log = []\<rparr>,
     w_scheds = [9 \<mapsto> \<lparr>sc_threads = [], sc_fibers = [\<lparr>ft_fiber = Some 1, ft_cb = None, ft_thread = thr\<rparr>], sc_rootFiber = None, sc_name = ''net'',
       sc_threadIds = [], sc_threadCount = 2, sc_active = 0, sc_idle = 0, sc_stopping = False, sc_autoStop = False, sc_rootThread = - 1\<rparr>],
     w_sched = (\<lambda>t. Some 9), w_threads = no_threads, w_hooks = []\<rparr>"

theorem run_pick_first_witness:
  "run_pick 8 9 (one_task 7) = Inr ((True, False, no_task), one_task 7) \<and>
   (\<exists>w. run_pick 7 9 (one_task 7) = Inr ((False, True, \<lparr>ft_fiber = Some 1, ft_cb = None, ft_thread = 7\<rparr>), w))"
proof -
  obtain sc where sc: "w_scheds (one_task 7) 9 = Some sc" "sc_fibers sc = [\<lparr>ft_fiber = Some 1, ft_cb = None, ft_thread = 7\<rparr>]"
    by (simp add: one_task_def)
  have st: "fiber_state 1 (one_task 7) = Inr ST_INIT" by (simp add: fiber_state_def deref_def one_task_def)
  then have ok: "\<forall>it \<in> set (sc_fibers sc). sound_task (\<lambda>f. fiber_state f (one_task 7)) it"
    by (simp add: sc sound_task_def has_task_def)
  have "run_pick 8 9 (one_task 7) = Inr ((True, False, no_task), one_task 7)"
    using run_pick_first [OF sc(1) ok, of 8] sc(2) by (simp add: may_take_def for_another_def)
  moreover have "\<exists>w. run_pick 7 9 (one_task 7) = Inr ((False, True, \<lparr>ft_fiber = Some 1, ft_cb = None, ft_thread = 7\<rparr>), w)"
    using run_pick_first [OF sc(1) ok, of 7] sc(2) st by (auto simp: may_take_def for_another_def Cons_eq_append_conv)
  ultimately show ?thesis by blast
qed

section \<open>A task from the queue to its end\<close>

lemma on_fibers_eq: "on_fibers f w = Inr (x, w') \<longleftrightarrow> (\<exists>fs. f (w_fibers w) = Inr (x, fs) \<and> w' = w\<lparr>w_fibers := fs\<rparr>)"
  by (auto simp: on_fibers_def bind_out_eq_Inr)

lemma on_fibersI: "f (w_fibers w) = Inr (x, fs) \<Longrightarrow> on_fibers f w = Inr (x, w\<lparr>w_fibers := fs\<rparr>)"
  by (simp add: on_fibers_def)

lemma sched_at_fibers [simp]: "sched_at this (w\<lparr>w_fibers := fs\<rparr>) = sched_at this w"
  by (simp add: sched_at_def)

text \<open>
  A fiber that yields to ready loses the thread it is bound to: a task for thread \<open>t\<close> alone is
  taken and entered by \<open>t\<close>; when it yields, the loop of \<open>t\<close> goes on, the count of active tasks is
  as before, and the fiber is queued again for any thread, so that another thread, which could not
  take it before, may take it now.
\<close>

theorem ready_fiber_loses_thread:
  assumes env: "fiber_env_ok env" and sc: "w_scheds w this = Some sc" "sc_fibers sc = [\<lparr>ft_fiber = Some f, ft_cb = None, ft_thread = t\<rparr>]"
    and ent: "enterable t m f b (w_fibers w)" and run: "fb_state b \<noteq> ST_TERM" "fb_state b \<noteq> ST_EXCEPT"
    and other: "t' \<noteq> t" "t \<noteq> - 1"
  shows "\<not> may_take (\<lambda>f. fiber_state f w) t' \<lparr>ft_fiber = Some f, ft_cb = None, ft_thread = t\<rparr> \<and>
    (\<exists>p w1 w2 w3 w4. run_pick t this w = Inr (p, w1) \<and> run_dispatch env t this l p w1 = Inr (Switch_to (fb_ctx b), w2) \<and>
       on_fibers (YieldToReady env t k) w2 = Inr (Ctx_saved (After_fiber this l f), w3) \<and>
       after_fiber this l f w3 = Inr (l, w4) \<and>
       w_scheds w4 this = Some (sc\<lparr>sc_fibers := [\<lparr>ft_fiber = Some f, ft_cb = None, ft_thread = - 1\<rparr>]\<rparr>) \<and>
       may_take (\<lambda>f. fiber_state f w4) t' \<lparr>ft_fiber = Some f, ft_cb = None, ft_thread = - 1\<rparr>)"
proof -
  have b: "fs_fibers (w_fibers w) f = Some b" "fb_state b \<noteq> ST_EXEC" using ent by (auto simp: enterable_def)
  let ?ft = "\<lparr>ft_fiber = Some f, ft_cb = None, ft_thread = t\<rparr>"
  have st: "fiber_state f w = Inr (fb_state b)" using b by (simp add: fiber_state_eq)
  define w1 where "w1 = set_sched this (sc\<lparr>sc_fibers := [], sc_active := sc_active sc + 1\<rparr>) w"
  have pick: "run_pick t this w = Inr ((False, True, ?ft), w1)"
    using sc st b(2) by (simp add: run_pick_def sched_at_def assert_that_def has_task_def w1_def)
  obtain s1 where s1: "Fiber_swapIn env t f (After_fiber this l f) (w_fibers w) = Inr (fb_ctx b, s1)" "t_fiber (fs_tls s1 t) = Some f"
      "t_scheduler_fiber (fs_tls s1 t) = Some m" "fs_fibers s1 f = Some (b\<lparr>fb_state := ST_EXEC\<rparr>)"
      "map_option fb_ctx (fs_fibers s1 m) = Some (Ctx_saved (After_fiber this l f))"
    using swapIn_enters [OF env ent] by blast
  have "m \<noteq> f" using ent by (simp add: enterable_def)
  then obtain s2 where s2: "YieldToReady env t k s1 = Inr (Ctx_saved (After_fiber this l f), s2)"
      "fs_fibers s2 = (fs_fibers s1)(f \<mapsto> b\<lparr>fb_state := ST_READY, fb_ctx := Ctx_saved k\<rparr>)"
    using YieldToReady_leaves [OF env s1(4) _ s1(2,3) _ s1(5), of k] by auto
  have disp: "run_dispatch env t this l (False, True, ?ft) w1 = Inr (Switch_to (fb_ctx b), w1\<lparr>w_fibers := s1\<rparr>)"
    using st run s1(1) by (simp add: run_dispatch_def dispatch_fiber_def ended_state_def on_fibers_def w1_def)
  have yield: "on_fibers (YieldToReady env t k) (w1\<lparr>w_fibers := s1\<rparr>) = Inr (Ctx_saved (After_fiber this l f), w1\<lparr>w_fibers := s2\<rparr>)"
    using s2(1) by (simp add: on_fibers_def)
  define w3 where "w3 = w1\<lparr>w_fibers := s2\<rparr>"
  have w3: "w_scheds w3 this = Some (sc\<lparr>sc_fibers := [], sc_active := sc_active sc + 1\<rparr>)"
      "fs_fibers (w_fibers w3) f = Some (b\<lparr>fb_state := ST_READY, fb_ctx := Ctx_saved k\<rparr>)"
    using s2(2) by (simp_all add: w3_def w1_def)
  obtain w4 where "after_fiber this l f w3 = Inr (l, w4)"
      "w_scheds w4 this = Some (sc\<lparr>sc_fibers := [\<lparr>ft_fiber = Some f, ft_cb = None, ft_thread = - 1\<rparr>]\<rparr>)"
      "fs_fibers (w_fibers w4) f = Some (b\<lparr>fb_state := ST_READY, fb_ctx := Ctx_saved k\<rparr>)"
    using after_fiber_run [OF w3, of l] by auto
  moreover from this(3) have "fiber_state f w4 = Inr ST_READY" by (simp add: fiber_state_eq)
  moreover note pick disp yield [folded w3_def] other
  ultimately show ?thesis
    by (simp add: may_take_def for_another_def)
qed

lemma good_env_ok: "fiber_env_ok good_env"
  by (simp add: fiber_env_ok_def good_env_def)

lemma one_task_parts:
  "w_scheds (one_task thr) 9 = Some (the (w_scheds (one_task thr) 9))"
  "sc_fibers (the (w_scheds (one_task thr) 9)) = [\<lparr>ft_fiber = Some 1, ft_cb = None, ft_thread = thr\<rparr>]"
  "enterable 7 0 1 (the (fs_fibers (w_fibers (one_task thr)) 1)) (w_fibers (one_task thr))"
  "enterable 8 2 1 (the (fs_fibers (w_fibers (one_task thr)) 1)) (w_fibers (one_task thr))"
  "fb_state (the (fs_fibers (w_fibers (one_task thr)) 1)) = ST_INIT"
  by (simp_all add: one_task_def enterable_def)

theorem ready_fiber_loses_thread_witness:
  "\<exists>w4 :: (nat, nat) world. may_take (\<lambda>f. fiber_state f w4) 8 (\<lparr>ft_fiber = Some 1, ft_cb = None, ft_thread = - 1\<rparr> :: nat fiber_and_thread) \<and>
     map_option sc_fibers (w_scheds w4 9) = Some [\<lparr>ft_fiber = Some 1, ft_cb = None, ft_thread = - 1\<rparr>]"
proof -
  have st: "fb_state (the (fs_fibers (w_fibers (one_task 7)) 1)) \<noteq> ST_TERM" "fb_state (the (fs_fibers (w_fibers (one_task 7)) 1)) \<noteq> ST_EXCEPT"
    "(8::thread_id) \<noteq> 7" "(7::thread_id) \<noteq> - 1"
    by (simp_all only: one_task_parts(5)) simp_all
  obtain w4 :: "(nat, nat) world" where "w_scheds w4 9 = Some (the (w_scheds (one_task 7) 9)\<lparr>sc_fibers := [\<lparr>ft_fiber = Some 1, ft_cb = None, ft_thread = - 1\<rparr>]\<rparr>)"
      "may_take (\<lambda>f. fiber_state f w4) 8 (\<lparr>ft_fiber = Some 1, ft_cb = None, ft_thread = - 1\<rparr> :: nat fiber_and_thread)"
    using ready_fiber_loses_thread [OF good_env_ok one_task_parts(1,2,3) st, of "\<lparr>rl_idle = 4, rl_cb = None\<rparr>" "User_code 1"] by blast
  then show ?thesis by (intro exI [of _ w4]) simp
qed

lemma new_Fiber_run:
  fixes s :: "('c, 'k) fibers"
  assumes "fiber_env_ok env"
  shows "\<exists>s' b. new_Fiber env cb sz False s = Inr (fs_next s, s') \<and> fs_fibers s' = (fs_fibers s)(fs_next s \<mapsto> b) \<and>
    fs_tls s' = fs_tls s \<and> fb_stack b \<and> fb_state b = ST_INIT \<and> fb_ctx b = Ctx_start MainFunc \<and> fb_cb b = cb"
proof -
  define b :: "('c, 'k) fiber" where "b = \<lparr>fb_id = fs_id s + 1, fb_stack_size = (if sz \<noteq> 0 then ucast sz else stack_size_default env),
      fb_state = ST_INIT, fb_ctx = Ctx_start MainFunc, fb_stack = True, fb_cb = cb\<rparr>"
  obtain s' where s': "new_Fiber env cb sz False s = Inr (fs_next s, s')"
    using assms by (simp add: fiber_env_ok_def MallocStackAllocator_Alloc_def new_Fiber_def assert_that_def Let_def)
  then have "fs_fibers s' = (fs_fibers s)(fs_next s \<mapsto> b)" "fs_tls s' = fs_tls s"
    using assms by (auto simp: fiber_env_ok_def new_Fiber_def assert_that_def Let_def fiber_log_def set_fiber_def b_def split: if_splits)
  then show ?thesis using s' by (intro exI [of _ s'] exI [of _ b]) (simp add: b_def)
qed

lemma callback_round:
  assumes env: "fiber_env_ok env" and sc: "w_scheds w this = Some sc"
    and m: "t_scheduler_fiber (fs_tls (w_fibers w) t) = Some m" "m \<noteq> fs_next (w_fibers w)" "fs_fibers (w_fibers w) m \<noteq> None"
    and kept: "\<And>g. rl_cb l = Some g \<Longrightarrow> g \<noteq> m \<and> (\<exists>b. fs_fibers (w_fibers w) g = Some b \<and> fb_stack b \<and> fb_state b = ST_INIT)"
  shows "\<exists>g w1 w2 w3. run_dispatch env t this l (False, True, \<lparr>ft_fiber = None, ft_cb = Some cb, ft_thread = thr\<rparr>) w = Inr (Switch_to (Ctx_start MainFunc), w1) \<and>
     (\<forall>g'. rl_cb l = Some g' \<longrightarrow> g' = g) \<and>
     on_fibers (MainFunc_enter env t) w1 = Inr ((g, Some cb), w1) \<and>
     on_fibers (MainFunc_finish env t g ended bt Never) w1 = Inr (Ctx_saved (After_cb this (l\<lparr>rl_cb := Some g\<rparr>)), w2) \<and>
     after_cb env this (l\<lparr>rl_cb := Some g\<rparr>) w2 = Inr (l\<lparr>rl_cb := Some g\<rparr>, w3) \<and>
     w_scheds w3 this = Some (sc\<lparr>sc_active := sc_active sc - 1\<rparr>) \<and>
     (\<exists>b. fs_fibers (w_fibers w3) g = Some b \<and> fb_stack b \<and> fb_state b = ST_INIT \<and> fb_cb b = None \<and> fb_ctx b = Ctx_start MainFunc) \<and>
     (\<forall>f. f \<noteq> g \<longrightarrow> f \<noteq> m \<longrightarrow> fs_fibers (w_fibers w3) f = fs_fibers (w_fibers w) f) \<and> g \<noteq> m \<and> fs_fibers (w_fibers w3) m \<noteq> None \<and>
     (rl_cb l = None \<longrightarrow> g = fs_next (w_fibers w)) \<and> same_loops (w_fibers w) (w_fibers w3)"
proof -
  have rc: "rc_getcontext env = 0" using env by (simp add: fiber_env_ok_def)
  obtain g s0 b where g: "(case rl_cb l of Some g \<Rightarrow> bind_out (Fiber_reset env g (Some cb) (w_fibers w)) (\<lambda>fs. Inr (g, w\<lparr>w_fibers := fs\<rparr>))
        | None \<Rightarrow> on_fibers (new_Fiber env (Some cb) 0 False) w) = Inr (g, w\<lparr>w_fibers := s0\<rparr>)"
      "\<And>g'. rl_cb l = Some g' \<Longrightarrow> g' = g" "g \<noteq> m" "fs_tls s0 = fs_tls (w_fibers w)" "fs_fibers s0 m \<noteq> None"
      "\<forall>f. f \<noteq> g \<longrightarrow> fs_fibers s0 f = fs_fibers (w_fibers w) f" "rl_cb l = None \<longrightarrow> g = fs_next (w_fibers w)"
      and b: "fs_fibers s0 g = Some b" "fb_stack b" "fb_state b = ST_INIT" "fb_ctx b = Ctx_start MainFunc" "fb_cb b = Some cb"
  proof (cases "rl_cb l")
    case None
    obtain s0 b where "new_Fiber env (Some cb) 0 False (w_fibers w) = Inr (fs_next (w_fibers w), s0)"
        "fs_fibers s0 = (fs_fibers (w_fibers w))(fs_next (w_fibers w) \<mapsto> b)" "fs_tls s0 = fs_tls (w_fibers w)"
        "fb_stack b" "fb_state b = ST_INIT" "fb_ctx b = Ctx_start MainFunc" "fb_cb b = Some cb"
      using new_Fiber_run [OF env] by blast
    then show ?thesis using m None by (intro that [of "fs_next (w_fibers w)" s0 b]) (simp_all add: on_fibers_def)
  next
    case (Some g)
    then obtain b where b: "g \<noteq> m" "fs_fibers (w_fibers w) g = Some b" "fb_stack b" "fb_state b = ST_INIT" using kept by blast
    let ?b = "b\<lparr>fb_cb := Some cb, fb_ctx := Ctx_start MainFunc, fb_state := ST_INIT\<rparr>"
    show ?thesis
      using m rc b Some by (intro that [of g "set_fiber g ?b (w_fibers w)" ?b])
        (simp_all add: Fiber_reset_def deref_def terminal_def assert_that_def set_fiber_def)
  qed
  have ent: "enterable t m g b s0" using g(3-5) b(1,3) m(1) by (simp add: enterable_def)
  let ?k = "After_cb this (l\<lparr>rl_cb := Some g\<rparr>)"
  obtain s1 where s1: "Fiber_swapIn env t g ?k s0 = Inr (fb_ctx b, s1)" "t_fiber (fs_tls s1 t) = Some g"
      "t_scheduler_fiber (fs_tls s1 t) = Some m" "fs_fibers s1 g = Some (b\<lparr>fb_state := ST_EXEC\<rparr>)"
      "map_option fb_ctx (fs_fibers s1 m) = Some (Ctx_saved ?k)" "\<forall>f. f \<noteq> g \<longrightarrow> f \<noteq> m \<longrightarrow> fs_fibers s1 f = fs_fibers s0 f"
    using swapIn_enters [OF env ent] by blast
  define w1 where "w1 = w\<lparr>w_fibers := s1\<rparr>"
  have disp: "run_dispatch env t this l (False, True, \<lparr>ft_fiber = None, ft_cb = Some cb, ft_thread = thr\<rparr>) w = Inr (Switch_to (Ctx_start MainFunc), w1)"
    using g(1) b(4) s1(1) by (simp add: run_dispatch_def dispatch_cb_def on_fibers_def w1_def)
  have enter: "on_fibers (MainFunc_enter env t) w1 = Inr ((g, Some cb), w1)"
    using s1(2,4) b(5) by (simp add: on_fibers_def MainFunc_enter_def Fiber_GetThis_def deref_def w1_def)
  obtain s2 b2 where s2: "MainFunc_finish env t g ended bt Never s1 = Inr (Ctx_saved ?k, s2)" "fs_fibers s2 = (fs_fibers s1)(g \<mapsto> b2)"
      "fb_stack b2" "ended_state (fb_state b2)" "fb_state b2 \<noteq> ST_READY"
    using MainFunc_finish_leaves [OF env s1(4,3) g(3) [symmetric] s1(5), of ended bt Never] b(2) by (auto simp: ended_state_def)
  define w2 where "w2 = w1\<lparr>w_fibers := s2\<rparr>"
  have finish: "on_fibers (MainFunc_finish env t g ended bt Never) w1 = Inr (Ctx_saved ?k, w2)"
    using s2(1) by (simp add: on_fibers_def w1_def w2_def)
  have w2: "w_scheds w2 this = Some sc" "fs_fibers (w_fibers w2) g = Some b2" "w_fibers w2 = s2"
    using sc s2(2) by (simp_all add: w1_def w2_def)
  let ?b3 = "b2\<lparr>fb_cb := None, fb_ctx := Ctx_start MainFunc, fb_state := ST_INIT\<rparr>"
  have "terminal (fb_state b2)" using s2(4) by (auto simp: ended_state_def terminal_def)
  then obtain w3 where w3: "after_cb env this (l\<lparr>rl_cb := Some g\<rparr>) w2 = Inr (l\<lparr>rl_cb := Some g\<rparr>, w3)"
      "w_scheds w3 this = Some (sc\<lparr>sc_active := sc_active sc - 1\<rparr>)"
      "fs_fibers (w_fibers w3) = (fs_fibers s2)(g \<mapsto> ?b3)" "fs_tls (w_fibers w3) = fs_tls s2"
    using w2 s2(3,4,5) rc
    by (simp add: after_cb_def settle_cb_def leave_task_run fiber_state_def deref_def Fiber_reset_def assert_that_def set_fiber_def)
  have "same_loops (w_fibers w) s1" using swapIn_same_loops [OF s1(1)] g(4) by (simp add: same_loops_def)
  then have "same_loops (w_fibers w) (w_fibers w3)"
    using same_loops_trans [OF _ same_loops_trans [OF finish_same_loops [OF s2(1)] same_loops_same [OF w3(4)]]] by blast
  moreover have "\<forall>f. f \<noteq> g \<longrightarrow> f \<noteq> m \<longrightarrow> fs_fibers (w_fibers w3) f = fs_fibers (w_fibers w) f" using w3(3) s2(2) s1(6) g(6) by simp
  moreover have "fs_fibers (w_fibers w3) m \<noteq> None" using w3(3) s2(2) s1(5) g(3) by auto
  moreover have "fs_fibers (w_fibers w3) g = Some ?b3" using w3(3) by simp
  ultimately show ?thesis using disp enter finish w3(1,2) g(2,3,7) s2(3)
    by (intro exI [of _ g] exI [of _ w1] exI [of _ w2] exI [of _ w3]) simp
qed

text \<open>
  C16. A callback from the queue to its end: the loop makes a fiber for it, or uses the one it kept,
  and enters it; the fiber gets the callback; when the callback has ended, normally or by an
  exception, the loop goes on with the count of active tasks as it was before the task was
  taken, and keeps the fiber, ready to be used for the next callback.
\<close>

theorem callback_runs_to_its_end:
  assumes env: "fiber_env_ok env" and sc: "w_scheds w this = Some sc"
    and m: "t_scheduler_fiber (fs_tls (w_fibers w) t) = Some m" "m \<noteq> fs_next (w_fibers w)" "fs_fibers (w_fibers w) m \<noteq> None"
    and kept: "\<And>g. rl_cb l = Some g \<Longrightarrow> g \<noteq> m \<and> (\<exists>b. fs_fibers (w_fibers w) g = Some b \<and> fb_stack b \<and> fb_state b = ST_INIT)"
  shows "\<exists>g w1 w2 w3. run_dispatch env t this l (False, True, \<lparr>ft_fiber = None, ft_cb = Some cb, ft_thread = thr\<rparr>) w = Inr (Switch_to (Ctx_start MainFunc), w1) \<and>
     (\<forall>g'. rl_cb l = Some g' \<longrightarrow> g' = g) \<and>
     on_fibers (MainFunc_enter env t) w1 = Inr ((g, Some cb), w1) \<and>
     on_fibers (MainFunc_finish env t g ended bt Never) w1 = Inr (Ctx_saved (After_cb this (l\<lparr>rl_cb := Some g\<rparr>)), w2) \<and>
     after_cb env this (l\<lparr>rl_cb := Some g\<rparr>) w2 = Inr (l\<lparr>rl_cb := Some g\<rparr>, w3) \<and>
     w_scheds w3 this = Some (sc\<lparr>sc_active := sc_active sc - 1\<rparr>) \<and>
     (\<exists>b. fs_fibers (w_fibers w3) g = Some b \<and> fb_stack b \<and> fb_state b = ST_INIT \<and> fb_cb b = None \<and> fb_ctx b = Ctx_start MainFunc)"
  using callback_round [OF assms] by blast

theorem callback_runs_to_its_end_witness:
  "\<exists>g w1 (w2 :: (nat, nat) world) w3. run_dispatch good_env 7 9 \<lparr>rl_idle = 4, rl_cb = None\<rparr>
       (False, True, \<lparr>ft_fiber = None, ft_cb = Some (User_task 5), ft_thread = - 1\<rparr>) (one_task 7) = Inr (Switch_to (Ctx_start MainFunc), w1) \<and>
     on_fibers (MainFunc_enter good_env 7) w1 = Inr ((g, Some (User_task 5)), w1) \<and>
     after_cb good_env 9 \<lparr>rl_idle = 4, rl_cb = Some g\<rparr> w2 = Inr (\<lparr>rl_idle = 4, rl_cb = Some g\<rparr>, w3)"
proof -
  have m: "t_scheduler_fiber (fs_tls (w_fibers (one_task 7)) 7) = Some 0" "(0::addr) \<noteq> fs_next (w_fibers (one_task 7))"
      "fs_fibers (w_fibers (one_task 7)) 0 \<noteq> None"
    by (simp_all add: one_task_def)
  show ?thesis
    using callback_runs_to_its_end [OF good_env_ok one_task_parts(1) m, of "\<lparr>rl_idle = 4, rl_cb = None\<rparr>" "User_task 5" "- 1" None "[]"]
    by fastforce
qed

section \<open>A fiber that is scheduled twice\<close>

lemma run_pick_head:
  assumes "w_scheds w this = Some sc" and "sc_fibers sc = it # q" and "may_take (\<lambda>f. fiber_state f w) t it"
    and "sound_task (\<lambda>f. fiber_state f w) it"
  shows "run_pick t this w = Inr ((q \<noteq> [], True, it), set_sched this (sc\<lparr>sc_fibers := q, sc_active := sc_active sc + 1\<rparr>) w)"
  using assms pick_loop_take [OF assms(4,3), of False "[]" q]
  by (simp add: run_pick_def sched_at_def del: pick_loop.simps(2))

text \<open>
  C21. A fiber that is scheduled twice, which nothing prevents, can abort the process: whether a fiber
  runs is looked at when a task is taken, but it is marked as running only when it is entered.
  If two threads take the two tasks before either has entered the fiber, the second one to enter
  it fails the assertion; if it looks after the first has entered the fiber, it passes over the task.
\<close>

theorem scheduled_twice_aborts:
  fixes w :: "('u, 'v) world"
  assumes env: "fiber_env_ok env" and sc: "w_scheds w this = Some sc" "sc_fibers sc = []"
    and ent: "enterable t m f b (w_fibers w)" and run: "\<not> ended_state (fb_state b)"
  shows "\<exists>w2 p w3 p' w4 w5 w6. bind_out (schedule this (Fiber_arg (Some f)) (- 1) w) (schedule this (Fiber_arg (Some f)) (- 1)) = Inr w2 \<and>
     run_pick t this w2 = Inr (p, w3) \<and> run_pick t' this w3 = Inr (p', w4) \<and>
     run_dispatch env t this l p w4 = Inr (Switch_to (fb_ctx b), w5) \<and>
     run_dispatch env t' this l' p' w5 = Inl (Assert_failed ''m_state != EXEC'') \<and>
     run_dispatch env t this l p w3 = Inr (Switch_to (fb_ctx b), w6) \<and>
     run_pick t' this w6 = Inr ((False, False, no_task), w6)"
proof -
  have b: "fs_fibers (w_fibers w) f = Some b" "fb_state b \<noteq> ST_EXEC" using ent by (auto simp: enterable_def)
  define ft :: "'u fiber_and_thread" where "ft = \<lparr>ft_fiber = Some f, ft_cb = None, ft_thread = - 1\<rparr>"
  have task: "has_task ft" "new_FiberAndThread (Fiber_arg (Some f)) (- 1) = ft" by (simp_all add: ft_def has_task_def)
  obtain w1 where w1: "schedule this (Fiber_arg (Some f)) (- 1) w = Inr w1" "same_run w w1" "w_scheds w1 this = Some (sc\<lparr>sc_fibers := [ft]\<rparr>)"
    using schedule_run [OF sc(1), of "Fiber_arg (Some f)" "- 1"] sc(2) task by auto
  obtain w2 where w2: "schedule this (Fiber_arg (Some f)) (- 1) w1 = Inr w2" "same_run w w2" "w_scheds w2 this = Some (sc\<lparr>sc_fibers := [ft, ft]\<rparr>)"
    using schedule_run [OF w1(3), of "Fiber_arg (Some f)" "- 1"] task w1(2) by (auto simp: same_run_def)
  have st: "fiber_state f w2 = Inr (fb_state b)" using b(1) same_run_state [OF w2(2), of f] by (simp add: fiber_state_eq)
  define w3 where "w3 = set_sched this (sc\<lparr>sc_fibers := [ft], sc_active := sc_active sc + 1\<rparr>) w2"
  define w4 where "w4 = set_sched this (sc\<lparr>sc_fibers := [], sc_active := sc_active sc + 1 + 1\<rparr>) w3"
  have ok: "may_take (\<lambda>f. fiber_state f v) x ft" "sound_task (\<lambda>f. fiber_state f v) ft"
    if "fiber_state f v = Inr (fb_state b)" for x and v :: "('u, 'v) world"
    using that b(2) task(1) by (simp_all add: may_take_def sound_task_def for_another_def ft_def)
  have pick: "run_pick t this w2 = Inr ((True, True, ft), w3)"
    using run_pick_head [OF w2(3) _ ok [OF st], of "[ft]"] by (simp add: w3_def)
  have "fiber_state f w3 = Inr (fb_state b)" using st by (simp add: w3_def)
  moreover have "w_scheds w3 this = Some (sc\<lparr>sc_fibers := [ft], sc_active := sc_active sc + 1\<rparr>)" by (simp add: w3_def)
  ultimately have pick': "run_pick t' this w3 = Inr ((False, True, ft), w4)"
    using run_pick_head [of w3 this _ ft "[]", OF _ _ ok] by (simp add: w4_def)
  have enter: "\<exists>s. run_dispatch env t this l (True, True, ft) v = Inr (Switch_to (fb_ctx b), (tickle v)\<lparr>w_fibers := s\<rparr>) \<and>
      map_option fb_state (fs_fibers s f) = Some ST_EXEC" if v: "same_run w v" for v :: "('u, 'v) world"
  proof -
    have e: "enterable t m f b (w_fibers (tickle v))" using ent v by (simp add: enterable_def same_run_def)
    obtain s where "Fiber_swapIn env t f (After_fiber this l f) (w_fibers (tickle v)) = Inr (fb_ctx b, s)"
        "fs_fibers s f = Some (b\<lparr>fb_state := ST_EXEC\<rparr>)" using swapIn_enters [OF env e, of "After_fiber this l f"] by blast
    moreover have "fiber_state f (tickle v) = Inr (fb_state b)"
      using b(1) v unfolding fiber_state_eq tickle_simps same_run_def by auto
    ultimately show ?thesis using run by (intro exI [of _ s]) (simp add: run_dispatch_def dispatch_fiber_def on_fibers_def ft_def)
  qed
  have same: "same_run w w3" "same_run w w4" using w2(2) by (simp_all add: w3_def w4_def)
  obtain s where s: "run_dispatch env t this l (True, True, ft) w4 = Inr (Switch_to (fb_ctx b), (tickle w4)\<lparr>w_fibers := s\<rparr>)"
      "map_option fb_state (fs_fibers s f) = Some ST_EXEC" using enter [OF same(2)] by blast
  obtain s' where s': "run_dispatch env t this l (True, True, ft) w3 = Inr (Switch_to (fb_ctx b), (tickle w3)\<lparr>w_fibers := s'\<rparr>)"
      "map_option fb_state (fs_fibers s' f) = Some ST_EXEC" using enter [OF same(1)] by blast
  have abort: "run_dispatch env t' this l' (False, True, ft) ((tickle w4)\<lparr>w_fibers := s\<rparr>) = Inl (Assert_failed ''m_state != EXEC'')"
    using s(2) by (auto simp: run_dispatch_def dispatch_fiber_def on_fibers_def ft_def fiber_state_def deref_def ended_state_def
        Fiber_swapIn_def assert_that_def)
  have pass: "run_pick t' this ((tickle w3)\<lparr>w_fibers := s'\<rparr>) = Inr ((False, False, no_task), (tickle w3)\<lparr>w_fibers := s'\<rparr>)"
    using s'(2) task by (auto simp: run_pick_def w3_def assert_that_def fiber_state_def deref_def ft_def)
  show ?thesis using w1(1) w2(1) pick pick' s(1) s'(1) abort pass by (intro exI conjI) simp_all
qed

definition idle_world :: "bool \<Rightarrow> (nat, nat) world" where
  "idle_world stop = (one_task 7)\<lparr>w_scheds := [9 \<mapsto> (the (w_scheds (one_task 7) 9))\<lparr>sc_fibers := [], sc_stopping := stop, sc_autoStop := stop\<rparr>],
     w_fibers := (w_fibers (one_task 7))\<lparr>fs_fibers := (fs_fibers (w_fibers (one_task 7)))
       (4 \<mapsto> \<lparr>fb_id = 2, fb_stack_size = 131072, fb_state = ST_HOLD, fb_ctx = Ctx_saved (Idle_yielded 9), fb_stack = True, fb_cb = Some (Idle_task 9)\<rparr>)\<rparr>\<rparr>"

lemma idle_world_parts:
  "w_scheds (idle_world stop) 9 = Some (the (w_scheds (idle_world stop) 9))"
  "sc_fibers (the (w_scheds (idle_world stop) 9)) = []"
  "enterable 7 0 1 (the (fs_fibers (w_fibers (idle_world stop)) 1)) (w_fibers (idle_world stop))"
  "enterable 7 0 4 (the (fs_fibers (w_fibers (idle_world stop)) 4)) (w_fibers (idle_world stop))"
  "fb_state (the (fs_fibers (w_fibers (idle_world stop)) 1)) = ST_INIT"
  "fb_state (the (fs_fibers (w_fibers (idle_world stop)) 4)) = ST_HOLD"
  "fb_ctx (the (fs_fibers (w_fibers (idle_world stop)) 4)) = Ctx_saved (Idle_yielded 9)"
  "stopping 9 (idle_world True) = Inr True"
  by (simp_all add: idle_world_def one_task_def enterable_def stopping_def sched_at_def)

theorem scheduled_twice_aborts_witness:
  "\<exists>(w2 :: (nat, nat) world) p w3 p' w4 w5. run_pick 7 9 w2 = Inr (p, w3) \<and> run_pick 8 9 w3 = Inr (p', w4) \<and>
     run_dispatch good_env 7 9 \<lparr>rl_idle = 4, rl_cb = None\<rparr> p w4 = Inr (Switch_to (fb_ctx (the (fs_fibers (w_fibers (idle_world False)) 1))), w5) \<and>
     run_dispatch good_env 8 9 \<lparr>rl_idle = 5, rl_cb = None\<rparr> p' w5 = Inl (Assert_failed ''m_state != EXEC'')"
proof -
  have "\<not> ended_state (fb_state (the (fs_fibers (w_fibers (idle_world False)) 1)))"
    using idle_world_parts(5) [of False] by (simp add: ended_state_def)
  from scheduled_twice_aborts [OF good_env_ok idle_world_parts(1,2,3) this, of 8 "\<lparr>rl_idle = 4, rl_cb = None\<rparr>" "\<lparr>rl_idle = 5, rl_cb = None\<rparr>"]
  show ?thesis by blast
qed

section \<open>The end of a thread\<close>

lemma run_pick_nothing: "w_scheds w this = Some sc \<Longrightarrow> sc_fibers sc = [] \<Longrightarrow> run_pick t this w = Inr ((False, False, no_task), w)"
  by (simp add: run_pick_def sched_at_def)

text \<open>
  A thread that is in its idle fiber, and how it gets there and, once \<open>stopping\<close> holds, out of it.
\<close>

definition idles :: "addr \<Rightarrow> thread_id \<Rightarrow> addr \<Rightarrow> run_locals \<Rightarrow> 'u scheduler \<Rightarrow> ('u task, 'v resume) fiber \<Rightarrow> ('u, 'v) world \<Rightarrow> bool" where
  "idles this t m l sc b w \<longleftrightarrow> w_scheds w this = Some (sc\<lparr>sc_idle := sc_idle sc + 1\<rparr>) \<and> m \<noteq> rl_idle l \<and>
     t_scheduler_fiber (fs_tls (w_fibers w) t) = Some m \<and> t_fiber (fs_tls (w_fibers w) t) = Some (rl_idle l) \<and>
     fs_fibers (w_fibers w) (rl_idle l) = Some (b\<lparr>fb_state := ST_EXEC\<rparr>) \<and>
     map_option fb_ctx (fs_fibers (w_fibers w) m) = Some (Ctx_saved (After_idle this l))"

lemma idle_entered:
  assumes env: "fiber_env_ok env" and sc: "w_scheds w this = Some sc"
    and ent: "enterable t m (rl_idle l) b (w_fibers w)" and b: "fb_state b \<noteq> ST_TERM"
  shows "\<exists>w1. run_dispatch env t this l (False, False, no_task) w = Inr (Switch_to (fb_ctx b), w1) \<and> idles this t m l sc b w1 \<and>
    same_loops (w_fibers w) (w_fibers w1) \<and> (\<forall>f. f \<noteq> rl_idle l \<longrightarrow> f \<noteq> m \<longrightarrow> fs_fibers (w_fibers w1) f = fs_fibers (w_fibers w) f)"
proof -
  let ?i = "rl_idle l" and ?k = "After_idle this l"
  have i: "fs_fibers (w_fibers w) ?i = Some b" "m \<noteq> ?i" using ent by (simp_all add: enterable_def)
  obtain s1 where s1: "Fiber_swapIn env t ?i ?k (w_fibers w) = Inr (fb_ctx b, s1)" "t_fiber (fs_tls s1 t) = Some ?i"
      "t_scheduler_fiber (fs_tls s1 t) = Some m" "fs_fibers s1 ?i = Some (b\<lparr>fb_state := ST_EXEC\<rparr>)"
      "map_option fb_ctx (fs_fibers s1 m) = Some (Ctx_saved ?k)" "\<forall>f. f \<noteq> ?i \<longrightarrow> f \<noteq> m \<longrightarrow> fs_fibers s1 f = fs_fibers (w_fibers w) f"
    using swapIn_enters [OF env ent, of ?k] by blast
  let ?w1 = "(set_sched this (sc\<lparr>sc_idle := sc_idle sc + 1\<rparr>) w)\<lparr>w_fibers := s1\<rparr>"
  have "run_dispatch env t this l (False, False, no_task) w = Inr (Switch_to (fb_ctx b), ?w1)"
    using i b s1(1) sc by (simp add: run_dispatch_def no_task_def dispatch_idle_def fiber_state_def deref_def on_sched_run on_fibers_def)
  then show ?thesis using i s1 swapIn_same_loops [OF s1(1)] by (intro exI [of _ ?w1]) (simp add: idles_def)
qed

lemma idle_left:
  assumes env: "fiber_env_ok env" and idle: "idles this t m l sc b w1"
    and q: "sc_fibers sc = []" "sc_active sc = 0" "sc_autoStop sc" "sc_stopping sc"
  shows "\<exists>w2 w3 w4. idle_loop env t this w1 = Inr (None, w1) \<and>
     on_fibers (MainFunc_finish env t (rl_idle l) None bt Never) w1 = Inr (Ctx_saved (After_idle this l), w2) \<and>
     after_idle this l w2 = Inr (l, w3) \<and> run_pick t this w3 = Inr ((False, False, no_task), w3) \<and>
     run_dispatch env t this l (False, False, no_task) w3 = Inr (End_of_run l, w4) \<and> w_scheds w4 this = Some sc \<and>
     same_loops (w_fibers w1) (w_fibers w4) \<and>
     (\<forall>f. f \<noteq> rl_idle l \<longrightarrow> fs_fibers (w_fibers w4) f = fs_fibers (w_fibers w1) f)"
proof -
  let ?i = "rl_idle l" and ?k = "After_idle this l" and ?sc1 = "sc\<lparr>sc_idle := sc_idle sc + 1\<rparr>"
  have i: "w_scheds w1 this = Some ?sc1" "fs_fibers (w_fibers w1) ?i = Some (b\<lparr>fb_state := ST_EXEC\<rparr>)" "m \<noteq> ?i"
      "t_scheduler_fiber (fs_tls (w_fibers w1) t) = Some m" "map_option fb_ctx (fs_fibers (w_fibers w1) m) = Some (Ctx_saved ?k)"
    using idle by (simp_all add: idles_def)
  have ends: "idle_loop env t this w1 = Inr (None, w1)" using q i(1) by (simp add: idle_loop_def stopping_def sched_at_def)
  obtain s2 b2 where s2: "MainFunc_finish env t ?i None bt Never (w_fibers w1) = Inr (Ctx_saved ?k, s2)"
      "fs_fibers s2 = (fs_fibers (w_fibers w1))(?i \<mapsto> b2)" "fb_state b2 = ST_TERM"
    using MainFunc_finish_leaves [OF env i(2,4,3,5), of None bt Never] by auto
  define w2 where "w2 = w1\<lparr>w_fibers := s2\<rparr>"
  have fin: "on_fibers (MainFunc_finish env t ?i None bt Never) w1 = Inr (Ctx_saved ?k, w2)"
    using s2(1) by (simp add: on_fibers_def w2_def)
  have w2: "w_scheds w2 this = Some ?sc1" "fiber_state ?i w2 = Inr ST_TERM" using s2 i(1) by (simp_all add: w2_def fiber_state_eq)
  define w3 where "w3 = set_sched this sc w2"
  have aft: "after_idle this l w2 = Inr (l, w3)" using w2 by (simp add: after_idle_def on_sched_run ended_state_def w3_def)
  have w3: "w_scheds w3 this = Some sc" "fiber_state ?i w3 = Inr ST_TERM" using w2 by (simp_all add: w3_def)
  have "run_dispatch env t this l (False, False, no_task) w3 = Inr (End_of_run l, sched_log ''idle fiber term'' w3)"
    using w3 by (simp add: run_dispatch_def no_task_def dispatch_idle_def)
  moreover have "same_loops (w_fibers w1) (w_fibers (sched_log ''idle fiber term'' w3))"
    using finish_same_loops [OF s2(1)] by (simp add: w3_def w2_def same_loops_def)
  moreover have "\<forall>f. f \<noteq> ?i \<longrightarrow> fs_fibers (w_fibers (sched_log ''idle fiber term'' w3)) f = fs_fibers (w_fibers w1) f"
    using s2(2) by (simp add: w3_def w2_def)
  ultimately show ?thesis using ends fin aft w3(1) run_pick_nothing [OF w3(1) q(1), of t]
    by (intro exI [of _ w2] exI [of _ w3] exI [of _ "sched_log ''idle fiber term'' w3"]) simp
qed

text \<open>
  C19. Once \<open>stopping\<close> holds, a thread of the scheduler leaves its loop: it finds no task and enters
  its idle fiber, the idle fiber sees that the scheduler is stopping and ends, the thread finds no
  task again, sees that the idle fiber has ended and leaves, with the state of the scheduler
  as it was.
\<close>

theorem stopped_thread_ends:
  assumes env: "fiber_env_ok env" and sc: "w_scheds w this = Some sc" and stop: "stopping this w = Inr True"
    and ent: "enterable t m (rl_idle l) b (w_fibers w)"
    and b: "fb_state b = ST_HOLD" "fb_ctx b = Ctx_saved (Idle_yielded this)"
  shows "\<exists>w1 w2 w3 w4. run_pick t this w = Inr ((False, False, no_task), w) \<and>
     run_dispatch env t this l (False, False, no_task) w = Inr (Switch_to (Ctx_saved (Idle_yielded this)), w1) \<and>
     idle_loop env t this w1 = Inr (None, w1) \<and>
     on_fibers (MainFunc_finish env t (rl_idle l) None bt Never) w1 = Inr (Ctx_saved (After_idle this l), w2) \<and>
     after_idle this l w2 = Inr (l, w3) \<and>
     run_pick t this w3 = Inr ((False, False, no_task), w3) \<and>
     run_dispatch env t this l (False, False, no_task) w3 = Inr (End_of_run l, w4) \<and>
     w_scheds w4 this = Some sc"
proof -
  have q: "sc_fibers sc = []" "sc_active sc = 0" "sc_autoStop sc" "sc_stopping sc"
    using stop sc by (simp_all add: stopping_def sched_at_def)
  have "fb_state b \<noteq> ST_TERM" using b(1) by simp
  then obtain w1 where w1: "run_dispatch env t this l (False, False, no_task) w = Inr (Switch_to (fb_ctx b), w1)" "idles this t m l sc b w1"
    using idle_entered [OF env sc ent] by blast
  show ?thesis using w1(1) b(2) idle_left [OF env w1(2) q, of bt] run_pick_nothing [OF sc q(1), of t] by auto
qed

theorem stopped_thread_ends_witness:
  "\<exists>(w3 :: (nat, nat) world) w4. run_dispatch good_env 7 9 \<lparr>rl_idle = 4, rl_cb = None\<rparr> (False, False, no_task) w3 = Inr (End_of_run \<lparr>rl_idle = 4, rl_cb = None\<rparr>, w4)"
proof -
  let ?l = "\<lparr>rl_idle = 4, rl_cb = None\<rparr>"
  have "enterable 7 0 (rl_idle ?l) (the (fs_fibers (w_fibers (idle_world True)) 4)) (w_fibers (idle_world True))"
    using idle_world_parts(4) [of True] by simp
  from stopped_thread_ends [OF good_env_ok idle_world_parts(1,8) this idle_world_parts(6,7), of "[]"] show ?thesis by blast
qed

section \<open>Starting\<close>

text \<open>The id that \<open>start\<close> reads from a thread it has just made.\<close>

definition id_read :: "thread_birth \<Rightarrow> int" where
  "id_read tb = (case tb_started tb of None \<Rightarrow> - 1 | Some (t, tid) \<Rightarrow> to_int tid)"

definition callbacks_of :: "addr \<Rightarrow> thread_birth list \<Rightarrow> (thread_id \<times> 'u task option) list" where
  "callbacks_of this tbs = concat (map (\<lambda>tb. case tb_started tb of None \<Rightarrow> [] | Some (t, tid) \<Rightarrow> [(t, Some (Run_task this))]) tbs)"

lemma to_int_unset [simp]: "to_int (- 1) = - 1"
  by code_simp

lemma new_Thread_run:
  "\<exists>s1 th. new_Thread Posix 0 h c cb name s = (Inr (ts_next s), s1) \<and> ts_objs s1 (ts_next s) = Some th \<and> th_id th = - 1 \<and> th_cb th = cb"
  by (simp add: new_Thread_def Let_def set_thread_def thread_calls_def)

lemma Thread_run_run:
  "ts_objs s a = Some th \<Longrightarrow> \<exists>shown s2. Thread_run Posix True t tid a s = Inr (Some (th_cb th, shown), s2) \<and> Thread_getId a s2 = Inr tid"
  by (simp add: Thread_run_def Thread_getId_def thread_at_def set_thread_def set_tls_def Let_def)

lemma start_loop_step:
  assumes sc: "w_scheds w this = Some sc" and rt: "tb_rt tb = 0"
  shows "\<exists>a w'. start_loop this i (tb # tbs) started w = start_loop this (Suc i) tbs (started @ callbacks_of this [tb]) w' \<and>
    w_scheds w' this = Some (sc\<lparr>sc_threads := (sc_threads sc)[i := Some a], sc_threadIds := sc_threadIds sc @ [id_read tb]\<rparr>)"
proof -
  let ?n = "ts_next (w_threads w)" and ?name = "sc_name sc @ ''_'' @ nat_str i"
  obtain s1 th where s1: "new_Thread Posix 0 (tb_handle tb) 0 (Some (Run_task this)) ?name (w_threads w) = (Inr ?n, s1)"
      "ts_objs s1 ?n = Some th" "th_id th = - 1" "th_cb th = Some (Run_task this)" using new_Thread_run by blast
  obtain s2 tid where s2: "(case tb_started tb of
        None \<Rightarrow> Inr (started, s1)
      | Some (t, tid) \<Rightarrow> bind_out (Thread_run Posix True t tid ?n s1) (\<lambda>(r, ths1).
          Inr (started @ [(t, case r of None \<Rightarrow> None | Some (cb, _) \<Rightarrow> cb)], ths1))) = (Inr (started @ callbacks_of this [tb], s2) :: _ outcome)"
      "Thread_getId ?n s2 = Inr tid" "to_int tid = id_read tb"
  proof (cases "tb_started tb")
    case None
    then show ?thesis using s1 that [of s1 "- 1"] by (simp add: callbacks_of_def id_read_def Thread_getId_def thread_at_def)
  next
    case (Some x)
    obtain t tid where x: "x = (t, tid)" by (cases x)
    obtain shown s2 where "Thread_run Posix True t tid ?n s1 = Inr (Some (th_cb th, shown), s2)" "Thread_getId ?n s2 = Inr tid"
      using Thread_run_run [OF s1(2)] by blast
    then show ?thesis using Some x s1(4) that [of s2 tid] by (simp add: callbacks_of_def id_read_def)
  qed
  let ?sc = "sc\<lparr>sc_threads := (sc_threads sc)[i := Some ?n], sc_threadIds := sc_threadIds sc @ [id_read tb]\<rparr>"
  have "start_loop this i (tb # tbs) started w = start_loop this (Suc i) tbs (started @ callbacks_of this [tb]) (set_sched this ?sc (w\<lparr>w_threads := s2\<rparr>))"
    using sc by (simp only: start_loop.simps(2) sched_at_def rt s1(1) s2 option.case sum.case prod.case)
  then show ?thesis by (intro exI [of _ ?n] exI [of _ "set_sched this ?sc (w\<lparr>w_threads := s2\<rparr>)"]) simp
qed

lemma start_loop_run:
  "w_scheds w this = Some sc \<Longrightarrow> \<forall>tb \<in> set tbs. tb_rt tb = 0 \<Longrightarrow>
   \<exists>w' ths. start_loop this i tbs started w = (Inr (started @ callbacks_of this tbs), w') \<and> length ths = length (sc_threads sc) \<and>
     w_scheds w' this = Some (sc\<lparr>sc_threads := ths, sc_threadIds := sc_threadIds sc @ map id_read tbs\<rparr>)"
proof (induction tbs arbitrary: i started w sc)
  case Nil
  then show ?case by (intro exI [of _ w] exI [of _ "sc_threads sc"]) (simp add: callbacks_of_def)
next
  case (Cons tb tbs)
  obtain a w1 where w1: "start_loop this i (tb # tbs) started w = start_loop this (Suc i) tbs (started @ callbacks_of this [tb]) w1"
      "w_scheds w1 this = Some (sc\<lparr>sc_threads := (sc_threads sc)[i := Some a], sc_threadIds := sc_threadIds sc @ [id_read tb]\<rparr>)"
    using start_loop_step [OF Cons.prems(1), of tb i tbs started] Cons.prems(2) by auto
  obtain w2 ths where "start_loop this (Suc i) tbs (started @ callbacks_of this [tb]) w1 = (Inr ((started @ callbacks_of this [tb]) @ callbacks_of this tbs), w2)"
      "length ths = length (sc_threads sc)"
      "w_scheds w2 this = Some (sc\<lparr>sc_threads := ths, sc_threadIds := sc_threadIds sc @ id_read tb # map id_read tbs\<rparr>)"
    using Cons.IH [OF w1(2), of "Suc i" "started @ callbacks_of this [tb]"] Cons.prems(2) by auto
  then show ?case using w1(1) by (intro exI [of _ w2] exI [of _ ths]) (simp add: callbacks_of_def)
qed

text \<open>
  \<open>start\<close> records the ids of its threads before they need to have one: each new thread is given
  \<open>run\<close>, and the recorded id is the thread's own only when the thread has started by the time
  it is read, otherwise it is -1; a second \<open>start\<close> does nothing.
\<close>

theorem start_records_ids:
  assumes sc: "w_scheds w this = Some sc" "sc_stopping sc" "sc_threads sc = []"
    and tbs: "length tbs = unat (sc_threadCount sc)" "\<forall>tb \<in> set tbs. tb_rt tb = 0"
  shows "\<exists>w' ths. start this tbs w = (Inr (callbacks_of this tbs), w') \<and> length ths = length tbs \<and>
    w_scheds w' this = Some (sc\<lparr>sc_stopping := False, sc_threads := ths, sc_threadIds := sc_threadIds sc @ map id_read tbs\<rparr>) \<and>
    (\<forall>tb \<in> set tbs. tb_started tb = None \<longrightarrow> id_read tb = - 1) \<and> start this tbs' w' = (Inr [], w')"
proof -
  let ?w = "set_sched this (sc\<lparr>sc_stopping := False, sc_threads := replicate (unat (sc_threadCount sc)) None\<rparr>) w"
  obtain w' ths where w': "start_loop this 0 tbs [] ?w = (Inr (callbacks_of this tbs), w')" "length ths = length tbs"
      "w_scheds w' this = Some (sc\<lparr>sc_stopping := False, sc_threads := ths, sc_threadIds := sc_threadIds sc @ map id_read tbs\<rparr>)"
    using start_loop_run [of ?w this "sc\<lparr>sc_stopping := False, sc_threads := replicate (unat (sc_threadCount sc)) None\<rparr>" tbs 0 "[]"] tbs
    by auto
  have "start this tbs w = (Inr (callbacks_of this tbs), w')" using sc w'(1) by (simp add: start_def sched_at_def)
  moreover have "start this tbs' w' = (Inr [], w')" using w'(3) by (simp add: start_def sched_at_def)
  ultimately show ?thesis using w' by (intro exI [of _ w'] exI [of _ ths]) (simp add: id_read_def)
qed

theorem start_records_ids_witness:
  "\<exists>w' sc. start 9 [\<lparr>tb_rt = 0, tb_handle = 5, tb_started = None\<rparr>, \<lparr>tb_rt = 0, tb_handle = 6, tb_started = Some (43, 43)\<rparr>] (idle_world True) =
       (Inr [(43, Some (Run_task 9))], w') \<and> w_scheds w' 9 = Some sc \<and> sc_threadIds sc = [- 1, 43]"
proof -
  let ?tbs = "[\<lparr>tb_rt = 0, tb_handle = 5, tb_started = None\<rparr>, \<lparr>tb_rt = 0, tb_handle = 6, tb_started = Some (43, 43)\<rparr>]"
  let ?sc = "the (w_scheds (idle_world True) 9)"
  have sc: "sc_stopping ?sc" "sc_threads ?sc = []" "length ?tbs = unat (sc_threadCount ?sc)" "\<forall>tb \<in> set ?tbs. tb_rt tb = 0"
      "sc_threadIds ?sc = []"
    by (simp_all add: idle_world_def one_task_def)
  have ids: "map id_read ?tbs = [- 1, 43]" "callbacks_of 9 ?tbs = [(43, Some (Run_task 9))]"
    by (simp_all add: id_read_def callbacks_of_def to_int_def)
  from start_records_ids [OF idle_world_parts(1) sc(1-4)] ids sc(5) show ?thesis by fastforce
qed

end
