(* ===== verification/SchedulerSteps.thy ===== *)
theory SchedulerSteps
  imports SchedulerProps "HOL-Library.Multiset"
begin

text \<open>
  The threads of a scheduler together: any interleaving of the pieces into which locks and switches
  cut the code, with callbacks that do what the interface lets them do, in any order.

  With \<open>use_caller\<close> the thread that made the scheduler is \<open>Outside\<close> until it stops it; then \<open>stop\<close>
  switches to the root fiber, which runs the loop on that thread, and goes on when the loop has
  ended. Schedulers other than \<open>this\<close> and threads that are not its own appear through what they do to
  it: they schedule, and they stop a scheduler without such a thread. Fibers that are scheduled are
  not the ones in which threads run their loops.
\<close>

text \<open>Where a thread of the scheduler is.\<close>

datatype ('u, 'v) place =
    In_loop run_locals
  | Has_picked run_locals bool bool "'u fiber_and_thread"
  | Runs "'v resume ctx"
  | In_callback addr
  | In_idle addr
  | Settles_fiber run_locals addr
  | Settles_cb run_locals
  | Out_of_loop
  | Outside
  | Enters_root "'v resume ctx"

record ('u, 'v) config =
  cf_world :: "('u, 'v) world"
  cf_at :: "thread_id \<Rightarrow> ('u, 'v) place option"

text \<open>What happens to the queue in a step.\<close>

datatype 'u event = Queued "'u fiber_and_thread" | Taken thread_id "'u fiber_and_thread"

definition moves_to :: "('u, 'v) config \<Rightarrow> thread_id \<Rightarrow> ('u, 'v) place \<Rightarrow> ('u, 'v) world \<Rightarrow> ('u, 'v) config" where
  "moves_to cf t p w = \<lparr>cf_world = w, cf_at = (cf_at cf)(t \<mapsto> p)\<rparr>"

definition with_world :: "('u, 'v) config \<Rightarrow> ('u, 'v) world \<Rightarrow> ('u, 'v) config" where
  "with_world cf w = cf\<lparr>cf_world := w\<rparr>"

definition place_of :: "'v run_next \<Rightarrow> ('u, 'v) place" where
  "place_of n = (case n of Switch_to c \<Rightarrow> Runs c | Next_round l \<Rightarrow> In_loop l | End_of_run l \<Rightarrow> Out_of_loop)"

text \<open>The fibers in which threads run their loops, and the tasks that may be scheduled.\<close>

definition loop_fiber :: "('u, 'v) world \<Rightarrow> addr \<Rightarrow> bool" where
  "loop_fiber w f \<longleftrightarrow> (\<exists>t. t_scheduler_fiber (fs_tls (w_fibers w) t) = Some f)"

definition schedulable :: "('u, 'v) world \<Rightarrow> 'u scheduled \<Rightarrow> bool" where
  "schedulable w fc \<longleftrightarrow> (\<forall>f. fc = Fiber_arg (Some f) \<longrightarrow> fs_fibers (w_fibers w) f \<noteq> None \<and> \<not> loop_fiber w f)"

definition queued_by :: "'u scheduled \<Rightarrow> int \<Rightarrow> 'u event list" where
  "queued_by fc thr = (if has_task (new_FiberAndThread fc thr) then [Queued (new_FiberAndThread fc thr)] else [])"

definition requeued :: "addr \<Rightarrow> ('u, 'v) world \<Rightarrow> 'u event list" where
  "requeued f w = (if fiber_state f w = Inr ST_READY then queued_by (Fiber_arg (Some f)) (- 1) else [])"

inductive sched_step ::
  "fiber_env \<Rightarrow> addr \<Rightarrow> ('u, 'v) config \<Rightarrow> 'u event list \<Rightarrow> ('u, 'v) config \<Rightarrow> bool"
  for env :: fiber_env and this :: addr where
  begin_run: "cf_at cf t = None \<Longrightarrow> map_option sc_rootThread (w_scheds (cf_world cf) this) \<noteq> Some t \<Longrightarrow>
     t_fiber (fs_tls (w_fibers (cf_world cf)) t) = None \<Longrightarrow> run_start env t this (cf_world cf) = Inr (l, w) \<Longrightarrow>
     sched_step env this cf [] (moves_to cf t (In_loop l) w)"
| pick: "cf_at cf t = Some (In_loop l) \<Longrightarrow> run_pick t this (cf_world cf) = Inr ((tm, act, ft), w) \<Longrightarrow>
     sched_step env this cf (if act then [Taken t ft] else []) (moves_to cf t (Has_picked l tm act ft) w)"
| dispatch: "cf_at cf t = Some (Has_picked l tm act ft) \<Longrightarrow> run_dispatch env t this l (tm, act, ft) (cf_world cf) = Inr (n, w) \<Longrightarrow>
     sched_step env this cf [] (moves_to cf t (place_of n) w)"
| enter: "cf_at cf t = Some (Runs (Ctx_start MainFunc)) \<Longrightarrow> on_fibers (MainFunc_enter env t) (cf_world cf) = Inr ((f, cb), w) \<Longrightarrow>
     \<not> (\<exists>a. cb = Some (Idle_task a) \<or> cb = Some (Run_task a)) \<Longrightarrow>
     sched_step env this cf [] (moves_to cf t (In_callback f) w)"
| enter_idle: "cf_at cf t = Some (Runs (Ctx_start MainFunc)) \<Longrightarrow>
     on_fibers (MainFunc_enter env t) (cf_world cf) = Inr ((f, Some (Idle_task this)), w) \<Longrightarrow>
     sched_step env this cf [] (moves_to cf t (In_idle f) (sched_log ''idle'' w))"
| resume: "cf_at cf t = Some (Runs (Ctx_saved (User_code v))) \<Longrightarrow> t_fiber (fs_tls (w_fibers (cf_world cf)) t) = Some f \<Longrightarrow>
     sched_step env this cf [] (moves_to cf t (In_callback f) (cf_world cf))"
| resume_idle: "cf_at cf t = Some (Runs (Ctx_saved (Idle_yielded this))) \<Longrightarrow> t_fiber (fs_tls (w_fibers (cf_world cf)) t) = Some f \<Longrightarrow>
     sched_step env this cf [] (moves_to cf t (In_idle f) (cf_world cf))"
| back_fiber: "cf_at cf t = Some (Runs (Ctx_saved (After_fiber this l f))) \<Longrightarrow> leave_task this (cf_world cf) = Inr w \<Longrightarrow>
     sched_step env this cf [] (moves_to cf t (Settles_fiber l f) w)"
| settles_fiber: "cf_at cf t = Some (Settles_fiber l f) \<Longrightarrow> settle_fiber this l f (cf_world cf) = Inr (l', w) \<Longrightarrow>
     sched_step env this cf (requeued f (cf_world cf)) (moves_to cf t (In_loop l') w)"
| back_cb: "cf_at cf t = Some (Runs (Ctx_saved (After_cb this l))) \<Longrightarrow> leave_task this (cf_world cf) = Inr w \<Longrightarrow>
     sched_step env this cf [] (moves_to cf t (Settles_cb l) w)"
| settles_cb: "cf_at cf t = Some (Settles_cb l) \<Longrightarrow> settle_cb env this l (cf_world cf) = Inr (l', w) \<Longrightarrow>
     sched_step env this cf (case rl_cb l of None \<Rightarrow> [] | Some g \<Rightarrow> requeued g (cf_world cf)) (moves_to cf t (In_loop l') w)"
| back_idle: "cf_at cf t = Some (Runs (Ctx_saved (After_idle this l))) \<Longrightarrow> after_idle this l (cf_world cf) = Inr (l', w) \<Longrightarrow>
     sched_step env this cf [] (moves_to cf t (In_loop l') w)"
| idle_yields: "cf_at cf t = Some (In_idle f) \<Longrightarrow> idle_loop env t this (cf_world cf) = Inr (Some c, w) \<Longrightarrow>
     sched_step env this cf [] (moves_to cf t (Runs c) w)"
| idle_ends: "cf_at cf t = Some (In_idle f) \<Longrightarrow> idle_loop env t this (cf_world cf) = Inr (None, w) \<Longrightarrow>
     on_fibers (MainFunc_finish env t f None bt Never) w = Inr (c, w') \<Longrightarrow>
     sched_step env this cf [] (moves_to cf t (Runs c) w')"
| yields_ready: "cf_at cf t = Some (In_callback f) \<Longrightarrow> on_fibers (YieldToReady env t (User_code v)) (cf_world cf) = Inr (c, w) \<Longrightarrow>
     sched_step env this cf [] (moves_to cf t (Runs c) w)"
| yields_hold: "cf_at cf t = Some (In_callback f) \<Longrightarrow> on_fibers (YieldToHold env t (User_code v)) (cf_world cf) = Inr (c, w) \<Longrightarrow>
     sched_step env this cf [] (moves_to cf t (Runs c) w)"
| switches: "cf_at cf t = Some (In_callback f) \<Longrightarrow> t_fiber (fs_tls (w_fibers (cf_world cf)) t) = Some f \<Longrightarrow>
     switchTo env t this thr (User_code v) (cf_world cf) = Inr (Some c, w) \<Longrightarrow>
     sched_step env this cf (queued_by (Fiber_arg (Some f)) thr) (moves_to cf t (Runs c) w)"
| ends: "cf_at cf t = Some (In_callback f) \<Longrightarrow> on_fibers (MainFunc_finish env t f ended bt Never) (cf_world cf) = Inr (c, w) \<Longrightarrow>
     sched_step env this cf [] (moves_to cf t (Runs c) w)"
| schedules: "schedulable (cf_world cf) fc \<Longrightarrow> schedule this fc thr (cf_world cf) = Inr w \<Longrightarrow>
     sched_step env this cf (queued_by fc thr) (with_world cf w)"
| schedules_range: "\<forall>fc \<in> set fcs. schedulable (cf_world cf) fc \<Longrightarrow> schedule_range this fcs (cf_world cf) = Inr (fcs', w) \<Longrightarrow>
     sched_step env this cf (concat (map (\<lambda>fc. queued_by fc (- 1)) fcs)) (with_world cf w)"
| makes_fiber: "on_fibers (new_Fiber env cb sz False) (cf_world cf) = Inr (f, w) \<Longrightarrow>
     sched_step env this cf [] (with_world cf w)"
| stops: "cf_at cf t = None \<Longrightarrow> stop_begin env t this (cf_world cf) = Inr (Stop_joins, w) \<Longrightarrow>
     map_option sc_rootFiber (w_scheds (cf_world cf) this) = Some None \<Longrightarrow>
     sched_step env this cf [] (with_world cf w)"
| stops_itself: "cf_at cf t = Some Outside \<Longrightarrow> map_option sc_rootThread (w_scheds (cf_world cf) this) = Some t \<Longrightarrow>
     stop_begin env t this (cf_world cf) = Inr (n, w) \<Longrightarrow> n = Stop_returns \<or> n = Stop_joins \<Longrightarrow>
     sched_step env this cf [] (with_world cf w)"
| calls_root: "cf_at cf t = Some Outside \<Longrightarrow> map_option sc_rootThread (w_scheds (cf_world cf) this) = Some t \<Longrightarrow>
     stop_begin env t this (cf_world cf) = Inr (Stop_calls c, w) \<Longrightarrow>
     sched_step env this cf [] (moves_to cf t (Enters_root c) w)"
| begins_root: "cf_at cf t = Some (Enters_root (Ctx_start CallerMainFunc)) \<Longrightarrow>
     map_option sc_rootThread (w_scheds (cf_world cf) this) = Some t \<Longrightarrow>
     on_fibers (CallerMainFunc_enter env t) (cf_world cf) = Inr ((f, Some (Run_task this)), w) \<Longrightarrow>
     run_start env t this w = Inr (l, w') \<Longrightarrow>
     sched_step env this cf [] (moves_to cf t (In_loop l) w')"
| ends_root: "cf_at cf t = Some Out_of_loop \<Longrightarrow> map_option sc_rootThread (w_scheds (cf_world cf) this) = Some t \<Longrightarrow>
     GetMainFiber t (cf_world cf) = Some f \<Longrightarrow>
     on_fibers (CallerMainFunc_finish env t f None bt Never) (cf_world cf) = Inr (Ctx_saved (Stop_called this), w) \<Longrightarrow>
     sched_step env this cf [] (moves_to cf t Outside w)"

text \<open>
  A context that goes back into the loop of the scheduler, after a task (\<open>M_active\<close>) or after the
  idle fiber (\<open>M_idle\<close>).
\<close>

datatype mode = M_active | M_idle

fun back_mode :: "addr \<Rightarrow> 'v resume ctx \<Rightarrow> mode option" where
  "back_mode this (Ctx_saved (After_fiber a l f)) = (if a = this then Some M_active else None)"
| "back_mode this (Ctx_saved (After_cb a l)) = (if a = this then Some M_active else None)"
| "back_mode this (Ctx_saved (After_idle a l)) = (if a = this then Some M_idle else None)"
| "back_mode this _ = None"

text \<open>
  At first there is a scheduler with nothing to do, and no thread of it runs; a thread of its caller
  is outside, with the root fiber as the fiber in which it will run the loop. The main fibers that
  threads have exist, and no other thread runs its loop in them.
\<close>

definition caller_outside :: "('u, 'v) config \<Rightarrow> thread_id \<Rightarrow> bool" where
  "caller_outside cf t \<longleftrightarrow> cf_at cf t = Some Outside \<and>
     (\<exists>m r. t_threadFiber (fs_tls (w_fibers (cf_world cf)) t) = Some m \<and>
        t_scheduler_fiber (fs_tls (w_fibers (cf_world cf)) t) = Some r \<and> m \<noteq> r \<and> fs_fibers (w_fibers (cf_world cf)) r \<noteq> None)"

definition main_fibers_apart :: "('u, 'v) world \<Rightarrow> bool" where
  "main_fibers_apart w \<longleftrightarrow> (\<forall>t m. t_threadFiber (fs_tls (w_fibers w) t) = Some m \<longrightarrow> fs_fibers (w_fibers w) m \<noteq> None \<and>
     (\<forall>u. t_scheduler_fiber (fs_tls (w_fibers w) u) = Some m \<longrightarrow> u = t))"

definition first_config :: "addr \<Rightarrow> ('u, 'v) config \<Rightarrow> bool" where
  "first_config this cf \<longleftrightarrow>
     (\<exists>sc. w_scheds (cf_world cf) this = Some sc \<and> sc_fibers sc = [] \<and> sc_active sc = 0 \<and> sc_idle sc = 0 \<and>
        (\<forall>t. if t = sc_rootThread sc \<and> sc_rootFiber sc \<noteq> None then caller_outside cf t
             else cf_at cf t = None \<and> t_scheduler_fiber (fs_tls (w_fibers (cf_world cf)) t) = None)) \<and>
     main_fibers_apart (cf_world cf) \<and>
     fresh_in (fs_fibers (w_fibers (cf_world cf))) (fs_next (w_fibers (cf_world cf))) \<and>
     (\<forall>f b. fs_fibers (w_fibers (cf_world cf)) f = Some b \<longrightarrow> back_mode this (fb_ctx b) = None)"

inductive sched_run :: "fiber_env \<Rightarrow> addr \<Rightarrow> ('u, 'v) config \<Rightarrow> 'u event list \<Rightarrow> ('u, 'v) config \<Rightarrow> bool"
  for env :: fiber_env and this :: addr and cf0 :: "('u, 'v) config" where
  start: "sched_run env this cf0 [] cf0"
| step: "sched_run env this cf0 es cf \<Longrightarrow> sched_step env this cf es' cf' \<Longrightarrow> sched_run env this cf0 (es @ es') cf'"

text \<open>
  What a thread is busy with: it holds a task from the moment when it takes it until the fiber has
  given the thread back, and it is idle while its idle fiber runs. A thread that runs a fiber will go back to
  where the context of its loop fiber says.
\<close>

definition waits_for :: "addr \<Rightarrow> ('u, 'v) world \<Rightarrow> thread_id \<Rightarrow> mode option" where
  "waits_for this w t =
     (case t_scheduler_fiber (fs_tls (w_fibers w) t) of
        None \<Rightarrow> None
      | Some m \<Rightarrow> (case fs_fibers (w_fibers w) m of None \<Rightarrow> None | Some b \<Rightarrow> back_mode this (fb_ctx b)))"

definition place_mode :: "addr \<Rightarrow> ('u, 'v) world \<Rightarrow> thread_id \<Rightarrow> ('u, 'v) place \<Rightarrow> mode option" where
  "place_mode this w t p =
     (case p of
        Has_picked l tm act ft \<Rightarrow> if act then Some M_active else None
      | Runs c \<Rightarrow> (case back_mode this c of Some md \<Rightarrow> Some md | None \<Rightarrow> waits_for this w t)
      | In_callback f \<Rightarrow> waits_for this w t
      | In_idle f \<Rightarrow> waits_for this w t
      | _ \<Rightarrow> None)"

definition busy_with :: "addr \<Rightarrow> ('u, 'v) config \<Rightarrow> mode \<Rightarrow> thread_id set" where
  "busy_with this cf md = {t. \<exists>p. cf_at cf t = Some p \<and> place_mode this (cf_world cf) t p = Some md}"

end
