(* ===== verification/SchedulerInv.thy ===== *)
theory SchedulerInv
  imports SchedulerSteps
begin

text \<open>
  The invariant of the interleaved threads of a scheduler: every thread runs its loop in a fiber of
  its own, which nobody else enters or schedules, and the counters are the numbers of threads that
  hold a task and that are idle.
\<close>

section \<open>What the invariant looks at\<close>

definition ctx_of :: "('u, 'v) world \<Rightarrow> addr \<Rightarrow> 'v resume ctx option" where
  "ctx_of w f = map_option fb_ctx (fs_fibers (w_fibers w) f)"

abbreviation sfib :: "('u, 'v) world \<Rightarrow> thread_id \<Rightarrow> addr option" where
  "sfib w t \<equiv> t_scheduler_fiber (fs_tls (w_fibers w) t)"

abbreviation cur :: "('u, 'v) world \<Rightarrow> thread_id \<Rightarrow> addr option" where
  "cur w t \<equiv> t_fiber (fs_tls (w_fibers w) t)"

abbreviation mainf :: "('u, 'v) world \<Rightarrow> thread_id \<Rightarrow> addr option" where
  "mainf w t \<equiv> t_threadFiber (fs_tls (w_fibers w) t)"

definition free :: "('u, 'v) world \<Rightarrow> addr \<Rightarrow> bool" where
  "free w f \<longleftrightarrow> ctx_of w f \<noteq> None \<and> \<not> loop_fiber w f"

definition locals_fibers :: "run_locals \<Rightarrow> addr set" where
  "locals_fibers l = insert (rl_idle l) (set_option (rl_cb l))"

fun back_fibers :: "'v resume ctx \<Rightarrow> addr set" where
  "back_fibers (Ctx_saved (After_fiber a l f)) = insert f (locals_fibers l)"
| "back_fibers (Ctx_saved (After_cb a l)) = locals_fibers l"
| "back_fibers (Ctx_saved (After_idle a l)) = locals_fibers l"
| "back_fibers _ = {}"

definition inside :: "addr \<Rightarrow> ('u, 'v) world \<Rightarrow> thread_id \<Rightarrow> bool" where
  "inside this w t \<longleftrightarrow> (\<exists>f m c. cur w t = Some f \<and> free w f \<and> sfib w t = Some m \<and> ctx_of w m = Some c \<and>
     back_mode this c \<noteq> None \<and> (\<forall>g \<in> back_fibers c. free w g))"

definition place_ok :: "addr \<Rightarrow> ('u, 'v) world \<Rightarrow> thread_id \<Rightarrow> ('u, 'v) place \<Rightarrow> bool" where
  "place_ok this w t p \<longleftrightarrow> sfib w t \<noteq> None \<and>
     (case p of
        In_loop l \<Rightarrow> \<forall>g \<in> locals_fibers l. free w g
      | Has_picked l tm act ft \<Rightarrow> (\<forall>g \<in> locals_fibers l \<union> set_option (ft_fiber ft). free w g) \<and> (\<not> act \<longrightarrow> ft = no_task)
      | Runs c \<Rightarrow> if back_mode this c = None then inside this w t else (\<forall>g \<in> back_fibers c. free w g)
      | In_callback f \<Rightarrow> inside this w t \<and> cur w t = Some f
      | In_idle f \<Rightarrow> inside this w t \<and> cur w t = Some f
      | Settles_fiber l f \<Rightarrow> \<forall>g \<in> insert f (locals_fibers l). free w g
      | Settles_cb l \<Rightarrow> \<forall>g \<in> locals_fibers l. free w g
      | Out_of_loop \<Rightarrow> True
      | Outside \<Rightarrow> \<exists>m. mainf w t = Some m \<and> sfib w t \<noteq> Some m
      | Enters_root c \<Rightarrow> cur w t \<noteq> None)"

definition queue_ok :: "('u, 'v) world \<Rightarrow> 'u fiber_and_thread list \<Rightarrow> bool" where
  "queue_ok w q \<longleftrightarrow> (\<forall>it \<in> set q. has_task it \<and> (\<forall>f. ft_fiber it = Some f \<longrightarrow> free w f))"

definition fibers_apart :: "addr \<Rightarrow> ('u, 'v) world \<Rightarrow> bool" where
  "fibers_apart this w \<longleftrightarrow>
     (\<forall>t t' m. sfib w t = Some m \<longrightarrow> sfib w t' = Some m \<longrightarrow> t = t') \<and>
     (\<forall>t m. sfib w t = Some m \<longrightarrow> ctx_of w m \<noteq> None) \<and>
     fresh_in (fs_fibers (w_fibers w)) (fs_next (w_fibers w)) \<and>
     (\<forall>f c. ctx_of w f = Some c \<longrightarrow> \<not> loop_fiber w f \<longrightarrow> back_mode this c = None) \<and>
     (\<forall>t m. mainf w t = Some m \<longrightarrow> ctx_of w m \<noteq> None \<and> (\<forall>u. sfib w u = Some m \<longrightarrow> u = t))"

definition sched_inv :: "addr \<Rightarrow> ('u, 'v) config \<Rightarrow> bool" where
  "sched_inv this cf \<longleftrightarrow>
     fibers_apart this (cf_world cf) \<and> finite (dom (cf_at cf)) \<and>
     (\<forall>t. cf_at cf t = None \<longrightarrow> sfib (cf_world cf) t = None) \<and>
     (\<forall>t p. cf_at cf t = Some p \<longrightarrow> place_ok this (cf_world cf) t p) \<and>
     (\<exists>sc. w_scheds (cf_world cf) this = Some sc \<and> queue_ok (cf_world cf) (sc_fibers sc) \<and>
        sc_active sc = of_nat (card (busy_with this cf M_active)) \<and> sc_idle sc = of_nat (card (busy_with this cf M_idle)))"

lemma ctx_of_None [simp]: "ctx_of w f = None \<longleftrightarrow> fs_fibers (w_fibers w) f = None"
  by (simp add: ctx_of_def)

lemma waits_for_ctx: "waits_for this w t =
    (case sfib w t of None \<Rightarrow> None | Some m \<Rightarrow> (case ctx_of w m of None \<Rightarrow> None | Some c \<Rightarrow> back_mode this c))"
  by (simp add: waits_for_def ctx_of_def split: option.split)

section \<open>Moves of a thread\<close>

text \<open>
  The threads in \<open>T\<close> have moved: the context of a fiber is as before, or that of one of their loop
  fibers, or of a fiber that is not a loop fiber and does not lead back into a loop.
\<close>

definition moved :: "addr \<Rightarrow> thread_id set \<Rightarrow> ('u, 'v) world \<Rightarrow> ('u, 'v) world \<Rightarrow> bool" where
  "moved this T w w' \<longleftrightarrow> (\<forall>t. sfib w' t = sfib w t) \<and> (\<forall>t. mainf w' t = mainf w t) \<and> (\<forall>t. t \<notin> T \<longrightarrow> cur w' t = cur w t) \<and>
     fresh_in (fs_fibers (w_fibers w')) (fs_next (w_fibers w')) \<and>
     (\<forall>f. ctx_of w' f = ctx_of w f \<or> (\<exists>t \<in> T. sfib w t = Some f) \<and> ctx_of w' f \<noteq> None \<or>
        \<not> loop_fiber w f \<and> (\<exists>c. ctx_of w' f = Some c \<and> back_mode this c = None))"

lemma moved_loop_fiber: "moved this T w w' \<Longrightarrow> loop_fiber w' f = loop_fiber w f"
  by (simp add: moved_def loop_fiber_def)

lemma moved_ctx:
  "moved this T w w' \<Longrightarrow> ctx_of w' f = ctx_of w f \<or> (\<exists>t \<in> T. sfib w t = Some f) \<and> ctx_of w' f \<noteq> None \<or>
     \<not> loop_fiber w f \<and> (\<exists>c. ctx_of w' f = Some c \<and> back_mode this c = None)"
  unfolding moved_def by blast

lemma moved_trans:
  assumes a: "moved this T w w'" and b: "moved this T w' w''"
  shows "moved this T w w''"
proof -
  have s: "sfib w' t = sfib w t" "sfib w'' t = sfib w' t" for t using a b unfolding moved_def by blast+
  have "ctx_of w'' f = ctx_of w f \<or> (\<exists>t \<in> T. sfib w t = Some f) \<and> ctx_of w'' f \<noteq> None \<or>
     \<not> loop_fiber w f \<and> (\<exists>c. ctx_of w'' f = Some c \<and> back_mode this c = None)" for f
    using moved_ctx [OF a, of f] moved_ctx [OF b, of f] unfolding moved_loop_fiber [OF a] s by (elim disjE) auto
  then show ?thesis using a b unfolding moved_def by simp
qed

lemma moved_free: "moved this T w w' \<Longrightarrow> free w f \<Longrightarrow> free w' f"
proof -
  assume mv: "moved this T w w'" and f: "free w f"
  have "ctx_of w' f = ctx_of w f \<or> ctx_of w' f \<noteq> None" using mv unfolding moved_def by blast
  then have "ctx_of w' f \<noteq> None" using f unfolding free_def by metis
  then show ?thesis using f moved_loop_fiber [OF mv] by (simp add: free_def)
qed

lemma moved_other_ctx:
  assumes "moved this T w w'" and "fibers_apart this w" and "t \<notin> T" and "sfib w t = Some m"
  shows "ctx_of w' m = ctx_of w m"
proof -
  have "loop_fiber w m" using assms(4) by (auto simp: loop_fiber_def)
  moreover have "\<not> (\<exists>t' \<in> T. sfib w t' = Some m)" using assms(2,3,4) unfolding fibers_apart_def by blast
  ultimately show ?thesis using assms(1) unfolding moved_def by blast
qed

lemma moved_apart:
  assumes mv: "moved this T w w'" and ok: "fibers_apart this w"
  shows "fibers_apart this w'"
proof -
  have 1: "\<forall>t t' m. sfib w' t = Some m \<longrightarrow> sfib w' t' = Some m \<longrightarrow> t = t'"
    using mv ok unfolding moved_def fibers_apart_def by metis
  have 2: "ctx_of w' m \<noteq> None" if t: "sfib w' t = Some m" for t m
  proof -
    have "ctx_of w m \<noteq> None" using t mv ok unfolding moved_def fibers_apart_def by metis
    moreover have "ctx_of w' m = ctx_of w m \<or> ctx_of w' m \<noteq> None" using mv unfolding moved_def by blast
    ultimately show ?thesis by metis
  qed
  have 3: "back_mode this c = None" if c: "ctx_of w' f = Some c" "\<not> loop_fiber w' f" for f c
  proof -
    have n: "\<not> loop_fiber w f" using c(2) moved_loop_fiber [OF mv] by simp
    then have "\<not> (\<exists>t \<in> T. sfib w t = Some f)" by (auto simp: loop_fiber_def)
    then have "ctx_of w' f = ctx_of w f \<or> (\<exists>c. ctx_of w' f = Some c \<and> back_mode this c = None)"
      using mv unfolding moved_def by blast
    then show ?thesis using c(1) ok n unfolding fibers_apart_def by fastforce
  qed
  have 4: "ctx_of w' m \<noteq> None \<and> (\<forall>u. sfib w' u = Some m \<longrightarrow> u = t)" if t: "mainf w' t = Some m" for t m
  proof -
    have "mainf w t = Some m" using mv t unfolding moved_def by simp
    then have "ctx_of w m \<noteq> None \<and> (\<forall>u. sfib w u = Some m \<longrightarrow> u = t)" using ok unfolding fibers_apart_def by blast
    moreover have "ctx_of w' m = ctx_of w m \<or> ctx_of w' m \<noteq> None" using mv unfolding moved_def by blast
    ultimately show ?thesis using mv unfolding moved_def by metis
  qed
  show ?thesis using 1 2 3 4 mv unfolding fibers_apart_def moved_def by blast
qed

text \<open>What a thread that has not moved sees.\<close>

definition frame :: "thread_id set \<Rightarrow> ('u, 'v) world \<Rightarrow> ('u, 'v) world \<Rightarrow> bool" where
  "frame T w w' \<longleftrightarrow> (\<forall>f. free w f \<longrightarrow> free w' f) \<and>
     (\<forall>t. t \<notin> T \<longrightarrow> sfib w' t = sfib w t \<and> cur w' t = cur w t \<and> mainf w' t = mainf w t \<and> (\<forall>m. sfib w t = Some m \<longrightarrow> ctx_of w' m = ctx_of w m))"

lemma frame_trans:
  assumes a: "frame T w w'" and b: "frame T w' w''"
  shows "frame T w w''"
  unfolding frame_def
proof (intro conjI allI impI)
  fix f assume "free w f"
  then show "free w'' f" using a b unfolding frame_def by blast
next
  fix t assume t: "t \<notin> T"
  show s: "sfib w'' t = sfib w t" and "cur w'' t = cur w t" and "mainf w'' t = mainf w t" using a b t unfolding frame_def by simp_all
  fix m assume "sfib w t = Some m"
  then have "ctx_of w' m = ctx_of w m" "ctx_of w'' m = ctx_of w' m" using a b t unfolding frame_def by simp_all
  then show "ctx_of w'' m = ctx_of w m" by simp
qed

lemma frame_mono: "frame T w w' \<Longrightarrow> T \<subseteq> U \<Longrightarrow> frame U w w'"
  unfolding frame_def by blast

lemma frameD:
  assumes "frame T w w'"
  shows "free w f \<Longrightarrow> free w' f" and "t \<notin> T \<Longrightarrow> sfib w' t = sfib w t" and "t \<notin> T \<Longrightarrow> cur w' t = cur w t"
    and "t \<notin> T \<Longrightarrow> sfib w t = Some m \<Longrightarrow> ctx_of w' m = ctx_of w m" and "t \<notin> T \<Longrightarrow> mainf w' t = mainf w t"
  using assms unfolding frame_def by blast+

lemma moved_frame:
  assumes mv: "moved this T w w'" and ok: "fibers_apart this w"
  shows "frame T w w'"
  unfolding frame_def
proof (intro conjI allI impI)
  show "free w f \<Longrightarrow> free w' f" for f by (rule moved_free [OF mv])
  fix t assume t: "t \<notin> T"
  show "sfib w' t = sfib w t" "cur w' t = cur w t" "mainf w' t = mainf w t" using mv t unfolding moved_def by blast+
  show "ctx_of w' m = ctx_of w m" if "sfib w t = Some m" for m by (rule moved_other_ctx [OF mv ok t that])
qed

lemma frame_inside:
  assumes fr: "frame T w w'" and t: "t \<notin> T" and "inside this w t"
  shows "inside this w' t"
proof -
  obtain f m c where i: "cur w t = Some f" "free w f" "sfib w t = Some m" "ctx_of w m = Some c"
      "back_mode this c \<noteq> None" "\<forall>g \<in> back_fibers c. free w g" using assms(3) unfolding inside_def by blast
  have "cur w' t = Some f" "sfib w' t = Some m" "ctx_of w' m = Some c" using frameD(2-4) [OF fr t] i by simp_all
  then show ?thesis using i frameD(1) [OF fr] unfolding inside_def by blast
qed

lemma frame_place_ok:
  assumes fr: "frame T w w'" and t: "t \<notin> T" and p: "place_ok this w t p"
  shows "place_ok this w' t p"
proof -
  note free = frameD(1) [OF fr] and ins = frame_inside [OF fr t]
  have "sfib w' t = sfib w t" "cur w' t = cur w t" "mainf w' t = mainf w t" using frameD(2,3,5) [OF fr t] by simp_all
  then show ?thesis using p free ins by (cases p) (auto simp: place_ok_def split: if_splits)
qed

lemma frame_mode:
  assumes fr: "frame T w w'" and t: "t \<notin> T"
  shows "place_mode this w' t p = place_mode this w t p"
proof -
  have s: "sfib w' t = sfib w t" by (rule frameD(2) [OF fr t])
  have "waits_for this w' t = waits_for this w t"
  proof (cases "sfib w t")
    case (Some m)
    then have "ctx_of w' m = ctx_of w m" by (rule frameD(4) [OF fr t])
    then show ?thesis using s Some by (simp add: waits_for_ctx)
  qed (simp add: waits_for_ctx s)
  then show ?thesis by (simp add: place_mode_def split: place.split option.split)
qed

lemma frame_queue: "frame T w w' \<Longrightarrow> queue_ok w q \<Longrightarrow> queue_ok w' q"
  unfolding queue_ok_def by (blast intro: frameD(1))

section \<open>Counting\<close>

lemma card_one_changes:
  assumes "finite A" and "finite A'" and "A' - {t} = A - {t}"
  shows "(of_nat (card A') :: u64) = of_nat (card A) + of_bool (t \<in> A') - of_bool (t \<in> A)"
proof -
  have card: "(of_nat (card B) :: u64) = of_nat (card (B - {t})) + of_bool (t \<in> B)" if "finite B" for B
  proof (cases "t \<in> B")
    case True
    show ?thesis unfolding card.remove [OF that True] using True by simp
  qed simp
  show ?thesis using card [OF assms(1)] card [OF assms(2)] assms(3) by simp
qed

lemma busy_moves:
  assumes inv: "sched_inv this cf" and fr: "frame {t} (cf_world cf) w'"
  shows "(of_nat (card (busy_with this (moves_to cf t p' w') md)) :: u64) =
    of_nat (card (busy_with this cf md)) + of_bool (place_mode this w' t p' = Some md) -
    of_bool (\<exists>p. cf_at cf t = Some p \<and> place_mode this (cf_world cf) t p = Some md)"
proof -
  let ?A = "busy_with this cf md" and ?A' = "busy_with this (moves_to cf t p' w') md"
  have fin: "finite (dom (cf_at cf))" using inv by (simp add: sched_inv_def)
  have "?A \<subseteq> dom (cf_at cf)" "?A' \<subseteq> insert t (dom (cf_at cf))" by (auto simp: busy_with_def moves_to_def split: if_splits)
  then have "finite ?A" "finite ?A'" using fin finite_subset by blast+
  moreover have "?A' - {t} = ?A - {t}" using frame_mode [OF fr] by (auto simp: busy_with_def moves_to_def)
  moreover have "t \<in> ?A' \<longleftrightarrow> place_mode this w' t p' = Some md" by (simp add: busy_with_def moves_to_def)
  moreover have "t \<in> ?A \<longleftrightarrow> (\<exists>p. cf_at cf t = Some p \<and> place_mode this (cf_world cf) t p = Some md)" by (simp add: busy_with_def)
  ultimately show ?thesis using card_one_changes [of ?A ?A' t] by simp
qed

text \<open>A step of one thread, and a step of the others, keep the invariant.\<close>

lemma inv_move:
  assumes inv: "sched_inv this cf" and fr: "frame {t} (cf_world cf) w'" and ok: "fibers_apart this w'"
    and sc: "w_scheds (cf_world cf) this = Some sc" and sc': "w_scheds w' this = Some sc'"
    and q: "queue_ok w' (sc_fibers sc')" and p: "place_ok this w' t p'"
    and act: "sc_active sc' = sc_active sc + of_bool (place_mode this w' t p' = Some M_active) -
      of_bool (\<exists>p. cf_at cf t = Some p \<and> place_mode this (cf_world cf) t p = Some M_active)"
    and idl: "sc_idle sc' = sc_idle sc + of_bool (place_mode this w' t p' = Some M_idle) -
      of_bool (\<exists>p. cf_at cf t = Some p \<and> place_mode this (cf_world cf) t p = Some M_idle)"
  shows "sched_inv this (moves_to cf t p' w')"
proof -
  have "finite (dom (cf_at (moves_to cf t p' w')))" using inv by (simp add: sched_inv_def moves_to_def)
  moreover have "sfib w' u = None" if "cf_at (moves_to cf t p' w') u = None" for u
    using that inv frameD(2) [OF fr, of u] by (simp add: sched_inv_def moves_to_def split: if_splits)
  moreover have "place_ok this w' u x" if "cf_at (moves_to cf t p' w') u = Some x" for u x
  proof (cases "u = t")
    case True
    then show ?thesis using that p by (simp add: moves_to_def)
  next
    case False
    then have "place_ok this (cf_world cf) u x" using that inv by (simp add: sched_inv_def moves_to_def)
    then show ?thesis using frame_place_ok [OF fr] False by blast
  qed
  moreover have "sc_active sc' = of_nat (card (busy_with this (moves_to cf t p' w') M_active))"
      "sc_idle sc' = of_nat (card (busy_with this (moves_to cf t p' w') M_idle))"
    unfolding busy_moves [OF inv fr] act idl using inv sc by (simp_all add: sched_inv_def)
  moreover have "cf_world (moves_to cf t p' w') = w'" by (simp add: moves_to_def)
  ultimately show ?thesis using ok sc' q unfolding sched_inv_def by simp
qed

lemma inv_world:
  assumes inv: "sched_inv this cf" and fr: "frame {} (cf_world cf) w'" and ok: "fibers_apart this w'"
    and sc: "w_scheds (cf_world cf) this = Some sc" and sc': "w_scheds w' this = Some sc'"
    and q: "queue_ok w' (sc_fibers sc')" and cnt: "sc_active sc' = sc_active sc" "sc_idle sc' = sc_idle sc"
  shows "sched_inv this (with_world cf w')"
proof -
  have "busy_with this (with_world cf w') md = busy_with this cf md" for md
    using frame_mode [OF fr, of _ this] by (simp add: busy_with_def with_world_def)
  moreover have "sfib w' u = sfib (cf_world cf) u" for u using frameD(2) [OF fr, of u] by simp
  moreover have "place_ok this w' u x" if "cf_at cf u = Some x" for u x
    by (rule frame_place_ok [OF fr]) (use that inv in \<open>simp_all add: sched_inv_def\<close>)
  ultimately show ?thesis using inv ok sc sc' q cnt by (simp add: sched_inv_def with_world_def)
qed

section \<open>The operations as moves\<close>

lemma fresh_update: "fresh_in h n \<Longrightarrow> h a \<noteq> None \<Longrightarrow> fresh_in (h(a \<mapsto> x)) n"
  by (rule fresh_in_update)

text \<open>An operation that changes neither contexts nor thread-local variables.\<close>

lemma moved_same:
  assumes "fibers_apart this w" and "fs_tls (w_fibers w') = fs_tls (w_fibers w)" and "ctx_of w' = ctx_of w"
    and "fs_next (w_fibers w') = fs_next (w_fibers w)"
  shows "moved this T w w'"
proof -
  have "\<And>f. fs_fibers (w_fibers w') f = None \<longleftrightarrow> fs_fibers (w_fibers w) f = None"
    unfolding ctx_of_None [symmetric] using assms(3) by simp
  then have "fresh_in (fs_fibers (w_fibers w')) (fs_next (w_fibers w'))"
    using assms(1,4) unfolding fibers_apart_def fresh_in_def by simp
  then show ?thesis using assms(2,3) by (simp add: moved_def)
qed

lemma moved_same_run: "fibers_apart this w \<Longrightarrow> same_run w w' \<Longrightarrow> moved this T w w'"
  by (rule moved_same) (auto simp: same_run_def ctx_of_def fun_eq_iff)

text \<open>Entering a fiber.\<close>

definition enters :: "thread_id \<Rightarrow> addr \<Rightarrow> 'v resume \<Rightarrow> 'v resume ctx \<Rightarrow> ('u, 'v) world \<Rightarrow> ('u, 'v) world \<Rightarrow> bool" where
  "enters t f k c w w' \<longleftrightarrow> (\<exists>m. sfib w t = Some m \<and> ctx_of w' = (ctx_of w)(m \<mapsto> Ctx_saved k) \<and> ctx_of w m \<noteq> None \<and>
     ctx_of w f \<noteq> None \<and> (m \<noteq> f \<longrightarrow> ctx_of w f = Some c)) \<and>
     (\<forall>u. sfib w' u = sfib w u) \<and> (\<forall>u. mainf w' u = mainf w u) \<and> (\<forall>u. cur w' u = (if u = t then Some f else cur w u)) \<and>
     fs_next (w_fibers w') = fs_next (w_fibers w) \<and> w_scheds w' = w_scheds w"

lemma swapIn_enters_world:
  assumes "on_fibers (Fiber_swapIn env t f k) w = Inr (c, w')"
  shows "enters t f k c w w'"
proof -
  obtain s where s: "Fiber_swapIn env t f k (w_fibers w) = Inr (c, s)" "w' = w\<lparr>w_fibers := s\<rparr>"
    using assms by (auto simp: on_fibers_eq)
  obtain b m where b: "fs_fibers (w_fibers w) f = Some b" "sfib w t = Some m"
      and sw: "swapcontext env m f k (set_fiber f (b\<lparr>fb_state := ST_EXEC\<rparr>) (SetThis t (Some f) (w_fibers w))) = Inr (c, s)"
    using s(1) by (auto simp: Fiber_swapIn_def bind_out_eq_Inr deref_eq assert_that_eq Let_def SetThis_def set_fiber_def
        split: option.splits)
  then show ?thesis
    by (auto simp: swapcontext_def bind_out_eq_Inr deref_eq Let_def SetThis_def set_fiber_def enters_def ctx_of_def
        fun_eq_iff s(2) split: if_splits)
qed

text \<open>Leaving a fiber.\<close>

definition leaves :: "thread_id \<Rightarrow> addr \<Rightarrow> 'v resume \<Rightarrow> 'v resume ctx \<Rightarrow> ('u, 'v) world \<Rightarrow> ('u, 'v) world \<Rightarrow> bool" where
  "leaves t f k c w w' \<longleftrightarrow> (\<exists>m. sfib w t = Some m \<and> ctx_of w' = (ctx_of w)(f \<mapsto> Ctx_saved k) \<and> ctx_of w f \<noteq> None \<and>
     (m \<noteq> f \<longrightarrow> ctx_of w m = Some c)) \<and>
     (\<forall>u. sfib w' u = sfib w u) \<and> (\<forall>u. mainf w' u = mainf w u) \<and> (\<forall>u. u \<noteq> t \<longrightarrow> cur w' u = cur w u) \<and>
     fs_next (w_fibers w') = fs_next (w_fibers w) \<and> w_scheds w' = w_scheds w"

lemma swapOut_leaves_world:
  assumes "on_fibers (Fiber_swapOut env t f k) w = Inr (c, w')"
  shows "leaves t f k c w w'"
proof -
  obtain s where s: "Fiber_swapOut env t f k (w_fibers w) = Inr (c, s)" "w' = w\<lparr>w_fibers := s\<rparr>"
    using assms by (auto simp: on_fibers_eq)
  obtain m where m: "sfib w t = Some m" and sw: "swapcontext env f m k (SetThis t (Some m) (w_fibers w)) = Inr (c, s)"
    using s(1) by (auto simp: Fiber_swapOut_def Let_def SetThis_def split: option.splits)
  then show ?thesis
    by (auto simp: swapcontext_def bind_out_eq_Inr deref_eq Let_def SetThis_def set_fiber_def leaves_def ctx_of_def
        fun_eq_iff s(2) split: if_splits)
qed

lemma YieldToHold_leaves_world:
  "on_fibers (YieldToHold env t k) w = Inr (c, w') \<Longrightarrow> cur w t = Some f \<Longrightarrow> leaves t f k c w w'"
  by (rule swapOut_leaves_world)
    (auto simp: on_fibers_eq YieldToHold_def Fiber_GetThis_def bind_out_eq_Inr deref_eq assert_that_eq)

lemma leaves_cong:
  "leaves t f k c w1 w' \<Longrightarrow> ctx_of w1 = ctx_of w \<Longrightarrow> fs_tls (w_fibers w1) = fs_tls (w_fibers w) \<Longrightarrow>
   fs_next (w_fibers w1) = fs_next (w_fibers w) \<Longrightarrow> w_scheds w1 = w_scheds w \<Longrightarrow> leaves t f k c w w'"
  by (simp add: leaves_def)

lemma YieldToReady_leaves_world:
  assumes "on_fibers (YieldToReady env t k) w = Inr (c, w')" and "cur w t = Some f"
  shows "leaves t f k c w w'"
proof -
  obtain b where b: "fs_fibers (w_fibers w) f = Some b"
      "on_fibers (Fiber_swapOut env t f k) (w\<lparr>w_fibers := set_fiber f (b\<lparr>fb_state := ST_READY\<rparr>) (w_fibers w)\<rparr>) = Inr (c, w')"
    using assms by (auto simp: on_fibers_eq YieldToReady_def Fiber_GetThis_def bind_out_eq_Inr deref_eq assert_that_eq)
  show ?thesis
    by (rule leaves_cong [OF swapOut_leaves_world [OF b(2)]]) (use b(1) in \<open>auto simp: ctx_of_def fun_eq_iff set_fiber_def\<close>)
qed

lemma record_end_same_ctx:
  assumes "record_end f ended bt s = Inr s'"
  shows "fs_tls s' = fs_tls s \<and> fs_next s' = fs_next s \<and> (\<forall>g. map_option fb_ctx (fs_fibers s' g) = map_option fb_ctx (fs_fibers s g))"
proof -
  obtain b where b: "fs_fibers s f = Some b" using assms by (auto simp: record_end_def bind_out_eq_Inr deref_eq)
  show ?thesis
    using assms b by (cases ended) (auto simp: record_end_def deref_def fiber_log_def set_fiber_def)
qed

lemma finish_leaves_world:
  assumes "on_fibers (MainFunc_finish env t f ended bt k) w = Inr (c, w')"
  shows "leaves t f k c w w'"
proof -
  obtain s where s: "record_end f ended bt (w_fibers w) = Inr s"
      "on_fibers (Fiber_swapOut env t f k) (w\<lparr>w_fibers := s\<rparr>) = Inr (c, w')"
    using assms by (auto simp: on_fibers_eq MainFunc_finish_def bind_out_eq_Inr)
  show ?thesis
    by (rule leaves_cong [OF swapOut_leaves_world [OF s(2)]])
      (use record_end_same_ctx [OF s(1)] in \<open>auto simp: ctx_of_def fun_eq_iff\<close>)
qed

lemma enters_moved:
  assumes en: "enters t f k c w w'" and ok: "fibers_apart this w" and f: "free w f"
  shows "moved this {t} w w'" and "ctx_of w f = Some c" and "back_mode this c = None" and "cur w' t = Some f"
    and "waits_for this w' t = back_mode this (Ctx_saved k)"
proof -
  obtain m where m: "sfib w t = Some m" "ctx_of w' = (ctx_of w)(m \<mapsto> Ctx_saved k)" "ctx_of w m \<noteq> None"
      "m \<noteq> f \<longrightarrow> ctx_of w f = Some c" using en unfolding enters_def by blast
  have mf: "m \<noteq> f" using f m(1) by (auto simp: free_def loop_fiber_def)
  then show c: "ctx_of w f = Some c" using m(4) by blast
  then show "back_mode this c = None" using ok f unfolding fibers_apart_def free_def by blast
  show "cur w' t = Some f" using en unfolding enters_def by simp
  have s: "sfib w' u = sfib w u" for u using en unfolding enters_def by blast
  show "waits_for this w' t = back_mode this (Ctx_saved k)" using m(1,2) s by (simp add: waits_for_ctx)
  have "fs_fibers (w_fibers w') g = None \<longleftrightarrow> fs_fibers (w_fibers w) g = None" for g
    unfolding ctx_of_None [symmetric] m(2) using m(3) by simp
  then have "fresh_in (fs_fibers (w_fibers w')) (fs_next (w_fibers w'))"
    using ok en unfolding fibers_apart_def fresh_in_def enters_def by simp
  then show "moved this {t} w w'" using m en unfolding moved_def enters_def by auto
qed

lemma leaves_moved:
  assumes le: "leaves t f k c w w'" and ok: "fibers_apart this w" and f: "free w f" and k: "back_mode this (Ctx_saved k) = None"
    and m: "sfib w t = Some m"
  shows "moved this {t} w w'" and "ctx_of w m = Some c"
proof -
  obtain m' where m': "sfib w t = Some m'" "ctx_of w' = (ctx_of w)(f \<mapsto> Ctx_saved k)" "ctx_of w f \<noteq> None"
      "m' \<noteq> f \<longrightarrow> ctx_of w m' = Some c" using le unfolding leaves_def by blast
  have mf: "m \<noteq> f" using f m by (auto simp: free_def loop_fiber_def)
  then show "ctx_of w m = Some c" using m m' by simp
  have "fs_fibers (w_fibers w') g = None \<longleftrightarrow> fs_fibers (w_fibers w) g = None" for g
    unfolding ctx_of_None [symmetric] m'(2) using m'(3) by simp
  then have "fresh_in (fs_fibers (w_fibers w')) (fs_next (w_fibers w'))"
    using ok le unfolding fibers_apart_def fresh_in_def leaves_def by simp
  then show "moved this {t} w w'" using m' le f k unfolding moved_def leaves_def free_def by auto
qed

text \<open>Making and reusing a fiber.\<close>

lemma new_Fiber_moved:
  assumes "on_fibers (new_Fiber env cb sz uc) w = Inr (f, w')" and ok: "fibers_apart this w"
  shows "moved this {} w w'" and "free w' f" and "w_scheds w' = w_scheds w"
proof -
  have w': "ctx_of w' = (ctx_of w)(f \<mapsto> Ctx_start (if uc then CallerMainFunc else MainFunc))" "f = fs_next (w_fibers w)"
      "fs_tls (w_fibers w') = fs_tls (w_fibers w)" "fs_next (w_fibers w') = Suc f" "w_scheds w' = w_scheds w"
    using assms(1) by (auto simp: on_fibers_eq new_Fiber_def assert_that_eq Let_def fiber_log_def set_fiber_def ctx_of_def fun_eq_iff split: if_splits)
  show "w_scheds w' = w_scheds w" by (rule w'(5))
  have fr: "fresh_in (fs_fibers (w_fibers w)) (fs_next (w_fibers w))" using ok by (simp add: fibers_apart_def)
  then have none: "ctx_of w f = None" using w'(2) by (simp add: fresh_in_None)
  have nl: "\<not> loop_fiber w f" using ok none unfolding fibers_apart_def loop_fiber_def by blast
  have "fs_fibers (w_fibers w') g \<noteq> None \<longrightarrow> g < Suc f" for g
  proof -
    have "ctx_of w' g \<noteq> None \<longrightarrow> g < Suc f"
      using fr w'(1,2) unfolding fresh_in_def ctx_of_None [symmetric] by (auto simp: less_Suc_eq simp del: ctx_of_None)
    then show ?thesis by (simp del: not_None_eq)
  qed
  then have "fresh_in (fs_fibers (w_fibers w')) (fs_next (w_fibers w'))" using w'(4) by (simp add: fresh_in_def)
  then show mv: "moved this {} w w'" using w' nl unfolding moved_def by auto
  show "free w' f" using moved_loop_fiber [OF mv] nl w'(1) by (simp add: free_def del: ctx_of_None)
qed

lemma reset_moved:
  assumes "Fiber_reset env f cb (w_fibers w) = Inr s" and ok: "fibers_apart this w" and f: "free w f"
  shows "moved this {} w (w\<lparr>w_fibers := s\<rparr>)"
proof -
  let ?w = "w\<lparr>w_fibers := s\<rparr>"
  have w': "ctx_of ?w = (ctx_of w)(f \<mapsto> Ctx_start MainFunc)" "fs_tls s = fs_tls (w_fibers w)" "fs_next s = fs_next (w_fibers w)"
    using assms(1) by (auto simp: Fiber_reset_def assert_that_eq bind_out_eq_Inr deref_eq set_fiber_def ctx_of_def fun_eq_iff)
  have "fs_fibers s g = None \<longleftrightarrow> fs_fibers (w_fibers w) g = None" for g
    using ctx_of_None [of ?w g] f unfolding w'(1) by (auto simp: free_def simp del: not_None_eq split: if_splits)
  then have "fresh_in (fs_fibers s) (fs_next s)" using ok w'(3) unfolding fibers_apart_def fresh_in_def by simp
  then show ?thesis using w' f unfolding moved_def free_def by auto
qed

end
