(* ===== verification/SchedulerSafe.thy ===== *)
theory SchedulerSafe
  imports SchedulerInv
begin

text \<open>
  Every step of the threads of a scheduler keeps the invariant of \<open>SchedulerInv\<close>.
\<close>

section \<open>Entering and leaving\<close>

lemma enter_ok:
  assumes en: "enters t f k c w w'" and ok: "fibers_apart this w" and f: "free w f"
    and k: "back_mode this (Ctx_saved k) = Some md" and g: "\<forall>g \<in> back_fibers (Ctx_saved k). free w g"
  shows "moved this {t} w w'" and "place_ok this w' t (Runs c)" and "place_mode this w' t (Runs c) = Some md"
proof -
  note mv = enters_moved [OF en ok f]
  show "moved this {t} w w'" by (rule mv(1))
  obtain m where m: "sfib w' t = Some m" "ctx_of w' m = Some (Ctx_saved k)" using en unfolding enters_def by auto
  have "inside this w' t"
    unfolding inside_def using m mv(4) k g moved_free [OF mv(1)] f by (intro exI [of _ f] exI [of _ m] exI [of _ "Ctx_saved k"]) simp
  then show "place_ok this w' t (Runs c)" using mv(3) m by (simp add: place_ok_def)
  show "place_mode this w' t (Runs c) = Some md" using mv(3,5) k by (simp add: place_mode_def)
qed

lemma leave_ok:
  assumes le: "leaves t f k c w w'" and ok: "fibers_apart this w" and ins: "inside this w t" and cur: "cur w t = Some f"
    and k: "back_mode this (Ctx_saved k) = None"
  shows "moved this {t} w w'" and "place_ok this w' t (Runs c)" and "place_mode this w' t (Runs c) = waits_for this w t"
proof -
  obtain m c' where i: "free w f" "sfib w t = Some m" "ctx_of w m = Some c'" "back_mode this c' \<noteq> None"
      "\<forall>g \<in> back_fibers c'. free w g" using ins cur unfolding inside_def by auto
  note mv = leaves_moved [OF le ok i(1) k i(2)]
  show "moved this {t} w w'" by (rule mv(1))
  have c: "c' = c" using i(3) mv(2) by simp
  have "sfib w' t \<noteq> None" using mv(1) i(2) unfolding moved_def by auto
  then show "place_ok this w' t (Runs c)" using i(4,5) c moved_free [OF mv(1)] by (auto simp: place_ok_def)
  show "place_mode this w' t (Runs c) = waits_for this w t"
    using i(2,3,4) c by (auto simp: place_mode_def waits_for_ctx)
qed

section \<open>What the steps do to the scheduler\<close>

lemma pick_loop_found:
  "pick_loop st t b seen q = Inr (tm, Some (ft, left)) \<Longrightarrow>
   \<exists>pre post. q = pre @ ft # post \<and> left = seen @ pre @ post \<and> has_task ft \<and> \<not> for_another t ft"
proof (induction q arbitrary: b seen)
  case (Cons it q)
  show ?case
  proof (cases "for_another t it")
    case True
    then have "pick_loop st t True (seen @ [it]) q = Inr (tm, Some (ft, left))"
      using Cons.prems by (simp add: for_another_def)
    from Cons.IH [OF this] obtain pre post where "q = pre @ ft # post" "left = (seen @ [it]) @ pre @ post" "has_task ft" "\<not> for_another t ft"
      by blast
    then show ?thesis by (intro exI [of _ "it # pre"] exI [of _ post]) simp
  next
    case False
    then have task: "has_task it" and rest: "(\<exists>busy. if busy then pick_loop st t b (seen @ [it]) q = Inr (tm, Some (ft, left))
        else ft = it \<and> left = seen @ q)"
      using Cons.prems by (auto simp: for_another_def assert_that_eq bind_out_eq_Inr split: if_splits)
    then consider "pick_loop st t b (seen @ [it]) q = Inr (tm, Some (ft, left))" | "ft = it" "left = seen @ q" by (auto split: if_splits)
    then show ?thesis
    proof cases
      case 1
      from Cons.IH [OF this] obtain pre post where "q = pre @ ft # post" "left = (seen @ [it]) @ pre @ post" "has_task ft" "\<not> for_another t ft"
        by blast
      then show ?thesis by (intro exI [of _ "it # pre"] exI [of _ post]) simp
    next
      case 2
      then show ?thesis using task False by (intro exI [of _ "[]"] exI [of _ q]) simp
    qed
  qed
qed simp

lemma run_pick_effect:
  assumes "run_pick t this w = Inr ((tm, act, ft), w')" and sc: "w_scheds w this = Some sc"
  shows "if act then \<exists>pre post. sc_fibers sc = pre @ ft # post \<and> has_task ft \<and> \<not> for_another t ft \<and>
       w' = set_sched this (sc\<lparr>sc_fibers := pre @ post, sc_active := sc_active sc + 1\<rparr>) w
     else ft = no_task \<and> w' = w"
proof -
  obtain found where p: "pick_loop (\<lambda>f. fiber_state f w) t False [] (sc_fibers sc) = Inr (tm, found)"
      "(case found of None \<Rightarrow> Inr ((tm, False, no_task), w)
        | Some (ft, left) \<Rightarrow> Inr ((tm, True, ft), set_sched this (sc\<lparr>sc_fibers := left, sc_active := sc_active sc + 1\<rparr>) w)) =
       (Inr ((tm, act, ft), w') :: ((bool \<times> bool \<times> 'a fiber_and_thread) \<times> ('a, 'b) world) outcome)"
    using assms by (auto simp: run_pick_def sched_at_def bind_out_eq_Inr split: option.splits)
  show ?thesis
  proof (cases found)
    case None
    then show ?thesis using p(2) by auto
  next
    case (Some x)
    obtain ft' left where x: "x = (ft', left)" by (cases x)
    then have "act" "ft' = ft" "w' = set_sched this (sc\<lparr>sc_fibers := left, sc_active := sc_active sc + 1\<rparr>) w"
      using p(2) Some by auto
    moreover have "\<exists>pre post. sc_fibers sc = pre @ ft' # post \<and> left = pre @ post \<and> has_task ft' \<and> \<not> for_another t ft'"
      using pick_loop_found [of _ _ _ "[]"] p(1) Some x by fastforce
    ultimately show ?thesis by auto
  qed
qed

lemma schedule_effect:
  assumes "schedule this fc thr w = Inr w'" and "w_scheds w this = Some sc"
  shows "same_run w w'" and "w_scheds w' this = Some (sc\<lparr>sc_fibers := sc_fibers sc @ [ft \<leftarrow> [new_FiberAndThread fc thr]. has_task ft]\<rparr>)"
  using schedule_run [OF assms(2), of fc thr] assms(1) by auto

section \<open>Each step keeps the invariant\<close>

lemma invD:
  assumes "sched_inv this cf"
  shows "fibers_apart this (cf_world cf)" and "cf_at cf t = Some p \<Longrightarrow> place_ok this (cf_world cf) t p"
    and "\<exists>sc. w_scheds (cf_world cf) this = Some sc \<and> queue_ok (cf_world cf) (sc_fibers sc)"
    and "cf_at cf t = None \<Longrightarrow> sfib (cf_world cf) t = None"
  using assms unfolding sched_inv_def by blast+

text \<open>
  A step of one thread, with what it was busy with before and is busy with afterwards.
\<close>

lemma inv_step:
  assumes inv: "sched_inv this cf" and at: "cf_at cf t = Some p" and mv: "moved this {t} (cf_world cf) w'"
    and sc: "w_scheds (cf_world cf) this = Some sc" and sc': "w_scheds w' this = Some sc'"
    and q: "queue_ok w' (sc_fibers sc')" and p: "place_ok this w' t p'"
    and mo: "place_mode this (cf_world cf) t p = mo" and mn: "place_mode this w' t p' = mn"
    and act: "sc_active sc' = sc_active sc + of_bool (mn = Some M_active) - of_bool (mo = Some M_active)"
    and idl: "sc_idle sc' = sc_idle sc + of_bool (mn = Some M_idle) - of_bool (mo = Some M_idle)"
  shows "sched_inv this (moves_to cf t p' w')"
proof -
  have "(\<exists>p. cf_at cf t = Some p \<and> place_mode this (cf_world cf) t p = md) \<longleftrightarrow> mo = md" for md
    using at mo by simp
  then show ?thesis
    by (intro inv_move [OF inv moved_frame [OF mv invD(1) [OF inv]] moved_apart [OF mv invD(1) [OF inv]] sc sc' q p])
      (simp_all only: mn act idl)
qed

lemma inv_pick:
  assumes inv: "sched_inv this cf" and at: "cf_at cf t = Some (In_loop l)"
    and run: "run_pick t this (cf_world cf) = Inr ((tm, act, ft), w)"
  shows "sched_inv this (moves_to cf t (Has_picked l tm act ft) w)"
proof -
  let ?w = "cf_world cf"
  obtain sc where sc: "w_scheds ?w this = Some sc" "queue_ok ?w (sc_fibers sc)" using invD(3) [OF inv] by blast
  have p: "place_ok this ?w t (In_loop l)" by (rule invD(2) [OF inv at])
  have old: "place_mode this ?w t (In_loop l) = None" by (simp add: place_mode_def)
  have new: "place_mode this v t (Has_picked l tm act ft) = (if act then Some M_active else None)" for v by (simp add: place_mode_def)
  show ?thesis
  proof (cases act)
    case True
    then obtain pre post where q: "sc_fibers sc = pre @ ft # post" "w = set_sched this (sc\<lparr>sc_fibers := pre @ post, sc_active := sc_active sc + 1\<rparr>) ?w"
      using run_pick_effect [OF run sc(1)] by auto
    have mv: "moved this {t} ?w w" unfolding q(2) by (rule moved_same_run [OF invD(1) [OF inv]]) simp
    note free = moved_free [OF mv]
    have qok: "queue_ok w (pre @ post)" and "\<forall>g \<in> set_option (ft_fiber ft). free w g"
      using sc(2) free unfolding queue_ok_def q(1) by auto
    then have pl: "place_ok this w t (Has_picked l tm act ft)"
      using p True free mv by (auto simp: place_ok_def moved_def)
    have sc': "w_scheds w this = Some (sc\<lparr>sc_fibers := pre @ post, sc_active := sc_active sc + 1\<rparr>)" by (simp add: q(2))
    show ?thesis
      by (rule inv_step [OF inv at mv sc(1) sc' _ pl old new]) (use True qok in simp_all)
  next
    case False
    then have w: "ft = no_task" "w = ?w" using run_pick_effect [OF run sc(1)] by auto
    have mv: "moved this {t} ?w w" unfolding w(2) by (rule moved_same_run [OF invD(1) [OF inv]]) simp
    have pl: "place_ok this w t (Has_picked l tm act ft)" using p False w by (auto simp: place_ok_def no_task_def)
    show ?thesis
      by (rule inv_step [OF inv at mv sc(1) sc(1) [folded w(2)] _ pl old new]) (use False sc(2) w in simp_all)
  qed
qed

text \<open>Entering a fiber from the loop, after changes that leave contexts of loop fibers alone.\<close>

lemma inv_enter:
  assumes inv: "sched_inv this cf" and at: "cf_at cf t = Some p"
    and mv: "moved this {t} (cf_world cf) w1" and en: "enters t f k c w1 w"
    and f: "free w1 f" and k: "back_mode this (Ctx_saved k) = Some md" and g: "\<forall>g \<in> back_fibers (Ctx_saved k). free w1 g"
    and sc: "w_scheds (cf_world cf) this = Some sc" and sc': "w_scheds w1 this = Some sc'" and q: "sc_fibers sc' = sc_fibers sc"
    and cnt: "sc_active sc' = sc_active sc + of_bool (md = M_active) - of_bool (place_mode this (cf_world cf) t p = Some M_active)"
      "sc_idle sc' = sc_idle sc + of_bool (md = M_idle) - of_bool (place_mode this (cf_world cf) t p = Some M_idle)"
  shows "sched_inv this (moves_to cf t (Runs c) w)"
proof -
  have apart: "fibers_apart this w1" by (rule moved_apart [OF mv invD(1) [OF inv]])
  note e = enter_ok [OF en apart f k g]
  have mv': "moved this {t} (cf_world cf) w" by (rule moved_trans [OF mv e(1)])
  have "w_scheds w this = Some sc'" using sc' en by (simp add: enters_def)
  moreover have "queue_ok w (sc_fibers sc')"
    using invD(3) [OF inv] sc q frame_queue [OF moved_frame [OF mv' invD(1) [OF inv]]] by auto
  ultimately show ?thesis
    using e(2) by (rule inv_step [OF inv at mv' sc _ _ _ refl e(3)]) (use cnt in \<open>auto simp: of_bool_def\<close>)
qed

lemma loop_mode: "place_mode this w t (In_loop l) = None"
  by (simp add: place_mode_def)

lemma out_mode: "place_mode this w t Out_of_loop = None"
  by (simp add: place_mode_def)

lemma moved_into: "moved this {} w w' \<Longrightarrow> moved this {t} w w'"
  unfolding moved_def by blast

lemma moved_queue: "moved this T w w' \<Longrightarrow> queue_ok w q \<Longrightarrow> queue_ok w' q"
  unfolding queue_ok_def by (blast intro: moved_free)

lemma tickle_moved: "fibers_apart this w \<Longrightarrow> moved this T w (if b then tickle w else w)"
  by (rule moved_same_run) auto

lemma back_modes [simp]:
  "back_mode this (Ctx_saved (After_fiber this l f)) = Some M_active"
  "back_mode this (Ctx_saved (After_cb this l)) = Some M_active"
  "back_mode this (Ctx_saved (After_idle this l)) = Some M_idle"
  by simp_all

lemma fiber_state_same_run: "same_run w w' \<Longrightarrow> fiber_state f w' = fiber_state f w"
  by (rule same_run_state)

text \<open>The choice that \<open>run_dispatch\<close> makes.\<close>

lemma run_dispatch_cases:
  assumes "run_dispatch env t this l (tm, act, ft) w = Inr (n, w')"
  obtains (Fiber_task) f where "ft_fiber ft = Some f"
      "dispatch_fiber env t this l f (if tm then tickle w else w) = Inr (n, w')"
    | (Cb_task) cb where "ft_cb ft = Some cb" "dispatch_cb env t this l cb (if tm then tickle w else w) = Inr (n, w')"
    | (Nothing) "dispatch_idle env t this l act (if tm then tickle w else w) = Inr (n, w')"
proof -
  let ?w = "if tm then tickle w else w"
  obtain r where r: "(case ft_fiber ft of None \<Rightarrow> Inr None
        | Some f \<Rightarrow> bind_out (fiber_state f ?w) (\<lambda>st. Inr (if ended_state st then None else Some f))) = (Inr r :: addr option outcome)"
      "(case r of Some f \<Rightarrow> dispatch_fiber env t this l f ?w
        | None \<Rightarrow> (case ft_cb ft of Some cb \<Rightarrow> dispatch_cb env t this l cb ?w | None \<Rightarrow> dispatch_idle env t this l act ?w)) = Inr (n, w')"
    using assms unfolding run_dispatch_def Let_def prod.case bind_out_eq_Inr by blast
  show ?thesis
  proof (cases r)
    case None
    show ?thesis
    proof (cases "ft_cb ft")
      case None
      then show ?thesis using r(2) \<open>r = None\<close> that(3) by simp
    next
      case (Some cb)
      then show ?thesis using r(2) \<open>r = None\<close> that(2) by simp
    qed
  next
    case (Some f)
    then have "ft_fiber ft = Some f" using r(1) by (auto simp: bind_out_eq_Inr split: option.splits if_splits)
    then show ?thesis using that(1) r(2) Some by simp
  qed
qed

lemma inv_dispatch:
  assumes inv: "sched_inv this cf" and at: "cf_at cf t = Some (Has_picked l tm act ft)"
    and run: "run_dispatch env t this l (tm, act, ft) (cf_world cf) = Inr (n, w)"
  shows "sched_inv this (moves_to cf t (place_of n) w)"
proof -
  let ?w = "cf_world cf" and ?w1 = "if tm then tickle (cf_world cf) else cf_world cf"
  obtain sc where sc: "w_scheds ?w this = Some sc" "queue_ok ?w (sc_fibers sc)" using invD(3) [OF inv] by blast
  have p: "place_ok this ?w t (Has_picked l tm act ft)" by (rule invD(2) [OF inv at])
  have mv1: "moved this {t} ?w ?w1" by (rule tickle_moved [OF invD(1) [OF inv]])
  have apart: "fibers_apart this ?w1" by (rule moved_apart [OF mv1 invD(1) [OF inv]])
  have sc1: "w_scheds ?w1 this = Some sc" using sc(1) by simp
  have locals: "\<forall>g \<in> locals_fibers l. free ?w1 g" and taskf: "\<And>f. ft_fiber ft = Some f \<Longrightarrow> free ?w1 f"
    and noact: "\<not> act \<Longrightarrow> ft = no_task" and sf: "sfib ?w1 t \<noteq> None"
    using p moved_free [OF mv1] by (auto simp: place_ok_def)
  have old: "place_mode this ?w t (Has_picked l tm act ft) = (if act then Some M_active else None)" by (simp add: place_mode_def)
  from run show ?thesis
  proof (cases rule: run_dispatch_cases)
    case (Fiber_task f)
    have act: act using noact Fiber_task(1) by (cases act) (auto simp: no_task_def)
    obtain c where c: "n = Switch_to c" "on_fibers (Fiber_swapIn env t f (After_fiber this l f)) ?w1 = Inr (c, w)"
      using Fiber_task(2) by (auto simp: dispatch_fiber_def bind_out_eq_Inr)
    show ?thesis unfolding c(1) place_of_def run_next.case
      by (rule inv_enter [OF inv at mv1 swapIn_enters_world [OF c(2)] taskf [OF Fiber_task(1)] back_modes(1) _ sc(1) sc1])
        (use locals taskf [OF Fiber_task(1)] act old in auto)
  next
    case (Cb_task cb)
    have act: act using noact Cb_task(1) by (cases act) (auto simp: no_task_def)
    obtain g w2 c where g: "(case rl_cb l of
          Some g \<Rightarrow> bind_out (Fiber_reset env g (Some cb) (w_fibers ?w1)) (\<lambda>fs. Inr (g, ?w1\<lparr>w_fibers := fs\<rparr>))
        | None \<Rightarrow> on_fibers (new_Fiber env (Some cb) 0 False) ?w1) = Inr (g, w2)"
        and c: "n = Switch_to c" "on_fibers (Fiber_swapIn env t g (After_cb this (l\<lparr>rl_cb := Some g\<rparr>))) w2 = Inr (c, w)"
      using Cb_task(2) by (auto simp: dispatch_cb_def bind_out_eq_Inr)
    have made: "moved this {} ?w1 w2" "free w2 g" "w_scheds w2 this = Some sc"
    proof -
      consider g' s where "rl_cb l = Some g'" "g = g'" "Fiber_reset env g' (Some cb) (w_fibers ?w1) = Inr s" "w2 = ?w1\<lparr>w_fibers := s\<rparr>"
        | "on_fibers (new_Fiber env (Some cb) 0 False) ?w1 = Inr (g, w2)"
        using g by (cases "rl_cb l") (auto simp: bind_out_eq_Inr)
      then have "moved this {} ?w1 w2 \<and> free w2 g \<and> w_scheds w2 this = Some sc"
      proof cases
        case 1
        then have "free ?w1 g" using locals by (auto simp: locals_fibers_def)
        then show ?thesis using reset_moved [OF 1(3) apart] moved_free 1 sc1 by auto
      next
        case 2
        show ?thesis using new_Fiber_moved [OF 2 apart] sc1 by simp
      qed
      then show "moved this {} ?w1 w2" "free w2 g" "w_scheds w2 this = Some sc" by blast+
    qed
    have mv2: "moved this {t} ?w w2" by (rule moved_trans [OF mv1 moved_into [OF made(1)]])
    have "\<forall>h \<in> back_fibers (Ctx_saved (After_cb this (l\<lparr>rl_cb := Some g\<rparr>))). free w2 h"
      using locals made(2) moved_free [OF made(1)] by (auto simp: locals_fibers_def)
    then show ?thesis unfolding c(1) place_of_def run_next.case
      by (rule inv_enter [OF inv at mv2 swapIn_enters_world [OF c(2)] made(2) back_modes(2) _ sc(1) made(3)])
        (use act old in auto)
  next
    case Nothing
    show ?thesis
    proof (cases act)
      case True
      then have w: "n = Next_round l" "w = set_sched this (sc\<lparr>sc_active := sc_active sc - 1\<rparr>) ?w1"
        using Nothing sc1 by (auto simp: dispatch_idle_def on_sched_run bind_out_eq_Inr)
      have mv: "moved this {t} ?w w" unfolding w(2) by (rule moved_trans [OF mv1 moved_same_run [OF apart]]) simp
      have pl: "place_ok this w t (In_loop l)"
        using p moved_free [OF mv] mv by (auto simp: place_ok_def moved_def)
      have q: "queue_ok w (sc_fibers sc)" by (rule moved_queue [OF mv sc(2)])
      show ?thesis unfolding w(1) place_of_def run_next.case
        by (rule inv_step [OF inv at mv sc(1) _ _ pl old loop_mode, of "sc\<lparr>sc_active := sc_active sc - 1\<rparr>"])
          (use True q w(2) in simp_all)
    next
      case False
      obtain st where st: "fiber_state (rl_idle l) ?w1 = Inr st" using Nothing False by (auto simp: dispatch_idle_def bind_out_eq_Inr)
      have idle: "free ?w1 (rl_idle l)" using locals by (simp add: locals_fibers_def)
      show ?thesis
      proof (cases "st = ST_TERM")
        case True
        then have w: "n = End_of_run l" "w = sched_log ''idle fiber term'' ?w1" using Nothing False st by (simp_all add: dispatch_idle_def)
        have mv: "moved this {t} ?w w" unfolding w(2) by (rule moved_trans [OF mv1 moved_same_run [OF apart]]) simp
        have q: "queue_ok w (sc_fibers sc)" by (rule moved_queue [OF mv sc(2)])
        have pl: "place_ok this w t Out_of_loop" using p mv by (simp add: place_ok_def moved_def)
        show ?thesis unfolding w(1) place_of_def run_next.case
          by (rule inv_step [OF inv at mv sc(1) _ q pl old out_mode]) (use False sc1 w(2) in simp_all)
      next
        case run_idle: False
        define w2 where "w2 = set_sched this (sc\<lparr>sc_idle := sc_idle sc + 1\<rparr>) ?w1"
        obtain c where c: "n = Switch_to c" "on_fibers (Fiber_swapIn env t (rl_idle l) (After_idle this l)) w2 = Inr (c, w)"
          using Nothing False st run_idle sc1 by (auto simp: dispatch_idle_def on_sched_run bind_out_eq_Inr w2_def)
        have mv2: "moved this {t} ?w1 w2" unfolding w2_def by (rule moved_same_run [OF apart]) simp
        have "\<forall>g \<in> back_fibers (Ctx_saved (After_idle this l)). free w2 g" using locals moved_free [OF mv2] by simp
        then show ?thesis unfolding c(1) place_of_def run_next.case
          by (rule inv_enter [OF inv at moved_trans [OF mv1 mv2] swapIn_enters_world [OF c(2)] moved_free [OF mv2 idle] back_modes(3) _ sc(1),
                of "sc\<lparr>sc_idle := sc_idle sc + 1\<rparr>"])
            (use False old in \<open>auto simp: w2_def\<close>)
      qed
    qed
  qed
qed

text \<open>Steps inside a fiber that keep what the thread is busy with.\<close>

lemma inside_modes: "inside this w t \<Longrightarrow> \<exists>md. waits_for this w t = Some md"
  unfolding inside_def waits_for_ctx by auto

lemma fiber_modes:
  "place_mode this w t (In_callback f) = waits_for this w t" "place_mode this w t (In_idle f) = waits_for this w t"
  "back_mode this c = None \<Longrightarrow> place_mode this w t (Runs c) = waits_for this w t"
  by (simp_all add: place_mode_def)

lemma waits_same: "fs_tls (w_fibers w') = fs_tls (w_fibers w) \<Longrightarrow> ctx_of w' = ctx_of w \<Longrightarrow> waits_for this w' t = waits_for this w t"
  unfolding waits_for_ctx by (elim ssubst) (rule refl)

text \<open>A step that changes nothing of the fibers, from one place inside a fiber to another.\<close>

lemma inv_inside:
  assumes inv: "sched_inv this cf" and at: "cf_at cf t = Some p" and p: "place_mode this (cf_world cf) t p = waits_for this (cf_world cf) t"
    and same: "same_run (cf_world cf) w" and sc: "w_scheds w this = w_scheds (cf_world cf) this"
    and ins: "inside this (cf_world cf) t" and cur: "cur (cf_world cf) t = Some f" and p': "p' = In_callback f \<or> p' = In_idle f"
  shows "sched_inv this (moves_to cf t p' w)"
proof -
  let ?w = "cf_world cf"
  obtain s where s: "w_scheds ?w this = Some s" "queue_ok ?w (sc_fibers s)" using invD(3) [OF inv] by blast
  have mv: "moved this {t} ?w w" by (rule moved_same_run [OF invD(1) [OF inv] same])
  have ctx: "ctx_of w = ctx_of ?w" "fs_tls (w_fibers w) = fs_tls (w_fibers ?w)" using same by (auto simp: same_run_def ctx_of_def)
  have "inside this w t" using ins ctx moved_free [OF mv] unfolding inside_def by metis
  then have pl: "place_ok this w t p'" using p' cur ctx(2) by (auto simp: place_ok_def inside_def)
  have new: "place_mode this w t p' = waits_for this ?w t" using p' fiber_modes waits_same [OF ctx(2,1)] by metis
  show ?thesis
    by (rule inv_step [OF inv at mv s(1) _ moved_queue [OF mv s(2)] pl p new]) (use sc s(1) in simp_all)
qed

lemma place_inside:
  assumes "place_ok this w t p" and "p = In_callback f \<or> p = In_idle f \<or> p = Runs c \<and> back_mode this c = None"
  shows "inside this w t"
  using assms by (auto simp: place_ok_def)

lemma MainFunc_enter_same:
  assumes "on_fibers (MainFunc_enter env t) w = Inr ((f, cb), w')" and "cur w t = Some g"
  shows "f = g" and "w' = w"
  using assms by (auto simp: on_fibers_eq MainFunc_enter_def Fiber_GetThis_def bind_out_eq_Inr deref_eq)

lemma inv_enter_callback:
  assumes inv: "sched_inv this cf" and at: "cf_at cf t = Some (Runs (Ctx_start MainFunc))"
    and run: "on_fibers (MainFunc_enter env t) (cf_world cf) = Inr ((f, cb), w)"
    and w': "w' = w \<or> w' = sched_log line w" and p': "p' = In_callback f \<or> p' = In_idle f"
  shows "sched_inv this (moves_to cf t p' w')"
proof -
  have ins: "inside this (cf_world cf) t" using place_inside [OF invD(2) [OF inv at]] by simp
  then obtain g where g: "cur (cf_world cf) t = Some g" unfolding inside_def by blast
  note same = MainFunc_enter_same [OF run g]
  show ?thesis
    by (rule inv_inside [OF inv at _ _ _ ins _ p']) (use w' g same in \<open>auto simp: place_mode_def\<close>)
qed

lemma inv_resume:
  assumes inv: "sched_inv this cf" and at: "cf_at cf t = Some (Runs (Ctx_saved k))" and k: "back_mode this (Ctx_saved k) = None"
    and f: "cur (cf_world cf) t = Some f" and p': "p' = In_callback f \<or> p' = In_idle f"
  shows "sched_inv this (moves_to cf t p' (cf_world cf))"
  by (rule inv_inside [OF inv at _ _ _ _ f p'])
    (use place_inside [OF invD(2) [OF inv at]] k fiber_modes(3) in simp_all)

text \<open>Leaving a fiber, perhaps after a change of scheduler objects.\<close>

lemma inv_leave:
  assumes inv: "sched_inv this cf" and at: "cf_at cf t = Some p" and p: "p = In_callback f \<or> p = In_idle f"
    and same: "same_run (cf_world cf) w1" and le: "leaves t f k c w1 w" and k: "back_mode this (Ctx_saved k) = None"
    and sc: "w_scheds (cf_world cf) this = Some sc" and sc': "w_scheds w1 this = Some sc'"
    and q: "queue_ok w1 (sc_fibers sc')" and cnt: "sc_active sc' = sc_active sc" "sc_idle sc' = sc_idle sc"
  shows "sched_inv this (moves_to cf t (Runs c) w)"
proof -
  let ?w = "cf_world cf"
  have mv1: "moved this {t} ?w w1" by (rule moved_same_run [OF invD(1) [OF inv] same])
  have ctx: "ctx_of w1 = ctx_of ?w" "fs_tls (w_fibers w1) = fs_tls (w_fibers ?w)" using same by (auto simp: same_run_def ctx_of_def)
  have pl: "inside this ?w t \<and> cur ?w t = Some f" using invD(2) [OF inv at] p by (auto simp: place_ok_def)
  then have "inside this w1 t" using ctx moved_free [OF mv1] unfolding inside_def by metis
  moreover have "cur w1 t = Some f" using pl ctx(2) by simp
  ultimately have l: "moved this {t} w1 w" "place_ok this w t (Runs c)" "place_mode this w t (Runs c) = waits_for this w1 t"
    using leave_ok [OF le moved_apart [OF mv1 invD(1) [OF inv]] _ _ k] by blast+
  have old: "place_mode this ?w t p = waits_for this ?w t" using p fiber_modes by blast
  have "w_scheds w this = Some sc'" using le sc' by (simp add: leaves_def)
  then show ?thesis
    by (rule inv_step [OF inv at moved_trans [OF mv1 l(1)] sc _ moved_queue [OF l(1) q] l(2) old l(3)])
      (use waits_same [OF ctx(2,1)] cnt in simp_all)
qed

lemma inv_yields:
  assumes inv: "sched_inv this cf" and at: "cf_at cf t = Some p" and p: "p = In_callback f \<or> p = In_idle f"
    and le: "leaves t f k c (cf_world cf) w" and k: "back_mode this (Ctx_saved k) = None"
  shows "sched_inv this (moves_to cf t (Runs c) w)"
proof -
  obtain sc where sc: "w_scheds (cf_world cf) this = Some sc" "queue_ok (cf_world cf) (sc_fibers sc)" using invD(3) [OF inv] by blast
  show ?thesis by (rule inv_leave [OF inv at p _ le k sc(1) sc(1) sc(2)]) simp_all
qed

lemma place_cur:
  assumes "sched_inv this cf" and "cf_at cf t = Some p" and "p = In_callback f \<or> p = In_idle f"
  shows "cur (cf_world cf) t = Some f" and "free (cf_world cf) f"
proof -
  have "inside this (cf_world cf) t \<and> cur (cf_world cf) t = Some f" using invD(2) [OF assms(1,2)] assms(3) by (auto simp: place_ok_def)
  then show "cur (cf_world cf) t = Some f" and "free (cf_world cf) f" by (auto simp: inside_def)
qed

lemma queue_ok_append:
  "queue_ok w q \<Longrightarrow> (\<forall>f. fc = Fiber_arg (Some f) \<longrightarrow> free w f) \<Longrightarrow> queue_ok w (q @ [ft \<leftarrow> [new_FiberAndThread fc thr]. has_task ft])"
  by (cases fc) (auto simp: queue_ok_def)

lemma inv_switches:
  assumes inv: "sched_inv this cf" and at: "cf_at cf t = Some (In_callback f)"
    and run: "switchTo env t this thr (User_code v) (cf_world cf) = Inr (Some c, w)"
  shows "sched_inv this (moves_to cf t (Runs c) w)"
proof -
  let ?w = "cf_world cf"
  obtain sc where sc: "w_scheds ?w this = Some sc" "queue_ok ?w (sc_fibers sc)" using invD(3) [OF inv] by blast
  note cf = place_cur [OF inv at]
  obtain w2 where w2: "schedule this (Fiber_arg (Some f)) thr ?w = Inr w2" "on_fibers (YieldToHold env t (User_code v)) w2 = Inr (c, w)"
    using run cf(1) by (auto simp: switchTo_def assert_that_eq bind_out_eq_Inr on_fibers_eq Fiber_GetThis_def split: if_splits)
  note eff = schedule_effect [OF w2(1) sc(1)]
  have "cur w2 t = Some f" using cf(1) eff(1) by (simp add: same_run_def)
  then have le: "leaves t f (User_code v) c w2 w" using YieldToHold_leaves_world [OF w2(2)] by blast
  have mv: "moved this {t} ?w w2" by (rule moved_same_run [OF invD(1) [OF inv] eff(1)])
  have "queue_ok w2 (sc_fibers sc @ [ft \<leftarrow> [new_FiberAndThread (Fiber_arg (Some f)) thr]. has_task ft])"
    by (rule moved_queue [OF mv queue_ok_append [OF sc(2)]]) (use cf(2) in simp)
  then show ?thesis
    by (intro inv_leave [OF inv at _ eff(1) le _ sc(1) eff(2)]) simp_all
qed

text \<open>Back in the loop.\<close>

lemma back_place:
  assumes inv: "sched_inv this cf" and at: "cf_at cf t = Some (Runs (Ctx_saved k))" and k: "back_mode this (Ctx_saved k) = Some md"
  shows "\<forall>g \<in> back_fibers (Ctx_saved k). free (cf_world cf) g" and "place_mode this (cf_world cf) t (Runs (Ctx_saved k)) = Some md"
    and "sfib (cf_world cf) t \<noteq> None"
  using invD(2) [OF inv at] k by (auto simp: place_ok_def place_mode_def)

lemma inv_back:
  assumes inv: "sched_inv this cf" and at: "cf_at cf t = Some (Runs (Ctx_saved k))" and k: "back_mode this (Ctx_saved k) = Some md"
    and mv: "moved this {t} (cf_world cf) w" and p': "place_ok this w t p'" "place_mode this w t p' = None"
    and sc: "w_scheds (cf_world cf) this = Some sc" and sc': "w_scheds w this = Some sc'" and q: "queue_ok w (sc_fibers sc')"
    and cnt: "sc_active sc' = sc_active sc - of_bool (md = M_active)" "sc_idle sc' = sc_idle sc - of_bool (md = M_idle)"
  shows "sched_inv this (moves_to cf t p' w)"
  by (rule inv_step [OF inv at mv sc sc' q p'(1) back_place(2) [OF inv at k] p'(2)]) (use cnt in simp_all)

text \<open>The task is no longer counted.\<close>

lemma inv_leave_task:
  assumes inv: "sched_inv this cf" and at: "cf_at cf t = Some (Runs (Ctx_saved k))" and k: "back_mode this (Ctx_saved k) = Some M_active"
    and run: "leave_task this (cf_world cf) = Inr w"
    and p: "\<And>v. sfib v t \<noteq> None \<Longrightarrow> \<forall>g \<in> back_fibers (Ctx_saved k). free v g \<Longrightarrow> place_ok this v t p'"
      "place_mode this w t p' = None"
  shows "sched_inv this (moves_to cf t p' w)"
proof -
  obtain sc where sc: "w_scheds (cf_world cf) this = Some sc" "queue_ok (cf_world cf) (sc_fibers sc)" using invD(3) [OF inv] by blast
  let ?sc = "sc\<lparr>sc_active := sc_active sc - 1\<rparr>"
  note b = back_place [OF inv at k]
  have w: "w = set_sched this ?sc (cf_world cf)" using run leave_task_run [OF sc(1)] by simp
  have mv: "moved this {t} (cf_world cf) w" unfolding w by (rule moved_same_run [OF invD(1) [OF inv]]) simp
  have pl: "place_ok this w t p'" by (rule p(1)) (use b(1,3) mv moved_free [OF mv] in \<open>auto simp: moved_def\<close>)
  show ?thesis
    by (rule inv_back [OF inv at k mv pl p(2) sc(1), of ?sc]) (use w moved_queue [OF mv sc(2)] in simp_all)
qed

text \<open>From a place that is not counted back into the loop.\<close>

lemma inv_settle:
  assumes inv: "sched_inv this cf" and at: "cf_at cf t = Some p" and p: "place_mode this (cf_world cf) t p = None"
    and mv: "moved this {t} (cf_world cf) w" and l: "\<forall>g \<in> locals_fibers l'. free w g"
    and sc: "w_scheds (cf_world cf) this = Some sc" and sc': "w_scheds w this = Some (sc\<lparr>sc_fibers := q\<rparr>)" and q: "queue_ok w q"
  shows "sched_inv this (moves_to cf t (In_loop l') w)"
proof -
  have "sfib w t \<noteq> None" using invD(2) [OF inv at] mv by (simp add: place_ok_def moved_def)
  then have pl: "place_ok this w t (In_loop l')" using l by (simp add: place_ok_def)
  show ?thesis by (rule inv_step [OF inv at mv sc sc' _ pl p loop_mode]) (use q in simp_all)
qed

lemma free_fiber: "free w f \<Longrightarrow> \<exists>b. fs_fibers (w_fibers w) f = Some b"
  by (simp add: free_def)

lemma state_moved:
  assumes apart: "fibers_apart this w" and "fs_fibers (w_fibers w) f = Some b"
    and "fs_fibers (w_fibers w') = (fs_fibers (w_fibers w))(f \<mapsto> b\<lparr>fb_state := st\<rparr>)"
    and "fs_tls (w_fibers w') = fs_tls (w_fibers w)" and "fs_next (w_fibers w') = fs_next (w_fibers w)"
  shows "moved this T w w'"
  by (rule moved_same [OF apart assms(4) _ assms(5)]) (use assms(2,3) in \<open>auto simp: ctx_of_def fun_eq_iff\<close>)

lemma inv_settles_fiber:
  assumes inv: "sched_inv this cf" and at: "cf_at cf t = Some (Settles_fiber l f)"
    and run: "settle_fiber this l f (cf_world cf) = Inr (l', w)"
  shows "sched_inv this (moves_to cf t (In_loop l') w)"
proof -
  let ?w = "cf_world cf"
  obtain sc where sc: "w_scheds ?w this = Some sc" "queue_ok ?w (sc_fibers sc)" using invD(3) [OF inv] by blast
  have fr: "\<forall>g \<in> insert f (locals_fibers l). free ?w g" using invD(2) [OF inv at] by (simp add: place_ok_def)
  then have f: "free ?w f" by simp
  then obtain bl where bl: "fs_fibers (w_fibers ?w) f = Some bl" using free_fiber by blast
  let ?q = "sc_fibers sc @ (if fb_state bl = ST_READY then [\<lparr>ft_fiber = Some f, ft_cb = None, ft_thread = - 1\<rparr>] else [])"
  obtain st where w: "l' = l" "fs_tls (w_fibers w) = fs_tls (w_fibers ?w)" "fs_next (w_fibers w) = fs_next (w_fibers ?w)"
      "fs_fibers (w_fibers w) = (fs_fibers (w_fibers ?w))(f \<mapsto> bl\<lparr>fb_state := st\<rparr>)"
      "w_scheds w = (w_scheds ?w)(this \<mapsto> sc\<lparr>sc_fibers := ?q\<rparr>)"
    using settle_fiber_run [OF sc(1) bl, of l] run by auto
  have mv: "moved this {t} ?w w" by (rule state_moved [OF invD(1) [OF inv] bl w(4,2,3)])
  have "queue_ok w ?q" using moved_queue [OF mv sc(2)] moved_free [OF mv f] by (auto simp: queue_ok_def has_task_def)
  then show ?thesis
    by (intro inv_settle [OF inv at _ mv _ sc(1)]) (use fr moved_free [OF mv] w(1,5) in \<open>auto simp: place_mode_def\<close>)
qed

lemma set_state_effect:
  assumes "set_state f st w = Inr w'" and "fibers_apart this w"
  shows "moved this T w w'" and "w_scheds w' = w_scheds w"
proof -
  obtain b where b: "fs_fibers (w_fibers w) f = Some b" "w' = w\<lparr>w_fibers := set_fiber f (b\<lparr>fb_state := st\<rparr>) (w_fibers w)\<rparr>"
    using assms(1) by (auto simp: set_state_def bind_out_eq_Inr deref_eq)
  show "moved this T w w'" by (rule state_moved [OF assms(2) b(1), of _ st]) (simp_all add: b(2) set_fiber_def)
  show "w_scheds w' = w_scheds w" by (simp add: b(2))
qed

lemma inv_back_idle:
  assumes inv: "sched_inv this cf" and at: "cf_at cf t = Some (Runs (Ctx_saved (After_idle this l)))"
    and run: "after_idle this l (cf_world cf) = Inr (l', w)"
  shows "sched_inv this (moves_to cf t (In_loop l') w)"
proof -
  let ?w = "cf_world cf"
  obtain sc where sc: "w_scheds ?w this = Some sc" "queue_ok ?w (sc_fibers sc)" using invD(3) [OF inv] by blast
  let ?sc = "sc\<lparr>sc_idle := sc_idle sc - 1\<rparr>"
  note b = back_place [OF inv at back_modes(3)]
  define w1 where "w1 = set_sched this ?sc ?w"
  have on: "on_sched this (\<lambda>sc. sc\<lparr>sc_idle := sc_idle sc - 1\<rparr>) ?w = Inr w1" unfolding w1_def by (rule on_sched_run [OF sc(1)])
  obtain st where st: "l' = l" "(if \<not> ended_state st then set_state (rl_idle l) ST_HOLD w1 else Inr w1) = Inr w"
    using run on by (auto simp: after_idle_def bind_out_eq_Inr)
  have mv1: "moved this {t} ?w w1" unfolding w1_def by (rule moved_same_run [OF invD(1) [OF inv]]) simp
  have apart: "fibers_apart this w1" by (rule moved_apart [OF mv1 invD(1) [OF inv]])
  have "moved this {t} w1 w \<and> w_scheds w = w_scheds w1"
    using st(2) set_state_effect [OF _ apart] moved_same_run [OF apart, of w1] by (auto split: if_splits)
  then have mv: "moved this {t} ?w w" and sc': "w_scheds w this = Some ?sc" using moved_trans [OF mv1] by (auto simp: w1_def)
  have pl: "place_ok this w t (In_loop l')"
    using b(1,3) moved_free [OF mv] mv st(1) by (auto simp: place_ok_def moved_def)
  show ?thesis
    by (rule inv_back [OF inv at back_modes(3) mv pl loop_mode sc(1) sc']) (use moved_queue [OF mv sc(2)] in simp_all)
qed

lemma settle_cb_effect:
  assumes run: "settle_cb env this l w = Inr (l', w')" and apart: "fibers_apart this w"
    and sc: "w_scheds w this = Some sc" "queue_ok w (sc_fibers sc)" and fr: "\<forall>g \<in> locals_fibers l. free w g"
  shows "moved this {t} w w' \<and> locals_fibers l' \<subseteq> locals_fibers l \<and> (\<exists>q. w_scheds w' this = Some (sc\<lparr>sc_fibers := q\<rparr>) \<and> queue_ok w' q)"
proof -
  obtain g where g: "rl_cb l = Some g" using run by (cases "rl_cb l") (auto simp: settle_cb_def)
  then have fg: "free w g" using fr by (auto simp: locals_fibers_def)
  consider "schedule this (Fiber_arg (Some g)) (- 1) w = Inr w'" "l' = l\<lparr>rl_cb := None\<rparr>"
    | fs where "Fiber_reset env g None (w_fibers w) = Inr fs" "w' = w\<lparr>w_fibers := fs\<rparr>" "l' = l"
    | "set_state g ST_HOLD w = Inr w'" "l' = l\<lparr>rl_cb := None\<rparr>"
    using run g by (auto simp: settle_cb_def bind_out_eq_Inr split: if_splits)
  then show ?thesis
  proof cases
    case 1
    note eff = schedule_effect [OF 1(1) sc(1)]
    have mv: "moved this {t} w w'" by (rule moved_same_run [OF apart eff(1)])
    have "queue_ok w' (sc_fibers sc @ [ft \<leftarrow> [new_FiberAndThread (Fiber_arg (Some g)) (- 1)]. has_task ft])"
      by (rule moved_queue [OF mv queue_ok_append [OF sc(2)]]) (use fg in simp)
    then show ?thesis using mv eff(2) 1(2) by (intro conjI exI) (auto simp: locals_fibers_def)
  next
    case 2
    have mv: "moved this {t} w w'" unfolding 2(2) by (rule moved_into [OF reset_moved [OF 2(1) apart fg]])
    show ?thesis using mv 2 sc(1) moved_queue [OF mv sc(2)] by (intro conjI exI [of _ "sc_fibers sc"]) auto
  next
    case 3
    note eff = set_state_effect [OF 3(1) apart]
    show ?thesis using eff 3(2) sc(1) moved_queue [OF eff(1) sc(2)]
      by (intro conjI exI [of _ "sc_fibers sc"]) (auto simp: locals_fibers_def)
  qed
qed

lemma inv_settles_cb:
  assumes inv: "sched_inv this cf" and at: "cf_at cf t = Some (Settles_cb l)"
    and run: "settle_cb env this l (cf_world cf) = Inr (l', w)"
  shows "sched_inv this (moves_to cf t (In_loop l') w)"
proof -
  let ?w = "cf_world cf"
  obtain sc where sc: "w_scheds ?w this = Some sc" "queue_ok ?w (sc_fibers sc)" using invD(3) [OF inv] by blast
  have fr: "\<forall>g \<in> locals_fibers l. free ?w g" using invD(2) [OF inv at] by (simp add: place_ok_def)
  obtain q where q: "moved this {t} ?w w" "locals_fibers l' \<subseteq> locals_fibers l" "w_scheds w this = Some (sc\<lparr>sc_fibers := q\<rparr>)" "queue_ok w q"
    using settle_cb_effect [OF run invD(1) [OF inv] sc fr] by blast
  then show ?thesis
    by (intro inv_settle [OF inv at _ q(1) _ sc(1)]) (use fr moved_free [OF q(1)] in \<open>auto simp: place_mode_def\<close>)
qed

text \<open>A new thread begins its loop.\<close>

definition joins :: "thread_id \<Rightarrow> addr \<Rightarrow> ('u, 'v) world \<Rightarrow> ('u, 'v) world \<Rightarrow> bool" where
  "joins t m w w' \<longleftrightarrow> m = fs_next (w_fibers w) \<and> (\<forall>u. sfib w' u = (if u = t then Some m else sfib w u)) \<and>
     (\<forall>u. mainf w' u = (if u = t then Some m else mainf w u)) \<and>
     (\<forall>u. u \<noteq> t \<longrightarrow> cur w' u = cur w u) \<and> ctx_of w' = (ctx_of w)(m \<mapsto> Ctx_here) \<and> fs_next (w_fibers w') = Suc m \<and>
     w_scheds w' = w_scheds w"

lemma run_start_effect:
  assumes run: "run_start env t this w = Inr (l, w')" and sc: "w_scheds w this = Some sc" and root: "sc_rootThread sc \<noteq> t"
    and none: "cur w t = None"
  shows "\<exists>m w2 i. joins t m w w2 \<and> on_fibers (new_Fiber env (Some (Idle_task this)) 0 False) w2 = Inr (i, w') \<and>
    l = \<lparr>rl_idle = i, rl_cb = None\<rparr>"
proof -
  define w1 where "w1 = setThis t this ((sched_log (sc_name sc @ '' run'') w)\<lparr>w_hooks := w_hooks w @ [(t, True)]\<rparr>)"
  have w1: "ctx_of w1 = ctx_of w" "fs_tls (w_fibers w1) = fs_tls (w_fibers w)" "fs_next (w_fibers w1) = fs_next (w_fibers w)"
      "w_scheds w1 = w_scheds w"
    by (simp_all add: w1_def setThis_def sched_log_def fiber_log_def ctx_of_def fun_eq_iff)
  obtain m w2 where m: "on_fibers (Fiber_GetThis env t) w1 = Inr (m, w2)"
      "\<exists>i. on_fibers (new_Fiber env (Some (Idle_task this)) 0 False)
          (w2\<lparr>w_fibers := (w_fibers w2)\<lparr>fs_tls := (fs_tls (w_fibers w2))(t := (fs_tls (w_fibers w2) t)\<lparr>t_scheduler_fiber := Some m\<rparr>)\<rparr>\<rparr>) = Inr (i, w') \<and>
          l = \<lparr>rl_idle = i, rl_cb = None\<rparr>"
    using run sc root [symmetric] unfolding run_start_def sched_at_def
    by (auto simp: bind_out_eq_Inr Let_def w1_def [symmetric])
  have w2: "m = fs_next (w_fibers w)" "ctx_of w2 = (ctx_of w)(m \<mapsto> Ctx_here)" "fs_next (w_fibers w2) = Suc m" "w_scheds w2 = w_scheds w"
      "\<forall>u. u \<noteq> t \<longrightarrow> fs_tls (w_fibers w2) u = fs_tls (w_fibers w) u" "mainf w2 t = Some m"
    using m(1) none w1(2)
    by (auto simp: on_fibers_eq Fiber_GetThis_def new_main_Fiber_def bind_out_eq_Inr assert_that_eq Let_def w1
        SetThis_def set_fiber_def fiber_log_def ctx_of_def fun_eq_iff w1(1) [unfolded ctx_of_def fun_eq_iff, rule_format])
  moreover have "ctx_of (w2\<lparr>w_fibers := (w_fibers w2)\<lparr>fs_tls := x\<rparr>\<rparr>) = ctx_of w2" for x by (simp add: ctx_of_def fun_eq_iff)
  ultimately have "joins t m w (w2\<lparr>w_fibers := (w_fibers w2)\<lparr>fs_tls := (fs_tls (w_fibers w2))(t := (fs_tls (w_fibers w2) t)\<lparr>t_scheduler_fiber := Some m\<rparr>)\<rparr>\<rparr>)"
    by (simp add: joins_def)
  then show ?thesis using m(2) by blast
qed

lemma joins_apart:
  assumes j: "joins t m w w'" and ok: "fibers_apart this w" and t: "sfib w t = None"
  shows "fibers_apart this w'" and "frame {t} w w'"
proof -
  have m: "ctx_of w m = None" and fr: "fresh_in (fs_fibers (w_fibers w)) (fs_next (w_fibers w))"
    using j ok by (simp_all add: joins_def fibers_apart_def fresh_in_None)
  have sm: "sfib w u \<noteq> Some m" for u using ok m unfolding fibers_apart_def by blast
  have s: "sfib w' u = (if u = t then Some m else sfib w u)" for u using j unfolding joins_def by blast
  have c: "ctx_of w' = (ctx_of w)(m \<mapsto> Ctx_here)" using j unfolding joins_def by blast
  have lf: "loop_fiber w' f \<longleftrightarrow> loop_fiber w f \<or> f = m" for f
    using s t unfolding loop_fiber_def by (metis option.distinct(1) option.inject)
  have "\<forall>u u' x. sfib w' u = Some x \<longrightarrow> sfib w' u' = Some x \<longrightarrow> u = u'"
    using ok sm unfolding s fibers_apart_def by (metis option.inject)
  moreover have "\<forall>u x. sfib w' u = Some x \<longrightarrow> ctx_of w' x \<noteq> None"
    using ok unfolding s c fibers_apart_def by (auto simp del: ctx_of_None not_None_eq)
  moreover have "fresh_in (fs_fibers (w_fibers w')) (fs_next (w_fibers w'))"
  proof -
    have "ctx_of w' g \<noteq> None \<longrightarrow> g < Suc m" for g
      using fr j unfolding c fresh_in_def ctx_of_None [symmetric] joins_def by (auto simp: less_Suc_eq simp del: ctx_of_None)
    then show ?thesis using j by (simp add: fresh_in_def joins_def del: not_None_eq)
  qed
  moreover have "\<forall>f x. ctx_of w' f = Some x \<longrightarrow> \<not> loop_fiber w' f \<longrightarrow> back_mode this x = None"
    using ok unfolding lf c fibers_apart_def by (auto simp del: ctx_of_None not_None_eq)
  moreover have "ctx_of w' x \<noteq> None \<and> (\<forall>v. sfib w' v = Some x \<longrightarrow> v = u)" if x: "mainf w' u = Some x" for u x
  proof (cases "u = t")
    case True
    then have "x = m" using x j unfolding joins_def by simp
    then show ?thesis using True sm unfolding s c by simp
  next
    case False
    then have "mainf w u = Some x" using x j unfolding joins_def by simp
    then have old: "ctx_of w x \<noteq> None" "\<forall>v. sfib w v = Some x \<longrightarrow> v = u" using ok unfolding fibers_apart_def by blast+
    then have "x \<noteq> m" using m by (cases "x = m") simp_all
    then show ?thesis using old unfolding s c by simp
  qed
  ultimately show "fibers_apart this w'" unfolding fibers_apart_def by blast
  show "frame {t} w w'"
    unfolding frame_def
  proof (intro conjI allI impI)
    show "free w' f" if "free w f" for f using that m unfolding free_def lf c by (auto simp del: ctx_of_None not_None_eq)
    fix u assume u: "u \<notin> {t}"
    then show "sfib w' u = sfib w u" "cur w' u = cur w u" "mainf w' u = mainf w u" using j by (auto simp: joins_def)
    show "ctx_of w' x = ctx_of w x" if "sfib w u = Some x" for x using that sm [of u] unfolding c by auto
  qed
qed

lemma inv_begin:
  assumes inv: "sched_inv this cf" and at: "cf_at cf t = None"
    and root: "map_option sc_rootThread (w_scheds (cf_world cf) this) \<noteq> Some t"
    and none: "cur (cf_world cf) t = None" and run: "run_start env t this (cf_world cf) = Inr (l, w)"
  shows "sched_inv this (moves_to cf t (In_loop l) w)"
proof -
  let ?w = "cf_world cf"
  obtain sc where sc: "w_scheds ?w this = Some sc" "queue_ok ?w (sc_fibers sc)" using invD(3) [OF inv] by blast
  obtain m w2 i where j: "joins t m ?w w2" "on_fibers (new_Fiber env (Some (Idle_task this)) 0 False) w2 = Inr (i, w)"
      "l = \<lparr>rl_idle = i, rl_cb = None\<rparr>"
    using run_start_effect [OF run sc(1) _ none] root sc(1) by auto
  note j' = joins_apart [OF j(1) invD(1) [OF inv] invD(4) [OF inv at]]
  note n = new_Fiber_moved [OF j(2) j'(1)]
  have fr: "frame {t} ?w w" by (rule frame_trans [OF j'(2) frame_mono [OF moved_frame [OF n(1) j'(1)]]]) simp
  have "sfib w t = Some m" using j(1) n(1) by (simp add: joins_def moved_def)
  then have pl: "place_ok this w t (In_loop l)" using n(2) j(3) by (simp add: place_ok_def locals_fibers_def)
  have "w_scheds w this = Some sc" using n(3) j(1) sc(1) by (simp add: joins_def)
  then show ?thesis
    by (rule inv_move [OF inv fr moved_apart [OF n(1) j'(1)] sc(1) _ frame_queue [OF fr sc(2)] pl]) (simp_all add: at loop_mode)
qed

text \<open>What others do.\<close>

lemma inv_schedules:
  assumes inv: "sched_inv this cf" and ok: "schedulable (cf_world cf) fc" and run: "schedule this fc thr (cf_world cf) = Inr w"
  shows "sched_inv this (with_world cf w)"
proof -
  let ?w = "cf_world cf"
  obtain sc where sc: "w_scheds ?w this = Some sc" "queue_ok ?w (sc_fibers sc)" using invD(3) [OF inv] by blast
  note eff = schedule_effect [OF run sc(1)]
  have mv: "moved this {} ?w w" by (rule moved_same_run [OF invD(1) [OF inv] eff(1)])
  have q: "queue_ok w (sc_fibers sc @ [ft \<leftarrow> [new_FiberAndThread fc thr]. has_task ft])"
    by (rule moved_queue [OF mv queue_ok_append [OF sc(2)]]) (use ok in \<open>auto simp: schedulable_def free_def\<close>)
  show ?thesis
    by (rule inv_world [OF inv moved_frame [OF mv invD(1) [OF inv]] moved_apart [OF mv invD(1) [OF inv]] sc(1) eff(2)])
      (use q in simp_all)
qed

lemma schedule_loop_effect:
  "schedule_loop fcs b sc = (n, fcs', sc') \<Longrightarrow>
   sc' = sc\<lparr>sc_fibers := sc_fibers sc @ [ft \<leftarrow> map (\<lambda>fc. new_FiberAndThread fc (- 1)) fcs. has_task ft]\<rparr>"
proof (induction fcs arbitrary: b sc n fcs')
  case (Cons fc fcs)
  have swap: "fst (swap_FiberAndThread fc (- 1)) = new_FiberAndThread fc (- 1)" by (cases fc) simp_all
  obtain n1 fcs1 where rest: "schedule_loop fcs (sc_fibers sc = [] \<or> b) (snd (scheduleNoLock (new_FiberAndThread fc (- 1)) sc)) = (n1, fcs1, sc')"
    using Cons.prems swap by (auto simp: Let_def scheduleNoLock_def split: prod.splits)
  show ?case using Cons.IH [OF rest] by (simp add: scheduleNoLock_def)
qed simp

lemma schedule_range_effect:
  assumes "schedule_range this fcs w = Inr (fcs', w')" and "w_scheds w this = Some sc"
  shows "same_run w w'"
    and "w_scheds w' this = Some (sc\<lparr>sc_fibers := sc_fibers sc @ [ft \<leftarrow> map (\<lambda>fc. new_FiberAndThread fc (- 1)) fcs. has_task ft]\<rparr>)"
proof -
  obtain n x sc' where l: "schedule_loop fcs False sc = (n, x, sc')" by (metis prod_cases3)
  then have "w' = (if n then tickle (set_sched this sc' w) else set_sched this sc' w)"
    using assms by (auto simp: schedule_range_def sched_at_def)
  then show "same_run w w'" and "w_scheds w' this = Some (sc\<lparr>sc_fibers := sc_fibers sc @ [ft \<leftarrow> map (\<lambda>fc. new_FiberAndThread fc (- 1)) fcs. has_task ft]\<rparr>)"
    using schedule_loop_effect [OF l] by (cases n; simp)+
qed

lemma inv_schedules_range:
  assumes inv: "sched_inv this cf" and ok: "\<forall>fc \<in> set fcs. schedulable (cf_world cf) fc"
    and run: "schedule_range this fcs (cf_world cf) = Inr (fcs', w)"
  shows "sched_inv this (with_world cf w)"
proof -
  let ?w = "cf_world cf"
  obtain sc where sc: "w_scheds ?w this = Some sc" "queue_ok ?w (sc_fibers sc)" using invD(3) [OF inv] by blast
  note eff = schedule_range_effect [OF run sc(1)]
  have mv: "moved this {} ?w w" by (rule moved_same_run [OF invD(1) [OF inv] eff(1)])
  have "free ?w f" if "fc \<in> set fcs" "ft_fiber (new_FiberAndThread fc (- 1)) = Some f" for fc f
    using ok that by (cases fc) (auto simp: schedulable_def free_def)
  then have "queue_ok ?w (sc_fibers sc @ [ft \<leftarrow> map (\<lambda>fc. new_FiberAndThread fc (- 1)) fcs. has_task ft])"
    using sc(2) unfolding queue_ok_def by auto
  then have q: "queue_ok w (sc_fibers sc @ [ft \<leftarrow> map (\<lambda>fc. new_FiberAndThread fc (- 1)) fcs. has_task ft])" by (rule moved_queue [OF mv])
  show ?thesis
    by (rule inv_world [OF inv moved_frame [OF mv invD(1) [OF inv]] moved_apart [OF mv invD(1) [OF inv]] sc(1) eff(2)])
      (use q in simp_all)
qed

lemma inv_makes_fiber:
  assumes inv: "sched_inv this cf" and run: "on_fibers (new_Fiber env cb sz uc) (cf_world cf) = Inr (f, w)"
  shows "sched_inv this (with_world cf w)"
proof -
  obtain sc where sc: "w_scheds (cf_world cf) this = Some sc" "queue_ok (cf_world cf) (sc_fibers sc)" using invD(3) [OF inv] by blast
  note n = new_Fiber_moved [OF run invD(1) [OF inv]]
  show ?thesis
    by (rule inv_world [OF inv moved_frame [OF n(1) invD(1) [OF inv]] moved_apart [OF n(1) invD(1) [OF inv]] sc(1), of sc])
      (use n(3) sc moved_queue [OF n(1) sc(2)] in simp_all)
qed

lemma tickles: "same_run w ((tickle ^^ n) w) \<and> w_scheds ((tickle ^^ n) w) = w_scheds w"
  by (induction n) simp_all

lemma stop_begin_effect:
  assumes run: "stop_begin env t this w = Inr (Stop_joins, w')" and sc: "w_scheds w this = Some sc" and root: "sc_rootFiber sc = None"
  shows "same_run w w' \<and> w_scheds w' this = Some (sc\<lparr>sc_autoStop := True, sc_stopping := True\<rparr>)"
proof -
  let ?w1 = "set_sched this (sc\<lparr>sc_autoStop := True\<rparr>) w"
  have w1: "on_sched this (\<lambda>sc. sc\<lparr>sc_autoStop := True\<rparr>) w = Inr ?w1" by (rule on_sched_run [OF sc])
  let ?w2 = "set_sched this (sc\<lparr>sc_autoStop := True, sc_stopping := True\<rparr>) ?w1"
  have w2: "on_sched this (\<lambda>sc. sc\<lparr>sc_stopping := True\<rparr>) ?w1 = Inr ?w2" using on_sched_run [of ?w1] by simp
  have "w' = (tickle ^^ unat (sc_threadCount sc)) ?w2"
    using run root unfolding stop_begin_def w1 by (simp add: w2 assert_that_eq Let_def)
  moreover have "same_run w ?w2" by simp
  ultimately show ?thesis using tickles [of ?w2 "unat (sc_threadCount sc)"] by (simp add: same_run_def)
qed

lemma inv_stops:
  assumes inv: "sched_inv this cf" and run: "stop_begin env t this (cf_world cf) = Inr (Stop_joins, w)"
    and root: "map_option sc_rootFiber (w_scheds (cf_world cf) this) = Some None"
  shows "sched_inv this (with_world cf w)"
proof -
  obtain sc where sc: "w_scheds (cf_world cf) this = Some sc" "queue_ok (cf_world cf) (sc_fibers sc)" using invD(3) [OF inv] by blast
  then have eff: "same_run (cf_world cf) w" "w_scheds w this = Some (sc\<lparr>sc_autoStop := True, sc_stopping := True\<rparr>)"
    using stop_begin_effect [OF run sc(1)] root by simp_all
  have mv: "moved this {} (cf_world cf) w" by (rule moved_same_run [OF invD(1) [OF inv] eff(1)])
  show ?thesis
    by (rule inv_world [OF inv moved_frame [OF mv invD(1) [OF inv]] moved_apart [OF mv invD(1) [OF inv]] sc(1) eff(2)])
      (use moved_queue [OF mv sc(2)] in simp_all)
qed

text \<open>The thread of the caller: what \<open>stop\<close> does on it.\<close>

lemma bind_out_twice:
  "bind_out a (\<lambda>e. bind_out (b e) (\<lambda>(r, v). c r v)) = Inr x \<Longrightarrow> \<exists>e r v. b e = Inr (r, v) \<and> c r v = Inr x"
  by (auto simp: bind_out_eq_Inr)

lemma stop_begin_cases:
  assumes run: "stop_begin env t this w = Inr (n, w')" and sc: "w_scheds w this = Some sc"
  shows "\<exists>v. same_run w v \<and> w_scheds v this = Some (sc\<lparr>sc_autoStop := True, sc_stopping := True\<rparr>) \<and>
    (case n of
       Stop_calls c \<Rightarrow> \<exists>r. sc_rootFiber sc = Some r \<and> on_fibers (Fiber_call env t r (Stop_called this)) v = Inr (c, w')
     | _ \<Rightarrow> v = w')"
proof -
  let ?w1 = "set_sched this (sc\<lparr>sc_autoStop := True\<rparr>) w" and ?sc = "sc\<lparr>sc_autoStop := True, sc_stopping := True\<rparr>"
    and ?s1 = "sc\<lparr>sc_autoStop := True\<rparr>"
  have w1: "on_sched this (\<lambda>sc. sc\<lparr>sc_autoStop := True\<rparr>) w = Inr ?w1" by (rule on_sched_run [OF sc])
  have s1: "sched_at this ?w1 = Inr (sc\<lparr>sc_autoStop := True\<rparr>)" by simp
  obtain early returns w2 where e: "(if early
        then bind_out (on_sched this (\<lambda>sc. sc\<lparr>sc_stopping := True\<rparr>) (sched_log (nat_str this @ '' stopped'') ?w1)) (\<lambda>w2.
             bind_out (stopping this w2) (\<lambda>b. Inr (b, w2)))
        else Inr (False, ?w1)) = Inr (returns, w2)"
      and r: "(if returns then Inr (Stop_returns, w2)
        else assert_that (if sc_rootThread ?s1 \<noteq> - 1 then Scheduler_GetThis t w2 = Some this else Scheduler_GetThis t w2 \<noteq> Some this)
            ''GetThis() == this''
       (bind_out (on_sched this (\<lambda>sc. sc\<lparr>sc_stopping := True\<rparr>) w2) (\<lambda>w3.
          let w4 = (tickle ^^ (unat (sc_threadCount ?s1) + (if sc_rootFiber ?s1 = None then 0 else 1))) w3
          in (case sc_rootFiber ?s1 of
                None \<Rightarrow> Inr (Stop_joins, w4)
              | Some r \<Rightarrow> bind_out (stopping this w4) (\<lambda>stop.
                  if stop then Inr (Stop_joins, w4)
                  else bind_out (on_fibers (Fiber_call env t r (Stop_called this)) w4) (\<lambda>(c, w5). Inr (Stop_calls c, w5))))))) = Inr (n, w')"
    using bind_out_twice [OF run [unfolded stop_begin_def w1 bind_out_simps(2) s1]] by blast
  have w2: "same_run w w2" "w_scheds w2 this = Some (sc\<lparr>sc_autoStop := True, sc_stopping := early \<or> sc_stopping sc\<rparr>)"
      "returns \<Longrightarrow> early"
    using e by (auto simp: on_sched_def bind_out_eq_Inr split: if_splits)
  show ?thesis
  proof (cases returns)
    case True
    then show ?thesis using r w2 by (intro exI [of _ w2]) auto
  next
    case False
    let ?w3 = "set_sched this ?sc w2"
    define w4 where "w4 = (tickle ^^ (unat (sc_threadCount sc) + (if sc_rootFiber sc = None then 0 else 1))) ?w3"
    have "on_sched this (\<lambda>sc. sc\<lparr>sc_stopping := True\<rparr>) w2 = Inr ?w3" using on_sched_run [OF w2(2)] by simp
    then have r': "(case sc_rootFiber sc of
                None \<Rightarrow> Inr (Stop_joins, w4)
              | Some r \<Rightarrow> bind_out (stopping this w4) (\<lambda>stop.
                  if stop then Inr (Stop_joins, w4)
                  else bind_out (on_fibers (Fiber_call env t r (Stop_called this)) w4) (\<lambda>(c, w5). Inr (Stop_calls c, w5)))) = Inr (n, w')"
      using r False unfolding w4_def by (auto simp: assert_that_eq Let_def)
    have "same_run ?w3 w4 \<and> w_scheds w4 = w_scheds ?w3" unfolding w4_def by (rule tickles)
    then have "same_run w w4" "w_scheds w4 this = Some ?sc" using w2(1) by (simp_all add: same_run_def)
    then show ?thesis
      using r' by (intro exI [of _ w4]) (cases "sc_rootFiber sc"; auto simp: bind_out_eq_Inr split: if_splits)
  qed
qed

text \<open>Switching between the main fiber of a thread and its root fiber.\<close>

lemma call_moved:
  assumes run: "on_fibers (Fiber_call env t r k) w = Inr (c, w')" and ok: "fibers_apart this w"
    and m: "mainf w t = Some m" "sfib w t \<noteq> Some m" and k: "back_mode this (Ctx_saved k) = None"
  shows "moved this {t} w w'" and "w_scheds w' = w_scheds w" and "cur w' t = Some r"
proof -
  obtain s where s: "Fiber_call env t r k (w_fibers w) = Inr (c, s)" "w' = w\<lparr>w_fibers := s\<rparr>"
    using run by (auto simp: on_fibers_eq)
  obtain b where b: "fs_fibers (w_fibers w) r = Some b"
      and sw: "swapcontext env m r k (set_fiber r (b\<lparr>fb_state := ST_EXEC\<rparr>) (SetThis t (Some r) (w_fibers w))) = Inr (c, s)"
    using s(1) m(1) by (auto simp: Fiber_call_def bind_out_eq_Inr deref_eq Let_def SetThis_def set_fiber_def split: option.splits)
  have w': "ctx_of w' = (ctx_of w)(m \<mapsto> Ctx_saved k)" "ctx_of w m \<noteq> None" "\<forall>u. sfib w' u = sfib w u" "\<forall>u. mainf w' u = mainf w u"
      "\<forall>u. cur w' u = (if u = t then Some r else cur w u)" "fs_next (w_fibers w') = fs_next (w_fibers w)"
    using sw b by (auto simp: swapcontext_def bind_out_eq_Inr deref_eq Let_def SetThis_def set_fiber_def ctx_of_def
        fun_eq_iff s(2) split: if_splits)
  show "w_scheds w' = w_scheds w" "cur w' t = Some r" using s(2) w'(5) by simp_all
  have lf: "\<not> loop_fiber w m" using ok m unfolding fibers_apart_def loop_fiber_def by blast
  have "fs_fibers (w_fibers w') g = None \<longleftrightarrow> fs_fibers (w_fibers w) g = None" for g
    unfolding ctx_of_None [symmetric] w'(1) using w'(2) by simp
  then have "fresh_in (fs_fibers (w_fibers w')) (fs_next (w_fibers w'))"
    using ok w'(6) unfolding fibers_apart_def fresh_in_def by simp
  then show "moved this {t} w w'" using w' lf k unfolding moved_def by auto
qed

lemma caller_finish_moved:
  assumes run: "on_fibers (CallerMainFunc_finish env t f ended bt k) w = Inr (c, w')" and ok: "fibers_apart this w"
    and f: "sfib w t = Some f"
  shows "moved this {t} w w'" and "w_scheds w' = w_scheds w" and "\<exists>m. mainf w' t = Some m \<and> (c = Ctx_saved k \<or> m \<noteq> f)"
proof -
  obtain s1 s where s1: "record_end f ended bt (w_fibers w) = Inr s1" and s: "Fiber_back env t f k s1 = Inr (c, s)" "w' = w\<lparr>w_fibers := s\<rparr>"
    using run by (auto simp: on_fibers_eq CallerMainFunc_finish_def bind_out_eq_Inr)
  note r = record_end_same_ctx [OF s1]
  obtain m where m: "mainf w t = Some m" and sw: "swapcontext env f m k (SetThis t (Some m) s1) = Inr (c, s)"
    using s(1) r by (auto simp: Fiber_back_def Let_def SetThis_def split: option.splits)
  have w': "ctx_of w' = (ctx_of w)(f \<mapsto> Ctx_saved k)" "ctx_of w f \<noteq> None" "\<forall>u. sfib w' u = sfib w u" "\<forall>u. mainf w' u = mainf w u"
      "\<forall>u. u \<noteq> t \<longrightarrow> cur w' u = cur w u" "fs_next (w_fibers w') = fs_next (w_fibers w)" "ctx_of w' m = Some c"
  proof -
    have c: "map_option fb_ctx (fs_fibers s1 g) = ctx_of w g" for g using r by (simp add: ctx_of_def)
    obtain bf bm where b: "fs_fibers s1 f = Some bf" "fs_fibers s m = Some bm" "fb_ctx bm = c"
        "s = set_fiber f (bf\<lparr>fb_ctx := Ctx_saved k\<rparr>) (SetThis t (Some m) s1)"
      using sw by (auto simp: swapcontext_def bind_out_eq_Inr deref_eq Let_def SetThis_def set_fiber_def split: if_splits)
    show "ctx_of w' = (ctx_of w)(f \<mapsto> Ctx_saved k)"
      using b(4) c by (auto simp: fun_eq_iff s(2) ctx_of_def set_fiber_def SetThis_def)
    show "ctx_of w f \<noteq> None" using b(1) c [of f] by (metis option.map_disc_iff option.distinct(1))
    show "ctx_of w' m = Some c" using b(2,3) by (simp add: s(2) ctx_of_def)
    show "\<forall>u. sfib w' u = sfib w u" "\<forall>u. mainf w' u = mainf w u" "\<forall>u. u \<noteq> t \<longrightarrow> cur w' u = cur w u"
        "fs_next (w_fibers w') = fs_next (w_fibers w)"
      using b(4) r by (auto simp: s(2) set_fiber_def SetThis_def)
  qed
  show "w_scheds w' = w_scheds w" using s(2) by simp
  show "\<exists>m. mainf w' t = Some m \<and> (c = Ctx_saved k \<or> m \<noteq> f)" using m w'(1,4,7) by (cases "m = f") auto
  have "fs_fibers (w_fibers w') g = None \<longleftrightarrow> fs_fibers (w_fibers w) g = None" for g
    unfolding ctx_of_None [symmetric] w'(1) using w'(2) by simp
  then have "fresh_in (fs_fibers (w_fibers w')) (fs_next (w_fibers w'))"
    using ok w'(6) unfolding fibers_apart_def fresh_in_def by simp
  then show "moved this {t} w w'" using w' f unfolding moved_def by auto
qed

lemma caller_modes:
  "place_mode this w t Outside = None" "place_mode this w t (Enters_root c) = None"
  by (simp_all add: place_mode_def)

lemma inv_stops_itself:
  assumes inv: "sched_inv this cf" and run: "stop_begin env t this (cf_world cf) = Inr (n, w)" and n: "n = Stop_returns \<or> n = Stop_joins"
  shows "sched_inv this (with_world cf w)"
proof -
  obtain sc where sc: "w_scheds (cf_world cf) this = Some sc" "queue_ok (cf_world cf) (sc_fibers sc)" using invD(3) [OF inv] by blast
  have eff: "same_run (cf_world cf) w" "w_scheds w this = Some (sc\<lparr>sc_autoStop := True, sc_stopping := True\<rparr>)"
    using stop_begin_cases [OF run sc(1)] n by auto
  have mv: "moved this {} (cf_world cf) w" by (rule moved_same_run [OF invD(1) [OF inv] eff(1)])
  show ?thesis
    by (rule inv_world [OF inv moved_frame [OF mv invD(1) [OF inv]] moved_apart [OF mv invD(1) [OF inv]] sc(1) eff(2)])
      (use moved_queue [OF mv sc(2)] in simp_all)
qed

lemma inv_calls_root:
  assumes inv: "sched_inv this cf" and at: "cf_at cf t = Some Outside"
    and run: "stop_begin env t this (cf_world cf) = Inr (Stop_calls c, w)"
  shows "sched_inv this (moves_to cf t (Enters_root c) w)"
proof -
  let ?w = "cf_world cf"
  obtain sc where sc: "w_scheds ?w this = Some sc" "queue_ok ?w (sc_fibers sc)" using invD(3) [OF inv] by blast
  obtain v r where v: "same_run ?w v" "w_scheds v this = Some (sc\<lparr>sc_autoStop := True, sc_stopping := True\<rparr>)"
      "on_fibers (Fiber_call env t r (Stop_called this)) v = Inr (c, w)"
    using stop_begin_cases [OF run sc(1)] by auto
  have mv1: "moved this {t} ?w v" by (rule moved_same_run [OF invD(1) [OF inv] v(1)])
  have apart: "fibers_apart this v" by (rule moved_apart [OF mv1 invD(1) [OF inv]])
  have p: "sfib ?w t \<noteq> None" "\<exists>m. mainf ?w t = Some m \<and> sfib ?w t \<noteq> Some m"
    using invD(2) [OF inv at] by (simp_all add: place_ok_def)
  then obtain m where m: "mainf v t = Some m" "sfib v t \<noteq> Some m" using mv1 unfolding moved_def by auto
  note call = call_moved [OF v(3) apart m]
  have mv: "moved this {t} ?w w" by (rule moved_trans [OF mv1 call(1)]) simp
  have "sfib w t \<noteq> None" using p(1) mv by (simp add: moved_def)
  then have pl: "place_ok this w t (Enters_root c)" using call(3) by (simp add: place_ok_def)
  have sc': "w_scheds w this = Some (sc\<lparr>sc_autoStop := True, sc_stopping := True\<rparr>)" using call(2) v(2) by simp
  show ?thesis
    by (rule inv_step [OF inv at mv sc(1) sc' _ pl caller_modes(1) caller_modes(2)]) (use moved_queue [OF mv sc(2)] in simp_all)
qed

lemma root_enter_same:
  "on_fibers (CallerMainFunc_enter env t) w = Inr (x, w') \<Longrightarrow> cur w t \<noteq> None \<Longrightarrow> w' = w"
  by (auto simp: on_fibers_eq CallerMainFunc_enter_def Fiber_GetThis_def bind_out_eq_Inr deref_eq)

lemma run_start_root:
  assumes run: "run_start env t this w = Inr (l, w')" and sc: "w_scheds w this = Some sc" and root: "sc_rootThread sc = t"
  shows "\<exists>v i. ctx_of v = ctx_of w \<and> fs_tls (w_fibers v) = fs_tls (w_fibers w) \<and> fs_next (w_fibers v) = fs_next (w_fibers w) \<and>
    w_scheds v = w_scheds w \<and> on_fibers (new_Fiber env (Some (Idle_task this)) 0 False) v = Inr (i, w') \<and> l = \<lparr>rl_idle = i, rl_cb = None\<rparr>"
proof -
  define v where "v = setThis t this ((sched_log (sc_name sc @ '' run'') w)\<lparr>w_hooks := w_hooks w @ [(t, True)]\<rparr>)"
  have "ctx_of v = ctx_of w" "fs_tls (w_fibers v) = fs_tls (w_fibers w)" "fs_next (w_fibers v) = fs_next (w_fibers w)"
      "w_scheds v = w_scheds w"
    by (simp_all add: v_def setThis_def sched_log_def fiber_log_def ctx_of_def fun_eq_iff)
  moreover have "\<exists>i. on_fibers (new_Fiber env (Some (Idle_task this)) 0 False) v = Inr (i, w') \<and> l = \<lparr>rl_idle = i, rl_cb = None\<rparr>"
    using run sc root unfolding run_start_def sched_at_def by (auto simp: bind_out_eq_Inr Let_def v_def [symmetric])
  ultimately show ?thesis by blast
qed

lemma inv_begins_root:
  assumes inv: "sched_inv this cf" and at: "cf_at cf t = Some (Enters_root c)"
    and root: "map_option sc_rootThread (w_scheds (cf_world cf) this) = Some t"
    and en: "on_fibers (CallerMainFunc_enter env t) (cf_world cf) = Inr (x, w)" and run: "run_start env t this w = Inr (l, w')"
  shows "sched_inv this (moves_to cf t (In_loop l) w')"
proof -
  let ?w = "cf_world cf"
  obtain sc where sc: "w_scheds ?w this = Some sc" "queue_ok ?w (sc_fibers sc)" using invD(3) [OF inv] by blast
  have p: "sfib ?w t \<noteq> None" "cur ?w t \<noteq> None" using invD(2) [OF inv at] by (simp_all add: place_ok_def)
  have w: "w = ?w" by (rule root_enter_same [OF en p(2)])
  obtain v i where v: "ctx_of v = ctx_of ?w" "fs_tls (w_fibers v) = fs_tls (w_fibers ?w)" "fs_next (w_fibers v) = fs_next (w_fibers ?w)"
      "w_scheds v = w_scheds ?w" "on_fibers (new_Fiber env (Some (Idle_task this)) 0 False) v = Inr (i, w')" "l = \<lparr>rl_idle = i, rl_cb = None\<rparr>"
    using run_start_root [OF run [unfolded w] sc(1)] root sc(1) by auto
  have mv1: "moved this {t} ?w v" by (rule moved_same [OF invD(1) [OF inv] v(2,1,3)])
  note n = new_Fiber_moved [OF v(5) moved_apart [OF mv1 invD(1) [OF inv]]]
  have mv: "moved this {t} ?w w'" by (rule moved_trans [OF mv1 moved_into [OF n(1)]])
  have "sfib w' t \<noteq> None" using p(1) mv by (simp add: moved_def)
  then have pl: "place_ok this w' t (In_loop l)" using n(2) v(6) by (simp add: place_ok_def locals_fibers_def)
  have sc': "w_scheds w' this = Some sc" using n(3) v(4) sc(1) by simp
  show ?thesis
    by (rule inv_step [OF inv at mv sc(1) sc' _ pl caller_modes(2) loop_mode]) (use moved_queue [OF mv sc(2)] in simp_all)
qed

lemma inv_ends_root:
  assumes inv: "sched_inv this cf" and at: "cf_at cf t = Some Out_of_loop" and f: "GetMainFiber t (cf_world cf) = Some f"
    and run: "on_fibers (CallerMainFunc_finish env t f ended bt Never) (cf_world cf) = Inr (Ctx_saved (Stop_called this), w)"
  shows "sched_inv this (moves_to cf t Outside w)"
proof -
  let ?w = "cf_world cf"
  obtain sc where sc: "w_scheds ?w this = Some sc" "queue_ok ?w (sc_fibers sc)" using invD(3) [OF inv] by blast
  have s: "sfib ?w t = Some f" using f by (simp add: GetMainFiber_def)
  note fin = caller_finish_moved [OF run invD(1) [OF inv] s]
  have "sfib w t = Some f" using s fin(1) by (simp add: moved_def)
  then have pl: "place_ok this w t Outside" using fin(3) by (auto simp: place_ok_def)
  have sc': "w_scheds w this = Some sc" using fin(2) sc(1) by simp
  show ?thesis
    by (rule inv_step [OF inv at fin(1) sc(1) sc' _ pl out_mode caller_modes(1)]) (use moved_queue [OF fin(1) sc(2)] in simp_all)
qed

theorem sched_step_inv: "sched_step env this cf es cf' \<Longrightarrow> sched_inv this cf \<Longrightarrow> sched_inv this cf'"
proof (induction rule: sched_step.induct)
  case (idle_yields cf t f c w)
  then have "on_fibers (YieldToHold env t (Idle_yielded this)) (cf_world cf) = Inr (c, w)"
    by (auto simp: idle_loop_def bind_out_eq_Inr split: if_splits)
  then show ?case using idle_yields place_cur [of this cf t "In_idle f" f]
    by (intro inv_yields [OF _ _ _ YieldToHold_leaves_world]) auto
next
  case (idle_ends cf t f w bt c w')
  then have "w = cf_world cf" by (auto simp: idle_loop_def bind_out_eq_Inr split: if_splits)
  then show ?case using idle_ends by (intro inv_yields [OF _ _ _ finish_leaves_world]) auto
next
  case (yields_ready cf t f v c w)
  then show ?case using place_cur [of this cf t "In_callback f" f] by (intro inv_yields [OF _ _ _ YieldToReady_leaves_world]) auto
next
  case (yields_hold cf t f v c w)
  then show ?case using place_cur [of this cf t "In_callback f" f] by (intro inv_yields [OF _ _ _ YieldToHold_leaves_world]) auto
next
  case (ends cf t f ended bt c w)
  then show ?case by (intro inv_yields [OF _ _ _ finish_leaves_world]) auto
next
  case (resume cf t v f)
  then show ?case by (intro inv_resume) auto
next
  case (resume_idle cf t f)
  then show ?case by (intro inv_resume) auto
next
  case (enter cf t f cb w)
  then show ?case by (intro inv_enter_callback) auto
next
  case (enter_idle cf t f w)
  then show ?case by (intro inv_enter_callback [where w = w]) auto
next
  case (back_fiber cf t l f w)
  then show ?case by (intro inv_leave_task [where k = "After_fiber this l f"]) (auto simp: place_ok_def place_mode_def)
next
  case (back_cb cf t l w)
  then show ?case by (intro inv_leave_task [where k = "After_cb this l"]) (auto simp: place_ok_def place_mode_def)
qed (auto intro: inv_begin inv_pick inv_dispatch inv_settles_fiber inv_settles_cb inv_back_idle inv_switches inv_schedules
    inv_schedules_range inv_makes_fiber inv_stops inv_stops_itself inv_calls_root inv_begins_root inv_ends_root)

lemma first_inv:
  assumes "first_config this cf"
  shows "sched_inv this cf"
proof -
  obtain sc where sc: "w_scheds (cf_world cf) this = Some sc" "sc_fibers sc = []" "sc_active sc = 0" "sc_idle sc = 0"
      and at: "\<forall>t. if t = sc_rootThread sc \<and> sc_rootFiber sc \<noteq> None then caller_outside cf t
        else cf_at cf t = None \<and> sfib (cf_world cf) t = None"
      and mains: "main_fibers_apart (cf_world cf)"
      and fr: "fresh_in (fs_fibers (w_fibers (cf_world cf))) (fs_next (w_fibers (cf_world cf)))"
      and ctx: "\<forall>f b. fs_fibers (w_fibers (cf_world cf)) f = Some b \<longrightarrow> back_mode this (fb_ctx b) = None"
    using assms unfolding first_config_def by blast
  have out: "caller_outside cf t" "t = sc_rootThread sc" if "sfib (cf_world cf) t = Some m \<or> cf_at cf t = Some p" for t m p
    using at [rule_format, of t] that by (auto split: if_splits)
  have apart: "fibers_apart this (cf_world cf)"
    unfolding fibers_apart_def
  proof (intro conjI allI impI)
    show "fresh_in (fs_fibers (w_fibers (cf_world cf))) (fs_next (w_fibers (cf_world cf)))" by (rule fr)
    show "t = t'" if "sfib (cf_world cf) t = Some m" "sfib (cf_world cf) t' = Some m" for t t' m
      using out(2) [of t m] out(2) [of t' m] that by simp
    show "ctx_of (cf_world cf) m \<noteq> None" if "sfib (cf_world cf) t = Some m" for t m
      using out(1) [of t m] that by (auto simp: caller_outside_def)
    show "back_mode this c = None" if "ctx_of (cf_world cf) f = Some c" for f c
      using ctx that by (auto simp: ctx_of_def)
    show "u = t" if "mainf (cf_world cf) t = Some m" "sfib (cf_world cf) u = Some m" for t m u
      using mains that unfolding main_fibers_apart_def by simp
    show "ctx_of (cf_world cf) m \<noteq> None" if "mainf (cf_world cf) t = Some m" for t m
      using mains that unfolding main_fibers_apart_def by simp
  qed
  have dom: "dom (cf_at cf) \<subseteq> {sc_rootThread sc}" using out(2) by blast
  have "finite (dom (cf_at cf))" by (rule finite_subset [OF dom]) simp
  moreover have none: "sfib (cf_world cf) t = None" if "cf_at cf t = None" for t
    using at [rule_format, of t] that by (auto simp: caller_outside_def split: if_splits)
  moreover have place: "p = Outside \<and> place_ok this (cf_world cf) t p" if "cf_at cf t = Some p" for t p
    using out(1) [of t _ p] that by (auto simp: caller_outside_def place_ok_def)
  moreover have "busy_with this cf md = {}" for md
    using place by (fastforce simp: busy_with_def place_mode_def)
  ultimately show ?thesis using apart sc by (simp add: sched_inv_def queue_ok_def)
qed

lemma sched_run_inv: "sched_run env this cf0 es cf \<Longrightarrow> first_config this cf0 \<Longrightarrow> sched_inv this cf"
proof (induction rule: sched_run.induct)
  case start
  then show ?case by (rule first_inv)
qed (blast intro: sched_step_inv)

end
