(* ===== verification/SchedulerTheorems.thy ===== *)
theory SchedulerTheorems
  imports SchedulerSafe
begin

text \<open>
  What holds at every moment of every interleaving of the threads of a scheduler: the counters
  are exact and bounded by the number of threads, \<open>stopping\<close> means that no task is queued or held,
  but not that no fiber is left, taking a task never fails, and no queued task is lost or taken twice.
\<close>

section \<open>The queue\<close>

definition queue_of :: "addr \<Rightarrow> ('u, 'v) world \<Rightarrow> 'u fiber_and_thread list" where
  "queue_of this w = (case w_scheds w this of None \<Rightarrow> [] | Some sc \<Rightarrow> sc_fibers sc)"

definition queued :: "'u event list \<Rightarrow> 'u fiber_and_thread list" where
  "queued es = concat (map (\<lambda>e. case e of Queued ft \<Rightarrow> [ft] | Taken t ft \<Rightarrow> []) es)"

definition taken :: "'u event list \<Rightarrow> 'u fiber_and_thread list" where
  "taken es = concat (map (\<lambda>e. case e of Queued ft \<Rightarrow> [] | Taken t ft \<Rightarrow> [ft]) es)"

lemma event_lists [simp]:
  "queued [] = []" "taken [] = []" "queued (es @ es') = queued es @ queued es'" "taken (es @ es') = taken es @ taken es'"
  "queued [Queued ft] = [ft]" "taken [Queued ft] = []" "queued [Taken t ft] = []" "taken [Taken t ft] = [ft]"
  by (simp_all add: queued_def taken_def)

lemma queue_same: "w_scheds w' this = w_scheds w this \<Longrightarrow> queue_of this w' = queue_of this w"
  by (simp add: queue_of_def)

lemma queue_of_Some: "w_scheds w this = Some sc \<Longrightarrow> queue_of this w = sc_fibers sc"
  by (simp add: queue_of_def)

lemma on_fibers_queue: "on_fibers f w = Inr (x, w') \<Longrightarrow> queue_of this w' = queue_of this w"
  by (auto simp: on_fibers_eq queue_of_def)

lemma on_sched_queue:
  "on_sched this f w = Inr w' \<Longrightarrow> (\<And>sc. sc_fibers (f sc) = sc_fibers sc) \<Longrightarrow> queue_of this w' = queue_of this w"
  by (auto simp: on_sched_def bind_out_eq_Inr sched_at_eq queue_of_def)

lemma tickle_queue [simp]: "queue_of this (tickle w) = queue_of this w" "queue_of this (sched_log l w) = queue_of this w"
    "queue_of this (w\<lparr>w_fibers := fs\<rparr>) = queue_of this w"
  by (simp_all add: queue_of_def)

lemma set_state_queue: "set_state f st w = Inr w' \<Longrightarrow> queue_of this w' = queue_of this w"
  by (auto simp: set_state_def bind_out_eq_Inr)

lemma schedule_queue: "schedule this fc thr w = Inr w' \<Longrightarrow> queue_of this w' = queue_of this w @ queued (queued_by fc thr)"
  by (auto simp: schedule_def scheduleNoLock_def bind_out_eq_Inr sched_at_eq Let_def queue_of_def queued_by_def)

lemma run_start_queue: "run_start env t this w = Inr (l, w') \<Longrightarrow> queue_of this w' = queue_of this w"
  by (auto simp: run_start_def bind_out_eq_Inr Let_def on_fibers_eq setThis_def sched_log_def queue_of_def split: if_splits)

lemma dispatch_queue:
  assumes "run_dispatch env t this l (tm, act, ft) w = Inr (n, w')"
  shows "queue_of this w' = queue_of this w"
  using assms
proof (cases rule: run_dispatch_cases)
  case (Fiber_task f)
  then show ?thesis by (auto simp: dispatch_fiber_def bind_out_eq_Inr dest!: on_fibers_queue [where this = this] split: if_splits)
next
  case (Cb_task cb)
  then show ?thesis
    by (cases "rl_cb l") (auto simp: dispatch_cb_def bind_out_eq_Inr dest!: on_fibers_queue [where this = this] split: if_splits)
next
  case Nothing
  then show ?thesis
    by (auto simp: dispatch_idle_def bind_out_eq_Inr dest!: on_fibers_queue [where this = this] on_sched_queue split: if_splits)
qed

lemma leave_task_queue: "leave_task this w = Inr w' \<Longrightarrow> queue_of this w' = queue_of this w"
  unfolding leave_task_def by (erule on_sched_queue) simp

lemma settle_fiber_queue:
  assumes "settle_fiber this l f w = Inr (l', w')"
  shows "queue_of this w' = queue_of this w @ queued (requeued f w)"
proof -
  obtain st where st: "fiber_state f w = Inr st"
      "(if st = ST_READY then schedule this (Fiber_arg (Some f)) (- 1) w
        else if \<not> ended_state st then set_state f ST_HOLD w else Inr w) = Inr w'"
    using assms by (auto simp: settle_fiber_def bind_out_eq_Inr)
  then show ?thesis
    using schedule_queue [of this "Fiber_arg (Some f)" "- 1" w w'] set_state_queue [of f ST_HOLD w w' this]
    by (auto simp: requeued_def split: if_splits)
qed

lemma settle_cb_queue:
  assumes "settle_cb env this l w = Inr (l', w')"
  shows "queue_of this w' = queue_of this w @ queued (case rl_cb l of None \<Rightarrow> [] | Some g \<Rightarrow> requeued g w)"
proof -
  obtain g where g: "rl_cb l = Some g" using assms by (cases "rl_cb l") (auto simp: settle_cb_def)
  then obtain st where "fiber_state g w = Inr st"
      "(if st = ST_READY then bind_out (schedule this (Fiber_arg (Some g)) (- 1) w) (\<lambda>w2. Inr (l\<lparr>rl_cb := None\<rparr>, w2))
        else if ended_state st then bind_out (Fiber_reset env g None (w_fibers w)) (\<lambda>fs. Inr (l, w\<lparr>w_fibers := fs\<rparr>))
        else bind_out (set_state g ST_HOLD w) (\<lambda>w2. Inr (l\<lparr>rl_cb := None\<rparr>, w2))) = Inr (l', w')"
    using assms by (auto simp: settle_cb_def bind_out_eq_Inr)
  then show ?thesis
    using g schedule_queue [of this "Fiber_arg (Some g)" "- 1" w] set_state_queue [of g ST_HOLD w _ this]
    by (auto simp: requeued_def bind_out_eq_Inr split: if_splits)
qed

lemma after_idle_queue:
  assumes "after_idle this l w = Inr (l', w')"
  shows "queue_of this w' = queue_of this w"
proof -
  obtain w1 st where w1: "on_sched this (\<lambda>sc. sc\<lparr>sc_idle := sc_idle sc - 1\<rparr>) w = Inr w1"
      "(if \<not> ended_state st then set_state (rl_idle l) ST_HOLD w1 else Inr w1) = Inr w'"
    using assms by (auto simp: after_idle_def bind_out_eq_Inr)
  have "queue_of this w1 = queue_of this w" by (rule on_sched_queue [OF w1(1)]) simp
  then show ?thesis using w1(2) set_state_queue [of "rl_idle l" ST_HOLD w1 w' this] by (auto split: if_splits)
qed

lemma idle_loop_queue: "idle_loop env t this w = Inr (r, w') \<Longrightarrow> queue_of this w' = queue_of this w"
  by (auto simp: idle_loop_def bind_out_eq_Inr dest!: on_fibers_queue [where this = this] split: if_splits)

lemma switchTo_queue:
  assumes "switchTo env t this thr k w = Inr (Some c, w')" and "t_fiber (fs_tls (w_fibers w) t) = Some f"
  shows "queue_of this w' = queue_of this w @ queued (queued_by (Fiber_arg (Some f)) thr)"
proof -
  obtain w2 where w2: "schedule this (Fiber_arg (Some f)) thr w = Inr w2" "on_fibers (YieldToHold env t k) w2 = Inr (c, w')"
    using assms by (auto simp: switchTo_def assert_that_eq bind_out_eq_Inr on_fibers_eq Fiber_GetThis_def split: if_splits)
  show ?thesis using schedule_queue [OF w2(1)] on_fibers_queue [OF w2(2)] by simp
qed

lemma range_queue:
  assumes "schedule_range this fcs w = Inr (fcs', w')"
  shows "queue_of this w' = queue_of this w @ queued (concat (map (\<lambda>fc. queued_by fc (- 1)) fcs))"
proof -
  obtain sc where sc: "w_scheds w this = Some sc" using assms by (auto simp: schedule_range_def bind_out_eq_Inr sched_at_eq)
  have "[ft \<leftarrow> map (\<lambda>fc. new_FiberAndThread fc (- 1)) fcs. has_task ft] = queued (concat (map (\<lambda>fc. queued_by fc (- 1)) fcs))"
    by (induction fcs) (auto simp: queued_by_def)
  then show ?thesis using schedule_range_effect(2) [OF assms sc] sc by (simp add: queue_of_def)
qed

lemma pick_queue:
  assumes "run_pick t this w = Inr ((tm, act, ft), w')"
  shows "mset (queue_of this w') + mset (taken (if act then [Taken t ft] else [])) = mset (queue_of this w) \<and>
    (act \<longrightarrow> has_task ft \<and> \<not> for_another t ft)"
proof -
  obtain sc where sc: "w_scheds w this = Some sc" using assms by (auto simp: run_pick_def bind_out_eq_Inr sched_at_eq)
  show ?thesis using run_pick_effect [OF assms sc] sc by (auto simp: queue_of_def)
qed

lemma stop_begin_queue:
  assumes "stop_begin env t this w = Inr (n, w')" and sc: "w_scheds w this = Some sc"
  shows "queue_of this w' = queue_of this w"
proof -
  obtain v where v: "w_scheds v this = Some (sc\<lparr>sc_autoStop := True, sc_stopping := True\<rparr>)"
      "case n of Stop_calls c \<Rightarrow> \<exists>r. on_fibers (Fiber_call env t r (Stop_called this)) v = Inr (c, w') | _ \<Rightarrow> v = w'"
    using stop_begin_cases [OF assms] by (cases n) auto
  have "queue_of this w' = queue_of this v" using v(2) by (cases n) (auto dest: on_fibers_queue)
  then show ?thesis using v(1) sc by (simp add: queue_of_def)
qed

definition step_conserves :: "addr \<Rightarrow> ('u, 'v) config \<Rightarrow> 'u event list \<Rightarrow> ('u, 'v) config \<Rightarrow> bool" where
  "step_conserves this cf es cf' \<longleftrightarrow>
     mset (queue_of this (cf_world cf')) + mset (taken es) = mset (queue_of this (cf_world cf)) + mset (queued es) \<and>
     (\<forall>t ft. Taken t ft \<in> set es \<longrightarrow> has_task ft \<and> \<not> for_another t ft)"

lemma worlds [simp]: "cf_world (moves_to cf t p w) = w" "cf_world (with_world cf w) = w"
  by (simp_all add: moves_to_def with_world_def)

lemma conserves_queued:
  "queue_of this (cf_world cf') = queue_of this (cf_world cf) @ queued es \<Longrightarrow> taken es = [] \<Longrightarrow>
   (\<And>t ft. Taken t ft \<notin> set es) \<Longrightarrow> step_conserves this cf es cf'"
  by (simp add: step_conserves_def)

lemma queued_by_events [simp]: "taken (queued_by fc thr) = []" "Taken t ft \<notin> set (queued_by fc thr)"
    "taken (requeued f w) = []" "Taken t ft \<notin> set (requeued f w)"
  by (simp_all add: queued_by_def requeued_def)

lemma range_events [simp]: "taken (concat (map (\<lambda>fc. queued_by fc thr) fcs)) = []"
  by (induction fcs) simp_all

lemma sched_step_conserves: "sched_step env this cf es cf' \<Longrightarrow> step_conserves this cf es cf'"
proof (induction rule: sched_step.induct)
  case (pick cf t l tm act ft w)
  then show ?case using pick_queue [OF pick(2)] by (simp add: step_conserves_def queued_def)
next
  case (settles_cb cf t l l' w)
  show ?case by (rule conserves_queued) (use settle_cb_queue [OF settles_cb(2)] in \<open>auto split: option.split\<close>)
next
  case (stops cf t w)
  then obtain sc where sc: "w_scheds (cf_world cf) this = Some sc" "sc_rootFiber sc = None" by auto
  show ?case by (rule conserves_queued) (use stop_begin_effect [OF stops(2) sc] sc in \<open>simp_all add: queue_of_def\<close>)
next
  case (stops_itself cf t n w)
  obtain sc where sc: "w_scheds (cf_world cf) this = Some sc" using stops_itself(2) by auto
  have "queue_of this w = queue_of this (cf_world cf)" using stop_begin_queue [OF stops_itself(3) sc] .
  then show ?case by (intro conserves_queued) simp_all
next
  case (calls_root cf t c w)
  obtain sc where sc: "w_scheds (cf_world cf) this = Some sc" using calls_root(2) by auto
  have "queue_of this w = queue_of this (cf_world cf)" using stop_begin_queue [OF calls_root(3) sc] .
  then show ?case by (intro conserves_queued) simp_all
next
  case (begins_root cf t f w l w')
  show ?case by (rule conserves_queued) (use on_fibers_queue [OF begins_root(3)] run_start_queue [OF begins_root(4)] in simp_all)
next
  case (idle_ends cf t f w bt c w')
  show ?case by (rule conserves_queued) (use idle_loop_queue [OF idle_ends(2)] on_fibers_queue [OF idle_ends(3)] in simp_all)
qed (rule conserves_queued; simp add: run_start_queue dispatch_queue on_fibers_queue leave_task_queue settle_fiber_queue after_idle_queue
    idle_loop_queue switchTo_queue schedule_queue range_queue)+

lemma run_conserves:
  assumes "sched_run env this cf0 es cf" and "first_config this cf0"
  shows "mset (queued es) = mset (taken es) + mset (queue_of this (cf_world cf)) \<and>
    (\<forall>t ft. Taken t ft \<in> set es \<longrightarrow> has_task ft \<and> \<not> for_another t ft)"
  using assms(1)
proof (induction rule: sched_run.induct)
  case start
  then show ?case using assms(2) by (auto simp: first_config_def queue_of_def)
next
  case (step es cf es' cf')
  have "step_conserves this cf es' cf'" by (rule sched_step_conserves [OF step(2)])
  then show ?case using step(3) by (auto simp: step_conserves_def ac_simps)
qed

lemmas conserved = run_conserves [THEN conjunct1]

text \<open>
  C12. No task is lost and none is taken twice: in every interleaving of the threads of a scheduler
  that begins with nothing to do, the tasks that have been queued are those that have been taken
  and those that are still queued, each as often; and every task is taken by a thread it is for.
\<close>

theorem tasks_conserved:
  assumes "first_config this cf0" and "sched_run env this cf0 es cf"
  shows "mset (queued es) = mset (taken es) + mset (queue_of this (cf_world cf)) \<and>
    (\<forall>t ft. Taken t ft \<in> set es \<longrightarrow> has_task ft \<and> (ft_thread ft = - 1 \<or> ft_thread ft = t))"
  using run_conserves [OF assms(2,1)] by (auto simp: for_another_def)

section \<open>A run\<close>

text \<open>A callback is scheduled, a thread begins its loop, takes it, and runs it.\<close>

definition quiet_world :: "(nat, nat) world" where
  "quiet_world = \<lparr>w_fibers = no_fibers,
     w_scheds = [9 \<mapsto> \<lparr>sc_threads = [], sc_fibers = [], sc_rootFiber = None, sc_name = ''net'', sc_threadIds = [],
       sc_threadCount = 1, sc_active = 0, sc_idle = 0, sc_stopping = False, sc_autoStop = False, sc_rootThread = - 1\<rparr>],
     w_sched = (\<lambda>t. None), w_threads = no_threads, w_hooks = []\<rparr>"

definition quiet :: "(nat, nat) config" where
  "quiet = \<lparr>cf_world = quiet_world, cf_at = Map.empty\<rparr>"

lemma quiet_first: "first_config 9 quiet"
  by (simp add: first_config_def main_fibers_apart_def quiet_def quiet_world_def no_fibers_def fresh_in_def)

definition the_task :: "nat fiber_and_thread" where
  "the_task = \<lparr>ft_fiber = None, ft_cb = Some (User_task 5), ft_thread = - 1\<rparr>"

lemma a_run:
  "\<exists>cf l. sched_run good_env 9 quiet [Queued the_task, Taken 7 the_task] cf \<and>
     cf_at cf = [7 \<mapsto> Has_picked l False True the_task] \<and> map_option sc_active (w_scheds (cf_world cf) 9) = Some 1"
proof -
  let ?e = good_env
  obtain w1 where w1: "schedule 9 (Cb_arg (Some (User_task 5))) (- 1) quiet_world = Inr w1" "same_run quiet_world w1"
      "w_scheds w1 9 = Some ((the (w_scheds quiet_world 9))\<lparr>sc_fibers := [the_task]\<rparr>)"
    using schedule_run [of quiet_world 9 "the (w_scheds quiet_world 9)" "Cb_arg (Some (User_task 5))" "- 1"]
    by (auto simp: quiet_world_def has_task_def the_task_def)
  have r1: "sched_run ?e 9 quiet [Queued the_task] (with_world quiet w1)"
    using sched_run.step [OF sched_run.start sched_step.schedules [of quiet "Cb_arg (Some (User_task 5))" 9 "- 1" w1]] w1(1)
    by (simp add: schedulable_def quiet_def queued_by_def has_task_def the_task_def)
  have root: "map_option sc_rootThread (w_scheds w1 9) \<noteq> Some 7" using w1(3) by (simp add: quiet_world_def)
  have tls: "t_fiber (fs_tls (w_fibers w1) 7) = None" using w1(2) by (simp add: same_run_def quiet_world_def no_fibers_def)
  obtain l w2 where w2: "run_start ?e 7 9 w1 = Inr (l, w2)"
    using w1(3) tls root by (simp add: run_start_def sched_at_def setThis_def sched_log_def fiber_log_def on_fibers_def
        Fiber_GetThis_def new_main_Fiber_def SetThis_def set_fiber_def assert_that_def good_env_def new_Fiber_def MallocStackAllocator_Alloc_def Let_def)
  define cf2 where "cf2 = moves_to (with_world quiet w1) 7 (In_loop l) w2"
  have q2: "queue_of 9 w2 = [the_task]" using run_start_queue [OF w2] w1(3) by (simp add: queue_of_def)
  have "sched_step ?e 9 (with_world quiet w1) [] cf2"
    unfolding cf2_def by (rule sched_step.begin_run) (use root tls w2 in \<open>simp_all add: quiet_def with_world_def\<close>)
  from sched_run.step [OF r1 this] have r2: "sched_run ?e 9 quiet [Queued the_task] cf2" by simp
  have inv2: "sched_inv 9 cf2" by (rule sched_run_inv [OF r2 quiet_first])
  obtain sc2 where sc2: "w_scheds w2 9 = Some sc2" "sc_fibers sc2 = [the_task]"
    using q2 by (cases "w_scheds w2 9") (auto simp: queue_of_def)
  have "busy_with 9 cf2 M_active = {}"
    by (auto simp: busy_with_def cf2_def moves_to_def with_world_def quiet_def place_mode_def split: if_splits)
  then have act: "sc_active sc2 = 0" using inv2 sc2(1) by (simp add: sched_inv_def cf2_def)
  have pick: "run_pick 7 9 w2 = Inr ((False, True, the_task), set_sched 9 (sc2\<lparr>sc_fibers := [], sc_active := sc_active sc2 + 1\<rparr>) w2)"
    using run_pick_head [OF sc2, of 7] by (simp add: may_take_def for_another_def sound_task_def the_task_def has_task_def)
  define cf3 where "cf3 = moves_to cf2 7 (Has_picked l False True the_task) (set_sched 9 (sc2\<lparr>sc_fibers := [], sc_active := sc_active sc2 + 1\<rparr>) w2)"
  have "sched_step ?e 9 cf2 [Taken 7 the_task] cf3"
    unfolding cf3_def using sched_step.pick [of cf2 7 l 9 False True the_task] pick by (simp add: cf2_def moves_to_def)
  from sched_run.step [OF r2 this] have "sched_run ?e 9 quiet [Queued the_task, Taken 7 the_task] cf3" by simp
  moreover have "cf_at cf3 = [7 \<mapsto> Has_picked l False True the_task]" by (simp add: cf3_def cf2_def moves_to_def with_world_def quiet_def)
  moreover have "map_option sc_active (w_scheds (cf_world cf3) 9) = Some 1" by (simp add: cf3_def act)
  ultimately show ?thesis by blast
qed

theorem tasks_conserved_witness:
  "\<exists>cf es. sched_run good_env 9 quiet es cf \<and> queued es = [the_task] \<and> mset (queued es) = mset (taken es) + mset (queue_of 9 (cf_world cf))"
proof -
  obtain cf where r: "sched_run good_env 9 quiet [Queued the_task, Taken 7 the_task] cf" using a_run by blast
  have "queued [Queued the_task, Taken 7 the_task] = [the_task]" by (simp add: queued_def)
  then show ?thesis using tasks_conserved [OF quiet_first r] r by blast
qed

section \<open>The counters\<close>

text \<open>
  C13. The counters of a scheduler are exact in every interleaving: the active count is the number of
  threads that have taken a task and have not given it back, the idle count is the number of
  threads in their idle fiber, and together they are never more than the threads that run.
\<close>

theorem counters_exact:
  assumes "first_config this cf0" and "sched_run env this cf0 es cf"
  shows "\<exists>sc. w_scheds (cf_world cf) this = Some sc \<and>
    sc_active sc = of_nat (card (busy_with this cf M_active)) \<and> sc_idle sc = of_nat (card (busy_with this cf M_idle)) \<and>
    finite (dom (cf_at cf)) \<and> unat (sc_active sc) + unat (sc_idle sc) \<le> card (dom (cf_at cf))"
proof -
  obtain sc where sc: "w_scheds (cf_world cf) this = Some sc" "sc_active sc = of_nat (card (busy_with this cf M_active))"
      "sc_idle sc = of_nat (card (busy_with this cf M_idle))" and fin: "finite (dom (cf_at cf))"
    using sched_run_inv [OF assms(2,1)] unfolding sched_inv_def by blast
  let ?A = "busy_with this cf M_active" and ?I = "busy_with this cf M_idle"
  have sub: "?A \<union> ?I \<subseteq> dom (cf_at cf)" "?A \<inter> ?I = {}" by (auto simp: busy_with_def)
  have le: "unat (of_nat n :: u64) \<le> n" for n by (simp add: unat_of_nat)
  have fA: "finite ?A" "finite ?I" using sub(1) fin by (meson finite_Un finite_subset)+
  have "card ?A + card ?I = card (?A \<union> ?I)" using fA sub(2) by (simp add: card_Un_disjoint)
  also have "\<dots> \<le> card (dom (cf_at cf))" by (rule card_mono [OF fin sub(1)])
  finally have "unat (sc_active sc) + unat (sc_idle sc) \<le> card (dom (cf_at cf))"
    using le [of "card ?A"] le [of "card ?I"] sc(2,3) by simp
  then show ?thesis using sc fin by blast
qed

theorem counters_exact_witness:
  "\<exists>cf sc. sched_run good_env 9 quiet [Queued the_task, Taken 7 the_task] cf \<and> w_scheds (cf_world cf) 9 = Some sc \<and>
     sc_active sc = 1 \<and> unat (sc_active sc) + unat (sc_idle sc) \<le> card (dom (cf_at cf))"
proof -
  obtain cf where r: "sched_run good_env 9 quiet [Queued the_task, Taken 7 the_task] cf"
      "map_option sc_active (w_scheds (cf_world cf) 9) = Some 1" using a_run by blast
  then show ?thesis using counters_exact [OF quiet_first r(1)] by auto
qed

text \<open>
  C14. When \<open>stopping\<close> says yes, in any interleaving, no task is queued and no thread holds one:
  every task that was queued has been taken and has given its thread back. What it does not say is
  that every fiber has ended: the loop may be about to queue one again.
\<close>

theorem stopping_means_done:
  assumes "first_config this cf0" and "sched_run env this cf0 es cf"
    and "stopping this (cf_world cf) = Inr True" and "card (dom (cf_at cf)) < 2 ^ 64"
  shows "queue_of this (cf_world cf) = [] \<and> busy_with this cf M_active = {} \<and> mset (queued es) = mset (taken es)"
proof -
  obtain sc where sc: "w_scheds (cf_world cf) this = Some sc" "sc_active sc = of_nat (card (busy_with this cf M_active))"
      and fin: "finite (dom (cf_at cf))"
    using sched_run_inv [OF assms(2,1)] unfolding sched_inv_def by blast
  have q: "sc_fibers sc = []" "sc_active sc = 0" using assms(3) sc(1) by (simp_all add: stopping_def sched_at_def)
  have sub: "busy_with this cf M_active \<subseteq> dom (cf_at cf)" by (auto simp: busy_with_def)
  have "card (busy_with this cf M_active) < 2 ^ 64" using card_mono [OF fin sub] assms(4) by simp
  moreover have "(of_nat (card (busy_with this cf M_active)) :: u64) = 0" using q(2) sc(2) by simp
  ultimately have "card (busy_with this cf M_active) = 0"
    unfolding word_of_nat_eq_0_iff by (auto dest: dvd_imp_le)
  then have "busy_with this cf M_active = {}" using finite_subset [OF sub fin] by simp
  moreover have "queue_of this (cf_world cf) = []" using sc(1) q(1) by (simp add: queue_of_def)
  moreover have "mset (queued es) = mset (taken es) + mset (queue_of this (cf_world cf))"
    using assms(2,1) by (rule conserved)
  ultimately show ?thesis by simp
qed

theorem stopping_means_done_witness:
  "\<exists>cf. sched_run good_env 9 quiet [] cf \<and> stopping 9 (cf_world cf) = Inr True \<and> busy_with 9 cf M_active = {}"
proof -
  obtain w where w: "stop_begin good_env 1 9 quiet_world = Inr (Stop_joins, w)"
    by (simp add: stop_begin_def quiet_world_def on_sched_def sched_at_def set_sched_def Scheduler_GetThis_def assert_that_def)
  let ?sc = "the (w_scheds quiet_world 9)"
  have "w_scheds quiet_world 9 = Some ?sc" "sc_rootFiber ?sc = None" "sc_fibers ?sc = []" "sc_active ?sc = 0"
    by (simp_all add: quiet_world_def)
  then have stop: "stopping 9 w = Inr True" using stop_begin_effect [OF w, of ?sc] by (simp add: stopping_def sched_at_def)
  have "sched_step good_env 9 quiet [] (with_world quiet w)"
    by (rule sched_step.stops [of _ 1]) (use w in \<open>simp_all add: quiet_def quiet_world_def\<close>)
  from sched_run.step [OF sched_run.start this] have r: "sched_run good_env 9 quiet [] (with_world quiet w)" by simp
  have "card (dom (cf_at (with_world quiet w))) < 2 ^ 64" by (simp add: with_world_def quiet_def)
  then show ?thesis using stopping_means_done [OF quiet_first r] stop r by (intro exI [of _ "with_world quiet w"]) simp
qed

section \<open>Stopping too early\<close>

lemma sched_run_trans: "sched_run env this cf es cf' \<Longrightarrow> sched_run env this cf' es' cf'' \<Longrightarrow> sched_run env this cf (es @ es') cf''"
proof (rotate_tac, induction rule: sched_run.induct)
  case start
  then show ?case by simp
next
  case (step es1 cf1 es2 cf2)
  from sched_run.step [OF step(3) [OF step(4)] step(2)] show ?case by simp
qed

lemma sched_run_step: "sched_step env this cf es cf' \<Longrightarrow> sched_run env this cf es cf'"
  using sched_run.step [OF sched_run.start] by fastforce

text \<open>
  A thread takes a fiber that has not begun, the fiber yields to ready, and the thread has taken
  its task off the count but has not yet looked at the fiber.
\<close>

lemma ready_round:
  assumes env: "fiber_env_ok env" and at: "cf_at cf t = Some (In_loop l)"
    and sc: "w_scheds (cf_world cf) this = Some sc" "sc_fibers sc = [\<lparr>ft_fiber = Some f, ft_cb = None, ft_thread = - 1\<rparr>]"
    and ent: "enterable t m f b (w_fibers (cf_world cf))"
    and b: "fb_state b = ST_INIT" "fb_ctx b = Ctx_start MainFunc" "fb_cb b = Some (User_task u)"
  shows "\<exists>cf'. sched_run env this cf [Taken t \<lparr>ft_fiber = Some f, ft_cb = None, ft_thread = - 1\<rparr>] cf' \<and>
    cf_at cf' t = Some (Settles_fiber l f) \<and> fiber_state f (cf_world cf') = Inr ST_READY \<and>
    w_scheds (cf_world cf') this = Some (sc\<lparr>sc_fibers := []\<rparr>)"
proof -
  let ?w = "cf_world cf" and ?ft = "\<lparr>ft_fiber = Some f, ft_cb = None, ft_thread = - 1\<rparr> :: 'a fiber_and_thread"
  have f: "fs_fibers (w_fibers ?w) f = Some b" "m \<noteq> f" using ent by (simp_all add: enterable_def)
  have st: "fiber_state f ?w = Inr ST_INIT" using f(1) b(1) by (simp add: fiber_state_eq)
  define w1 where "w1 = set_sched this (sc\<lparr>sc_fibers := [], sc_active := sc_active sc + 1\<rparr>) ?w"
  have pick: "run_pick t this ?w = Inr ((False, True, ?ft), w1)"
    using run_pick_head [OF sc(1,2), of t] st by (simp add: w1_def may_take_def for_another_def sound_task_def has_task_def)
  let ?cf1 = "moves_to cf t (Has_picked l False True ?ft) w1"
  have r1: "sched_run env this cf [Taken t ?ft] ?cf1" using sched_run_step [OF sched_step.pick [OF at pick]] by simp
  obtain s1 where s1: "Fiber_swapIn env t f (After_fiber this l f) (w_fibers ?w) = Inr (Ctx_start MainFunc, s1)"
      "t_fiber (fs_tls s1 t) = Some f" "t_scheduler_fiber (fs_tls s1 t) = Some m" "fs_fibers s1 f = Some (b\<lparr>fb_state := ST_EXEC\<rparr>)"
      "map_option fb_ctx (fs_fibers s1 m) = Some (Ctx_saved (After_fiber this l f))"
    using swapIn_enters [OF env ent] b(2) by metis
  let ?w2 = "w1\<lparr>w_fibers := s1\<rparr>"
  have disp: "run_dispatch env t this l (False, True, ?ft) w1 = Inr (Switch_to (Ctx_start MainFunc), ?w2)"
    using st s1(1) by (simp add: run_dispatch_def dispatch_fiber_def ended_state_def on_fibers_def w1_def)
  let ?cf2 = "moves_to ?cf1 t (Runs (Ctx_start MainFunc)) ?w2"
  have r2: "sched_run env this ?cf1 [] ?cf2"
    using sched_run_step [OF sched_step.dispatch [of ?cf1 t l False True ?ft env this "Switch_to (Ctx_start MainFunc)" ?w2]] disp
    by (simp add: moves_to_def place_of_def)
  have enter: "on_fibers (MainFunc_enter env t) ?w2 = Inr ((f, Some (User_task u)), ?w2)"
    using s1(2,4) b(3) by (simp add: on_fibers_def MainFunc_enter_def Fiber_GetThis_def deref_def)
  let ?cf3 = "moves_to ?cf2 t (In_callback f) ?w2"
  have r3: "sched_run env this ?cf2 [] ?cf3"
    using sched_run_step [OF sched_step.enter [of ?cf2 t env f "Some (User_task u)" ?w2 this]] enter by (simp add: moves_to_def)
  obtain s2 where s2: "YieldToReady env t (User_code undefined) s1 = Inr (Ctx_saved (After_fiber this l f), s2)"
      "fs_fibers s2 = (fs_fibers s1)(f \<mapsto> b\<lparr>fb_state := ST_READY, fb_ctx := Ctx_saved (User_code undefined)\<rparr>)"
    using YieldToReady_leaves [OF env s1(4) _ s1(2,3) f(2) s1(5), of "User_code undefined"] by auto
  let ?w3 = "w1\<lparr>w_fibers := s2\<rparr>"
  have yield: "on_fibers (YieldToReady env t (User_code undefined)) ?w2 = Inr (Ctx_saved (After_fiber this l f), ?w3)"
    using s2(1) by (simp add: on_fibers_def)
  let ?cf4 = "moves_to ?cf3 t (Runs (Ctx_saved (After_fiber this l f))) ?w3"
  have r4: "sched_run env this ?cf3 [] ?cf4"
    using sched_run_step [OF sched_step.yields_ready [of ?cf3 t f env undefined "Ctx_saved (After_fiber this l f)" ?w3 this]] yield
    by (simp add: moves_to_def)
  have sc3: "w_scheds ?w3 this = Some (sc\<lparr>sc_fibers := [], sc_active := sc_active sc + 1\<rparr>)" by (simp add: w1_def)
  let ?w4 = "set_sched this (sc\<lparr>sc_fibers := []\<rparr>) ?w3"
  have "leave_task this ?w3 = Inr ?w4" using leave_task_run [OF sc3] by simp
  then have r5: "sched_run env this ?cf4 [] (moves_to ?cf4 t (Settles_fiber l f) ?w4)"
    by (intro sched_run_step [OF sched_step.back_fiber]) (simp_all add: moves_to_def)
  have "fiber_state f ?w4 = Inr ST_READY" using s2(2) by (simp add: fiber_state_eq)
  then show ?thesis
    using sched_run_trans [OF r1 sched_run_trans [OF r2 sched_run_trans [OF r3 sched_run_trans [OF r4 r5]]]]
    by (intro exI [of _ "moves_to ?cf4 t (Settles_fiber l f) ?w4"]) (simp add: moves_to_def)
qed

text \<open>
  C22. The answer of \<open>stopping\<close> can be premature: in a scheduler that was told to stop and whose only
  task is a fiber that yields to ready, there is a moment, after the loop has taken the task off
  the count and before it has queued the fiber again, when \<open>stopping\<close> says yes, so that idle
  threads end, although the fiber has not; in the next step of the same thread the fiber is
  queued and \<open>stopping\<close> says no.
\<close>

theorem stopping_too_early:
  assumes first: "first_config this cf0" and run: "sched_run env this cf0 es cf" and env: "fiber_env_ok env"
    and at: "cf_at cf t = Some (In_loop l)"
    and sc: "w_scheds (cf_world cf) this = Some sc" "sc_fibers sc = [\<lparr>ft_fiber = Some f, ft_cb = None, ft_thread = - 1\<rparr>]"
    and flags: "sc_active sc = 0" "sc_autoStop sc" "sc_stopping sc"
    and ent: "enterable t m f b (w_fibers (cf_world cf))"
    and b: "fb_state b = ST_INIT" "fb_ctx b = Ctx_start MainFunc" "fb_cb b = Some (User_task u)"
  shows "\<exists>cf1 cf2. sched_run env this cf0 (es @ [Taken t \<lparr>ft_fiber = Some f, ft_cb = None, ft_thread = - 1\<rparr>]) cf1 \<and>
    stopping this (cf_world cf1) = Inr True \<and> fiber_state f (cf_world cf1) = Inr ST_READY \<and>
    sched_step env this cf1 [Queued \<lparr>ft_fiber = Some f, ft_cb = None, ft_thread = - 1\<rparr>] cf2 \<and>
    stopping this (cf_world cf2) = Inr False"
proof -
  let ?ft = "\<lparr>ft_fiber = Some f, ft_cb = None, ft_thread = - 1\<rparr> :: 'a fiber_and_thread"
  obtain cf1 where cf1: "sched_run env this cf [Taken t ?ft] cf1" "cf_at cf1 t = Some (Settles_fiber l f)"
      "fiber_state f (cf_world cf1) = Inr ST_READY" "w_scheds (cf_world cf1) this = Some (sc\<lparr>sc_fibers := []\<rparr>)"
    using ready_round [OF env at sc ent b] by blast
  obtain b1 where b1: "fs_fibers (w_fibers (cf_world cf1)) f = Some b1" "fb_state b1 = ST_READY" using cf1(3) by (auto simp: fiber_state_eq)
  obtain w where w: "settle_fiber this l f (cf_world cf1) = Inr (l, w)" "w_scheds w this = Some (sc\<lparr>sc_fibers := [?ft]\<rparr>)"
    using settle_fiber_run [OF cf1(4) b1(1), of l] b1(2) by auto
  have "sched_step env this cf1 [Queued ?ft] (moves_to cf1 t (In_loop l) w)"
    using sched_step.settles_fiber [OF cf1(2) w(1), of env] cf1(3) by (simp add: requeued_def queued_by_def has_task_def)
  moreover have "stopping this (cf_world cf1) = Inr True" using cf1(4) flags by (simp add: stopping_def sched_at_def)
  moreover have "stopping this w = Inr False" using w(2) by (simp add: stopping_def sched_at_def)
  ultimately show ?thesis
    using sched_run_trans [OF run cf1(1)] cf1(3) by (intro exI [of _ cf1] exI [of _ "moves_to cf1 t (In_loop l) w"]) simp
qed

definition waiting_fiber :: "(nat task, nat resume) fiber" where
  "waiting_fiber = \<lparr>fb_id = 1, fb_stack_size = 131072, fb_state = ST_INIT, fb_ctx = Ctx_start MainFunc, fb_stack = True,
     fb_cb = Some (User_task 5)\<rparr>"

definition one_fiber :: "(nat, nat) config" where
  "one_fiber = \<lparr>cf_world = quiet_world\<lparr>w_fibers := no_fibers\<lparr>fs_fibers := [5 \<mapsto> waiting_fiber], fs_next := 6\<rparr>\<rparr>, cf_at = Map.empty\<rparr>"

definition fiber_task :: "nat fiber_and_thread" where
  "fiber_task = \<lparr>ft_fiber = Some 5, ft_cb = None, ft_thread = - 1\<rparr>"

lemma one_fiber_first: "first_config 9 one_fiber"
  by (simp add: first_config_def main_fibers_apart_def one_fiber_def quiet_world_def no_fibers_def fresh_in_def waiting_fiber_def)

text \<open>The scheduler is told to stop, the fiber is scheduled, and a thread begins its loop.\<close>

lemma begun_run:
  "\<exists>cf l sc. sched_run good_env 9 one_fiber [Queued fiber_task] cf \<and> cf_at cf 7 = Some (In_loop l) \<and>
     w_scheds (cf_world cf) 9 = Some sc \<and> sc_fibers sc = [fiber_task] \<and> sc_active sc = 0 \<and> sc_autoStop sc \<and> sc_stopping sc \<and>
     enterable 7 6 5 waiting_fiber (w_fibers (cf_world cf))"
proof -
  let ?w0 = "cf_world one_fiber" and ?sc = "the (w_scheds quiet_world 9)"
  obtain w where w: "stop_begin good_env 1 9 ?w0 = Inr (Stop_joins, w)"
    by (simp add: one_fiber_def stop_begin_def quiet_world_def on_sched_def sched_at_def set_sched_def Scheduler_GetThis_def assert_that_def)
  have sc0: "w_scheds ?w0 9 = Some ?sc" "sc_rootFiber ?sc = None" "sc_fibers ?sc = []" "sc_active ?sc = 0" "sc_rootThread ?sc = - 1"
    by (simp_all add: one_fiber_def quiet_world_def)
  note stop = stop_begin_effect [OF w sc0(1,2)]
  have s1: "sched_step good_env 9 one_fiber [] (with_world one_fiber w)"
    by (rule sched_step.stops [of _ 1]) (use w in \<open>simp_all add: one_fiber_def quiet_world_def\<close>)
  obtain w1 where w1: "schedule 9 (Fiber_arg (Some 5)) (- 1) w = Inr w1" "same_run w w1"
      "w_scheds w1 9 = Some (?sc\<lparr>sc_autoStop := True, sc_stopping := True, sc_fibers := [fiber_task]\<rparr>)"
    using schedule_run [of w 9 _ "Fiber_arg (Some 5)" "- 1"] stop sc0(3) by (auto simp: has_task_def fiber_task_def)
  have fib: "fs_fibers (w_fibers w1) = [5 \<mapsto> waiting_fiber]" "fs_next (w_fibers w1) = 6" "t_fiber (fs_tls (w_fibers w1) 7) = None"
      "\<forall>t. t_scheduler_fiber (fs_tls (w_fibers w) t) = None" "fs_fibers (w_fibers w) = [5 \<mapsto> waiting_fiber]"
    using w1(2) stop by (simp_all add: same_run_def one_fiber_def no_fibers_def)
  have "schedulable w (Fiber_arg (Some 5))" using fib(4,5) by (simp add: schedulable_def loop_fiber_def)
  then have s2: "sched_step good_env 9 (with_world one_fiber w) [Queued fiber_task] (with_world one_fiber w1)"
    using sched_step.schedules [of "with_world one_fiber w" "Fiber_arg (Some 5)" 9 "- 1" w1 good_env] w1(1)
    by (simp add: with_world_def queued_by_def has_task_def fiber_task_def)
  have root: "map_option sc_rootThread (w_scheds w1 9) \<noteq> Some 7" using w1(3) sc0(5) by simp
  have tls: "t_fiber (fs_tls (w_fibers w1) 7) = None" by (rule fib(3))
  obtain l w2 where w2: "run_start good_env 7 9 w1 = Inr (l, w2)" "fs_fibers (w_fibers w2) 5 = Some waiting_fiber"
      "t_scheduler_fiber (fs_tls (w_fibers w2) 7) = Some 6" "fs_fibers (w_fibers w2) 6 \<noteq> None" "w_scheds w2 = w_scheds w1"
    using w1(3) tls root fib(1,2) by (simp add: run_start_def sched_at_def setThis_def sched_log_def fiber_log_def on_fibers_def
        Fiber_GetThis_def new_main_Fiber_def SetThis_def set_fiber_def assert_that_def good_env_def new_Fiber_def MallocStackAllocator_Alloc_def Let_def)
  let ?cf = "moves_to (with_world one_fiber w1) 7 (In_loop l) w2"
  have s3: "sched_step good_env 9 (with_world one_fiber w1) [] ?cf"
    by (rule sched_step.begin_run) (use root tls w2(1) in \<open>simp_all add: one_fiber_def with_world_def\<close>)
  have "sched_run good_env 9 one_fiber [Queued fiber_task] ?cf"
    using sched_run.step [OF sched_run.step [OF sched_run_step [OF s1] s2] s3] by simp
  moreover have "enterable 7 6 5 waiting_fiber (w_fibers w2)" using w2(2-4) by (simp add: enterable_def waiting_fiber_def)
  ultimately show ?thesis using w1(3) w2(5) sc0(4) by (intro exI [of _ ?cf] exI [of _ l]) (simp add: moves_to_def)
qed

theorem stopping_too_early_witness:
  "\<exists>cf1 cf2. sched_run good_env 9 one_fiber [Queued fiber_task, Taken 7 fiber_task] cf1 \<and> stopping 9 (cf_world cf1) = Inr True \<and>
     sched_step good_env 9 cf1 [Queued fiber_task] cf2 \<and> stopping 9 (cf_world cf2) = Inr False"
proof -
  obtain cf l sc where c: "sched_run good_env 9 one_fiber [Queued fiber_task] cf" "cf_at cf 7 = Some (In_loop l)"
      "w_scheds (cf_world cf) 9 = Some sc" "sc_fibers sc = [fiber_task]" "sc_active sc = 0" "sc_autoStop sc" "sc_stopping sc"
      "enterable 7 6 5 waiting_fiber (w_fibers (cf_world cf))"
    using begun_run by blast
  have b: "fb_state waiting_fiber = ST_INIT" "fb_ctx waiting_fiber = Ctx_start MainFunc" "fb_cb waiting_fiber = Some (User_task 5)"
    by (simp_all add: waiting_fiber_def)
  show ?thesis
    using stopping_too_early [OF one_fiber_first c(1) good_env_ok c(2,3) c(4) [unfolded fiber_task_def] c(5-8) b]
    unfolding fiber_task_def by auto
qed

section \<open>Taking a task never fails\<close>

lemma pick_loop_returns:
  "\<forall>it \<in> set q. sound_task st it \<Longrightarrow> \<exists>r. pick_loop st t b seen q = Inr r"
proof (induction q arbitrary: b seen)
  case (Cons it q)
  show ?case
  proof (cases "may_take st t it")
    case True
    then show ?thesis using pick_loop_take [of st it t b seen q] Cons.prems by auto
  next
    case False
    then show ?thesis using pick_loop_skip [of st it t b seen q] Cons by auto
  qed
qed simp

text \<open>
  C20. The queue is always well formed: in every interleaving each queued task has a fiber or a
  callback, and its fiber exists and is not one in which a thread runs its loop; so taking a task
  never fails, neither the assertion nor the pointers, on any thread.
\<close>

theorem queue_well_formed:
  assumes "first_config this cf0" and "sched_run env this cf0 es cf"
  shows "(\<forall>it \<in> set (queue_of this (cf_world cf)). (ft_fiber it \<noteq> None \<or> ft_cb it \<noteq> None) \<and>
      (\<forall>f. ft_fiber it = Some f \<longrightarrow> fs_fibers (w_fibers (cf_world cf)) f \<noteq> None \<and> \<not> loop_fiber (cf_world cf) f)) \<and>
    (\<forall>t. \<exists>r. run_pick t this (cf_world cf) = Inr r)"
proof -
  obtain sc where sc: "w_scheds (cf_world cf) this = Some sc" "queue_ok (cf_world cf) (sc_fibers sc)"
    using invD(3) [OF sched_run_inv [OF assms(2,1)]] by blast
  have "\<forall>it \<in> set (sc_fibers sc). sound_task (\<lambda>f. fiber_state f (cf_world cf)) it"
    using sc(2) by (fastforce simp: queue_ok_def sound_task_def free_def fiber_state_eq)
  then have "\<exists>r. run_pick t this (cf_world cf) = Inr r" for t
    using pick_loop_returns [of "sc_fibers sc" "\<lambda>f. fiber_state f (cf_world cf)" t False "[]"] sc(1)
    by (auto simp: run_pick_def sched_at_def split: option.split)
  moreover have "queue_of this (cf_world cf) = sc_fibers sc" by (rule queue_of_Some [OF sc(1)])
  ultimately show ?thesis using sc(2) by (auto simp: queue_ok_def has_task_def free_def)
qed

theorem queue_well_formed_witness:
  "\<exists>cf es. sched_run good_env 9 quiet es cf \<and> queued es = [the_task] \<and> (\<exists>r. run_pick 8 9 (cf_world cf) = Inr r)"
proof -
  obtain cf where r: "sched_run good_env 9 quiet [Queued the_task, Taken 7 the_task] cf" using a_run by blast
  have "queued [Queued the_task, Taken 7 the_task] = [the_task]" by (simp add: queued_def)
  then show ?thesis using queue_well_formed [OF quiet_first r] r by blast
qed

end
