(* ===== verification/SchedulerAlone.thy ===== *)
theory SchedulerAlone
  imports SchedulerTheorems
begin

text \<open>
  One thread of a scheduler on its own: the steps of the interleavings that this thread makes while
  the others do nothing and the callbacks that it enters return or throw, what it does in them,
  and what it comes to whatever the callbacks return.
\<close>

section \<open>The moves of one thread\<close>

text \<open>What a thread does with the tasks: it takes one, and enters and leaves the function of a callback.\<close>

datatype 'u deed = Takes "'u fiber_and_thread" | Begins "'u task option" | Ends "'u task option"

definition cb_of :: "addr \<Rightarrow> ('u, 'v) world \<Rightarrow> 'u task option" where
  "cb_of f w = (case fs_fibers (w_fibers w) f of None \<Rightarrow> None | Some b \<Rightarrow> fb_cb b)"

definition deeds :: "thread_id \<Rightarrow> 'u event list \<Rightarrow> ('u, 'v) config \<Rightarrow> ('u, 'v) config \<Rightarrow> 'u deed list" where
  "deeds t es cf cf' = map Takes (taken es) @
     (case (cf_at cf t, cf_at cf' t) of
        (Some (Runs c), Some (In_callback f)) \<Rightarrow> if c = Ctx_start MainFunc then [Begins (cb_of f (cf_world cf'))] else []
      | (Some (In_callback f), _) \<Rightarrow> [Ends (cb_of f (cf_world cf))]
      | _ \<Rightarrow> [])"

text \<open>A step that moves the thread; out of a callback it leads by the end of the callback only.\<close>

definition returns :: "fiber_env \<Rightarrow> thread_id \<Rightarrow> addr \<Rightarrow> ('u, 'v) config \<Rightarrow> ('u, 'v) config \<Rightarrow> bool" where
  "returns env t f cf cf' \<longleftrightarrow> (\<exists>ended bt c w. on_fibers (MainFunc_finish env t f ended bt Never) (cf_world cf) = Inr (c, w) \<and>
     cf' = moves_to cf t (Runs c) w)"

definition own_move ::
  "fiber_env \<Rightarrow> addr \<Rightarrow> thread_id \<Rightarrow> ('u, 'v) config \<Rightarrow> 'u event list \<Rightarrow> ('u, 'v) config \<Rightarrow> bool" where
  "own_move env this t cf es cf' \<longleftrightarrow> sched_step env this cf es cf' \<and> cf_at cf' t \<noteq> cf_at cf t \<and>
     (\<forall>f. cf_at cf t = Some (In_callback f) \<longrightarrow> returns env t f cf cf')"

inductive alone_run ::
  "fiber_env \<Rightarrow> addr \<Rightarrow> thread_id \<Rightarrow> ('u, 'v) config \<Rightarrow> 'u deed list \<Rightarrow> ('u, 'v) config \<Rightarrow> bool"
  for env :: fiber_env and this :: addr and t :: thread_id where
  stays: "alone_run env this t cf [] cf"
| moves: "own_move env this t cf es cf1 \<Longrightarrow> alone_run env this t cf1 ds cf' \<Longrightarrow>
     alone_run env this t cf (deeds t es cf cf1 @ ds) cf'"

text \<open>
  The thread comes to \<open>P\<close> with these deeds, whatever the callbacks return: it is there, or it can move
  and comes to \<open>P\<close> with what is left of the deeds after each move that it can make.
\<close>

inductive comes_to ::
  "fiber_env \<Rightarrow> addr \<Rightarrow> thread_id \<Rightarrow> (('u, 'v) config \<Rightarrow> bool) \<Rightarrow> 'u deed list \<Rightarrow> ('u, 'v) config \<Rightarrow> bool"
  for env :: fiber_env and this :: addr and t :: thread_id and P :: "('u, 'v) config \<Rightarrow> bool" where
  arrived: "P cf \<Longrightarrow> comes_to env this t P [] cf"
| moving: "\<exists>es cf'. own_move env this t cf es cf' \<Longrightarrow>
     \<forall>es cf'. own_move env this t cf es cf' \<longrightarrow> (\<exists>ds'. ds = deeds t es cf cf' @ ds' \<and> comes_to env this t P ds' cf') \<Longrightarrow>
     comes_to env this t P ds cf"

text \<open>That is: some run of the thread comes to \<open>P\<close>, and each is on the way there or has been there.\<close>

lemma comes_to_run: "comes_to env this t P ds cf \<Longrightarrow> \<exists>cf'. alone_run env this t cf ds cf' \<and> P cf'"
proof (induction rule: comes_to.induct)
  case (moving cf ds)
  then show ?case by (metis alone_run.moves)
qed (blast intro: alone_run.stays)

lemma comes_to_every_run:
  assumes "comes_to env this t P ds cf" and "alone_run env this t cf es cf'"
  shows "(\<exists>ds'. ds = es @ ds' \<and> comes_to env this t P ds' cf') \<or>
    (\<exists>cf1 es'. alone_run env this t cf ds cf1 \<and> P cf1 \<and> alone_run env this t cf1 es' cf' \<and> es = ds @ es')"
  using assms
proof (induction arbitrary: es rule: comes_to.induct)
  case (arrived cf)
  then show ?case by (auto intro: alone_run.stays)
next
  case (moving cf ds)
  note IH = moving.IH and run = moving.prems
  from run show ?case
  proof (cases rule: alone_run.cases)
    case stays
    moreover have "comes_to env this t P ds cf" by (rule comes_to.moving [OF moving.hyps]) (use IH in blast)
    ultimately show ?thesis by simp
  next
    case (moves es0 cf1 es1)
    obtain ds' where ds': "ds = deeds t es0 cf cf1 @ ds'" "comes_to env this t P ds' cf1"
        "(\<exists>ds2. ds' = es1 @ ds2 \<and> comes_to env this t P ds2 cf') \<or>
         (\<exists>cf2 es'. alone_run env this t cf1 ds' cf2 \<and> P cf2 \<and> alone_run env this t cf2 es' cf' \<and> es1 = ds' @ es')"
      using IH moves(2,3) by metis
    then show ?thesis using moves(1) alone_run.moves [OF moves(2)] by auto
  qed
qed

section \<open>Where a move leads\<close>

lemma moves_moves [simp]: "moves_to (moves_to cf t p w) t p' w' = moves_to cf t p' w'"
  by (simp add: moves_to_def)

lemma moves_at [simp]: "cf_at (moves_to cf t p w) t = Some p"
  by (simp add: moves_to_def)

lemma finish_bt: "MainFunc_finish env t f None bt k s = MainFunc_finish env t f None [] k s"
    "CallerMainFunc_finish env t f None bt k s = CallerMainFunc_finish env t f None [] k s"
  by (simp_all add: MainFunc_finish_def CallerMainFunc_finish_def record_end_def)

lemma on_finish_bt: "on_fibers (MainFunc_finish env t f None bt k) w = on_fibers (MainFunc_finish env t f None [] k) w"
    "on_fibers (CallerMainFunc_finish env t f None bt k) w = on_fibers (CallerMainFunc_finish env t f None [] k) w"
  by (simp_all add: on_fibers_def finish_bt(1) [of env t f bt] finish_bt(2) [of env t f bt])

text \<open>Away from callbacks there is at most one move: where it leads does not depend on which rule is taken.\<close>

definition only_move :: "fiber_env \<Rightarrow> addr \<Rightarrow> thread_id \<Rightarrow> ('u, 'v) config \<Rightarrow> 'u fiber_and_thread list \<Rightarrow> ('u, 'v) config \<Rightarrow> bool" where
  "only_move env this t cf its cf1 \<longleftrightarrow>
     (\<forall>es cf'. sched_step env this cf es cf' \<longrightarrow> cf_at cf' t \<noteq> cf_at cf t \<longrightarrow> cf' = cf1 \<and> taken es = its)"

lemma only_moveI:
  "(\<And>es cf'. sched_step env this cf es cf' \<Longrightarrow> cf_at cf' t \<noteq> cf_at cf t \<Longrightarrow> cf' = cf1 \<and> taken es = its) \<Longrightarrow> only_move env this t cf its cf1"
  by (simp add: only_move_def)

lemmas where_threads_are = moves_to_def with_world_def

lemma only_pick:
  assumes "cf_at cf t = Some (In_loop l)" and "run_pick t this (cf_world cf) = Inr ((tm, act, ft), w)"
  shows "only_move env this t cf (if act then [ft] else []) (moves_to cf t (Has_picked l tm act ft) w)"
  by (rule only_moveI, erule sched_step.cases) (use assms in \<open>auto simp: where_threads_are split: if_splits\<close>)

lemma only_dispatch:
  assumes "cf_at cf t = Some (Has_picked l tm act ft)" and "run_dispatch env t this l (tm, act, ft) (cf_world cf) = Inr (n, w)"
  shows "only_move env this t cf [] (moves_to cf t (place_of n) w)"
  by (rule only_moveI, erule sched_step.cases) (use assms in \<open>auto simp: where_threads_are split: if_splits\<close>)

lemma only_enter:
  assumes "cf_at cf t = Some (Runs (Ctx_start MainFunc))" and "on_fibers (MainFunc_enter env t) (cf_world cf) = Inr ((f, Some (User_task u)), w)"
  shows "only_move env this t cf [] (moves_to cf t (In_callback f) w)"
  by (rule only_moveI, erule sched_step.cases) (use assms in \<open>auto simp: where_threads_are split: if_splits\<close>)

lemma only_enter_idle:
  assumes "cf_at cf t = Some (Runs (Ctx_start MainFunc))" and "on_fibers (MainFunc_enter env t) (cf_world cf) = Inr ((f, Some (Idle_task this)), w)"
  shows "only_move env this t cf [] (moves_to cf t (In_idle f) (sched_log ''idle'' w))"
  by (rule only_moveI, erule sched_step.cases) (use assms in \<open>auto simp: where_threads_are split: if_splits\<close>)

lemma only_back_cb:
  assumes "cf_at cf t = Some (Runs (Ctx_saved (After_cb this l)))" and "leave_task this (cf_world cf) = Inr w"
  shows "only_move env this t cf [] (moves_to cf t (Settles_cb l) w)"
  by (rule only_moveI, erule sched_step.cases) (use assms in \<open>auto simp: where_threads_are split: if_splits\<close>)

lemma only_settles_cb:
  assumes "cf_at cf t = Some (Settles_cb l)" and "settle_cb env this l (cf_world cf) = Inr (l', w)"
  shows "only_move env this t cf [] (moves_to cf t (In_loop l') w)"
  by (rule only_moveI, erule sched_step.cases) (use assms in \<open>auto simp: where_threads_are split: if_splits option.splits\<close>)

lemma only_idle_ends:
  assumes "cf_at cf t = Some (In_idle f)" and "idle_loop env t this (cf_world cf) = Inr (None, w)"
    and "on_fibers (MainFunc_finish env t f None [] Never) w = Inr (c, w')"
  shows "only_move env this t cf [] (moves_to cf t (Runs c) w')"
proof -
  have "on_fibers (MainFunc_finish env t f None bt Never) w = Inr (c, w')" for bt using assms(3) by (subst on_finish_bt)
  then show ?thesis
    by (intro only_moveI, elim sched_step.cases) (use assms(1,2) in \<open>auto simp: where_threads_are split: if_splits\<close>)
qed

lemma only_back_idle:
  assumes "cf_at cf t = Some (Runs (Ctx_saved (After_idle this l)))" and "after_idle this l (cf_world cf) = Inr (l', w)"
  shows "only_move env this t cf [] (moves_to cf t (In_loop l') w)"
  by (rule only_moveI, erule sched_step.cases) (use assms in \<open>auto simp: where_threads_are split: if_splits\<close>)

lemma only_begins_root:
  assumes "cf_at cf t = Some (Enters_root (Ctx_start CallerMainFunc))"
    and "on_fibers (CallerMainFunc_enter env t) (cf_world cf) = Inr ((f, Some (Run_task this)), w)"
    and "run_start env t this w = Inr (l, w')"
  shows "only_move env this t cf [] (moves_to cf t (In_loop l) w')"
  by (rule only_moveI, erule sched_step.cases) (use assms in \<open>auto simp: where_threads_are split: if_splits\<close>)

lemma only_ends_root:
  assumes "cf_at cf t = Some Out_of_loop" and "GetMainFiber t (cf_world cf) = Some f"
    and "on_fibers (CallerMainFunc_finish env t f None [] Never) (cf_world cf) = Inr (c, w)"
  shows "only_move env this t cf [] (moves_to cf t Outside w)"
proof -
  have "on_fibers (CallerMainFunc_finish env t f None bt Never) (cf_world cf) = Inr (c, w)" for bt
    using assms(3) by (subst on_finish_bt)
  then show ?thesis
    by (intro only_moveI, elim sched_step.cases) (use assms(1,2) in \<open>auto simp: where_threads_are split: if_splits\<close>)
qed

text \<open>So the thread comes to where it comes to after its one move.\<close>

lemma comes_to_only:
  assumes step: "sched_step env this cf es cf1" and only: "only_move env this t cf its cf1"
    and at: "cf_at cf t = Some p" "cf_at cf1 t \<noteq> cf_at cf t" "\<nexists>f. p = In_callback f"
    and rest: "comes_to env this t P ds cf1"
  shows "comes_to env this t P (deeds t es cf cf1 @ ds) cf"
proof (rule comes_to.moving)
  show "\<exists>es cf'. own_move env this t cf es cf'" using step at by (auto simp: own_move_def)
  show "\<forall>es' cf'. own_move env this t cf es' cf' \<longrightarrow>
      (\<exists>ds'. deeds t es cf cf1 @ ds = deeds t es' cf cf' @ ds' \<and> comes_to env this t P ds' cf')"
  proof (intro allI impI exI [of _ ds])
    fix es' cf' assume "own_move env this t cf es' cf'"
    then have "cf' = cf1" "taken es' = its" "taken es = its"
      using only step at(2) unfolding only_move_def own_move_def by blast+
    then show "deeds t es cf cf1 @ ds = deeds t es' cf cf' @ ds \<and> comes_to env this t P ds cf'"
      using rest by (simp add: deeds_def)
  qed
qed

lemma comes_to_returns:
  assumes at: "cf_at cf t = Some (In_callback f)"
    and some: "on_fibers (MainFunc_finish env t f ended0 bt0 Never) (cf_world cf) = Inr (c0, w0)"
    and rest: "\<And>ended bt c w. on_fibers (MainFunc_finish env t f ended bt Never) (cf_world cf) = Inr (c, w) \<Longrightarrow>
      comes_to env this t P ds (moves_to cf t (Runs c) w)"
  shows "comes_to env this t P (Ends (cb_of f (cf_world cf)) # ds) cf"
proof (rule comes_to.moving)
  have "sched_step env this cf [] (moves_to cf t (Runs c0) w0)" by (rule sched_step.ends [OF at some])
  then show "\<exists>es cf'. own_move env this t cf es cf'" using at some unfolding own_move_def returns_def by fastforce
  have none: "taken es = []" if "sched_step env this cf es cf'" "cf_at cf' t \<noteq> cf_at cf t" for es cf'
    using that at by (cases rule: sched_step.cases) (auto simp: where_threads_are split: if_splits)
  show "\<forall>es cf'. own_move env this t cf es cf' \<longrightarrow>
      (\<exists>ds'. Ends (cb_of f (cf_world cf)) # ds = deeds t es cf cf' @ ds' \<and> comes_to env this t P ds' cf')"
    using none at rest by (fastforce simp: own_move_def returns_def deeds_def)
qed

end
