(* ===== verification/SchedulerDrain.thy ===== *)
theory SchedulerDrain
  imports SchedulerAlone
begin

text \<open>
  A thread of a scheduler that is left alone runs the callbacks that are queued, one after the other, and leaves its
  loop when the scheduler is stopping, whatever the callbacks return; with \<open>use_caller\<close> the thread that stops the scheduler
  does so itself, in the root fiber.
\<close>

section \<open>One callback\<close>

lemma run_keeps_inv: "sched_run env this cf es cf' \<Longrightarrow> sched_inv this cf \<Longrightarrow> sched_inv this cf'"
  by (induction rule: sched_run.induct) (blast intro: sched_step_inv)+

text \<open>
  The fibers of a loop between two rounds: the idle fiber has not begun, and the one that is kept for
  callbacks can be used again. All other fibers but the one of the loop are not the thread's.
\<close>

definition loop_ready :: "addr \<Rightarrow> ('u, 'v) world \<Rightarrow> run_locals \<Rightarrow> bool" where
  "loop_ready this w l \<longleftrightarrow>
     (\<exists>b. fs_fibers (w_fibers w) (rl_idle l) = Some b \<and> fb_state b = ST_INIT \<and> fb_ctx b = Ctx_start MainFunc \<and>
        fb_cb b = Some (Idle_task this)) \<and>
     (\<forall>g. rl_cb l = Some g \<longrightarrow> g \<noteq> rl_idle l \<and> (\<exists>b. fs_fibers (w_fibers w) g = Some b \<and> fb_stack b \<and> fb_state b = ST_INIT))"

definition not_of_loop :: "addr \<Rightarrow> run_locals \<Rightarrow> ('u, 'v) world \<Rightarrow> addr \<Rightarrow> bool" where
  "not_of_loop m l w f \<longleftrightarrow> fs_fibers (w_fibers w) f \<noteq> None \<and> f \<noteq> m \<and> f \<noteq> rl_idle l \<and> rl_cb l \<noteq> Some f"

text \<open>A thread went from one round to another and left fibers that are not its loop's alone.\<close>

definition loop_went :: "addr \<Rightarrow> run_locals \<Rightarrow> ('u, 'v) world \<Rightarrow> run_locals \<Rightarrow> ('u, 'v) world \<Rightarrow> bool" where
  "loop_went m l w l' w' \<longleftrightarrow> same_loops (w_fibers w) (w_fibers w') \<and>
     (\<forall>f. not_of_loop m l w f \<longrightarrow> fs_fibers (w_fibers w') f = fs_fibers (w_fibers w) f \<and> not_of_loop m l' w' f)"

lemma loop_went_trans: "loop_went m l w l' w' \<Longrightarrow> loop_went m l' w' l'' w'' \<Longrightarrow> loop_went m l w l'' w''"
  using same_loops_trans [of "w_fibers w" "w_fibers w'" "w_fibers w''"] by (simp add: loop_went_def)

lemma loop_went_refl: "loop_went m l w l w"
  by (simp add: loop_went_def same_loops_def)

definition callback_for :: "thread_id \<Rightarrow> 'u fiber_and_thread \<Rightarrow> bool" where
  "callback_for t it \<longleftrightarrow> ft_fiber it = None \<and> (\<exists>u. ft_cb it = Some (User_task u)) \<and> (ft_thread it = - 1 \<or> ft_thread it = t)"

lemma run_dispatch_tickle: "run_dispatch env t this l (tm, a, ft) w = run_dispatch env t this l (False, a, ft) (if tm then tickle w else w)"
  by (simp add: run_dispatch_def)

lemma after_cb_parts: "after_cb env this l w = Inr (l', w') \<Longrightarrow> \<exists>v. leave_task this w = Inr v \<and> settle_cb env this l v = Inr (l', w')"
  by (simp add: after_cb_def bind_out_eq_Inr)

lemma loop_facts:
  assumes inv: "sched_inv this cf" and at: "cf_at cf t = Some (In_loop l)"
  shows "\<exists>m. sfib (cf_world cf) t = Some m \<and> m \<noteq> fs_next (w_fibers (cf_world cf)) \<and> fs_fibers (w_fibers (cf_world cf)) m \<noteq> None \<and>
    m \<noteq> rl_idle l \<and> (\<forall>g. rl_cb l = Some g \<longrightarrow> g \<noteq> m)"
proof -
  have p: "sfib (cf_world cf) t \<noteq> None" "\<forall>g \<in> locals_fibers l. free (cf_world cf) g" using invD(2) [OF inv at] by (simp_all add: place_ok_def)
  then obtain m where m: "sfib (cf_world cf) t = Some m" by blast
  have "fs_fibers (w_fibers (cf_world cf)) m \<noteq> None" "fresh_in (fs_fibers (w_fibers (cf_world cf))) (fs_next (w_fibers (cf_world cf)))"
    using invD(1) [OF inv] m unfolding fibers_apart_def by (simp_all del: not_None_eq)
  moreover from this have "m \<noteq> fs_next (w_fibers (cf_world cf))" by (auto simp: fresh_in_def)
  moreover have "loop_fiber (cf_world cf) m" using m by (auto simp: loop_fiber_def)
  ultimately show ?thesis using m p(2) by (auto simp: free_def locals_fibers_def)
qed

text \<open>A move that is the only one, with what it keeps.\<close>

lemma comes_to_next:
  assumes inv: "sched_inv this cf" and step: "sched_step env this cf es cf1" and only: "only_move env this t cf its cf1"
    and at: "cf_at cf t = Some p" "cf_at cf1 t \<noteq> Some p" "\<nexists>f. p = In_callback f"
    and rest: "sched_inv this cf1 \<Longrightarrow> comes_to env this t P ds cf1"
  shows "comes_to env this t P (deeds t es cf cf1 @ ds) cf"
  using comes_to_only [OF step only at(1) _ at(3) rest [OF sched_step_inv [OF step inv]]] at(1,2) by simp

lemma settles_takes_nothing [simp]: "taken (case x of None \<Rightarrow> [] | Some g \<Rightarrow> requeued g w) = []"
  by (cases x) simp_all

definition callback_deeds :: "'u fiber_and_thread \<Rightarrow> 'u deed list" where
  "callback_deeds it = [Takes it, Begins (ft_cb it), Ends (ft_cb it)]"

text \<open>From the moment when the thread enters the callback, which may return or throw.\<close>

lemma callback_returns:
  assumes inv: "sched_inv this (moves_to cf t (In_callback g) w2)" and g: "cb_of g w2 = cb"
    and some: "on_fibers (MainFunc_finish env t g None [] Never) w2 = Inr (c0, w0)"
    and round: "\<And>ended bt c w3. on_fibers (MainFunc_finish env t g ended bt Never) w2 = Inr (c, w3) \<Longrightarrow>
      c = Ctx_saved (After_cb this l) \<and> (\<exists>w4 w5. leave_task this w3 = Inr w4 \<and> settle_cb env this l w4 = Inr (l, w5) \<and> Q w5)"
    and rest: "\<And>w5. Q w5 \<Longrightarrow> sched_inv this (moves_to cf t (In_loop l) w5) \<Longrightarrow> comes_to env this t P ds (moves_to cf t (In_loop l) w5)"
  shows "comes_to env this t P (Ends cb # ds) (moves_to cf t (In_callback g) w2)"
proof -
  let ?at = "\<lambda>p w. moves_to cf t p w" and ?c = "Ctx_saved (After_cb this l)"
  have at: "cf_at (?at (In_callback g) w2) t = Some (In_callback g)" by simp
  have "comes_to env this t P (Ends (cb_of g (cf_world (?at (In_callback g) w2))) # ds) (?at (In_callback g) w2)"
  proof (rule comes_to_returns [OF at])
    show "on_fibers (MainFunc_finish env t g None [] Never) (cf_world (?at (In_callback g) w2)) = Inr (c0, w0)" using some by simp
    fix ended bt c w3
    assume "on_fibers (MainFunc_finish env t g ended bt Never) (cf_world (?at (In_callback g) w2)) = Inr (c, w3)"
    then have fin: "on_fibers (MainFunc_finish env t g ended bt Never) w2 = Inr (c, w3)" by simp
    obtain w4 w5 where w: "c = ?c" "leave_task this w3 = Inr w4" "settle_cb env this l w4 = Inr (l, w5)" "Q w5" using round [OF fin] by blast
    have step: "sched_step env this (?at (In_callback g) w2) [] (?at (Runs ?c) w3)"
      using sched_step.ends [OF at, of env ended bt c w3 this] fin w(1) by simp
    have inv3: "sched_inv this (?at (Runs ?c) w3)" by (rule sched_step_inv [OF step inv])
    have l4: "leave_task this (cf_world (?at (Runs ?c) w3)) = Inr w4" and s5: "settle_cb env this l (cf_world (?at (Settles_cb l) w4)) = Inr (l, w5)"
      using w(2,3) by simp_all
    have "comes_to env this t P ([] @ [] @ ds) (?at (Runs ?c) w3)"
      using comes_to_next [OF inv3 sched_step.back_cb [OF moves_at l4] only_back_cb [OF moves_at l4] moves_at, where P = P and ds = ds]
        comes_to_next [OF _ sched_step.settles_cb [OF moves_at s5] only_settles_cb [OF moves_at s5] moves_at, where P = P and ds = ds]
        rest [OF w(4)]
      by (simp add: deeds_def)
    then show "comes_to env this t P ds (moves_to (?at (In_callback g) w2) t (Runs c) w3)" using w(1) by simp
  qed
  then show ?thesis using g by simp
qed

lemma enter_cb: "on_fibers (MainFunc_enter env t) w = Inr ((g, cb), w') \<Longrightarrow> cb_of g w' = cb"
  by (auto simp: on_fibers_eq MainFunc_enter_def deref_def bind_out_eq_Inr cb_of_def split: option.splits)

text \<open>
  One callback from the moment when the thread has taken it: the fiber \<open>g\<close> that it will run in, and what is left
  when the loop goes on, whatever the callback returned.
\<close>

definition callback_done :: "addr \<Rightarrow> addr \<Rightarrow> addr \<Rightarrow> ('u, 'v) world \<Rightarrow> 'u scheduler \<Rightarrow> ('u, 'v) world \<Rightarrow> bool" where
  "callback_done this m g w sc w' \<longleftrightarrow> w_scheds w' this = Some sc \<and>
     (\<exists>b. fs_fibers (w_fibers w') g = Some b \<and> fb_stack b \<and> fb_state b = ST_INIT) \<and>
     (\<forall>f. f \<noteq> g \<longrightarrow> f \<noteq> m \<longrightarrow> fs_fibers (w_fibers w') f = fs_fibers (w_fibers w) f) \<and> same_loops (w_fibers w) (w_fibers w')"

definition fiber_for_cb :: "run_locals \<Rightarrow> ('u, 'v) world \<Rightarrow> addr \<Rightarrow> bool" where
  "fiber_for_cb l w g \<longleftrightarrow> (case rl_cb l of None \<Rightarrow> g = fs_next (w_fibers w) | Some g' \<Rightarrow> g = g')"

lemma callback_taken_runs:
  assumes env: "fiber_env_ok env" and inv: "sched_inv this cf" and at: "cf_at cf t = Some (In_loop l)"
    and it: "it = \<lparr>ft_fiber = None, ft_cb = Some (User_task u), ft_thread = thr\<rparr>"
    and rdy: "loop_ready this (cf_world cf) l" and m: "sfib (cf_world cf) t = Some m"
    and w1: "w1 = set_sched this (sc\<lparr>sc_fibers := q, sc_active := sc_active sc + 1\<rparr>) (cf_world cf)"
  shows "\<exists>g w2 w3 w4 w5. run_dispatch env t this l (tm, True, it) w1 = Inr (Switch_to (Ctx_start MainFunc), w2) \<and>
      fiber_for_cb l (cf_world cf) g \<and> on_fibers (MainFunc_enter env t) w2 = Inr ((g, Some (User_task u)), w2) \<and>
      on_fibers (MainFunc_finish env t g ended bt Never) w2 = Inr (Ctx_saved (After_cb this (l\<lparr>rl_cb := Some g\<rparr>)), w3) \<and>
      leave_task this w3 = Inr w4 \<and> settle_cb env this (l\<lparr>rl_cb := Some g\<rparr>) w4 = Inr (l\<lparr>rl_cb := Some g\<rparr>, w5) \<and>
      callback_done this m g (cf_world cf) (sc\<lparr>sc_fibers := q\<rparr>) w5"
proof -
  let ?w = "cf_world cf" and ?sc1 = "sc\<lparr>sc_fibers := q, sc_active := sc_active sc + 1\<rparr>"
  let ?w1t = "if tm then tickle w1 else w1"
  note lf = loop_facts [OF inv at] m
  have same: "same_run ?w ?w1t" "w_scheds ?w1t this = Some ?sc1" by (simp_all add: w1)
  have fib: "fs_fibers (w_fibers ?w1t) = fs_fibers (w_fibers ?w)" "fs_tls (w_fibers ?w1t) = fs_tls (w_fibers ?w)"
      "fs_next (w_fibers ?w1t) = fs_next (w_fibers ?w)" using same(1) unfolding same_run_def by blast+
  have m': "t_scheduler_fiber (fs_tls (w_fibers ?w1t) t) = Some m" "m \<noteq> fs_next (w_fibers ?w1t)" "fs_fibers (w_fibers ?w1t) m \<noteq> None"
    using lf unfolding fib by auto
  have kept: "g \<noteq> m \<and> (\<exists>b. fs_fibers (w_fibers ?w1t) g = Some b \<and> fb_stack b \<and> fb_state b = ST_INIT)" if "rl_cb l = Some g" for g
    using that lf rdy unfolding fib loop_ready_def by auto
  obtain g w2 w3 w5 where r: "run_dispatch env t this l (False, True, it) ?w1t = Inr (Switch_to (Ctx_start MainFunc), w2)"
      "\<forall>g'. rl_cb l = Some g' \<longrightarrow> g' = g" "on_fibers (MainFunc_enter env t) w2 = Inr ((g, Some (User_task u)), w2)"
      "on_fibers (MainFunc_finish env t g ended bt Never) w2 = Inr (Ctx_saved (After_cb this (l\<lparr>rl_cb := Some g\<rparr>)), w3)"
      "after_cb env this (l\<lparr>rl_cb := Some g\<rparr>) w3 = Inr (l\<lparr>rl_cb := Some g\<rparr>, w5)"
      "w_scheds w5 this = Some (?sc1\<lparr>sc_active := sc_active ?sc1 - 1\<rparr>)"
      "\<exists>b. fs_fibers (w_fibers w5) g = Some b \<and> fb_stack b \<and> fb_state b = ST_INIT"
      "\<forall>f. f \<noteq> g \<longrightarrow> f \<noteq> m \<longrightarrow> fs_fibers (w_fibers w5) f = fs_fibers (w_fibers ?w) f"
      "rl_cb l = None \<longrightarrow> g = fs_next (w_fibers ?w)" "same_loops (w_fibers ?w) (w_fibers w5)"
    using callback_round [OF env same(2) m' kept, where cb = "User_task u" and thr = thr and ended = ended and bt = bt] unfolding it [symmetric] fib same_loops_def by blast
  obtain w4 where w4: "leave_task this w3 = Inr w4" "settle_cb env this (l\<lparr>rl_cb := Some g\<rparr>) w4 = Inr (l\<lparr>rl_cb := Some g\<rparr>, w5)"
    using after_cb_parts [OF r(5)] by blast
  have d: "run_dispatch env t this l (tm, True, it) w1 = Inr (Switch_to (Ctx_start MainFunc), w2)"
    using r(1) unfolding run_dispatch_tickle [of env t this l tm] .
  have f: "fiber_for_cb l ?w g" using r(2,9) by (auto simp: fiber_for_cb_def split: option.split)
  have finished: "callback_done this m g ?w (sc\<lparr>sc_fibers := q\<rparr>) w5" using r(6-8,10) by (simp add: callback_done_def)
  show ?thesis
    by (intro exI [of _ g] exI [of _ w2] exI [of _ w3] exI [of _ w4] exI [of _ w5] conjI) (fact d f r(3) r(4) w4 finished)+
qed

lemma callback_done_ready:
  assumes inv: "sched_inv this cf" and at: "cf_at cf t = Some (In_loop l)" and rdy: "loop_ready this (cf_world cf) l"
    and m: "sfib (cf_world cf) t = Some m" and g: "fiber_for_cb l (cf_world cf) g" and w': "callback_done this m g (cf_world cf) sc w'"
  shows "w_scheds w' this = Some sc \<and> loop_ready this w' (l\<lparr>rl_cb := Some g\<rparr>) \<and> loop_went m l (cf_world cf) (l\<lparr>rl_cb := Some g\<rparr>) w'"
proof -
  let ?w = "cf_world cf" and ?l = "l\<lparr>rl_cb := Some g\<rparr>"
  have idle: "fs_fibers (w_fibers ?w) (rl_idle l) \<noteq> None" "fs_fibers (w_fibers ?w) (fs_next (w_fibers ?w)) = None"
    using rdy invD(1) [OF inv] by (auto simp: loop_ready_def fibers_apart_def fresh_in_None)
  have gi: "g \<noteq> rl_idle l" using idle g rdy by (cases "rl_cb l") (auto simp: loop_ready_def fiber_for_cb_def)
  have "fs_fibers (w_fibers w') (rl_idle l) = fs_fibers (w_fibers ?w) (rl_idle l)"
    using w' gi loop_facts [OF inv at] m by (auto simp: callback_done_def)
  then have "loop_ready this w' ?l" using rdy w' gi unfolding loop_ready_def callback_done_def by simp
  moreover have "fs_fibers (w_fibers w') f = fs_fibers (w_fibers ?w) f \<and> not_of_loop m ?l w' f" if f: "not_of_loop m l ?w f" for f
  proof -
    have "f \<noteq> g" using f g idle(2) by (cases "rl_cb l") (auto simp: not_of_loop_def fiber_for_cb_def)
    then show ?thesis using f w' by (simp add: not_of_loop_def callback_done_def)
  qed
  ultimately show ?thesis using w' by (simp add: callback_done_def loop_went_def)
qed

lemma callback_step:
  assumes env: "fiber_env_ok env" and inv: "sched_inv this cf" and at: "cf_at cf t = Some (In_loop l)"
    and sc: "w_scheds (cf_world cf) this = Some sc" "sc_fibers sc = it # q" and it: "callback_for t it"
    and rdy: "loop_ready this (cf_world cf) l" and m: "sfib (cf_world cf) t = Some m"
    and rest: "\<And>l' w'. sched_inv this (moves_to cf t (In_loop l') w') \<Longrightarrow> w_scheds w' this = Some (sc\<lparr>sc_fibers := q\<rparr>) \<Longrightarrow>
      loop_ready this w' l' \<Longrightarrow> loop_went m l (cf_world cf) l' w' \<Longrightarrow> comes_to env this t P ds (moves_to cf t (In_loop l') w')"
  shows "comes_to env this t P (callback_deeds it @ ds) cf"
proof -
  let ?w = "cf_world cf" and ?sc = "sc\<lparr>sc_fibers := q\<rparr>" and ?at = "\<lambda>p w. moves_to cf t p w" and ?tm = "q \<noteq> []"
  obtain u thr where cb: "it = \<lparr>ft_fiber = None, ft_cb = Some (User_task u), ft_thread = thr\<rparr>" "thr = - 1 \<or> thr = t"
    using it by (cases it) (auto simp: callback_for_def)
  define w1 where w1: "w1 = set_sched this (sc\<lparr>sc_fibers := q, sc_active := sc_active sc + 1\<rparr>) ?w"
  have pick: "run_pick t this ?w = Inr ((?tm, True, it), w1)"
    unfolding w1 by (rule run_pick_head [OF sc]) (use cb in \<open>auto simp: may_take_def sound_task_def for_another_def has_task_def\<close>)
  note runs = callback_taken_runs [OF env inv at cb(1) rdy m w1, of ?tm]
  obtain g w2 c0 w0 where r: "run_dispatch env t this l (?tm, True, it) w1 = Inr (Switch_to (Ctx_start MainFunc), w2)"
      "fiber_for_cb l ?w g" "on_fibers (MainFunc_enter env t) w2 = Inr ((g, Some (User_task u)), w2)"
      "on_fibers (MainFunc_finish env t g None [] Never) w2 = Inr (c0, w0)"
    using runs [of None "[]"] by (elim exE conjE) (rule that)
  let ?l = "l\<lparr>rl_cb := Some g\<rparr>"
  have goes_back: "c = Ctx_saved (After_cb this ?l) \<and>
      (\<exists>w4 w5. leave_task this w3 = Inr w4 \<and> settle_cb env this ?l w4 = Inr (?l, w5) \<and> callback_done this m g ?w ?sc w5)"
    if "on_fibers (MainFunc_finish env t g ended bt Never) w2 = Inr (c, w3)" for ended bt c w3
  proof -
    obtain g' w2' w3' w4 w5 where 1: "run_dispatch env t this l (?tm, True, it) w1 = Inr (Switch_to (Ctx_start MainFunc), w2')"
        "on_fibers (MainFunc_enter env t) w2' = Inr ((g', Some (User_task u)), w2')"
        "on_fibers (MainFunc_finish env t g' ended bt Never) w2' = Inr (Ctx_saved (After_cb this (l\<lparr>rl_cb := Some g'\<rparr>)), w3')"
        "leave_task this w3' = Inr w4" "settle_cb env this (l\<lparr>rl_cb := Some g'\<rparr>) w4 = Inr (l\<lparr>rl_cb := Some g'\<rparr>, w5)"
        "callback_done this m g' ?w ?sc w5"
      using runs [of ended bt] by (elim exE conjE) (rule that)
    have "w2' = w2" using 1(1) r(1) by simp
    moreover from this have "g' = g" using 1(2) r(3) by simp
    ultimately have "c = Ctx_saved (After_cb this ?l)" "w3' = w3" using 1(3) that by simp_all
    then show ?thesis using 1(4-6) \<open>g' = g\<close> by blast
  qed
  have after: "comes_to env this t P ds (?at (In_loop ?l) w5)"
    if "callback_done this m g ?w ?sc w5" "sched_inv this (?at (In_loop ?l) w5)" for w5
    using callback_done_ready [OF inv at rdy m r(2) that(1)] by (intro rest [OF that(2)]) simp_all
  have e: "on_fibers (MainFunc_enter env t) (cf_world (?at (Runs (Ctx_start MainFunc)) w2)) = Inr ((g, Some (User_task u)), w2)"
      "run_dispatch env t this l (?tm, True, it) (cf_world (?at (Has_picked l ?tm True it) w1)) = Inr (Switch_to (Ctx_start MainFunc), w2)"
    using r(1,3) by simp_all
  have c3: "comes_to env this t P (Ends (Some (User_task u)) # ds) (?at (In_callback g) w2)" if "sched_inv this (?at (In_callback g) w2)"
    by (rule callback_returns [OF that enter_cb [OF r(3)] r(4) goes_back after])
  have c2: "comes_to env this t P (Begins (Some (User_task u)) # Ends (Some (User_task u)) # ds) (?at (Runs (Ctx_start MainFunc)) w2)"
    if "sched_inv this (?at (Runs (Ctx_start MainFunc)) w2)"
    using comes_to_next [OF that sched_step.enter [OF moves_at e(1)] only_enter [OF moves_at e(1)] moves_at] c3 enter_cb [OF r(3)]
    by (simp add: deeds_def)
  have c1: "comes_to env this t P (Begins (Some (User_task u)) # Ends (Some (User_task u)) # ds) (?at (Has_picked l ?tm True it) w1)"
    if "sched_inv this (?at (Has_picked l ?tm True it) w1)"
    using comes_to_next [OF that sched_step.dispatch [OF moves_at e(2)] only_dispatch [OF moves_at e(2)] moves_at] c2
    by (simp add: deeds_def place_of_def)
  show ?thesis
    using comes_to_next [OF inv sched_step.pick [OF at pick] only_pick [OF at pick] at] c1 at cb(1) by (simp add: deeds_def callback_deeds_def)
qed

section \<open>All callbacks, and the end of the loop\<close>

lemma callbacks_run:
  assumes env: "fiber_env_ok env"
  shows "sched_inv this cf \<Longrightarrow> cf_at cf t = Some (In_loop l) \<Longrightarrow> w_scheds (cf_world cf) this = Some sc \<Longrightarrow> sc_fibers sc = its \<Longrightarrow>
    \<forall>it \<in> set its. callback_for t it \<Longrightarrow> loop_ready this (cf_world cf) l \<Longrightarrow> sfib (cf_world cf) t = Some m \<Longrightarrow>
    (\<And>l' w'. sched_inv this (moves_to cf t (In_loop l') w') \<Longrightarrow> w_scheds w' this = Some (sc\<lparr>sc_fibers := []\<rparr>) \<Longrightarrow>
      loop_ready this w' l' \<Longrightarrow> loop_went m l (cf_world cf) l' w' \<Longrightarrow> comes_to env this t P ds (moves_to cf t (In_loop l') w')) \<Longrightarrow>
    comes_to env this t P (concat (map callback_deeds its) @ ds) cf"
proof (induction its arbitrary: cf l sc)
  case Nil
  have "moves_to cf t (In_loop l) (cf_world cf) = cf" using Nil(2) by (simp add: moves_to_def fun_upd_idem)
  then show ?case using Nil(8) [of l "cf_world cf"] Nil(1,3,4,6) loop_went_refl [of m l "cf_world cf"] by simp
next
  case (Cons it its)
  have "comes_to env this t P (callback_deeds it @ concat (map callback_deeds its) @ ds) cf"
  proof (rule callback_step [OF env Cons.prems(1-4) _ Cons.prems(6,7)])
    show "callback_for t it" using Cons.prems(5) by simp
    fix l1 w1
    assume 1: "sched_inv this (moves_to cf t (In_loop l1) w1)" "w_scheds w1 this = Some (sc\<lparr>sc_fibers := its\<rparr>)"
      "loop_ready this w1 l1" "loop_went m l (cf_world cf) l1 w1"
    show "comes_to env this t P (concat (map callback_deeds its) @ ds) (moves_to cf t (In_loop l1) w1)"
    proof (rule Cons.IH [OF 1(1) moves_at, of "sc\<lparr>sc_fibers := its\<rparr>"])
      fix l' w'
      assume "sched_inv this (moves_to (moves_to cf t (In_loop l1) w1) t (In_loop l') w')"
        "w_scheds w' this = Some (sc\<lparr>sc_fibers := its\<rparr>\<lparr>sc_fibers := []\<rparr>)" "loop_ready this w' l'"
        "loop_went m l1 (cf_world (moves_to cf t (In_loop l1) w1)) l' w'"
      then show "comes_to env this t P ds (moves_to (moves_to cf t (In_loop l1) w1) t (In_loop l') w')"
        using Cons.prems(8) [of l' w'] loop_went_trans [OF 1(4)] by simp
    qed (use 1 Cons.prems(5,7) in \<open>auto simp: loop_went_def same_loops_def\<close>)
  qed
  then show ?case by simp
qed

lemma idle_run:
  assumes env: "fiber_env_ok env" and inv: "sched_inv this cf" and at: "cf_at cf t = Some (In_loop l)"
    and sc: "w_scheds (cf_world cf) this = Some sc" and q: "sc_fibers sc = []" "sc_active sc = 0" "sc_autoStop sc" "sc_stopping sc"
    and rdy: "loop_ready this (cf_world cf) l" and m: "sfib (cf_world cf) t = Some m"
    and rest: "\<And>w'. sched_inv this (moves_to cf t Out_of_loop w') \<Longrightarrow> w_scheds w' this = Some sc \<Longrightarrow>
      loop_went m l (cf_world cf) l w' \<Longrightarrow> comes_to env this t P ds (moves_to cf t Out_of_loop w')"
  shows "comes_to env this t P ds cf"
proof -
  let ?w = "cf_world cf" and ?i = "rl_idle l" and ?at = "\<lambda>p w. moves_to cf t p w"
  obtain b where b: "fs_fibers (w_fibers ?w) ?i = Some b" "fb_state b = ST_INIT" "fb_ctx b = Ctx_start MainFunc" "fb_cb b = Some (Idle_task this)"
    using rdy by (auto simp: loop_ready_def)
  have ent: "enterable t m ?i b (w_fibers ?w)" using loop_facts [OF inv at] m b by (auto simp: enterable_def)
  have nt: "fb_state b \<noteq> ST_TERM" using b(2) by simp
  obtain w1 where w1: "run_dispatch env t this l (False, False, no_task) ?w = Inr (Switch_to (Ctx_start MainFunc), w1)" "idles this t m l sc b w1"
      "same_loops (w_fibers ?w) (w_fibers w1)" "\<forall>f. f \<noteq> ?i \<longrightarrow> f \<noteq> m \<longrightarrow> fs_fibers (w_fibers w1) f = fs_fibers (w_fibers ?w) f"
    using idle_entered [OF env sc ent nt] b(3) by auto
  let ?w1 = "sched_log ''idle'' w1"
  have i1: "idles this t m l sc b ?w1" using w1(2) by (simp add: idles_def)
  obtain w2 w3 w4 where w4: "idle_loop env t this ?w1 = Inr (None, ?w1)"
      "on_fibers (MainFunc_finish env t ?i None [] Never) ?w1 = Inr (Ctx_saved (After_idle this l), w2)" "after_idle this l w2 = Inr (l, w3)"
      "run_pick t this w3 = Inr ((False, False, no_task), w3)" "run_dispatch env t this l (False, False, no_task) w3 = Inr (End_of_run l, w4)"
      "w_scheds w4 this = Some sc" "same_loops (w_fibers ?w1) (w_fibers w4)" "\<forall>f. f \<noteq> ?i \<longrightarrow> fs_fibers (w_fibers w4) f = fs_fibers (w_fibers ?w1) f"
    using idle_left [OF env i1 q, of "[]"] by blast
  have "same_loops (w_fibers ?w) (w_fibers w4)" using w1(3) w4(7) by (simp add: same_loops_def)
  moreover have "fs_fibers (w_fibers w4) f = fs_fibers (w_fibers ?w) f" if "not_of_loop m l ?w f" for f
    using that w1(4) w4(8) by (simp add: not_of_loop_def)
  ultimately have went: "loop_went m l ?w l w4" by (simp add: loop_went_def not_of_loop_def)
  let ?picked = "Has_picked l False False no_task" and ?returned = "Runs (Ctx_saved (After_idle this l))"
  have e: "run_pick t this (cf_world (?at (In_loop l) w3)) = Inr ((False, False, no_task), w3)"
      "run_dispatch env t this l (False, False, no_task) (cf_world (?at ?picked w3)) = Inr (End_of_run l, w4)"
      "after_idle this l (cf_world (?at ?returned w2)) = Inr (l, w3)"
      "idle_loop env t this (cf_world (?at (In_idle ?i) ?w1)) = Inr (None, ?w1)"
      "on_fibers (MainFunc_enter env t) (cf_world (?at (Runs (Ctx_start MainFunc)) w1)) = Inr ((?i, Some (Idle_task this)), w1)"
      "run_dispatch env t this l (False, False, no_task) (cf_world (?at ?picked ?w)) = Inr (Switch_to (Ctx_start MainFunc), w1)"
    using w4 w1(1,2) b(4) by (simp_all add: idles_def on_fibers_def MainFunc_enter_def Fiber_GetThis_def deref_def)
  note p = run_pick_nothing [OF sc q(1)]
  have c7: "comes_to env this t P ds (?at ?picked w3)" if "sched_inv this (?at ?picked w3)"
    using comes_to_next [OF that sched_step.dispatch [OF moves_at e(2)] only_dispatch [OF moves_at e(2)] moves_at]
      rest [OF _ w4(6) went] by (simp add: deeds_def place_of_def)
  have c6: "comes_to env this t P ds (?at (In_loop l) w3)" if "sched_inv this (?at (In_loop l) w3)"
    using comes_to_next [OF that sched_step.pick [OF moves_at e(1)] only_pick [OF moves_at e(1)] moves_at] c7 by (simp add: deeds_def)
  have c5: "comes_to env this t P ds (?at ?returned w2)" if "sched_inv this (?at ?returned w2)"
    using comes_to_next [OF that sched_step.back_idle [OF moves_at e(3)] only_back_idle [OF moves_at e(3)] moves_at] c6 by (simp add: deeds_def)
  have c4: "comes_to env this t P ds (?at (In_idle ?i) ?w1)" if "sched_inv this (?at (In_idle ?i) ?w1)"
    using comes_to_next [OF that sched_step.idle_ends [OF moves_at e(4) w4(2)] only_idle_ends [OF moves_at e(4) w4(2)] moves_at] c5
    by (simp add: deeds_def)
  have c3: "comes_to env this t P ds (?at (Runs (Ctx_start MainFunc)) w1)" if "sched_inv this (?at (Runs (Ctx_start MainFunc)) w1)"
    using comes_to_next [OF that sched_step.enter_idle [OF moves_at e(5)] only_enter_idle [OF moves_at e(5)] moves_at] c4 by (simp add: deeds_def)
  have c2: "comes_to env this t P ds (?at ?picked ?w)" if "sched_inv this (?at ?picked ?w)"
    using comes_to_next [OF that sched_step.dispatch [OF moves_at e(6)] only_dispatch [OF moves_at e(6)] moves_at] c3
    by (simp add: deeds_def place_of_def)
  show ?thesis
    using comes_to_next [OF inv sched_step.pick [OF at p] only_pick [OF at p] at] c2 at by (simp add: deeds_def)
qed

section \<open>A new scheduler\<close>

text \<open>What the constructor makes of the thread that calls it with \<open>use_caller\<close>, when the thread has no fiber yet.\<close>

lemma all_tls: "x\<lparr>t_fiber := a, t_threadFiber := b, t_scheduler_fiber := c\<rparr> = \<lparr>t_fiber = a, t_threadFiber = b, t_scheduler_fiber = c\<rparr>"
  by (cases x) simp

lemma new_Scheduler_caller:
  assumes new: "new_Scheduler env t this threads True name w0 = Inr w" and t: "t_fiber (fs_tls (w_fibers w0) t) = None"
  shows "\<exists>bm br. fs_fibers (w_fibers w) = (fs_fibers (w_fibers w0))(fs_next (w_fibers w0) \<mapsto> bm, Suc (fs_next (w_fibers w0)) \<mapsto> br) \<and>
    fb_ctx bm = Ctx_here \<and> fb_state br = ST_INIT \<and> fb_ctx br = Ctx_start CallerMainFunc \<and> fb_cb br = Some (Run_task this) \<and>
    fs_tls (w_fibers w) = (fs_tls (w_fibers w0))(t := \<lparr>t_fiber = Some (fs_next (w_fibers w0)),
      t_threadFiber = Some (fs_next (w_fibers w0)), t_scheduler_fiber = Some (Suc (fs_next (w_fibers w0)))\<rparr>) \<and>
    fs_next (w_fibers w) = Suc (Suc (fs_next (w_fibers w0))) \<and> w_sched w t = Some this \<and>
    w_scheds w this = Some \<lparr>sc_threads = [], sc_fibers = [], sc_rootFiber = Some (Suc (fs_next (w_fibers w0))), sc_name = name,
      sc_threadIds = [t], sc_threadCount = threads - 1, sc_active = 0, sc_idle = 0, sc_stopping = True, sc_autoStop = False, sc_rootThread = t\<rparr>"
proof -
  let ?m = "fs_next (w_fibers w0)"
  obtain w1 where w1: "on_fibers (Fiber_GetThis env t) w0 = Inr (?m, w1)"
      "fs_fibers (w_fibers w1) = (fs_fibers (w_fibers w0))(?m \<mapsto> \<lparr>fb_id = 0, fb_stack_size = 0, fb_state = ST_EXEC, fb_ctx = Ctx_here, fb_stack = False, fb_cb = None\<rparr>)"
      "fs_tls (w_fibers w1) = (fs_tls (w_fibers w0))(t := (fs_tls (w_fibers w0) t)\<lparr>t_fiber := Some ?m, t_threadFiber := Some ?m\<rparr>)"
      "fs_next (w_fibers w1) = Suc ?m" "w_sched w1 = w_sched w0"
    using new t unfolding new_Scheduler_def
    by (auto simp: assert_that_eq bind_out_eq_Inr on_fibers_eq Fiber_GetThis_def new_main_Fiber_def Let_def SetThis_def set_fiber_def fiber_log_def)
  obtain w3 ths where w3: "on_fibers (new_Fiber env (Some (Run_task this)) 0 True) (w1\<lparr>w_sched := (w_sched w1)(t := Some this)\<rparr>) = Inr (Suc ?m, w3)"
      "w = set_sched this \<lparr>sc_threads = [], sc_fibers = [], sc_rootFiber = Some (Suc ?m), sc_name = name,
      sc_threadIds = [t], sc_threadCount = threads - 1, sc_active = 0, sc_idle = 0, sc_stopping = True, sc_autoStop = False, sc_rootThread = t\<rparr>
       (w3\<lparr>w_threads := ths, w_fibers := (w_fibers w3)\<lparr>fs_tls := (fs_tls (w_fibers w3))(t := (fs_tls (w_fibers w3) t)\<lparr>t_scheduler_fiber := Some (Suc ?m)\<rparr>)\<rparr>\<rparr>)"
    using new w1(1,4) unfolding new_Scheduler_def
    by (auto simp: assert_that_eq bind_out_eq_Inr on_fibers_eq Let_def new_Fiber_def split: if_splits)
  obtain br where br: "fs_fibers (w_fibers w3) = (fs_fibers (w_fibers w1))(Suc ?m \<mapsto> br)" "fb_state br = ST_INIT"
      "fb_ctx br = Ctx_start CallerMainFunc" "fb_cb br = Some (Run_task this)" "fs_tls (w_fibers w3) = fs_tls (w_fibers w1)"
      "fs_next (w_fibers w3) = Suc (Suc ?m)" "w_sched w3 = (w_sched w1)(t := Some this)"
    using w3(1) w1(4) by (auto simp: on_fibers_eq new_Fiber_def assert_that_eq Let_def set_fiber_def fiber_log_def split: if_splits)
  show ?thesis
    by (rule exI [of _ "\<lparr>fb_id = 0, fb_stack_size = 0, fb_state = ST_EXEC, fb_ctx = Ctx_here, fb_stack = False, fb_cb = None\<rparr>"], rule exI [of _ br])
      (use w1 br w3(2) in \<open>simp add: set_sched_def all_tls\<close>)
qed

text \<open>So with no other schedulers about, the scheduler begins as the runs of it begin.\<close>

definition before_schedulers :: "addr \<Rightarrow> ('u, 'v) world \<Rightarrow> bool" where
  "before_schedulers this w \<longleftrightarrow> (\<forall>t. t_scheduler_fiber (fs_tls (w_fibers w) t) = None) \<and>
     (\<forall>t m. t_threadFiber (fs_tls (w_fibers w) t) = Some m \<longrightarrow> fs_fibers (w_fibers w) m \<noteq> None) \<and>
     fresh_in (fs_fibers (w_fibers w)) (fs_next (w_fibers w)) \<and>
     (\<forall>f b. fs_fibers (w_fibers w) f = Some b \<longrightarrow> back_mode this (fb_ctx b) = None)"

definition new_config :: "bool \<Rightarrow> thread_id \<Rightarrow> ('u, 'v) world \<Rightarrow> ('u, 'v) config" where
  "new_config use_caller t w = \<lparr>cf_world = w, cf_at = (if use_caller then [t \<mapsto> Outside] else Map.empty)\<rparr>"

lemma new_Scheduler_first:
  assumes new: "new_Scheduler env t this threads uc name w0 = Inr w" and t: "t_fiber (fs_tls (w_fibers w0) t) = None"
    and w0: "before_schedulers this w0"
  shows "first_config this (new_config uc t w)"
proof (cases uc)
  case False
  then show ?thesis using new w0
    by (auto simp: new_Scheduler_def assert_that_eq first_config_def new_config_def before_schedulers_def main_fibers_apart_def)
next
  case True
  let ?m = "fs_next (w_fibers w0)"
  obtain bm br where n: "fs_fibers (w_fibers w) = (fs_fibers (w_fibers w0))(?m \<mapsto> bm, Suc ?m \<mapsto> br)"
      "fb_ctx bm = Ctx_here" "fb_ctx br = Ctx_start CallerMainFunc"
      "fs_tls (w_fibers w) = (fs_tls (w_fibers w0))(t := \<lparr>t_fiber = Some ?m, t_threadFiber = Some ?m, t_scheduler_fiber = Some (Suc ?m)\<rparr>)"
      "fs_next (w_fibers w) = Suc (Suc ?m)"
      "w_scheds w this = Some \<lparr>sc_threads = [], sc_fibers = [], sc_rootFiber = Some (Suc ?m), sc_name = name,
        sc_threadIds = [t], sc_threadCount = threads - 1, sc_active = 0, sc_idle = 0, sc_stopping = True, sc_autoStop = False, sc_rootThread = t\<rparr>"
    using new_Scheduler_caller [OF new [unfolded eqTrueI [OF True]] t] by blast
  have fr: "fresh_in (fs_fibers (w_fibers w0)) ?m" and sf: "\<forall>u. sfib w0 u = None" using w0 by (simp_all add: before_schedulers_def)
  have "fresh_in (fs_fibers (w_fibers w)) (fs_next (w_fibers w))"
    using fr unfolding n(1,5) fresh_in_def by (auto simp: less_Suc_eq split: if_splits)
  moreover have "main_fibers_apart w"
    unfolding main_fibers_apart_def n(1,4)
  proof (intro allI impI conjI)
    fix u x v assume x: "t_threadFiber (((fs_tls (w_fibers w0))(t := \<lparr>t_fiber = Some ?m, t_threadFiber = Some ?m, t_scheduler_fiber = Some (Suc ?m)\<rparr>)) u) = Some x"
    show "((fs_fibers (w_fibers w0))(?m \<mapsto> bm, Suc ?m \<mapsto> br)) x \<noteq> None"
      using x w0 by (auto simp: before_schedulers_def split: if_splits)
    assume "t_scheduler_fiber (((fs_tls (w_fibers w0))(t := \<lparr>t_fiber = Some ?m, t_threadFiber = Some ?m, t_scheduler_fiber = Some (Suc ?m)\<rparr>)) v) = Some x"
    then have v: "v = t" "x = Suc ?m" using sf by (auto split: if_splits)
    show "v = u"
    proof (rule ccontr)
      assume "v \<noteq> u"
      then have "fs_fibers (w_fibers w0) (Suc ?m) \<noteq> None" using x v w0 by (auto simp: before_schedulers_def split: if_splits)
      then show False using fr unfolding fresh_in_def by (metis Suc_lessD less_irrefl)
    qed
  qed
  moreover have "back_mode this (fb_ctx b) = None" if "fs_fibers (w_fibers w) f = Some b" for f b
    using that w0 n(2,3) unfolding n(1) by (auto simp: before_schedulers_def split: if_splits)
  moreover have "caller_outside (new_config True t w) t" using n(1,4) by (simp add: caller_outside_def new_config_def)
  ultimately show ?thesis using True n(4,6) sf by (simp add: first_config_def new_config_def)
qed

section \<open>Stopping on the thread of the caller\<close>

lemma stop_calls_root:
  assumes env: "fiber_env_ok env" and sc: "w_scheds w this = Some sc" "sc_rootFiber sc = Some r" "sc_threadCount sc = 0" "sc_rootThread sc \<noteq> - 1"
    and q: "sc_fibers sc \<noteq> []" and here: "w_sched w t = Some this"
    and r: "fs_fibers (w_fibers w) r = Some br" "fb_state br = ST_INIT"
    and m: "t_threadFiber (fs_tls (w_fibers w) t) = Some m" "fs_fibers (w_fibers w) m = Some bm" "m \<noteq> r"
  shows "\<exists>w'. stop_begin env t this w = Inr (Stop_calls (fb_ctx br), w') \<and> w_scheds w' this = Some (sc\<lparr>sc_autoStop := True, sc_stopping := True\<rparr>) \<and>
    fs_fibers (w_fibers w') = (fs_fibers (w_fibers w))(r \<mapsto> br\<lparr>fb_state := ST_EXEC\<rparr>, m \<mapsto> bm\<lparr>fb_ctx := Ctx_saved (Stop_called this)\<rparr>) \<and>
    fs_tls (w_fibers w') = (fs_tls (w_fibers w))(t := (fs_tls (w_fibers w) t)\<lparr>t_fiber := Some r\<rparr>) \<and> fs_next (w_fibers w') = fs_next (w_fibers w)"
proof -
  let ?sc = "sc\<lparr>sc_autoStop := True, sc_stopping := True\<rparr>"
  let ?w1 = "set_sched this (sc\<lparr>sc_autoStop := True\<rparr>) w" and ?w2 = "\<lambda>w. set_sched this ?sc w"
  have w1: "on_sched this (\<lambda>sc. sc\<lparr>sc_autoStop := True\<rparr>) w = Inr ?w1" by (rule on_sched_run [OF sc(1)])
  let ?v2 = "?w2 (sched_log (nat_str this @ '' stopped'') ?w1)"
  have w2: "on_sched this (\<lambda>sc. sc\<lparr>sc_stopping := True\<rparr>) (sched_log (nat_str this @ '' stopped'') ?w1) = Inr ?v2"
    using on_sched_run [of "sched_log (nat_str this @ '' stopped'') ?w1" this "sc\<lparr>sc_autoStop := True\<rparr>"] by simp
  let ?v3 = "?w2 ?v2"
  have w3: "on_sched this (\<lambda>sc. sc\<lparr>sc_stopping := True\<rparr>) ?v2 = Inr ?v3" using on_sched_run [of ?v2 this ?sc] by simp
  have stop: "stopping this ?v2 = Inr False" "stopping this (tickle ?v3) = Inr False" using q by (simp_all add: stopping_def)
  have st: "fiber_state r ?w1 = Inr ST_INIT" using r by (simp add: fiber_state_eq)
  have fib: "fs_fibers (w_fibers (tickle ?v3)) = fs_fibers (w_fibers w)" "fs_tls (w_fibers (tickle ?v3)) = fs_tls (w_fibers w)"
      "fs_next (w_fibers (tickle ?v3)) = fs_next (w_fibers w)" "w_scheds (tickle ?v3) this = Some ?sc"
    by (simp_all add: sched_log_def fiber_log_def tickle_def)
  obtain s where s: "Fiber_call env t r (Stop_called this) (w_fibers (tickle ?v3)) = Inr (fb_ctx br, s)"
      "fs_fibers s = (fs_fibers (w_fibers w))(r \<mapsto> br\<lparr>fb_state := ST_EXEC\<rparr>, m \<mapsto> bm\<lparr>fb_ctx := Ctx_saved (Stop_called this)\<rparr>)"
      "fs_tls s = (fs_tls (w_fibers w))(t := (fs_tls (w_fibers w) t)\<lparr>t_fiber := Some r\<rparr>)" "fs_next s = fs_next (w_fibers w)"
    using env r m fib by (auto simp: fiber_env_ok_def Fiber_call_def swapcontext_def fiber_basics)
  have "stop_begin env t this w = Inr (Stop_calls (fb_ctx br), (tickle ?v3)\<lparr>w_fibers := s\<rparr>)"
    unfolding stop_begin_def w1 using sc here st w2 w3 stop s(1)
    by (simp add: assert_that_def Scheduler_GetThis_def on_fibers_def)
  then show ?thesis using s fib(4) by (intro exI [of _ "(tickle ?v3)\<lparr>w_fibers := s\<rparr>"]) simp
qed

lemma root_run_starts:
  assumes env: "fiber_env_ok env" and sc: "w_scheds w this = Some sc" "sc_rootThread sc = t"
  shows "\<exists>w' b. run_start env t this w = Inr (\<lparr>rl_idle = fs_next (w_fibers w), rl_cb = None\<rparr>, w') \<and>
    fs_fibers (w_fibers w') = (fs_fibers (w_fibers w))(fs_next (w_fibers w) \<mapsto> b) \<and> fs_tls (w_fibers w') = fs_tls (w_fibers w) \<and>
    w_scheds w' = w_scheds w \<and> fb_state b = ST_INIT \<and> fb_ctx b = Ctx_start MainFunc \<and> fb_cb b = Some (Idle_task this)"
proof -
  let ?w1 = "setThis t this ((sched_log (sc_name sc @ '' run'') w)\<lparr>w_hooks := w_hooks w @ [(t, True)]\<rparr>)"
  obtain s b where s: "new_Fiber env (Some (Idle_task this)) 0 False (w_fibers ?w1) = Inr (fs_next (w_fibers ?w1), s)"
      "fs_fibers s = (fs_fibers (w_fibers ?w1))(fs_next (w_fibers ?w1) \<mapsto> b)" "fs_tls s = fs_tls (w_fibers ?w1)"
      "fb_state b = ST_INIT" "fb_ctx b = Ctx_start MainFunc" "fb_cb b = Some (Idle_task this)"
    using new_Fiber_run [OF env, where s = "w_fibers ?w1" and cb = "Some (Idle_task this)" and sz = 0] by blast
  have "fs_next (w_fibers ?w1) = fs_next (w_fibers w)" "fs_fibers (w_fibers ?w1) = fs_fibers (w_fibers w)"
      "fs_tls (w_fibers ?w1) = fs_tls (w_fibers w)" "w_scheds ?w1 = w_scheds w"
    by (simp_all add: setThis_def sched_log_def fiber_log_def)
  then show ?thesis using s sc
    by (intro exI [of _ "?w1\<lparr>w_fibers := s\<rparr>"] exI [of _ b]) (simp add: run_start_def sched_at_def on_fibers_def Let_def)
qed

lemma caller_goes_back:
  assumes env: "fiber_env_ok env" and r: "fs_fibers (w_fibers w) r = Some b" and m: "t_threadFiber (fs_tls (w_fibers w) t) = Some m" "m \<noteq> r"
      "map_option fb_ctx (fs_fibers (w_fibers w) m) = Some c"
  shows "\<exists>w'. on_fibers (CallerMainFunc_finish env t r None bt k) w = Inr (c, w') \<and> w_scheds w' = w_scheds w \<and> fiber_state r w' = Inr ST_TERM"
  using assms
  by (auto simp: fiber_env_ok_def on_fibers_eq CallerMainFunc_finish_def record_end_def Fiber_back_def swapcontext_def fiber_basics fiber_state_def)

lemma stop_returns_early:
  assumes sc: "w_scheds w this = Some sc" "sc_rootFiber sc = Some r" "sc_threadCount sc = 0" "sc_fibers sc = []" "sc_active sc = 0"
    and r: "fiber_state r w = Inr st" "st = ST_TERM \<or> st = ST_INIT"
  shows "\<exists>w'. stop_begin env t this w = Inr (Stop_returns, w')"
  using assms on_sched_run [OF sc(1), of "\<lambda>sc. sc\<lparr>sc_autoStop := True\<rparr>"]
  by (auto simp: stop_begin_def on_sched_def stopping_def)

definition callback_tasks :: "'u list \<Rightarrow> 'u fiber_and_thread list" where
  "callback_tasks us = map (\<lambda>u. \<lparr>ft_fiber = None, ft_cb = Some (User_task u), ft_thread = - 1\<rparr>) us"

definition callback_args :: "'u list \<Rightarrow> 'u scheduled list" where
  "callback_args us = map (\<lambda>u. Cb_arg (Some (User_task u))) us"

lemma callback_tasks_queued:
  "concat (map (\<lambda>fc. queued_by fc (- 1)) (callback_args us)) = map Queued (callback_tasks us)"
  "[ft \<leftarrow> map (\<lambda>fc. new_FiberAndThread fc (- 1)) (callback_args us). has_task ft] = callback_tasks us"
  "\<forall>it \<in> set (callback_tasks us). callback_for t it" "\<forall>fc \<in> set (callback_args us). schedulable w fc"
  by (induction us) (auto simp: callback_args_def callback_tasks_def queued_by_def has_task_def callback_for_def schedulable_def)

lemma callback_tasks_deeds:
  "concat (map callback_deeds (callback_tasks us)) =
     concat (map (\<lambda>(u, it). [Takes it, Begins (Some (User_task u)), Ends (Some (User_task u))]) (zip us (callback_tasks us)))"
  by (induction us) (auto simp: callback_tasks_def callback_deeds_def)

text \<open>The root fiber from its beginning to its end, on the thread that has called it.\<close>

lemma root_fiber_run:
  assumes env: "fiber_env_ok env" and inv: "sched_inv this cf" and at: "cf_at cf t = Some (Enters_root (Ctx_start CallerMainFunc))"
    and sc: "w_scheds (cf_world cf) this = Some sc" "sc_rootThread sc = t" "sc_active sc = 0" "sc_autoStop sc" "sc_stopping sc"
      "\<forall>it \<in> set (sc_fibers sc). callback_for t it"
    and r: "sfib (cf_world cf) t = Some r" "cur (cf_world cf) t = Some r" "fs_fibers (w_fibers (cf_world cf)) r = Some br" "fb_cb br = Some (Run_task this)"
    and m: "mainf (cf_world cf) t = Some m" "m \<noteq> r" "fs_fibers (w_fibers (cf_world cf)) m = Some bm" "fb_ctx bm = Ctx_saved (Stop_called this)"
    and rest: "\<And>w'. w_scheds w' this = Some (sc\<lparr>sc_fibers := []\<rparr>) \<Longrightarrow> fiber_state r w' = Inr ST_TERM \<Longrightarrow> P (moves_to cf t Outside w')"
  shows "comes_to env this t P (concat (map callback_deeds (sc_fibers sc))) cf"
proof -
  let ?w = "cf_world cf"
  let ?i = "fs_next (w_fibers ?w)" and ?sc = "sc\<lparr>sc_fibers := []\<rparr>"
  let ?l = "\<lparr>rl_idle = ?i, rl_cb = None\<rparr>"
  have enter: "on_fibers (CallerMainFunc_enter env t) ?w = Inr ((r, Some (Run_task this)), ?w)"
    using r(2,3,4) by (simp add: on_fibers_def CallerMainFunc_enter_def Fiber_GetThis_def deref_def)
  obtain w1 bi where w1: "run_start env t this ?w = Inr (?l, w1)" "fs_fibers (w_fibers w1) = (fs_fibers (w_fibers ?w))(?i \<mapsto> bi)"
      "fs_tls (w_fibers w1) = fs_tls (w_fibers ?w)" "w_scheds w1 = w_scheds ?w" "fb_state bi = ST_INIT" "fb_ctx bi = Ctx_start MainFunc"
      "fb_cb bi = Some (Idle_task this)"
    using root_run_starts [OF env sc(1,2)] by blast
  let ?cf1 = "moves_to cf t (In_loop ?l) w1"
  have rdy: "loop_ready this w1 ?l" using w1(2,5-7) by (simp add: loop_ready_def)
  have i: "?i \<noteq> m" using m(3) invD(1) [OF inv] by (auto simp: fibers_apart_def fresh_in_None)
  have kept: "not_of_loop r ?l w1 m" using w1(2) m(2,3) i by (simp add: not_of_loop_def)
  have ended: "comes_to env this t P [] (moves_to cf t Out_of_loop w3)"
    if inv3: "sched_inv this (moves_to cf t Out_of_loop w3)" and w3: "w_scheds w3 this = Some ?sc" "loop_went r ?l w1 l' w3" for l' w3
  proof -
    let ?cf3 = "moves_to cf t Out_of_loop w3"
    have fm: "fs_fibers (w_fibers w3) m = Some bm" using w3(2) kept w1(2) i m(3) by (simp add: loop_went_def)
    have tls: "sfib w3 t = Some r" "mainf w3 t = Some m" using w3(2) w1(3) r(1) m(1) by (simp_all add: loop_went_def same_loops_def)
    have "fibers_apart this w3" using invD(1) [OF inv3] by simp
    then obtain b where b: "fs_fibers (w_fibers w3) r = Some b" using tls(1) unfolding fibers_apart_def by fastforce
    obtain w4 where w4: "on_fibers (CallerMainFunc_finish env t r None [] Never) w3 = Inr (Ctx_saved (Stop_called this), w4)"
        "w_scheds w4 = w_scheds w3" "fiber_state r w4 = Inr ST_TERM"
      using caller_goes_back [OF env b tls(2) m(2), where c = "Ctx_saved (Stop_called this)" and bt = "[]" and k = Never] fm m(4) by auto
    have e: "map_option sc_rootThread (w_scheds (cf_world ?cf3) this) = Some t" "GetMainFiber t (cf_world ?cf3) = Some r"
        "on_fibers (CallerMainFunc_finish env t r None [] Never) (cf_world ?cf3) = Inr (Ctx_saved (Stop_called this), w4)"
      using w4(1) w3(1) sc(2) tls(1) by (simp_all add: GetMainFiber_def)
    have "comes_to env this t P [] (moves_to ?cf3 t Outside w4)"
      using rest [of w4] w4(2,3) w3(1) by (intro comes_to.arrived) simp
    then show ?thesis
      using comes_to_next [OF inv3 sched_step.ends_root [OF moves_at e] only_ends_root [OF moves_at e(2,3)] moves_at] by (simp add: deeds_def)
  qed
  have runs: "comes_to env this t P (concat (map callback_deeds (sc_fibers sc)) @ []) ?cf1" if inv1: "sched_inv this ?cf1"
  proof (rule callbacks_run [OF env inv1 moves_at, of sc "sc_fibers sc" r])
    fix l' w2
    assume 2: "sched_inv this (moves_to ?cf1 t (In_loop l') w2)" "w_scheds w2 this = Some ?sc" "loop_ready this w2 l'"
      "loop_went r ?l (cf_world ?cf1) l' w2"
    have s2: "sfib w2 t = Some r" using 2(4) w1(3) r(1) by (simp add: loop_went_def same_loops_def)
    show "comes_to env this t P [] (moves_to ?cf1 t (In_loop l') w2)"
    proof (rule idle_run [OF env 2(1) moves_at, of ?sc r])
      fix w3
      assume "sched_inv this (moves_to (moves_to ?cf1 t (In_loop l') w2) t Out_of_loop w3)" "w_scheds w3 this = Some ?sc"
        "loop_went r l' (cf_world (moves_to ?cf1 t (In_loop l') w2)) l' w3"
      then show "comes_to env this t P [] (moves_to (moves_to ?cf1 t (In_loop l') w2) t Out_of_loop w3)"
        using ended [of w3 l'] loop_went_trans [of r ?l w1 l' w2 l' w3] 2(4) by simp
    qed (use 2(2,3) sc(3-5) s2 in simp_all)
  qed (use sc(1,6) w1(3,4) rdy r(1) in simp_all)
  have root: "map_option sc_rootThread (w_scheds ?w this) = Some t" using sc(1,2) by simp
  show ?thesis
    using comes_to_next [OF inv sched_step.begins_root [OF at root enter w1(1)] only_begins_root [OF at enter w1(1)] at] runs at
    by (simp add: deeds_def)
qed

text \<open>
  C18. A scheduler without threads of its own, made with \<open>use_caller\<close>, does its work when it is stopped: the
  callbacks that were scheduled stay queued until the thread that made it calls \<open>stop\<close>, which
  switches to the root fiber. From there the thread, whatever the callbacks return or throw, and as long as
  they do not yield or schedule and no other thread does anything with the scheduler, takes each callback in the order in which
  they were scheduled, enters the function of it, and comes to its end, before it takes the next; then it leaves
  the loop and is back in \<open>stop\<close>, with no task left and \<open>stopping\<close> true. There is no other way for it to
  go, and it cannot get stuck. The rest of \<open>stop\<close> joins nobody, and a second \<open>stop\<close> returns at once.
\<close>

theorem stop_runs_callbacks:
  assumes env: "fiber_env_ok env" and t: "t_fiber (fs_tls (w_fibers w0) t) = None" "t \<noteq> - 1" and w0: "before_schedulers this w0"
    and new: "new_Scheduler env t this 1 True name w0 = Inr w"
    and range: "schedule_range this (callback_args us) w = Inr (rest, w1)" and us: "us \<noteq> []"
  shows "\<exists>c w2. stop_begin env t this w1 = Inr (Stop_calls c, w2) \<and>
    sched_run env this (new_config True t w) (map Queued (callback_tasks us)) (new_config True t w1) \<and>
    sched_step env this (new_config True t w1) [] (moves_to (new_config True t w1) t (Enters_root c) w2) \<and>
    comes_to env this t (\<lambda>cf. cf_at cf t = Some Outside \<and> queue_of this (cf_world cf) = [] \<and> stopping this (cf_world cf) = Inr True \<and>
        (\<exists>w3 w4. stop_finish [] this (cf_world cf) = (Inr (), w3) \<and> stop_begin env t this w3 = Inr (Stop_returns, w4)))
      (concat (map (\<lambda>(u, it). [Takes it, Begins (Some (User_task u)), Ends (Some (User_task u))]) (zip us (callback_tasks us))))
      (moves_to (new_config True t w1) t (Enters_root c) w2)"
proof -
  let ?m = "fs_next (w_fibers w0)" and ?cf0 = "new_config True t w" and ?cf1 = "new_config True t w1"
  let ?r = "Suc ?m"
  obtain bm br where n: "fs_fibers (w_fibers w) = (fs_fibers (w_fibers w0))(?m \<mapsto> bm, ?r \<mapsto> br)"
      "fb_state br = ST_INIT" "fb_ctx br = Ctx_start CallerMainFunc" "fb_cb br = Some (Run_task this)"
      "fs_tls (w_fibers w) = (fs_tls (w_fibers w0))(t := \<lparr>t_fiber = Some ?m, t_threadFiber = Some ?m, t_scheduler_fiber = Some ?r\<rparr>)"
      "w_sched w t = Some this"
      and sc: "w_scheds w this = Some \<lparr>sc_threads = [], sc_fibers = [], sc_rootFiber = Some ?r, sc_name = name,
        sc_threadIds = [t], sc_threadCount = 1 - 1, sc_active = 0, sc_idle = 0, sc_stopping = True, sc_autoStop = False, sc_rootThread = t\<rparr>"
    using new_Scheduler_caller [OF new t(1)] by blast
  let ?sc1 = "the (w_scheds w this)\<lparr>sc_fibers := callback_tasks us\<rparr>"
  have w1: "same_run w w1" "w_scheds w1 this = Some ?sc1"
    using schedule_range_effect [OF range sc] sc callback_tasks_queued(2) [of us] by simp_all
  have inv0: "sched_inv this ?cf0" by (rule first_inv [OF new_Scheduler_first [OF new t(1) w0]])
  have "sched_step env this ?cf0 (concat (map (\<lambda>fc. queued_by fc (- 1)) (callback_args us))) (with_world ?cf0 w1)"
    by (rule sched_step.schedules_range) (use callback_tasks_queued(4) [of us w] range in \<open>simp_all add: new_config_def\<close>)
  then have s1: "sched_run env this ?cf0 (map Queued (callback_tasks us)) ?cf1"
    unfolding callback_tasks_queued(1) by (intro sched_run_step) (simp add: with_world_def new_config_def)
  have f1: "fs_fibers (w_fibers w1) = fs_fibers (w_fibers w)" "fs_tls (w_fibers w1) = fs_tls (w_fibers w)" "w_sched w1 = w_sched w"
    using w1(1) unfolding same_run_def by blast+
  obtain w2 where w2: "stop_begin env t this w1 = Inr (Stop_calls (Ctx_start CallerMainFunc), w2)"
      "w_scheds w2 this = Some (?sc1\<lparr>sc_autoStop := True, sc_stopping := True\<rparr>)"
      "fs_fibers (w_fibers w2) = (fs_fibers (w_fibers w1))(?r \<mapsto> br\<lparr>fb_state := ST_EXEC\<rparr>, ?m \<mapsto> bm\<lparr>fb_ctx := Ctx_saved (Stop_called this)\<rparr>)"
      "fs_tls (w_fibers w2) = (fs_tls (w_fibers w1))(t := (fs_tls (w_fibers w1) t)\<lparr>t_fiber := Some ?r\<rparr>)"
    using stop_calls_root [OF env w1(2), of ?r t br ?m bm] n sc t(2) us unfolding f1 by (auto simp: callback_tasks_def)
  let ?cf2 = "moves_to ?cf1 t (Enters_root (Ctx_start CallerMainFunc)) w2"
  have s2: "sched_step env this ?cf1 [] ?cf2"
    by (rule sched_step.calls_root) (use w2(1) w1(2) sc in \<open>simp_all add: new_config_def\<close>)
  have inv2: "sched_inv this ?cf2" by (rule sched_step_inv [OF s2 run_keeps_inv [OF s1 inv0]])
  have facts: "sfib w2 t = Some ?r" "cur w2 t = Some ?r" "mainf w2 t = Some ?m" using w2(4) n(5) unfolding f1 by simp_all
  let ?sc' = "?sc1\<lparr>sc_autoStop := True, sc_stopping := True, sc_fibers := []\<rparr>"
  define P :: "('a, 'b) config \<Rightarrow> bool" where "P = (\<lambda>cf. cf_at cf t = Some Outside \<and> queue_of this (cf_world cf) = [] \<and>
    stopping this (cf_world cf) = Inr True \<and>
    (\<exists>w3 w4. stop_finish [] this (cf_world cf) = (Inr (), w3) \<and> stop_begin env t this w3 = Inr (Stop_returns, w4)))"
  have stopped: "P (moves_to ?cf2 t Outside w')" if w': "w_scheds w' this = Some ?sc'" "fiber_state ?r w' = Inr ST_TERM" for w'
  proof -
    let ?w3 = "(set_sched this ?sc' w')\<lparr>w_threads := w_threads w'\<rparr>"
    have fin: "stop_finish [] this w' = (Inr (), ?w3)" using w'(1) sc by (simp add: stop_finish_def sched_at_def)
    have w3: "w_scheds ?w3 this = Some ?sc'" "fiber_state ?r ?w3 = Inr ST_TERM"
      using w'(2) by (simp_all add: fiber_state_def deref_def)
    obtain w4 where "stop_begin env t this ?w3 = Inr (Stop_returns, w4)"
      using stop_returns_early [OF w3(1) _ _ _ _ w3(2)] sc by auto
    then show ?thesis using fin w'(1) sc by (auto simp: P_def queue_of_def stopping_def sched_at_def)
  qed
  have "comes_to env this t P (concat (map callback_deeds (sc_fibers (?sc1\<lparr>sc_autoStop := True, sc_stopping := True\<rparr>)))) ?cf2"
  proof (rule root_fiber_run [OF env inv2 moves_at, where r = ?r and br = "br\<lparr>fb_state := ST_EXEC\<rparr>" and m = ?m
        and bm = "bm\<lparr>fb_ctx := Ctx_saved (Stop_called this)\<rparr>"])
    fix w' :: "('a, 'b) world"
    assume "w_scheds w' this = Some (?sc1\<lparr>sc_autoStop := True, sc_stopping := True\<rparr>\<lparr>sc_fibers := []\<rparr>)" "fiber_state ?r w' = Inr ST_TERM"
    then show "P (moves_to ?cf2 t Outside w')" by (intro stopped) simp_all
  qed (use w2(2,3) facts sc n(4) callback_tasks_queued(3) [of us t] in simp_all)
  then have "comes_to env this t P (concat (map (\<lambda>(u, it). [Takes it, Begins (Some (User_task u)), Ends (Some (User_task u))]) (zip us (callback_tasks us)))) ?cf2"
    by (simp add: callback_tasks_deeds)
  then show ?thesis using s1 s2 w2(1) unfolding P_def by blast
qed

definition nothing_yet :: "(nat, nat) world" where
  "nothing_yet = \<lparr>w_fibers = no_fibers, w_scheds = Map.empty, w_sched = (\<lambda>t. None), w_threads = no_threads, w_hooks = []\<rparr>"

lemma nothing_yet_scheduler:
  "\<exists>w. new_Scheduler good_env 7 9 1 True ''net'' nothing_yet = Inr w"
  by (simp add: new_Scheduler_def nothing_yet_def no_fibers_def no_threads_def good_env_def on_fibers_def Fiber_GetThis_def new_main_Fiber_def
      new_Fiber_def MallocStackAllocator_Alloc_def assert_that_def SetThis_def set_fiber_def fiber_log_def Thread_SetName_def Let_def)

theorem stop_runs_callbacks_witness:
  "\<exists>w w1 c w2 cf. new_Scheduler good_env 7 9 1 True ''net'' nothing_yet = Inr w \<and>
     schedule_range 9 (callback_args [5, 6]) w = Inr ([Cb_arg None, Cb_arg None], w1) \<and>
     stop_begin good_env 7 9 w1 = Inr (Stop_calls c, w2) \<and>
     alone_run good_env 9 7 (moves_to (new_config True 7 w1) 7 (Enters_root c) w2)
       [Takes (hd (callback_tasks [5])), Begins (Some (User_task 5)), Ends (Some (User_task 5)),
        Takes (hd (callback_tasks [6])), Begins (Some (User_task 6)), Ends (Some (User_task 6))] cf \<and>
     cf_at cf 7 = Some Outside \<and> stopping 9 (cf_world cf) = Inr True"
proof -
  obtain w where w: "new_Scheduler good_env 7 9 1 True ''net'' nothing_yet = Inr w" using nothing_yet_scheduler by blast
  have t: "t_fiber (fs_tls (w_fibers nothing_yet) 7) = None" "(7 :: thread_id) \<noteq> - 1" "before_schedulers 9 nothing_yet"
    by (simp_all add: nothing_yet_def no_fibers_def before_schedulers_def fresh_in_def)
  obtain sc where sc: "w_scheds w 9 = Some sc" using new_Scheduler_caller [OF w t(1)] by blast
  obtain w1 where w1: "schedule_range 9 (callback_args [5, 6]) w = Inr ([Cb_arg None, Cb_arg None], w1)"
    using sc by (simp add: schedule_range_def sched_at_def callback_args_def scheduleNoLock_def Let_def)
  have two: "[5, 6] \<noteq> ([] :: nat list)" by simp
  obtain c w2 where s: "stop_begin good_env 7 9 w1 = Inr (Stop_calls c, w2)"
      "comes_to good_env 9 7 (\<lambda>cf. cf_at cf 7 = Some Outside \<and> queue_of 9 (cf_world cf) = [] \<and> stopping 9 (cf_world cf) = Inr True \<and>
          (\<exists>w3 w4. stop_finish [] 9 (cf_world cf) = (Inr (), w3) \<and> stop_begin good_env 7 9 w3 = Inr (Stop_returns, w4)))
        (concat (map (\<lambda>(u, it). [Takes it, Begins (Some (User_task u)), Ends (Some (User_task u))]) (zip [5, 6] (callback_tasks [5, 6]))))
        (moves_to (new_config True 7 w1) 7 (Enters_root c) w2)"
    using stop_runs_callbacks [OF good_env_ok t w w1 two] by blast
  show ?thesis using w w1 s(1) comes_to_run [OF s(2)] by (auto simp: callback_tasks_def)
qed

end
