(* ===== verification/Util.thy ===== *)
theory Util
  imports LogSystem
begin

text \<open>
  The utilities (\<open>src/util/util.h\<close>, \<open>util.cpp\<close>) and the assertion macros built on them and on the
  logging system (\<open>src/macro.h\<close>). What the operating system answers is an argument.
\<close>

definition GetThreadIdBySyscall :: "u64 \<Rightarrow> u64" where
  "GetThreadIdBySyscall gettid = gettid"

text \<open>\<open>show_id\<close> is how the library prints an id.\<close>

definition GetThreadId :: "(thread_id \<Rightarrow> string) \<Rightarrow> thread_id \<Rightarrow> string" where
  "GetThreadId show_id this_thread = [] @ show_id this_thread"

definition util_GetFiberId :: u64 where
  "util_GetFiberId = 0"

text \<open>Which of the platform macros is defined.\<close>

datatype os = PLATFORM_WINDOWS | PLATFORM_LINUX | PLATFORM_other

definition chooseByOs :: "os \<Rightarrow> string \<Rightarrow> string \<Rightarrow> string" where
  "chooseByOs o_s win linux = (case o_s of PLATFORM_WINDOWS \<Rightarrow> win | PLATFORM_LINUX \<Rightarrow> linux | PLATFORM_other \<Rightarrow> [])"

text \<open>
  \<open>Backtrace\<close>: \<open>s\<close> is the number of frames that \<open>backtrace\<close> found, \<open>strings\<close> what \<open>backtrace_symbols\<close>
  gives, one text for each frame, or None for the null pointer. The loop counts from \<open>skip\<close> as
  an unsigned number. When the pointer is null, the error is logged and the buffer freed, and
  the function goes on.
\<close>

definition frames_from :: "int \<Rightarrow> nat \<Rightarrow> nat list" where
  "frames_from skip s = [unat (word_of_int skip :: u64)..<s]"

definition Backtrace :: "nat \<Rightarrow> string list option \<Rightarrow> int \<Rightarrow> string list \<Rightarrow> string list outcome" where
  "Backtrace s strings skip bt =
     (case strings of
        None \<Rightarrow> if frames_from skip s \<noteq> [] then Inl (Null_deref ''strings'') else Inl (Double_free ''buffer'')
      | Some xs \<Rightarrow> Inr (bt @ map ((!) xs) (frames_from skip s)))"

definition BacktraceToString :: "nat \<Rightarrow> string list option \<Rightarrow> int \<Rightarrow> string \<Rightarrow> string outcome" where
  "BacktraceToString s strings skip prefix =
     bind_out (Backtrace s strings skip []) (\<lambda>bt. Inr (concat (map (\<lambda>line. prefix @ line @ newline) bt)))"

text \<open>
  \<open>SHS_ASSERT(x)\<close> and \<open>SHS_ASSERT2(x, w)\<close>: \<open>cond\<close> is the text of the condition. A condition that does
  not hold is logged by the root logger, with the call stack, and then \<open>assert\<close> aborts. The call
  stack is taken only when the level of the root logger lets the event pass.
\<close>

definition assert_log ::
  "'tm clock \<Rightarrow> os_env \<Rightarrow> log_site \<Rightarrow> string \<Rightarrow> nat \<times> string list option \<Rightarrow> logsys \<Rightarrow> logsys outcome option" where
  "assert_log ck env st line stack s =
     (case ls_loggers s (mgr_root s) of
        None \<Rightarrow> Some (Inl (Null_deref ''Logger''))
      | Some lg \<Rightarrow>
          if lg_level lg \<le> ERROR
          then (case BacktraceToString (fst stack) (snd stack) 2 ''    '' of
                  Inl e \<Rightarrow> Some (Inl e)
                | Inr bt \<Rightarrow> shs_log ck env st (mgr_root s) ERROR (line @ newline @ ''backtrace:'' @ newline @ bt) s)
          else Some (Inr s))"

definition shs_assert ::
  "'tm clock \<Rightarrow> os_env \<Rightarrow> log_site \<Rightarrow> bool \<Rightarrow> string \<Rightarrow> nat \<times> string list option \<Rightarrow> logsys \<Rightarrow> (unit outcome \<times> logsys) option" where
  "shs_assert ck env st x cond stack s =
     (if x then Some (Inr (), s)
      else (case assert_log ck env st (''ASSERTION: '' @ cond) stack s of
              None \<Rightarrow> None
            | Some (Inl e) \<Rightarrow> Some (Inl e, s)
            | Some (Inr s1) \<Rightarrow> Some (Inl (Assert_failed cond), s1)))"

definition shs_assert2 ::
  "'tm clock \<Rightarrow> os_env \<Rightarrow> log_site \<Rightarrow> bool \<Rightarrow> string \<Rightarrow> string \<Rightarrow> nat \<times> string list option \<Rightarrow> logsys \<Rightarrow> (unit outcome \<times> logsys) option" where
  "shs_assert2 ck env st x cond w stack s =
     (if x then Some (Inr (), s)
      else (case assert_log ck env st (''ASSERTION: '' @ cond @ newline @ w) stack s of
              None \<Rightarrow> None
            | Some (Inl e) \<Rightarrow> Some (Inl e, s)
            | Some (Inr s1) \<Rightarrow> Some (Inl (Assert_failed cond), s1)))"

section \<open>What they do\<close>

lemma frames_from_skip: "0 \<le> skip \<Longrightarrow> skip < 2 ^ 64 \<Longrightarrow> frames_from skip s = [nat skip..<s]"
  by (simp add: frames_from_def unat_word_ariths nat_take_bit_eq [symmetric] unsigned_of_int take_bit_int_eq_self)

text \<open>With symbols for the frames, the trace is the frames from \<open>skip\<close> on.\<close>

lemma Backtrace_drop:
  assumes "length xs = s" and "0 \<le> skip" and "skip < 2 ^ 64"
  shows "Backtrace s (Some xs) skip bt = Inr (bt @ drop (nat skip) xs)"
proof -
  have "map ((!) xs) [nat skip..<length xs] = drop (nat skip) xs" by (rule nth_equalityI) simp_all
  then show ?thesis using assms by (simp add: Backtrace_def frames_from_skip)
qed

text \<open>Without symbols it never returns normally: it reads through the null pointer, or frees twice.\<close>

lemma Backtrace_without_symbols:
  assumes "0 \<le> skip" and "skip < 2 ^ 64"
  shows "Backtrace s None skip bt = Inl (if nat skip < s then Null_deref ''strings'' else Double_free ''buffer'')"
  using assms by (simp add: Backtrace_def frames_from_skip)

text \<open>A failed assertion aborts, whatever the logging does, and one that holds does nothing.\<close>

lemma shs_assert_aborts:
  "shs_assert ck env st x cond stack s = Some (r, s') \<Longrightarrow> (x \<longrightarrow> r = Inr () \<and> s' = s) \<and> (\<not> x \<longrightarrow> (\<exists>e. r = Inl e))"
  by (auto simp: shs_assert_def split: if_splits option.splits sum.splits)

end
