(* ===== verification/Server.thy ===== *)
theory Server
  imports Prelude "HOL-Library.Word" "HOL-Library.Multiset"
begin

text \<open>
  The HTTP server (\<open>src/server.h\<close>, \<open>server.cpp\<close>, \<open>main.cpp\<close>). The asio library is not in the
  repository: the results of its calls are arguments, and what the server asks of it is kept as
  part of the state. A connection is handled by a thread of its own.
\<close>

section \<open>The server\<close>

text \<open>An error of asio; the end of the stream is not one for the server.\<close>

datatype asio_error = Asio_eof | Asio_error string

type_synonym socket = nat

text \<open>
  \<open>sv_port\<close> is the port of the acceptor once it is made, \<open>sv_open\<close> whether it is open,
  \<open>sv_accepts\<close> the number of accept operations that are under way, \<open>sv_threads\<close> the connections
  given to threads, \<open>sv_sent\<close> what the server asked to be written to sockets, \<open>sv_closed\<close> the
  sockets it closed, \<open>sv_out\<close> and \<open>sv_err\<close> the lines written to the two streams of the process.
\<close>

record server =
  sv_port :: "16 word option"
  sv_open :: bool
  sv_accepts :: nat
  sv_threads :: "socket list"
  sv_sent :: "(socket \<times> string) list"
  sv_closed :: "socket list"
  sv_out :: "string list"
  sv_err :: "string list"

text \<open>Before the server is made.\<close>

definition no_server :: server where
  "no_server = \<lparr>sv_port = None, sv_open = False, sv_accepts = 0, sv_threads = [], sv_sent = [], sv_closed = [],
     sv_out = [], sv_err = []\<rparr>"

text \<open>A call of a library that may throw.\<close>

definition throwing :: "cpp_exn option \<Rightarrow> (server, unit) act" where
  "throwing r s = (case r of None \<Rightarrow> (Inr (), s) | Some e \<Rightarrow> (Inl (Throw e), s))"

text \<open>The acceptor opens, binds and listens, which may throw.\<close>

definition new_HttpServer :: "16 word \<Rightarrow> cpp_exn option \<Rightarrow> (server, unit) act" where
  "new_HttpServer port opening =
     bindA (throwing opening) (\<lambda>_ s. (Inr (), s\<lparr>sv_port := Some port, sv_open := True\<rparr>))"

definition accept_connection :: "(server, unit) act" where
  "accept_connection s = (Inr (), s\<lparr>sv_accepts := sv_accepts s + 1\<rparr>)"

text \<open>
  The handler of an accept operation: it is done, with an error or with a connection, for which a
  thread is made; \<open>making\<close> is the exception when there can be none.
\<close>

definition accept_handler :: "asio_error option \<Rightarrow> socket \<Rightarrow> cpp_exn option \<Rightarrow> (server, unit) act" where
  "accept_handler ec socket making s =
     bindA
       (if ec = None
        then bindA (throwing making) (\<lambda>_ s1. (Inr (), s1\<lparr>sv_threads := sv_threads s1 @ [socket]\<rparr>))
        else returnA ())
       (\<lambda>_. accept_connection)
       (s\<lparr>sv_accepts := sv_accepts s - 1, sv_out := sv_out s @ (if ec = None then [''New connection accepted!''] else [])\<rparr>)"

definition HttpServer_start :: "(server, unit) act" where
  "HttpServer_start = accept_connection"

text \<open>The acceptor is closed also when closing it reports an error, which is thrown.\<close>

definition HttpServer_stop :: "cpp_exn option \<Rightarrow> (server, unit) act" where
  "HttpServer_stop closing s = throwing closing (s\<lparr>sv_open := False\<rparr>)"

definition response :: string where
  "response = ''HTTP/1.1 200 OK'' @ [CHR 0x0D, CHR 0x0A] @ ''Content-Type: text/plain'' @ [CHR 0x0D, CHR 0x0A, CHR 0x0D, CHR 0x0A] @
     ''Hello, World!''"

text \<open>
  \<open>error\<close> and \<open>data\<close> are what reading gave, at most 1024 bytes; the error of writing is ignored;
  \<open>closing\<close> is the exception of closing the socket, if there is one. \<open>what_of\<close> is the text of the
  exception \<open>std::system_error\<close> made from an error.
\<close>

definition handle_request ::
  "(asio_error \<Rightarrow> string) \<Rightarrow> asio_error option \<Rightarrow> string \<Rightarrow> cpp_exn option \<Rightarrow> socket \<Rightarrow> (server, unit) act" where
  "handle_request what_of error data closing socket =
     catch_std
       (\<lambda>s. if error \<noteq> None \<and> error \<noteq> Some Asio_eof
            then (Inl (Throw (Std_exception (what_of (the error)))), s)
            else
              (let s1 = s\<lparr>sv_out := sv_out s @ [''Request received: '' @ newline @ data],
                          sv_sent := sv_sent s @ [(socket, response)]\<rparr>
               in (case closing of
                     None \<Rightarrow> (Inr (), s1\<lparr>sv_closed := sv_closed s1 @ [socket]\<rparr>)
                   | Some e \<Rightarrow> (Inl (Throw e), s1))))
       (\<lambda>e s. (Inr (), s\<lparr>sv_err := sv_err s @ [''Error handling request: '' @ exn_what e]\<rparr>))"

text \<open>
  \<open>main\<close>, up to the moment when the event loop has run the handlers of the accept operations
  \<open>completed\<close>, in this order. The loop returns when no operation is under way.
\<close>

type_synonym completion = "asio_error option \<times> socket \<times> cpp_exn option"

definition io_run :: "completion list \<Rightarrow> (server, unit) act" where
  "io_run = forA (\<lambda>(ec, socket, making). accept_handler ec socket making)"

definition main :: "cpp_exn option \<Rightarrow> completion list \<Rightarrow> (server, unit) act" where
  "main opening completed =
     catch_std
       (bindA (new_HttpServer 8080 opening) (\<lambda>_.
        bindA (\<lambda>s. (Inr (), s\<lparr>sv_out := sv_out s @ [''HTTP Server started on port 8080.'']\<rparr>)) (\<lambda>_.
        bindA HttpServer_start (\<lambda>_. io_run completed))))
       (\<lambda>e s. (Inr (), s\<lparr>sv_err := sv_err s @ [''Exception: '' @ exn_what e]\<rparr>))"

section \<open>Accepting\<close>

named_theorems server_ops

lemmas [server_ops] = throwing_def accept_connection_def returnA_def

lemma accept_handler_result [server_ops]:
  "accept_handler ec socket making s =
     (let s1 = s\<lparr>sv_accepts := sv_accepts s - 1, sv_out := sv_out s @ (if ec = None then [''New connection accepted!''] else [])\<rparr>
      in (case (ec, making) of
            (None, Some e) \<Rightarrow> (Inl (Throw e), s1)
          | (None, None) \<Rightarrow> (Inr (), s1\<lparr>sv_threads := sv_threads s @ [socket], sv_accepts := sv_accepts s1 + 1\<rparr>)
          | (Some _, _) \<Rightarrow> (Inr (), s1\<lparr>sv_accepts := sv_accepts s1 + 1\<rparr>)))"
  by (cases ec; cases making)
     (simp_all add: accept_handler_def bindA_def throwing_def accept_connection_def returnA_def Let_def)

text \<open>A completion for whose connection no thread could be made.\<close>

fun thread_failure :: "completion \<Rightarrow> cpp_exn option" where
  "thread_failure (None, _, making) = making"
| "thread_failure (Some _, _, _) = None"

definition sockets_of :: "completion list \<Rightarrow> socket list" where
  "sockets_of cs = map (\<lambda>(ec, socket, making). socket) (filter (\<lambda>(ec, socket, making). ec = None) cs)"

lemma io_run_accepts:
  "sv_accepts s = 1 \<Longrightarrow> \<forall>c \<in> set cs. thread_failure c = None \<Longrightarrow>
   \<exists>s'. io_run cs s = (Inr (), s') \<and> sv_accepts s' = 1 \<and> sv_threads s' = sv_threads s @ sockets_of cs \<and>
     sv_err s' = sv_err s \<and> sv_port s' = sv_port s"
proof (induction cs arbitrary: s)
  case (Cons c cs)
  obtain ec socket making where c: "c = (ec, socket, making)" by (cases c) auto
  obtain s1 where s1: "accept_handler ec socket making s = (Inr (), s1)" "sv_accepts s1 = 1"
      "sv_threads s1 = sv_threads s @ sockets_of [c]" "sv_err s1 = sv_err s" "sv_port s1 = sv_port s"
    using Cons.prems c by (cases ec) (auto simp: server_ops Let_def sockets_of_def)
  obtain s' where "io_run cs s1 = (Inr (), s')" "sv_accepts s' = 1" "sv_threads s' = sv_threads s1 @ sockets_of cs"
      "sv_err s' = sv_err s1" "sv_port s' = sv_port s1"
    using Cons.IH [OF s1(2)] Cons.prems(2) by auto
  then show ?case using s1 c by (auto simp: io_run_def sockets_of_def)
qed (simp add: io_run_def returnA_def sockets_of_def)

lemma io_run_failure:
  assumes "sv_accepts s = 1" and "\<forall>c \<in> set cs. thread_failure c = None" and "thread_failure c = Some e"
  shows "\<exists>s'. io_run (cs @ c # rest) s = (Inl (Throw e), s') \<and> sv_accepts s' = 0 \<and>
    sv_threads s' = sv_threads s @ sockets_of cs \<and> sv_err s' = sv_err s \<and> sv_port s' = sv_port s"
proof -
  obtain s1 where s1: "io_run cs s = (Inr (), s1)" "sv_accepts s1 = 1" "sv_threads s1 = sv_threads s @ sockets_of cs"
      "sv_err s1 = sv_err s" "sv_port s1 = sv_port s"
    using io_run_accepts [OF assms(1,2)] by blast
  obtain socket where c: "c = (None, socket, Some e)"
    using assms(3) by (cases "(c)" rule: thread_failure.cases) auto
  then show ?thesis using s1 by (simp add: io_run_def forA_append server_ops Let_def)
qed

text \<open>The state in which the event loop begins.\<close>

definition started :: server where
  "started = no_server\<lparr>sv_port := Some 8080, sv_open := True, sv_accepts := 1, sv_out := [''HTTP Server started on port 8080.'']\<rparr>"

lemma started_simps [simp]:
  "sv_accepts started = 1" "sv_threads started = []" "sv_err started = []" "sv_port started = Some 8080"
  "sv_sent started = []" "sv_closed started = []"
  by (simp_all add: started_def no_server_def)

lemma main_started:
  "main None cs no_server = catch_std (\<lambda>_. io_run cs started) (\<lambda>e s. (Inr (), s\<lparr>sv_err := sv_err s @ [''Exception: '' @ exn_what e]\<rparr>)) no_server"
  by (simp add: main_def catch_std_def new_HttpServer_def HttpServer_start_def server_ops bindA_def started_def no_server_def)

text \<open>
  C11. The process as a whole: if the acceptor cannot be opened, \<open>main\<close> reports it and ends; otherwise
  it gives the connections to threads in the order in which they are accepted, and errors of accept
  operations never end it: an operation is under way whatever the operations before it gave, so
  the event loop has work. Only one thing ends a server that has started, a thread that
  cannot be made: it is reported, no operation is under way any more, and \<open>main\<close> returns.
\<close>

theorem main_outcomes:
  assumes "\<forall>c \<in> set cs. thread_failure c = None" and "thread_failure c = Some e" and "is_std_exn e" and "is_std_exn e'"
  shows "main (Some e') cs no_server = (Inr (), no_server\<lparr>sv_err := [''Exception: '' @ exn_what e']\<rparr>) \<and>
    (\<exists>s. main None cs no_server = (Inr (), s) \<and> sv_port s = Some 8080 \<and> sv_accepts s = 1 \<and>
       sv_threads s = sockets_of cs \<and> sv_err s = []) \<and>
    (\<exists>s. main None (cs @ c # rest) no_server = (Inr (), s) \<and> sv_accepts s = 0 \<and>
       sv_threads s = sockets_of cs \<and> sv_err s = [''Exception: '' @ exn_what e])"
proof -
  have "main (Some e') cs no_server = (Inr (), no_server\<lparr>sv_err := [''Exception: '' @ exn_what e']\<rparr>)"
    using assms(4) by (simp add: main_def catch_std_def new_HttpServer_def server_ops bindA_def no_server_def)
  moreover have "\<exists>s. main None cs no_server = (Inr (), s) \<and> sv_port s = Some 8080 \<and> sv_accepts s = 1 \<and>
      sv_threads s = sockets_of cs \<and> sv_err s = []"
    using io_run_accepts [of started cs] assms(1) by (auto simp: main_started catch_std_def)
  moreover have "\<exists>s. main None (cs @ c # rest) no_server = (Inr (), s) \<and> sv_accepts s = 0 \<and>
      sv_threads s = sockets_of cs \<and> sv_err s = [''Exception: '' @ exn_what e]"
    using io_run_failure [of started cs c e rest] assms(1,2,3) by (auto simp: main_started catch_std_def)
  ultimately show ?thesis by blast
qed

theorem main_outcomes_witness:
  "\<exists>s. main None [(None, 4, None), (Some (Asio_error ''reset''), 0, None), (None, 5, Some (Std_exception ''busy''))] no_server = (Inr (), s) \<and>
     sv_threads s = [4] \<and> sv_err s = [''Exception: busy'']"
  using main_outcomes [of "[(None, 4, None), (Some (Asio_error ''reset''), 0, None)]"
      "(None, 5, Some (Std_exception ''busy''))" "Std_exception ''busy''" "Std_exception ''in use''" "[]"]
  by (auto simp: sockets_of_def)

section \<open>Serving\<close>

text \<open>
  The event loop and the threads of the connections together. What happens: a connection is given
  to a thread, or a thread has handled its connection, which could be read or not.
\<close>

datatype served = Accepted socket | Handled socket bool

inductive serves ::
  "(asio_error \<Rightarrow> string) \<Rightarrow> served list \<Rightarrow> socket list \<Rightarrow> server \<Rightarrow> bool"
  for what_of :: "asio_error \<Rightarrow> string" where
  begins: "main None [] no_server = (Inr (), s) \<Longrightarrow> serves what_of [] [] s"
| fails: "serves what_of es waiting s \<Longrightarrow> accept_handler (Some e) socket making s = (Inr (), s') \<Longrightarrow>
     serves what_of es waiting s'"
| accepts: "serves what_of es waiting s \<Longrightarrow> accept_handler None socket making s = (Inr (), s') \<Longrightarrow>
     serves what_of (es @ [Accepted socket]) (waiting @ [socket]) s'"
| handles: "serves what_of es (xs @ socket # ys) s \<Longrightarrow> \<forall>e. closing = Some e \<longrightarrow> is_std_exn e \<Longrightarrow>
     handle_request what_of error data closing socket s = (r, s') \<Longrightarrow>
     serves what_of (es @ [Handled socket (error = None \<or> error = Some Asio_eof)]) (xs @ ys) s'"
| stops: "serves what_of es waiting s \<Longrightarrow> HttpServer_stop closing s = (r, s') \<Longrightarrow> serves what_of es waiting s'"

definition accepted :: "served list \<Rightarrow> socket list" where
  "accepted es = concat (map (\<lambda>e. case e of Accepted x \<Rightarrow> [x] | Handled x b \<Rightarrow> []) es)"

definition handled :: "served list \<Rightarrow> socket list" where
  "handled es = concat (map (\<lambda>e. case e of Accepted x \<Rightarrow> [] | Handled x b \<Rightarrow> [x]) es)"

definition readable :: "served list \<Rightarrow> socket list" where
  "readable es = concat (map (\<lambda>e. case e of Accepted x \<Rightarrow> [] | Handled x b \<Rightarrow> if b then [x] else []) es)"

lemma served_lists [simp]:
  "accepted [] = []" "handled [] = []" "readable [] = []"
  "accepted (es @ [e]) = accepted es @ (case e of Accepted x \<Rightarrow> [x] | Handled x b \<Rightarrow> [])"
  "handled (es @ [e]) = handled es @ (case e of Accepted x \<Rightarrow> [] | Handled x b \<Rightarrow> [x])"
  "readable (es @ [e]) = readable es @ (case e of Accepted x \<Rightarrow> [] | Handled x b \<Rightarrow> if b then [x] else [])"
  by (simp_all add: accepted_def handled_def readable_def)

lemma handle_request_result:
  assumes "\<forall>e. closing = Some e \<longrightarrow> is_std_exn e"
  shows "\<exists>out. handle_request what_of error data closing socket s =
    (Inr (), if error \<noteq> None \<and> error \<noteq> Some Asio_eof
             then s\<lparr>sv_err := sv_err s @ [''Error handling request: '' @ what_of (the error)]\<rparr>
             else s\<lparr>sv_out := out, sv_sent := sv_sent s @ [(socket, response)],
                    sv_closed := sv_closed s @ (if closing = None then [socket] else []),
                    sv_err := sv_err s @ (case closing of None \<Rightarrow> [] | Some e \<Rightarrow> [''Error handling request: '' @ exn_what e])\<rparr>)"
  using assms by (cases closing) (auto simp: handle_request_def catch_std_def Let_def)

definition serving :: "served list \<Rightarrow> socket list \<Rightarrow> server \<Rightarrow> bool" where
  "serving es waiting s \<longleftrightarrow>
     sv_accepts s = 1 \<and> sv_threads s = accepted es \<and> mset (accepted es) = mset waiting + mset (handled es) \<and>
     sv_sent s = map (\<lambda>x. (x, response)) (readable es) \<and> mset (sv_closed s) \<subseteq># mset (readable es) \<and>
     length (sv_closed s) + length (sv_err s) = length (handled es)"

lemma serves_serving:
  assumes "serves what_of es waiting s"
  shows "serving es waiting s"
  using assms
proof (induction rule: serves.induct)
  case (begins s)
  then show ?case by (auto simp: serving_def main_started catch_std_def io_run_def)
next
  case (fails es waiting s e socket making s')
  then show ?case by (auto simp: serving_def server_ops Let_def)
next
  case (accepts es waiting s socket making s')
  then show ?case by (cases making) (auto simp: serving_def server_ops Let_def)
next
  case (handles es xs socket ys s closing error data r s')
  then show ?case
    using handle_request_result [OF handles(2), of what_of error data socket s]
    by (cases "error \<noteq> None \<and> error \<noteq> Some Asio_eof"; cases closing)
      (auto simp: serving_def simp del: append_Cons intro: subset_mset.order_trans)
next
  case (stops es waiting s closing r s')
  then show ?case by (cases closing) (auto simp: serving_def HttpServer_stop_def server_ops)
qed

text \<open>
  C10. In every interleaving of accepted connections, failed accept operations, handled connections and
  \<open>stop\<close>, exactly one accept operation is under way, also after \<open>stop\<close>; every connection is
  given to a thread once, in the order of acceptance, and is either waiting or handled; exactly the
  readable ones were sent the response, once each, and nothing else was sent; only these are
  closed; and every handled connection was either closed or gave one error message.
\<close>

theorem connections_served:
  assumes "serves what_of es waiting s"
  shows "sv_accepts s = 1 \<and> sv_threads s = accepted es \<and> mset (accepted es) = mset waiting + mset (handled es) \<and>
    sv_sent s = map (\<lambda>x. (x, response)) (readable es) \<and> mset (sv_closed s) \<subseteq># mset (readable es) \<and>
    length (sv_closed s) + length (sv_err s) = length (handled es)"
  using serves_serving [OF assms] by (simp add: serving_def)

theorem connections_served_witness:
  "\<exists>s. serves (\<lambda>e. []) [Accepted 4, Accepted 5, Handled 5 True] [4] s \<and> sv_sent s = [(5, response)] \<and> sv_accepts s = 1"
proof -
  obtain s0 where "main None [] no_server = (Inr (), s0)" by (simp add: main_started catch_std_def io_run_def)
  then have "serves (\<lambda>e. []) [] [] s0" by (rule serves.begins)
  moreover obtain s1 where "accept_handler None 4 None s0 = (Inr (), s1)" by (simp add: server_ops Let_def)
  ultimately have "serves (\<lambda>e. []) [Accepted 4] [4] s1" using serves.accepts by fastforce
  moreover obtain s2 where "accept_handler None 5 None s1 = (Inr (), s2)" by (simp add: server_ops Let_def)
  ultimately have two: "serves (\<lambda>e. []) [Accepted 4, Accepted 5] ([4] @ 5 # []) s2" using serves.accepts by fastforce
  obtain r s3 where "handle_request (\<lambda>e. []) None ''GET'' None 5 s2 = (r, s3)" by fastforce
  from serves.handles [OF two _ this] have "serves (\<lambda>e. []) [Accepted 4, Accepted 5, Handled 5 True] [4] s3" by simp
  then show ?thesis using connections_served [of "\<lambda>e. []" "[Accepted 4, Accepted 5, Handled 5 True]" "[4]" s3]
    by (auto simp: readable_def)
qed

end
