(* ===== verification/Spec2Isabelle.thy ===== *)
theory Spec2Isabelle
  imports Startup LogThreadsProps LoggerThreadsProps LogLevel LogPattern StdMap LockContracts LogFiles ConfigProps LogConfigProps VarThreads OldPattern OldLogProps FiberProps ThreadProps SchedulerTheorems SchedulerDrain Util Server
begin

text \<open>
  Verification of the simple HTTP server: its logging system, its configuration, its locks,
  threads, fibers and scheduler, and the server itself.

  \<^bold>\<open>The program.\<close> The library \<open>shs\<close> (\<open>src/src\<close>) has a logging system: loggers with levels,
  appenders to the console and to files, formatters whose pattern is parsed once; a registry of
  typed configuration variables with listeners, which are loaded from YAML documents; and a
  listener that turns the variable \<open>logs\<close> into loggers and appenders, so that the two use each
  other: the configuration reports through the root logger, and loading a document rebuilds the
  loggers. Below them are scoped locks over POSIX objects and a spin lock of its own; threads that
  take their name and callback when they start; fibers, which switch contexts; and a
  scheduler whose threads take fibers and callbacks from one queue. The HTTP server accepts
  connections and answers each in a thread of its own; it uses asio and none of the rest.

  \<^bold>\<open>Theories and sources\<close> (files under \<open>src/src\<close>):
  \<^item> \<open>Prelude\<close>: machine integers (\<open>w word\<close>), outcomes (\<open>Inl\<close> an exception, a failed assertion, a
    null or doubly freed pointer, or no return), calls with a state, \<open>std::string\<close> operations.
    \<open>StdMap\<close>: \<open>std::map\<close> and \<open>std::set\<close> as sorted lists.
  \<^item> \<open>LogLevel\<close>, \<open>LogFormatter\<close> (\<open>_log/LogLevel.h\<close>, \<open>LogEvent.h\<close>, \<open>LogFormatter.h\<close> and the parser
    \<open>LogFormatter::init\<close> of \<open>log.cpp\<close>, character by character). \<open>LogPattern\<close>: a grammar of patterns
    with a renderer; the parser inverts it and the behaviour on broken patterns.
  \<^item> \<open>LogSystem\<close> (\<open>_log/Logger.h\<close>, \<open>LogAppender.h\<close>, \<open>LoggerManager.h\<close>, \<open>macro.h\<close>, \<open>log.cpp\<close>): loggers and
    appenders live in stores because they are shared through pointers; a file appender has the
    state of its \<open>std::ofstream\<close>. \<open>LogInvariants\<close>: the state is well formed after every call.
    \<open>LogBehaviour\<close>, \<open>LogProps\<close>, \<open>LogFiles\<close>: what logging does and what becomes of failed files.
    \<open>LogThreads\<close>, \<open>LogThreadsProps\<close>: appenders among several threads, \<open>log\<close> cut at its lock and at each
    output, and which lines stay whole. \<open>LoggerThreads\<close>, \<open>LoggerThreadsProps\<close>: loggers among
    several threads, \<open>Logger::log\<close> cut at its tests without the lock, at its lock and between two
    appenders, and the members that change a logger.
  \<^item> \<open>OldLog\<close>, \<open>OldPattern\<close>, \<open>OldLogProps\<close> (\<open>src/backup/log.h\<close>, \<open>log.cpp\<close>): the earlier copy of the logging
    system, which is not built; how its parser and its appenders differ from those of today.
  \<^item> \<open>Locks\<close> (\<open>mutex/mutex.h\<close>, \<open>mutex.cpp\<close>), \<open>LockContracts\<close>: the three kinds of guards over any lock that
    keeps its contract, and each class as such a lock; \<open>CASLock\<close> among threads.
  \<^item> \<open>Yaml\<close> (the conversions \<open>Lexical_cast\<close> of \<open>config/config.h\<close>), \<open>Config\<close> (\<open>config/config.h\<close>,
    \<open>config.cpp\<close>); \<open>ConfigInvariants\<close>, \<open>ConfigBehaviour\<close>, \<open>ConfigProps\<close>: invariant, effects, and what
    \<open>Lookup\<close>, \<open>fromString\<close> and \<open>LoadFromYaml\<close> leave behind. \<open>Registry\<close>: the contract that
    \<open>getLogger\<close> and \<open>Lookup\<close> share.
  \<^item> \<open>VarThreads\<close>: one configuration variable among several threads, \<open>setValue\<close> cut at its two locks and
    the other members as they take the lock, over any lock that keeps the contract of \<open>LockContracts\<close>.
  \<^item> \<open>LogConfig\<close>, \<open>LogConfigProps\<close> (the second half of \<open>_log/log.cpp\<close>): definitions of loggers, their
    conversions, the listener and the static initialisers, and where both systems meet.
  \<^item> \<open>Startup\<close> (\<open>util/singleton.h\<close>, \<open>LoggerMgr\<close>, \<open>SHS_LOG_ROOT\<close>, \<open>SHS_LOG_NAME\<close>): the one manager, and the static
    variables of all files, initialised in any order.
  \<^item> \<open>Fiber\<close>, \<open>FiberProps\<close> (\<open>fiber/fiber.h\<close>, \<open>fiber.cpp\<close>): a switch saves the place where the running
    side goes on (a label of type \<open>'k\<close>) and gives the context that runs next.
  \<^item> \<open>Thread\<close>, \<open>ThreadProps\<close> (\<open>thread/thread.cpp\<close>, \<open>thread_posix/thread_posix.cpp\<close>): both classes, the
    first on both platforms, with the calls to the operating system recorded.
  \<^item> \<open>Scheduler\<close> (\<open>scheduler/scheduler.h\<close>, \<open>scheduler.cpp\<close>): every operation; \<open>run\<close> is cut at its lock
    and at its switches into \<open>run_start\<close>, \<open>run_pick\<close>, \<open>run_dispatch\<close>, and, after a switch, \<open>leave_task\<close> with
    \<open>settle_fiber\<close> or \<open>settle_cb\<close> (together \<open>after_fiber\<close>, \<open>after_cb\<close>), or \<open>after_idle\<close>. \<open>SchedulerProps\<close>:
    each piece and sequences of them on one thread. \<open>SchedulerSteps\<close>: all threads together as a step
    relation, the thread of a caller included; \<open>SchedulerInv\<close>, \<open>SchedulerSafe\<close>: its invariant and
    that each step keeps it; \<open>SchedulerTheorems\<close>: what follows for every interleaving; \<open>SchedulerAlone\<close>:
    one thread left alone, and what it comes to on all its ways; \<open>SchedulerDrain\<close>: so a scheduler from its
    constructor through \<open>stop\<close> to the end of the loop on its caller's thread.
  \<^item> \<open>Util\<close> (\<open>util/util.cpp\<close>, \<open>macro.h\<close>): call stacks and assertions. \<open>Server\<close> (\<open>server.h\<close>, \<open>server.cpp\<close>,
    \<open>main.cpp\<close>): accepting, handling, and the event loop.

  \<^bold>\<open>What the lemmas show.\<close> Invariants of the state and their preservation by each operation
  (\<open>logsys_ok\<close>, \<open>config_ok\<close>, \<open>fibers_ok\<close>, \<open>sched_inv\<close>); the refinement of \<open>Logger::log\<close> to the list of
  receivers; round trips of the pattern parser and of the conversions; totality of logging,
  lookups and loading; the effect of every operation on errors; mutual exclusion of locks;
  loggers that behave as atomic objects among threads; switches of fibers that come back to the right place; conservation of tasks, exact counters and the
  orderly end of the scheduler; and the connections of the server. Mistakes that the proofs brought to light
  are theorems about the code as it is.

  \<^bold>\<open>Parameters.\<close> What is not part of the repository is an argument: yaml-cpp (the record \<open>yaml\<close>, with
  laws of it as hypotheses where a theorem needs them), the POSIX locks (records, with documented laws as
  locales and an instance of each), the C clock, the disk behind \<open>std::ofstream\<close>, \<open>vsnprintf\<close>,
  \<open>getcontext\<close> and \<open>swapcontext\<close> (result codes), thread creation, \<open>backtrace\<close>, and asio (results of
  its calls). Hypotheses on them stand in the theorems and hold for the instances of the witnesses.

  \<^bold>\<open>Bounds.\<close> The parser recurses on the rest of the pattern and needs no bound. \<open>ListAllMember\<close> follows a
  document that may be a cyclic graph; it takes a depth, runs out of it exactly where the code
  does not return, and the theorems hold for every document whose depth is bounded by it.
  \<open>Logger::log\<close> follows root pointers and is a partial function; in reachable states it returns.
  Counters and ids are words and wrap; the scheduler theorems say where fewer than \<open>2 ^ 64\<close>
  threads are assumed.

  \<^bold>\<open>Concurrency.\<close> The manager and the registry are modelled call by call; \<open>CASLock\<close>, loggers,
  appenders, a configuration variable, the scheduler and the server's connections are modelled with all their
  interleavings. The search for a task under the lock, an operation on a counter, and a switch to
  another fiber (with the look at its state), and \<open>stop\<close> up to its switch, are each one step of the scheduler; its interleavings have sequentially consistent
  memory; the counters there are atomic, as in the code. With \<open>use_caller\<close> the thread that made the
  scheduler is one of them: it stops the scheduler, which runs the loop in its root fiber. A step of the event loop and the handling of a connection are single steps
  of the server.

  \<^bold>\<open>Not modelled.\<close> The buffer of a \<open>std::ofstream\<close>: a write reaches the file at once and whole, or not at all. When a shared pointer releases the last reference to a fiber, logger or appender
  (stores only grow, apart from the destructors that are modelled); \<open>NonCopyable\<close>, which only removes
  the copies of a class; \<open>hook.h\<close>, which is missing; the test programs.
\<close>

end
